(* ===== verification/Prelude.thy ===== *)
theory Prelude
  imports Main "HOL-Library.Word" "HOL-Library.Finite_Map" "HOL-Library.Char_ord"
    "HOL-Library.List_Lexorder"
begin

text \<open>
  Shared vocabulary of the development.

  \<^item> Machine integers: \<open>u8\<close>, \<open>u16\<close>, \<open>u32\<close>, \<open>u64\<close> are words; \<open>size_t\<close> is the 64-bit
    word (LP64). \<open>int64_t\<close> is the same 64 bits, read with \<open>sint\<close>.
  \<^item> \<open>std::string\<close>, \<open>std::vector<char>\<close> and \<open>std::vector<unsigned char>\<close> are \<open>string\<close>
    (a list of 8-bit characters); \<open>size_of\<close> is their \<open>size()\<close>.
  \<^item> A function that may throw returns \<open>error + 'a\<close>. \<open>Exception\<close> is the exception that a
    failed \<open>CHECK\<close> (or \<open>throwErr\<close>) raises, \<open>UserException\<close> that of \<open>CHECK_USER\<close>,
    \<open>StdException\<close> one of the standard library; \<open>Undefined\<close> marks an execution whose
    behaviour the C++ standard leaves undefined (an access outside a buffer).
  \<^item> A function with an in/out position (\<open>size_t &from\<close>) over a buffer is a \<open>'a parser\<close>.
\<close>

type_synonym u8 = "8 word"
type_synonym u16 = "16 word"
type_synonym u32 = "32 word"
type_synonym u64 = "64 word"
type_synonym size_t = "64 word"

datatype error =
    Exception string
  | UserException string
  | StdException string
  | Undefined

type_synonym 'a res = "error + 'a"
type_synonym 'a parser = "string \<Rightarrow> size_t \<Rightarrow> ('a \<times> size_t) res"

abbreviation Err :: "error \<Rightarrow> 'a res" where
  "Err \<equiv> Inl"

abbreviation Ok :: "'a \<Rightarrow> 'a res" where
  "Ok \<equiv> Inr"

definition rbind :: "'a res \<Rightarrow> ('a \<Rightarrow> 'b res) \<Rightarrow> 'b res" where
  "rbind m f = (case m of Inl e \<Rightarrow> Inl e | Inr x \<Rightarrow> f x)"

definition CHECK :: "bool \<Rightarrow> string \<Rightarrow> unit res" where
  "CHECK b msg = (if b then Ok () else Err (Exception msg))"

definition CHECK_USER :: "bool \<Rightarrow> string \<Rightarrow> unit res" where
  "CHECK_USER b msg = (if b then Ok () else Err (UserException msg))"

definition pret :: "'a \<Rightarrow> 'a parser" where
  "pret x = (\<lambda>raw from. Ok (x, from))"

definition pbind :: "'a parser \<Rightarrow> ('a \<Rightarrow> 'b parser) \<Rightarrow> 'b parser" where
  "pbind p f = (\<lambda>raw from. rbind (p raw from) (\<lambda>(x, from'). f x raw from'))"

definition pcheck :: "bool \<Rightarrow> string \<Rightarrow> unit parser" where
  "pcheck b msg = (\<lambda>raw from. rbind (CHECK b msg) (\<lambda>_. Ok ((), from)))"

definition size_of :: "'a list \<Rightarrow> size_t" where
  "size_of xs = of_nat (length xs)"

definition byte_of :: "char \<Rightarrow> u8" where
  "byte_of c = of_nat (of_char c)"

definition char_of_byte :: "u8 \<Rightarrow> char" where
  "char_of_byte b = char_of (unat b)"

text \<open>\<open>std::string::substr\<close>: throws \<open>std::out_of_range\<close> when the position is past the end, and
  takes what is there otherwise.\<close>

definition substr :: "string \<Rightarrow> size_t \<Rightarrow> size_t \<Rightarrow> string res" where
  "substr s pos n =
     (if size_of s < pos then Err (StdException ''out_of_range'')
      else Ok (take (unat n) (drop (unat pos) s)))"

text \<open>\<open>std::to_string\<close> on an unsigned integer.\<close>

fun to_string_nat :: "nat \<Rightarrow> string" where
  "to_string_nat n =
     (if n < 10 then [char_of (48 + n)]
      else to_string_nat (n div 10) @ [char_of (48 + n mod 10)])"

declare to_string_nat.simps [simp del]

definition to_string_u64 :: "u64 \<Rightarrow> string" where
  "to_string_u64 w = to_string_nat (unat w)"

text \<open>Integers as bytes in memory, least significant first.\<close>

primrec le_bytes :: "nat \<Rightarrow> nat \<Rightarrow> string" where
  "le_bytes 0 v = []"
| "le_bytes (Suc n) v = char_of (v mod 256) # le_bytes n (v div 256)"

definition le_value :: "string \<Rightarrow> nat" where
  "le_value bs = foldr (\<lambda>c v. of_char c + 256 * v) bs 0"

section \<open>Errors as values\<close>

lemma rbind_simps [simp]:
  "rbind (Inl e) f = Inl e"
  "rbind (Inr x) f = f x"
  by (simp_all add: rbind_def)

lemma rbind_rbind: "rbind (rbind m f) g = rbind m (\<lambda>x. rbind (f x) g)"
  by (cases m) auto

lemma rbind_Ok_iff: "rbind m f = Inr y \<longleftrightarrow> (\<exists>x. m = Inr x \<and> f x = Inr y)"
  by (cases m) auto

lemma rbind_Err_iff:
  "rbind m f = Inl e \<longleftrightarrow> m = Inl e \<or> (\<exists>x. m = Inr x \<and> f x = Inl e)"
  by (cases m) auto

lemma CHECK_simps [simp]:
  "CHECK True msg = Inr ()"
  "CHECK False msg = Inl (Exception msg)"
  by (simp_all add: CHECK_def)

lemma CHECK_Ok_iff [simp]: "CHECK b msg = Inr u \<longleftrightarrow> b"
  by (simp add: CHECK_def)

lemma CHECK_USER_simps [simp]:
  "CHECK_USER True msg = Inr ()"
  "CHECK_USER False msg = Inl (UserException msg)"
  by (simp_all add: CHECK_USER_def)

lemma CHECK_USER_Ok_iff [simp]: "CHECK_USER b msg = Inr u \<longleftrightarrow> b"
  by (simp add: CHECK_USER_def)

section \<open>Sizes and positions\<close>

lemma unat_of_nat_small [simp]:
  "n < 2 ^ LENGTH('a) \<Longrightarrow> unat (of_nat n :: 'a::len word) = n"
  by (simp add: unat_of_nat)

lemma unat_of_nat_u64: "n < 2 ^ 64 \<Longrightarrow> unat (of_nat n :: u64) = n"
  by (simp add: unat_of_nat)

lemma of_nat_u64_less: "n < 2 ^ 64 \<Longrightarrow> (of_nat n :: u64) < w \<longleftrightarrow> n < unat w"
  by (simp add: word_less_nat_alt unat_of_nat_u64)

lemma of_nat_u64_less_iff:
  "m < 2 ^ 64 \<Longrightarrow> n < 2 ^ 64 \<Longrightarrow> (of_nat m :: u64) < of_nat n \<longleftrightarrow> m < n"
  by (simp add: word_less_nat_alt unat_of_nat_u64)

lemma of_nat_u64_inj:
  "m < 2 ^ 64 \<Longrightarrow> n < 2 ^ 64 \<Longrightarrow> (of_nat m :: u64) = of_nat n \<longleftrightarrow> m = n"
  by (metis unat_of_nat_u64)

lemma unat_u64_less: "unat (w :: u64) < 2 ^ 64"
  using unsigned_less [of w, where ?'a = nat] by simp

lemma unat_add_of_nat: "unat a + n < 2 ^ 64 \<Longrightarrow> unat (a + of_nat n) = unat a + n" for a :: u64
  by (simp add: unat_word_ariths(1) unat_of_nat_u64)

lemma size_of_Nil [simp]: "size_of [] = 0"
  by (simp add: size_of_def)

lemma unat_size_of [simp]: "length s < 2 ^ 64 \<Longrightarrow> unat (size_of s) = length s"
  by (simp add: size_of_def unat_of_nat_u64)

lemma size_of_nonzero: "bs \<noteq> [] \<Longrightarrow> length bs < 2 ^ 64 \<Longrightarrow> size_of bs \<noteq> 0"
  by (metis length_0_conv unat_0 unat_size_of)

lemma of_char_less_256 [simp]: "(of_char c :: nat) < 256"
proof -
  have "of_char (char_of (of_char c :: nat)) = (of_char c :: nat) mod 256"
    by (rule of_char_of)
  then show ?thesis by simp
qed

lemma unat_byte_of [simp]: "unat (byte_of c) = of_char c"
  by (simp add: byte_of_def)

lemma byte_of_char_of_byte [simp]: "byte_of (char_of_byte b) = b"
proof -
  have "unat (byte_of (char_of_byte b)) = unat b mod 256"
    by (simp add: char_of_byte_def)
  also have "\<dots> = unat b"
    using unsigned_less [of b, where ?'a = nat] by simp
  finally show ?thesis by (simp add: byte_of_def)
qed

lemma char_of_byte_byte_of [simp]: "char_of_byte (byte_of c) = c"
  by (simp add: char_of_byte_def)

lemma substr_append:
  assumes "length (pre @ s @ post) < 2 ^ 64"
  shows "substr (pre @ s @ post) (of_nat (length pre)) (size_of s) = Inr s"
proof -
  have "\<not> size_of (pre @ s @ post) < of_nat (length pre)"
    using assms by (simp add: size_of_def of_nat_u64_less_iff del: of_nat_add)
  then show ?thesis
    using assms by (simp add: substr_def unat_of_nat_u64)
qed

section \<open>Little-endian integers\<close>

lemma length_le_bytes [simp]: "length (le_bytes n v) = n"
  by (induction n arbitrary: v) auto

lemma le_value_le_bytes: "le_value (le_bytes n v) = v mod 256 ^ n"
proof (induction n arbitrary: v)
  case (Suc n)
  have "v mod (256 * 256 ^ n) = 256 * (v div 256 mod 256 ^ n) + v mod 256"
    by (simp add: mod_mult2_eq)
  with Suc show ?case by (simp add: le_value_def)
qed (simp add: le_value_def)

section \<open>Parsers over a buffer\<close>

text \<open>
  \<open>encodes p e x\<close>: wherever the bytes \<open>e\<close> stand in a buffer, the parser \<open>p\<close> started at their
  first position returns \<open>x\<close> and stops right behind them. The relation is closed under
  sequencing, so the round trip of a struct is the chain of the round trips of its fields.
\<close>

definition encodes :: "'a parser \<Rightarrow> string \<Rightarrow> 'a \<Rightarrow> bool" where
  "encodes p e x \<longleftrightarrow>
     (\<forall>pre post. length (pre @ e @ post) < 2 ^ 64 \<longrightarrow>
        p (pre @ e @ post) (of_nat (length pre)) = Ok (x, of_nat (length (pre @ e))))"

named_theorems codec_intros \<open>introduction rules for encodes\<close>

lemma encodesI:
  assumes "\<And>pre post. length (pre @ e @ post) < 2 ^ 64 \<Longrightarrow>
    p (pre @ e @ post) (of_nat (length pre)) = Ok (x, of_nat (length (pre @ e)))"
  shows "encodes p e x"
  using assms by (simp add: encodes_def)

lemma encodesD:
  "encodes p e x \<Longrightarrow> length (pre @ e @ post) < 2 ^ 64 \<Longrightarrow>
   p (pre @ e @ post) (of_nat (length pre)) = Ok (x, of_nat (length (pre @ e)))"
  by (simp add: encodes_def)

lemma encodes_at_0:
  assumes "encodes p e x" and "length (e @ post) < 2 ^ 64"
  shows "p (e @ post) 0 = Ok (x, size_of e)"
  using encodesD [OF assms(1), of "[]" post] assms(2) by (simp add: size_of_def)

lemma encodes_whole:
  assumes "encodes p e x" and "length e < 2 ^ 64"
  shows "p e 0 = Ok (x, size_of e)"
  using encodes_at_0 [OF assms(1), of "[]"] assms(2) by simp

lemma encodes_if_small: "(length e < 2 ^ 64 \<Longrightarrow> encodes p e x) \<Longrightarrow> encodes p e x"
  by (cases "length e < 2 ^ 64") (auto simp: encodes_def)

lemma encodes_pret [codec_intros]: "encodes (pret x) [] x"
  by (simp add: encodes_def pret_def)

lemma encodes_pbind:
  assumes p: "encodes p e x" and f: "encodes (f x) e' y"
  shows "encodes (pbind p f) (e @ e') y"
proof (rule encodesI)
  fix pre post :: string
  assume len: "length (pre @ (e @ e') @ post) < 2 ^ 64"
  have "p (pre @ e @ (e' @ post)) (of_nat (length pre)) = Ok (x, of_nat (length (pre @ e)))"
    using len by (intro encodesD [OF p]) simp
  moreover have "f x ((pre @ e) @ e' @ post) (of_nat (length (pre @ e))) =
      Ok (y, of_nat (length ((pre @ e) @ e')))"
    using len by (intro encodesD [OF f]) simp
  ultimately show "pbind p f (pre @ (e @ e') @ post) (of_nat (length pre)) =
      Ok (y, of_nat (length (pre @ e @ e')))"
    by (simp add: pbind_def)
qed

lemma encodes_pbind_pret:
  assumes "encodes p e x" and "y = g x"
  shows "encodes (pbind p (\<lambda>x. pret (g x))) e y"
  using encodes_pbind [OF assms(1), of "\<lambda>x. pret (g x)" "[]" y] assms(2)
  by (simp add: encodes_pret)

lemma encodes_pcheck:
  "b \<Longrightarrow> encodes f e y \<Longrightarrow> encodes (pbind (pcheck b msg) (\<lambda>_. f)) e y"
  by (simp add: encodes_def pbind_def pcheck_def)

lemma pbind_pret [simp]: "pbind (pret x) f = f x"
  by (simp add: pbind_def pret_def)

text \<open>
  The interface of a codec: an encoder, a decoder that reads at a position, and the set of
  values the encoder accepts. Clients get the decoding of a sequence of values from the single
  law.
\<close>

fun pmany :: "'a parser \<Rightarrow> nat \<Rightarrow> 'a list parser" where
  "pmany p 0 = pret []"
| "pmany p (Suc n) = pbind p (\<lambda>x. pbind (pmany p n) (\<lambda>xs. pret (x # xs)))"

locale codec =
  fixes enc :: "'a \<Rightarrow> string" and dec :: "'a parser" and valid :: "'a \<Rightarrow> bool"
  assumes dec_enc: "valid x \<Longrightarrow> encodes dec (enc x) x"
begin

lemma read_one:
  "valid x \<Longrightarrow> length (enc x) < 2 ^ 64 \<Longrightarrow> dec (enc x) 0 = Ok (x, size_of (enc x))"
  by (rule encodes_whole [OF dec_enc])

lemma read_many:
  "list_all valid xs \<Longrightarrow> encodes (pmany dec (length xs)) (concat (map enc xs)) xs"
proof (induction xs)
  case Nil
  show ?case by (simp add: encodes_pret)
next
  case (Cons x xs)
  then have "encodes (pmany dec (length xs)) (concat (map enc xs)) xs" by simp
  then have "encodes (pbind (pmany dec (length xs)) (\<lambda>ys. pret (x # ys)))
      (concat (map enc xs)) (x # xs)"
    by (rule encodes_pbind_pret) simp
  moreover from Cons.prems have "encodes dec (enc x) x" by (simp add: dec_enc)
  ultimately show ?case by (simp add: encodes_pbind)
qed

lemma enc_inj:
  assumes "valid x" "valid y" "length (enc x) < 2 ^ 64" "enc x = enc y"
  shows "x = y"
  using read_one [OF assms(1)] read_one [OF assms(2)] assms(3,4) by simp

end

end
