(* ===== verification/Serialize.thy ===== *)
theory Serialize
  imports Prelude
begin

text \<open>
  \<^verbatim>\<open>src/src/utils/serialize.h\<close>: the big-endian integer and length-prefixed string encoding every
  stored or transmitted structure is built from. Both output forms of the source are modelled,
  the one that returns a \<open>std::string\<close> and the one that appends to a \<open>std::vector<char>\<close>, and
  both input forms, the one with a separate end position and the one with an in/out position.
  The template parameter \<open>T\<close> is the word type; \<open>sizeof(T)\<close> is its length in bytes.
\<close>

definition size_of_type :: "'a::len itself \<Rightarrow> nat" where
  "size_of_type _ = LENGTH('a) div 8"

text \<open>The loop of \<open>toBinaryStringBigEndian\<close>; the first argument is the C++ index plus one.
  Arithmetic on \<open>val\<close> is on natural numbers: a narrow operand is promoted to \<open>int\<close>, and \<open>%\<close> and
  \<open>/\<close> never overflow.\<close>

primrec toBinaryLoop :: "nat \<Rightarrow> nat \<Rightarrow> string \<Rightarrow> string" where
  "toBinaryLoop 0 val result = result"
| "toBinaryLoop (Suc i) val result =
     (if val \<noteq> 0 then toBinaryLoop i (val div 256) (result[i := char_of (val mod 256)])
      else result)"

definition toBinaryStringBigEndian :: "'a::len word \<Rightarrow> string" where
  "toBinaryStringBigEndian val =
     (let n = size_of_type TYPE('a) in toBinaryLoop n (unat val) (replicate n (CHR 0x00)))"

primrec toBinaryLoop_buf :: "nat \<Rightarrow> nat \<Rightarrow> nat \<Rightarrow> string \<Rightarrow> string" where
  "toBinaryLoop_buf oldSize 0 val buffer = buffer"
| "toBinaryLoop_buf oldSize (Suc i) val buffer =
     (if val \<noteq> 0 then
        toBinaryLoop_buf oldSize i (val div 256) (buffer[oldSize + i := char_of (val mod 256)])
      else buffer)"

definition toBinaryStringBigEndian_buf :: "'a::len word \<Rightarrow> string \<Rightarrow> string" where
  "toBinaryStringBigEndian_buf val buffer =
     (let n = size_of_type TYPE('a); oldSize = length buffer
      in toBinaryLoop_buf oldSize n (unat val) (buffer @ replicate n (CHR 0x00)))"

text \<open>The bounds test is done in \<open>size_t\<close> arithmetic and wraps for a position near the top of
  the range; the read behind the buffer that then follows is \<open>Undefined\<close>.\<close>

definition fromBinaryStringBigEndian :: "string \<Rightarrow> size_t \<Rightarrow> ('a::len word \<times> size_t) res" where
  "fromBinaryStringBigEndian raw fromPos =
     (let sizeField = size_of_type TYPE('a)
      in if size_of raw < of_nat sizeField + fromPos then Ok (0, fromPos)
         else if length raw < unat fromPos + sizeField then Err Undefined
         else Ok (foldl (\<lambda>val i. val * 256 + of_nat (of_char (raw ! (i + unat fromPos)))) 0
                    [0..<sizeField],
                  fromPos + of_nat sizeField))"

definition serializeIntBigEndian :: "'a::len word \<Rightarrow> string" where
  "serializeIntBigEndian intValue = toBinaryStringBigEndian intValue"

definition serializeIntBigEndian_buf :: "'a::len word \<Rightarrow> string \<Rightarrow> string" where
  "serializeIntBigEndian_buf intValue buffer = toBinaryStringBigEndian_buf intValue buffer"

definition serializeStringBigEndian :: "string \<Rightarrow> string" where
  "serializeStringBigEndian str = serializeIntBigEndian (size_of str) @ str"

definition serializeStringBigEndian_buf :: "string \<Rightarrow> string \<Rightarrow> string" where
  "serializeStringBigEndian_buf str buffer = serializeIntBigEndian_buf (size_of str) buffer @ str"

definition deserializeIntBigEndian3 :: "string \<Rightarrow> size_t \<Rightarrow> ('a::len word \<times> size_t) res" where
  "deserializeIntBigEndian3 raw fromPos = fromBinaryStringBigEndian raw fromPos"

definition deserializeIntBigEndian :: "'a::len word parser" where
  "deserializeIntBigEndian raw fromPos =
     rbind (deserializeIntBigEndian3 raw fromPos) (\<lambda>(val, endPos).
     rbind (CHECK (endPos \<noteq> fromPos) ''Incorrect raw'') (\<lambda>_.
     Ok (val, endPos)))"

definition deserializeStringBigEndian3 :: "string \<Rightarrow> size_t \<Rightarrow> (string \<times> size_t) res" where
  "deserializeStringBigEndian3 raw fromPos =
     rbind (deserializeIntBigEndian3 raw fromPos) (\<lambda>(sizeString :: size_t, endPos).
     if fromPos = endPos then Ok ([], endPos)
     else rbind (substr raw endPos sizeString) (\<lambda>str.
       Ok (str, endPos + sizeString)))"

definition deserializeStringBigEndian :: "string parser" where
  "deserializeStringBigEndian raw fromPos =
     rbind (deserializeStringBigEndian3 raw fromPos) (\<lambda>(str, endPos).
     rbind (CHECK (endPos \<noteq> fromPos) ''Incorrect raw'') (\<lambda>_.
     Ok (str, endPos)))"

definition serializeInt :: "'a::len word \<Rightarrow> string" where
  "serializeInt intValue = serializeIntBigEndian intValue"

definition serializeInt_buf :: "'a::len word \<Rightarrow> string \<Rightarrow> string" where
  "serializeInt_buf intValue buffer = serializeIntBigEndian_buf intValue buffer"

definition serializeString :: "string \<Rightarrow> string" where
  "serializeString str = serializeStringBigEndian str"

definition serializeString_buf :: "string \<Rightarrow> string \<Rightarrow> string" where
  "serializeString_buf str buffer = serializeStringBigEndian_buf str buffer"

definition deserializeInt3 :: "string \<Rightarrow> size_t \<Rightarrow> ('a::len word \<times> size_t) res" where
  "deserializeInt3 raw fromPos = deserializeIntBigEndian3 raw fromPos"

definition deserializeInt :: "'a::len word parser" where
  "deserializeInt raw fromPos = deserializeIntBigEndian raw fromPos"

definition deserializeString3 :: "string \<Rightarrow> size_t \<Rightarrow> (string \<times> size_t) res" where
  "deserializeString3 raw fromPos = deserializeStringBigEndian3 raw fromPos"

definition deserializeString :: "string parser" where
  "deserializeString raw fromPos = deserializeStringBigEndian raw fromPos"

lemmas serialize_alias =
  serializeInt_def serializeInt_buf_def serializeString_def serializeString_buf_def
  deserializeInt3_def deserializeInt_def deserializeString3_def deserializeString_def
  serializeIntBigEndian_def serializeIntBigEndian_buf_def deserializeIntBigEndian3_def

section \<open>The encoder against a reference\<close>

text \<open>The reference: the \<open>n\<close> base-256 digits of a number, most significant first.\<close>

primrec be_bytes :: "nat \<Rightarrow> nat \<Rightarrow> string" where
  "be_bytes 0 v = []"
| "be_bytes (Suc n) v = be_bytes n (v div 256) @ [char_of (v mod 256)]"

lemma length_be_bytes [simp]: "length (be_bytes n v) = n"
  by (induction n arbitrary: v) auto

lemma be_bytes_0: "be_bytes n 0 = replicate n (CHR 0x00)"
proof (induction n)
  case (Suc n)
  have "char_of (0 :: nat) = CHR 0x00" by (simp add: char_of_def)
  with Suc show ?case by (simp add: replicate_append_same)
qed simp

lemma toBinaryLoop_be_bytes:
  "toBinaryLoop n v (replicate n (CHR 0x00) @ rest) = be_bytes n v @ rest"
proof (induction n arbitrary: v rest)
  case (Suc n)
  show ?case
  proof (cases "v = 0")
    case True
    then show ?thesis
      by (simp add: be_bytes_0 del: be_bytes.simps)
  next
    case False
    have "(replicate (Suc n) (CHR 0x00) @ rest)[n := char_of (v mod 256)]
        = replicate n (CHR 0x00) @ char_of (v mod 256) # rest"
      using replicate_append_same [of n "CHR 0x00"]
      by (metis append_assoc append_Cons append_Nil length_replicate list_update_length
          replicate_Suc)
    with False show ?thesis by (simp add: Suc del: replicate_Suc)
  qed
qed simp

lemma toBinaryStringBigEndian_eq:
  "toBinaryStringBigEndian (val :: 'a::len word) = be_bytes (size_of_type TYPE('a)) (unat val)"
  using toBinaryLoop_be_bytes [of "size_of_type TYPE('a)" "unat val" "[]"]
  by (simp add: toBinaryStringBigEndian_def Let_def)

lemma toBinaryLoop_buf_eq:
  "toBinaryLoop_buf (length pre) n v (pre @ rest) = pre @ toBinaryLoop n v rest"
  by (induction n arbitrary: v rest) (auto simp: list_update_append)

lemma toBinaryStringBigEndian_buf_eq:
  "toBinaryStringBigEndian_buf val buffer = buffer @ toBinaryStringBigEndian val"
  by (simp add: toBinaryStringBigEndian_buf_def toBinaryStringBigEndian_def Let_def
      toBinaryLoop_buf_eq)

lemma serializeInt_buf_eq [simp]: "serializeInt_buf w buffer = buffer @ serializeInt w"
  by (simp add: serialize_alias toBinaryStringBigEndian_buf_eq)

lemma serializeString_buf_eq [simp]: "serializeString_buf s buffer = buffer @ serializeString s"
  by (simp add: serialize_alias serializeStringBigEndian_buf_def serializeStringBigEndian_def
      toBinaryStringBigEndian_buf_eq)

lemma length_serializeInt [simp]:
  "length (serializeInt (w :: 'a::len word)) = size_of_type TYPE('a)"
  by (simp add: serialize_alias toBinaryStringBigEndian_eq)

lemma size_of_type_simps [simp]:
  "size_of_type TYPE(8) = 1"
  "size_of_type TYPE(16) = 2"
  "size_of_type TYPE(32) = 4"
  "size_of_type TYPE(64) = 8"
  by (simp_all add: size_of_type_def)

lemma length_serializeString [simp]: "length (serializeString s) = 8 + length s"
  by (simp add: serializeString_def serializeStringBigEndian_def
      length_serializeInt [unfolded serializeInt_def])

section \<open>Decoding what was encoded\<close>

text \<open>The value of a digit string, over any word length.\<close>

definition be_value :: "string \<Rightarrow> 'a::len word" where
  "be_value cs = foldl (\<lambda>val c. val * 256 + of_nat (of_char c)) 0 cs"

lemma be_value_snoc: "be_value (cs @ [c]) = be_value cs * 256 + of_nat (of_char c)"
  by (simp add: be_value_def)

lemma be_value_be_bytes: "be_value (be_bytes n v) = (of_nat (v mod 256 ^ n) :: 'a::len word)"
proof (induction n arbitrary: v)
  case 0
  then show ?case by (simp add: be_value_def)
next
  case (Suc n)
  have "v mod 256 ^ Suc n = v div 256 mod 256 ^ n * 256 + v mod 256"
    by (simp add: mod_mult2_eq mult.commute add.commute)
  then have "(of_nat (v mod 256 ^ Suc n) :: 'a word) =
      of_nat (v div 256 mod 256 ^ n) * 256 + of_nat (v mod 256)"
    by (simp only: of_nat_add of_nat_mult of_nat_numeral)
  with Suc show ?case by (simp add: be_value_snoc)
qed

lemma foldl_nth_upt:
  assumes "p + n \<le> length xs"
  shows "foldl (\<lambda>a i. f a (xs ! (i + p))) z [0..<n] = foldl f z (take n (drop p xs))"
  using assms
proof (induction n)
  case (Suc n)
  then have "take (Suc n) (drop p xs) = take n (drop p xs) @ [xs ! (n + p)]"
    by (simp add: take_Suc_conv_app_nth add.commute)
  with Suc show ?case by simp
qed simp

lemma fromBinaryStringBigEndian_in_range:
  assumes len: "length raw < 2 ^ 64" and p: "p + size_of_type TYPE('a) \<le> length raw"
  shows "fromBinaryStringBigEndian raw (of_nat p) =
    Ok (be_value (take (size_of_type TYPE('a)) (drop p raw)) :: 'a::len word,
        of_nat (p + size_of_type TYPE('a)))"
proof -
  let ?n = "size_of_type TYPE('a)"
  have 1: "\<not> size_of raw < of_nat ?n + of_nat p"
    using len p by (simp add: size_of_def of_nat_u64_less_iff flip: of_nat_add)
  have 2: "unat (of_nat p :: size_t) = p"
    using len p by (intro unat_of_nat_u64) simp
  have 3: "\<not> length raw < p + ?n"
    using p by simp
  show ?thesis
    unfolding fromBinaryStringBigEndian_def Let_def be_value_def
    using foldl_nth_upt [OF p, of "\<lambda>val c. val * 256 + of_nat (of_char c)" "0 :: 'a word"]
    by (simp only: 1 2 3 if_False of_nat_add)
qed

text \<open>Word types whose length is a whole number of bytes.\<close>

definition byte_sized :: "'a::len itself \<Rightarrow> bool" where
  "byte_sized _ \<longleftrightarrow> 8 dvd LENGTH('a) \<and> LENGTH('a) < 512"

lemma byte_sized_simps [simp]:
  "byte_sized TYPE(8)" "byte_sized TYPE(16)" "byte_sized TYPE(32)" "byte_sized TYPE(64)"
  by (simp_all add: byte_sized_def)

lemma byte_sized_256_power:
  "byte_sized TYPE('a::len) \<Longrightarrow> 256 ^ size_of_type TYPE('a) = (2 :: nat) ^ LENGTH('a)"
  by (auto simp: byte_sized_def size_of_type_def power_mult)

lemma byte_sized_pos: "byte_sized TYPE('a::len) \<Longrightarrow> 0 < size_of_type TYPE('a)"
  by (auto simp: byte_sized_def size_of_type_def div_greater_zero_iff intro!: dvd_imp_le)

lemma be_value_serializeInt:
  assumes "byte_sized TYPE('a::len)"
  shows "be_value (serializeInt (w :: 'a word)) = w"
  using assms
  by (simp add: serialize_alias toBinaryStringBigEndian_eq be_value_be_bytes byte_sized_256_power)

lemma serializeInt_decodes:
  assumes bs: "byte_sized TYPE('a::len)" and len: "length (pre @ serializeInt w @ post) < 2 ^ 64"
  shows "fromBinaryStringBigEndian (pre @ serializeInt (w :: 'a word) @ post)
      (of_nat (length pre)) = Ok (w, of_nat (length (pre @ serializeInt w)))"
proof -
  let ?raw = "pre @ serializeInt w @ post"
  have "length pre + size_of_type TYPE('a) \<le> length ?raw" by simp
  note fromBinaryStringBigEndian_in_range [OF len this]
  moreover have "take (size_of_type TYPE('a)) (drop (length pre) ?raw) = serializeInt w"
    by simp
  ultimately show ?thesis
    by (simp only: be_value_serializeInt [OF bs] length_append length_serializeInt)
qed

lemma position_moved:
  "0 < n \<Longrightarrow> m + n < 2 ^ 64 \<Longrightarrow> (of_nat (m + n) :: size_t) \<noteq> of_nat m"
  by (subst of_nat_u64_inj) auto

lemma encodes_deserializeInt:
  assumes bs: "byte_sized TYPE('a::len)"
  shows "encodes deserializeInt (serializeInt w) (w :: 'a word)"
proof (rule encodesI)
  fix pre post :: string
  assume len: "length (pre @ serializeInt w @ post) < 2 ^ 64"
  have "(of_nat (length pre + size_of_type TYPE('a)) :: size_t) \<noteq> of_nat (length pre)"
    using len byte_sized_pos [OF bs] by (intro position_moved) simp_all
  then show "deserializeInt (pre @ serializeInt w @ post) (of_nat (length pre)) =
      Ok (w, of_nat (length (pre @ serializeInt w)))"
    using serializeInt_decodes [OF bs len]
    by (simp add: deserializeInt_def deserializeIntBigEndian_def deserializeIntBigEndian3_def
        del: of_nat_add)
qed

lemma serializeString_unfold: "serializeString s = serializeInt (size_of s) @ s"
  by (simp add: serializeString_def serializeStringBigEndian_def serializeInt_def)

lemma encodes_deserializeString [codec_intros]: "encodes deserializeString (serializeString s) s"
proof (rule encodesI)
  fix pre post :: string
  let ?raw = "pre @ serializeString s @ post" and ?i = "serializeInt (size_of s)"
  assume len: "length ?raw < 2 ^ 64"
  have raw: "?raw = pre @ ?i @ (s @ post)" "?raw = (pre @ ?i) @ s @ post"
    by (simp_all add: serializeString_unfold)
  have int: "fromBinaryStringBigEndian ?raw (of_nat (length pre)) =
      Ok (size_of s, of_nat (length (pre @ ?i)))"
    using serializeInt_decodes [of pre "size_of s" "s @ post"] len raw(1) by simp
  have str: "substr ?raw (of_nat (length (pre @ ?i))) (size_of s) = Ok s"
    using substr_append [of "pre @ ?i" s post] len raw(2) by simp
  have moved: "(of_nat (length pre + 8) :: size_t) \<noteq> of_nat (length pre)"
      "(of_nat (length pre + (8 + length s)) :: size_t) \<noteq> of_nat (length pre)"
    using len by (intro position_moved; simp)+
  have pos: "of_nat (length (pre @ ?i)) + size_of s =
      (of_nat (length pre + (8 + length s)) :: size_t)"
    by (simp add: size_of_def)
  show "deserializeString ?raw (of_nat (length pre)) =
      Ok (s, of_nat (length (pre @ serializeString s)))"
    using int str moved moved(1) [symmetric] pos
    by (simp add: deserializeString_def deserializeStringBigEndian_def
        deserializeStringBigEndian3_def deserializeIntBigEndian3_def del: of_nat_add)
qed

text \<open>A count followed by that many elements, as every stored sequence is written: the bytes of the
  elements bound the count, so that it never wraps.\<close>

context codec
begin

lemma encodes_counted:
  assumes xs: "list_all valid xs" "\<forall>x\<in>set xs. enc x \<noteq> []" and f: "encodes (f xs) e y"
  shows "encodes (pbind deserializeInt (\<lambda>count :: size_t. pbind (pmany dec (unat count)) f))
    (serializeInt (size_of xs) @ concat (map enc xs) @ e) y"
proof (rule encodes_if_small)
  assume small: "length (serializeInt (size_of xs) @ concat (map enc xs) @ e) < 2 ^ 64"
  have "length xs \<le> length (concat (map enc xs))"
    using xs(2)
  proof (induction xs)
    case (Cons x xs)
    then show ?case by (cases "enc x") auto
  qed simp
  with small have n: "unat (size_of xs) = length xs" by simp
  have "encodes (pbind (pmany dec (unat (size_of xs))) f) (concat (map enc xs) @ e) y"
    unfolding n by (rule encodes_pbind [where f = f, OF read_many [OF xs(1)] f])
  then show "encodes (pbind deserializeInt (\<lambda>count :: size_t. pbind (pmany dec (unat count)) f))
      (serializeInt (size_of xs) @ concat (map enc xs) @ e) y"
    by (rule encodes_pbind [OF encodes_deserializeInt [OF byte_sized_simps(4)]])
qed

lemma encodes_counted_last:
  assumes "list_all valid xs" "\<forall>x\<in>set xs. enc x \<noteq> []" "y = g xs"
  shows "encodes (pbind deserializeInt (\<lambda>count :: size_t.
      pbind (pmany dec (unat count)) (\<lambda>xs. pret (g xs))))
    (serializeInt (size_of xs) @ concat (map enc xs)) y"
  using encodes_counted [where f = "\<lambda>xs. pret (g xs)" and e = "[]", OF assms(1,2)] assms(3)
  by (simp add: encodes_pret)

end

interpretation int8: codec "serializeInt :: u8 \<Rightarrow> string" deserializeInt "\<lambda>_. True"
  by unfold_locales (simp add: encodes_deserializeInt)

interpretation int64: codec "serializeInt :: u64 \<Rightarrow> string" deserializeInt "\<lambda>_. True"
  by unfold_locales (simp add: encodes_deserializeInt)

interpretation str: codec serializeString deserializeString "\<lambda>_. True"
  by unfold_locales (rule encodes_deserializeString)

lemmas [codec_intros] = int8.dec_enc [OF TrueI] int64.dec_enc [OF TrueI]

section \<open>Damaged input\<close>

lemma fromBinaryStringBigEndian_short:
  assumes "length raw < 2 ^ 64" and "length raw < unat pos + size_of_type TYPE('a)"
    and "unat pos + size_of_type TYPE('a) < 2 ^ 64"
  shows "fromBinaryStringBigEndian raw pos = Ok (0 :: 'a::len word, pos)"
proof -
  have "of_nat (size_of_type TYPE('a)) + pos = (of_nat (unat pos + size_of_type TYPE('a)) :: size_t)"
    by simp
  then have "size_of raw < of_nat (size_of_type TYPE('a)) + pos"
    using assms by (simp add: size_of_def of_nat_u64_less_iff del: of_nat_add)
  then show ?thesis by (simp add: fromBinaryStringBigEndian_def Let_def)
qed

lemma deserializeInt_short:
  assumes "length raw < 2 ^ 64" and "length raw < unat pos + size_of_type TYPE('a)"
    and "unat pos + size_of_type TYPE('a) < 2 ^ 64"
  shows "(deserializeInt :: 'a::len word parser) raw pos = Err (Exception ''Incorrect raw'')"
  using fromBinaryStringBigEndian_short [OF assms]
  by (simp add: deserializeInt_def deserializeIntBigEndian_def deserializeIntBigEndian3_def)

lemma deserializeString_short:
  assumes "length raw < 2 ^ 64" and "length raw < unat pos + 8" and "unat pos + 8 < 2 ^ 64"
  shows "deserializeString raw pos = Err (Exception ''Incorrect raw'')"
  using fromBinaryStringBigEndian_short [where ?'a = 64, of raw pos] assms
  by (simp add: deserializeString_def deserializeStringBigEndian_def deserializeStringBigEndian3_def
      deserializeIntBigEndian3_def)

section \<open>Properties\<close>

text \<open>Wherever the encoding of an integer or of a string stands in a buffer, reading at its first
  byte returns the value and moves the position right behind the encoding, whatever follows.\<close>

lemma decode_encoded:
  assumes "length (pre @ serializeInt w @ post) < 2 ^ 64" and "length (pre @ serializeString s @ post) < 2 ^ 64"
  shows "deserializeInt (pre @ serializeInt (w :: u64) @ post) (size_of pre) =
      Ok (w, size_of (pre @ serializeInt w)) \<and>
    deserializeString (pre @ serializeString s @ post) (size_of pre) =
      Ok (s, size_of (pre @ serializeString s))"
  using encodesD [OF int64.dec_enc [OF TrueI] assms(1)] encodesD [OF encodes_deserializeString assms(2)]
  unfolding size_of_def by blast

lemma decode_encoded_example:
  "deserializeInt (''x'' @ serializeInt (258 :: u64) @ ''y'') 1 = Ok (258 :: u64, 9) \<and>
   deserializeString (''x'' @ serializeString ''ab'' @ ''y'') 1 = Ok (''ab'', 11)"
  using decode_encoded [of "''x''" 258 "''y''" "''ab''"] by (simp add: size_of_def)

text \<open>A buffer in which fewer bytes are left than the field needs is refused with an exception, for
  the integer and for the length of a string alike, provided that the position plus the field size
  does not wrap.\<close>

lemma short_buffer_refused:
  assumes "length raw < 2 ^ 64" and "length raw < unat pos + 8" and "unat pos + 8 < 2 ^ 64"
  shows "(deserializeInt :: u64 parser) raw pos = Err (Exception ''Incorrect raw'') \<and>
    deserializeString raw pos = Err (Exception ''Incorrect raw'')"
  using deserializeInt_short [where ?'a = 64, of raw pos] deserializeString_short [OF assms] assms by simp

lemma short_buffer_refused_example:
  "(deserializeInt :: u64 parser) ''abc'' 0 = Err (Exception ''Incorrect raw'') \<and>
   deserializeString ''abc'' 0 = Err (Exception ''Incorrect raw'')"
  using short_buffer_refused [of "''abc''" 0] by simp

text \<open>The declared length of a string is not compared with the bytes that are left: a string cut
  short is accepted as it is, and the position returned lies behind the end of the buffer, at
  eight plus the declared length modulo \<open>2 ^ 64\<close>.\<close>

lemma truncated_string_accepted:
  assumes "length s < unat n" and "length s + 8 < 2 ^ 64" and "n + 8 \<noteq> 0"
  shows "deserializeString (serializeInt n @ s) 0 = Ok (s, n + 8)"
proof -
  have int: "fromBinaryStringBigEndian (serializeInt n @ s) 0 = Ok (n, 8)"
    using serializeInt_decodes [where ?'a = 64, of "[]" n s] assms(2) by simp
  have "substr (serializeInt n @ s) 8 n = Ok s"
    using assms(1,2) by (simp add: substr_def word_less_nat_alt)
  with int assms(3) show ?thesis
    by (simp add: deserializeString_def deserializeStringBigEndian_def deserializeStringBigEndian3_def
        deserializeIntBigEndian3_def add.commute [of 8])
qed

lemma truncated_string_accepted_example:
  "deserializeString (serializeInt (5 :: u64) @ ''ab'') 0 = Ok (''ab'', 13)"
  using truncated_string_accepted [of "''ab''" 5] by simp

end
