(* ===== verification/Address.thy ===== *)
theory Address
  imports Prelude
begin

text \<open>
  \<^verbatim>\<open>src/src/Address.h\<close> and \<^verbatim>\<open>src/src/Address.cpp\<close>: a wallet address. A default-constructed
  address is not set, and every observer throws on it. An empty set address stands for the
  initial wallet. The hex conversions belong to the common library and are parameters.
\<close>

record address =
  addr_bytes :: string
  isInitialW :: bool
  isSet :: bool

definition INITIAL_WALLET_TRANSACTION :: string where
  "INITIAL_WALLET_TRANSACTION = ''InitialWalletTransaction''"

definition Address_default :: address where
  "Address_default = \<lparr>addr_bytes = [], isInitialW = False, isSet = False\<rparr>"

text \<open>The iterator-range constructor.\<close>

definition Address_range :: "string \<Rightarrow> address" where
  "Address_range bytes = \<lparr>addr_bytes = bytes, isInitialW = False, isSet = True\<rparr>"

text \<open>The constructor from binary, which marks a blocked sender in the first byte.\<close>

definition Address_binary :: "string \<Rightarrow> bool \<Rightarrow> address res" where
  "Address_binary bytes isBlockedAddress =
     (if isBlockedAddress then
        (if bytes = [] then Err Undefined
         else Ok \<lparr>addr_bytes = bytes[0 := CHR 0x01], isInitialW = False, isSet = True\<rparr>)
      else Ok \<lparr>addr_bytes = bytes, isInitialW = False, isSet = True\<rparr>)"

definition Address_hex :: "(string \<Rightarrow> string res) \<Rightarrow> string \<Rightarrow> address res" where
  "Address_hex fromHex hexAddress =
     rbind (CHECK (hexAddress \<noteq> []) ''Empty address'') (\<lambda>_.
     rbind (CHECK (take 2 hexAddress = ''0x'') (''Incorrect address '' @ hexAddress)) (\<lambda>_.
     rbind (fromHex hexAddress) (\<lambda>tmp.
     Ok \<lparr>addr_bytes = tmp, isInitialW = False, isSet = True\<rparr>)))"

definition Address_eq :: "address \<Rightarrow> address \<Rightarrow> bool res" where
  "Address_eq a second =
     rbind (CHECK (isSet a) ''Address not set'') (\<lambda>_.
     rbind (CHECK (isSet second) ''Address not set'') (\<lambda>_.
     Ok (addr_bytes a = addr_bytes second)))"

definition Address_neq :: "address \<Rightarrow> address \<Rightarrow> bool res" where
  "Address_neq a second = rbind (Address_eq a second) (\<lambda>b. Ok (\<not> b))"

definition Address_less :: "address \<Rightarrow> address \<Rightarrow> bool res" where
  "Address_less a second =
     rbind (CHECK (isSet a) ''Address not set'') (\<lambda>_.
     rbind (CHECK (isSet second) ''Address not set'') (\<lambda>_.
     Ok (addr_bytes a < addr_bytes second)))"

definition getBinaryString :: "address \<Rightarrow> string res" where
  "getBinaryString a =
     rbind (CHECK (isSet a) ''Address not set'') (\<lambda>_.
     Ok (if addr_bytes a = [] then INITIAL_WALLET_TRANSACTION else addr_bytes a))"

definition toBdString :: "address \<Rightarrow> string res" where
  "toBdString a = getBinaryString a"

definition calcHexString :: "(string \<Rightarrow> string) \<Rightarrow> address \<Rightarrow> string res" where
  "calcHexString toHex a =
     rbind (CHECK (isSet a) ''Address not set'') (\<lambda>_.
     Ok (if addr_bytes a = [] then INITIAL_WALLET_TRANSACTION else ''0x'' @ toHex (addr_bytes a)))"

definition setEmpty :: "address \<Rightarrow> address" where
  "setEmpty a = a\<lparr>isSet := True, addr_bytes := [], isInitialW := True\<rparr>"

definition isEmpty :: "address \<Rightarrow> bool res" where
  "isEmpty a = rbind (CHECK (isSet a) ''Address not set'') (\<lambda>_. Ok (addr_bytes a = []))"

definition isSet_query :: "address \<Rightarrow> bool" where
  "isSet_query a = isSet a"

definition isInitialWallet :: "address \<Rightarrow> bool res" where
  "isInitialWallet a = rbind (CHECK (isSet a) ''Address not set'') (\<lambda>_. Ok (isInitialW a))"

text \<open>Reading \<open>address[0]\<close> of an empty \<open>std::string\<close> yields the terminating zero character.\<close>

definition isScriptAddress :: "address \<Rightarrow> bool res" where
  "isScriptAddress a =
     rbind (CHECK (isSet a) ''Address not set'') (\<lambda>_.
     Ok (case addr_bytes a of [] \<Rightarrow> False | c # _ \<Rightarrow> c = CHR 0x08))"

lemmas address_ops =
  Address_eq_def Address_neq_def Address_less_def getBinaryString_def toBdString_def
  calcHexString_def isEmpty_def isInitialWallet_def isScriptAddress_def isSet_query_def

section \<open>Well-formed addresses\<close>

text \<open>What the constructors and \<open>setEmpty\<close> establish: set, and the initial-wallet mark exactly on
  the empty address.\<close>

definition address_wf :: "address \<Rightarrow> bool" where
  "address_wf a \<longleftrightarrow> isSet a \<and> (isInitialW a \<longleftrightarrow> addr_bytes a = [])"

lemma address_wf_range [simp]: "bytes \<noteq> [] \<Longrightarrow> address_wf (Address_range bytes)"
  by (simp add: address_wf_def Address_range_def)

lemma address_wf_setEmpty [simp]: "address_wf (setEmpty a)"
  by (simp add: address_wf_def setEmpty_def)

lemma address_wf_binary:
  "Address_binary bytes b = Ok a \<Longrightarrow> bytes \<noteq> [] \<Longrightarrow> address_wf a"
  by (auto simp: Address_binary_def address_wf_def split: if_splits)

lemma address_wf_eq_iff:
  assumes "address_wf a" "address_wf b"
  shows "Address_eq a b = Ok (a = b)"
  using assms by (cases a; cases b) (auto simp: Address_eq_def address_wf_def)

text \<open>An observer of an address that is not set always throws.\<close>

lemma address_not_set_throws:
  assumes "\<not> isSet a"
  shows "getBinaryString a = Err (Exception ''Address not set'')"
    and "isEmpty a = Err (Exception ''Address not set'')"
    and "isScriptAddress a = Err (Exception ''Address not set'')"
    and "Address_eq a b = Err (Exception ''Address not set'')"
  using assms by (simp_all add: address_ops)

end
