(* ===== verification/BlockInfo.thy ===== *)
theory BlockInfo
  imports Serialize Address
begin

text \<open>
  \<^verbatim>\<open>src/src/BlockInfo.h\<close> and \<^verbatim>\<open>src/src/BlockInfo.cpp\<close>: the data model of the node (file
  positions, transactions and their statuses, block headers, the metadata records) with its
  binary form. Fields that a default constructor of the source leaves indeterminate are zero
  here; the timing fields of a block, used for log lines only, are left out.
\<close>

section \<open>File positions\<close>

record filePosition =
  fp_pos :: size_t
  fp_fileName :: string

definition FilePosition_serialize :: "filePosition \<Rightarrow> string" where
  "FilePosition_serialize fp = serializeString (fp_fileName fp) @ serializeInt (fp_pos fp)"

definition FilePosition_serialize_buf :: "filePosition \<Rightarrow> string \<Rightarrow> string" where
  "FilePosition_serialize_buf fp buffer =
     serializeInt_buf (fp_pos fp) (serializeString_buf (fp_fileName fp) buffer)"

definition FilePosition_deserialize3 :: "string \<Rightarrow> size_t \<Rightarrow> (filePosition \<times> size_t) res" where
  "FilePosition_deserialize3 raw from =
     rbind (deserializeString3 raw from) (\<lambda>(fileName, nextFrom).
     rbind (CHECK (nextFrom \<noteq> from) ''Incorrect raw '') (\<lambda>_.
     let from = nextFrom in
     rbind (deserializeInt3 raw from) (\<lambda>(pos, nextFrom).
     rbind (CHECK (nextFrom \<noteq> from) ''Incorrect raw '') (\<lambda>_.
     Ok (\<lparr>fp_pos = pos, fp_fileName = fileName\<rparr>, nextFrom)))))"

definition FilePosition_deserialize2 :: "filePosition parser" where
  "FilePosition_deserialize2 raw from =
     rbind (FilePosition_deserialize3 raw from) (\<lambda>(res, endPos).
     rbind (CHECK (endPos \<noteq> from) ''Incorrect raw'') (\<lambda>_.
     Ok (res, endPos)))"

definition FilePosition_deserialize :: "string \<Rightarrow> filePosition res" where
  "FilePosition_deserialize raw =
     rbind (FilePosition_deserialize3 raw 0) (\<lambda>(res, tmp). Ok res)"

section \<open>Address records\<close>

record addressInfo =
  ai_filePos :: filePosition
  ai_blockNumber :: size_t
  ai_undelegateValue :: "u64 option"

definition AddressInfo_serialize :: "addressInfo \<Rightarrow> string" where
  "AddressInfo_serialize ai =
     (let buffer = [];
          buffer = FilePosition_serialize_buf (ai_filePos ai) buffer;
          buffer = serializeInt_buf (ai_blockNumber ai) buffer
      in case ai_undelegateValue ai of
           Some v \<Rightarrow> serializeInt_buf v buffer
         | None \<Rightarrow> buffer)"

definition AddressInfo_deserialize :: "string \<Rightarrow> addressInfo res" where
  "AddressInfo_deserialize raw =
     rbind (FilePosition_deserialize2 raw 0) (\<lambda>(filePos, from).
     rbind (deserializeInt raw from) (\<lambda>(blockNumber, from).
     if from < size_of raw then
       rbind (deserializeInt raw from) (\<lambda>(v, from).
       Ok \<lparr>ai_filePos = filePos, ai_blockNumber = blockNumber, ai_undelegateValue = Some v\<rparr>)
     else
       Ok \<lparr>ai_filePos = filePos, ai_blockNumber = blockNumber, ai_undelegateValue = None\<rparr>))"

section \<open>Transaction statuses\<close>

text \<open>The alternatives of \<open>std::variant<std::monostate, Delegate, UnDelegate, V8Status>\<close>.\<close>

record v8Status =
  isServerError :: bool
  isScriptError :: bool
  compiledContractAddress :: address

record unDelegate =
  ud_value :: u64
  delegateHash :: string

datatype txStatus =
    Monostate
  | Delegate
  | UnDelegate unDelegate
  | V8Status v8Status

record transactionStatus =
  ts_isSuccess :: bool
  ts_transaction :: string
  ts_blockNumber :: size_t
  ts_status :: txStatus

definition bool_u8 :: "bool \<Rightarrow> u8" where
  "bool_u8 b = (if b then 1 else 0)"

definition UnDelegate_serialize :: "unDelegate \<Rightarrow> string \<Rightarrow> string" where
  "UnDelegate_serialize u buffer =
     serializeString_buf (delegateHash u) (serializeInt_buf (ud_value u) buffer)"

definition UnDelegate_deserialize :: "unDelegate parser" where
  "UnDelegate_deserialize =
     pbind deserializeInt (\<lambda>value.
     pbind deserializeString (\<lambda>hash.
     pret \<lparr>ud_value = value, delegateHash = hash\<rparr>))"

definition V8Status_serialize :: "v8Status \<Rightarrow> string \<Rightarrow> string res" where
  "V8Status_serialize v buffer =
     (let buffer = serializeInt_buf (bool_u8 (isServerError v)) buffer;
          buffer = serializeInt_buf (bool_u8 (isScriptError v)) buffer
      in rbind (isEmpty (compiledContractAddress v)) (\<lambda>empty.
         if \<not> empty then
           rbind (getBinaryString (compiledContractAddress v)) (\<lambda>s.
           Ok (serializeString_buf s buffer))
         else Ok (serializeString_buf [] buffer)))"

definition V8Status_deserialize :: "v8Status parser" where
  "V8Status_deserialize =
     pbind deserializeInt (\<lambda>server :: u8.
     pbind deserializeInt (\<lambda>script :: u8.
     pbind deserializeString (\<lambda>addressString.
     pret \<lparr>isServerError = (server \<noteq> 0), isScriptError = (script \<noteq> 0),
           compiledContractAddress =
             (if addressString \<noteq> [] then Address_range addressString
              else setEmpty Address_default)\<rparr>)))"

definition txStatus_index :: "txStatus \<Rightarrow> u64" where
  "txStatus_index st =
     (case st of Monostate \<Rightarrow> 0 | Delegate \<Rightarrow> 1 | UnDelegate _ \<Rightarrow> 2 | V8Status _ \<Rightarrow> 3)"

definition TransactionStatus_serialize :: "transactionStatus \<Rightarrow> string res" where
  "TransactionStatus_serialize ts =
     (let buffer = [];
          buffer = serializeInt_buf (bool_u8 (ts_isSuccess ts)) buffer;
          buffer = serializeInt_buf (ts_blockNumber ts) buffer;
          buffer = serializeString_buf (ts_transaction ts) buffer
      in rbind (CHECK (txStatus_index (ts_status ts) \<noteq> 0) ''Status not set'') (\<lambda>_.
         let buffer = serializeInt_buf (txStatus_index (ts_status ts)) buffer
         in case ts_status ts of
              Monostate \<Rightarrow> Ok buffer
            | Delegate \<Rightarrow> Ok buffer
            | UnDelegate u \<Rightarrow> Ok (UnDelegate_serialize u buffer)
            | V8Status v \<Rightarrow> V8Status_serialize v buffer))"

text \<open>\<open>parseVarint\<close> runs \<open>tryParse\<close> over the alternatives; the one whose index is the number read
  assigns the status.\<close>

definition TransactionStatus_parseVarint :: "u64 \<Rightarrow> txStatus parser" where
  "TransactionStatus_parseVarint number =
     (if number = 1 then pret Delegate
      else if number = 2 then pbind UnDelegate_deserialize (\<lambda>u. pret (UnDelegate u))
      else if number = 3 then pbind V8Status_deserialize (\<lambda>v. pret (V8Status v))
      else pret Monostate)"

definition TransactionStatus_parse :: "transactionStatus parser" where
  "TransactionStatus_parse =
     pbind deserializeInt (\<lambda>success :: u8.
     pbind deserializeInt (\<lambda>blockNumber.
     pbind deserializeString (\<lambda>transaction.
     pbind deserializeInt (\<lambda>number.
     pbind (pcheck (number \<noteq> 0 \<and> number < 4) ''Incorrect type in transaction status'') (\<lambda>_.
     pbind (TransactionStatus_parseVarint number) (\<lambda>status.
     pret \<lparr>ts_isSuccess = (success \<noteq> 0), ts_transaction = transaction,
           ts_blockNumber = blockNumber, ts_status = status\<rparr>))))))"

definition TransactionStatus_deserialize :: "string \<Rightarrow> transactionStatus res" where
  "TransactionStatus_deserialize raw =
     rbind (TransactionStatus_parse raw 0) (\<lambda>(result, from). Ok result)"

section \<open>Transactions\<close>

record delegateInfo =
  di_value :: u64
  isDelegate :: bool

record scriptInfo =
  txRaw :: string
  isInitializeScript :: bool

record transactionInfo =
  ti_hash :: string
  fromAddress :: address
  toAddress :: address
  ti_value :: u64
  fees :: u64
  nonce :: u64
  ti_blockNumber :: size_t
  sizeRawTx :: size_t
  isSaveToBd :: bool
  isSignBlockTx :: bool
  intStatus :: "u64 option"
  ti_sign :: string
  pubKey :: string
  ti_data :: string
  allRawTx :: string
  realFees :: "u64 option"
  ti_delegate :: "delegateInfo option"
  ti_scriptInfo :: "scriptInfo option"
  ti_filePos :: filePosition
  ti_status :: "transactionStatus option"
  isModuleNotSet :: bool
  ti_isInitialized :: bool

definition TransactionInfo_default :: transactionInfo where
  "TransactionInfo_default =
     \<lparr>ti_hash = [], fromAddress = Address_default, toAddress = Address_default, ti_value = 0,
      fees = 0, nonce = 0, ti_blockNumber = 0, sizeRawTx = 0, isSaveToBd = True,
      isSignBlockTx = False, intStatus = None, ti_sign = [], pubKey = [], ti_data = [],
      allRawTx = [], realFees = None, ti_delegate = None, ti_scriptInfo = None,
      ti_filePos = \<lparr>fp_pos = 0, fp_fileName = []\<rparr>, ti_status = None, isModuleNotSet = False,
      ti_isInitialized = False\<rparr>"

definition TX_STATE_WRONG_MONEY :: u64 where "TX_STATE_WRONG_MONEY = 30"
definition TX_STATE_WRONG_DATA :: u64 where "TX_STATE_WRONG_DATA = 40"
definition TX_STATE_FORGING :: u64 where "TX_STATE_FORGING = 100"
definition TX_STATE_FORGING_W :: u64 where "TX_STATE_FORGING_W = 101"
definition TX_STATE_FORGING_N :: u64 where "TX_STATE_FORGING_N = 102"
definition TX_STATE_FORGING_C :: u64 where "TX_STATE_FORGING_C = 103"
definition TX_STATE_FORGING_A :: u64 where "TX_STATE_FORGING_A = 104"
definition TX_STATE_TECH_NODE_STAT :: u64 where "TX_STATE_TECH_NODE_STAT = 0x1101"

definition TransactionInfo_serialize :: "transactionInfo \<Rightarrow> string" where
  "TransactionInfo_serialize ti =
     serializeInt_buf (ti_blockNumber ti) (FilePosition_serialize_buf (ti_filePos ti) [])"

definition TransactionInfo_deserialize2 :: "transactionInfo parser" where
  "TransactionInfo_deserialize2 =
     pbind FilePosition_deserialize2 (\<lambda>filePos.
     pbind deserializeInt (\<lambda>blockNumber.
     pret (TransactionInfo_default\<lparr>ti_filePos := filePos, ti_blockNumber := blockNumber\<rparr>)))"

definition TransactionInfo_deserialize :: "string \<Rightarrow> transactionInfo res" where
  "TransactionInfo_deserialize raw =
     rbind (TransactionInfo_deserialize2 raw 0) (\<lambda>(result, from). Ok result)"

definition calcRealFee :: "transactionInfo \<Rightarrow> transactionInfo res" where
  "calcRealFee ti =
     rbind (CHECK (sizeRawTx ti > 0) ''Size raw tx not set'') (\<lambda>_.
     Ok (ti\<lparr>realFees := Some (if sizeRawTx ti > 255 then sizeRawTx ti - 255 else 0)\<rparr>))"

definition isStatusNeed :: "transactionInfo \<Rightarrow> bool" where
  "isStatusNeed ti \<longleftrightarrow> ti_delegate ti \<noteq> None \<or> ti_scriptInfo ti \<noteq> None"

definition isIntStatusNoBalance :: "transactionInfo \<Rightarrow> bool" where
  "isIntStatusNoBalance ti \<longleftrightarrow> intStatus ti = Some TX_STATE_WRONG_MONEY"

definition isIntStatusNotSuccess :: "transactionInfo \<Rightarrow> bool" where
  "isIntStatusNotSuccess ti \<longleftrightarrow>
     (case intStatus ti of None \<Rightarrow> False
      | Some s \<Rightarrow> s = TX_STATE_WRONG_MONEY \<or> s = TX_STATE_WRONG_DATA)"

definition getForgingIntStatuses :: "u64 set" where
  "getForgingIntStatuses =
     {TX_STATE_FORGING, TX_STATE_FORGING_C, TX_STATE_FORGING_N, TX_STATE_FORGING_W,
      TX_STATE_FORGING_A}"

definition isIntStatusForging :: "transactionInfo \<Rightarrow> bool" where
  "isIntStatusForging ti \<longleftrightarrow>
     (case intStatus ti of None \<Rightarrow> False | Some s \<Rightarrow> s \<in> getForgingIntStatuses)"

definition isIntStatusNodeTest :: "transactionInfo \<Rightarrow> bool" where
  "isIntStatusNodeTest ti \<longleftrightarrow> intStatus ti = Some TX_STATE_TECH_NODE_STAT"

section \<open>Block headers\<close>

record minimumBlockHeader =
  mb_number :: size_t
  mb_blockSize :: size_t
  mb_hash :: string
  mb_parentHash :: string
  mb_fileName :: string

record blockHeader =
  bh_timestamp :: size_t
  bh_blockSize :: u64
  bh_blockType :: u64
  bh_hash :: string
  bh_prevHash :: string
  bh_signature :: string
  bh_txsHash :: string
  bh_countTxs :: "size_t option"
  bh_filePos :: filePosition
  bh_endBlockPos :: size_t
  bh_blockNumber :: "size_t option"
  bh_senderSign :: string
  bh_senderPubkey :: string
  bh_senderAddress :: string

definition BlockHeader_default :: blockHeader where
  "BlockHeader_default =
     \<lparr>bh_timestamp = 0, bh_blockSize = 0, bh_blockType = 0, bh_hash = [], bh_prevHash = [],
      bh_signature = [], bh_txsHash = [], bh_countTxs = None,
      bh_filePos = \<lparr>fp_pos = 0, fp_fileName = []\<rparr>, bh_endBlockPos = 0, bh_blockNumber = None,
      bh_senderSign = [], bh_senderPubkey = [], bh_senderAddress = []\<rparr>"

definition BLOCK_TYPE :: u64 where "BLOCK_TYPE = 0xEFCDAB8967452301"
definition BLOCK_TYPE_COMMON :: u64 where "BLOCK_TYPE_COMMON = 0x0000000067452301"
definition BLOCK_TYPE_STATE :: u64 where "BLOCK_TYPE_STATE = 0x1100000067452301"
definition BLOCK_TYPE_FORGING :: u64 where "BLOCK_TYPE_FORGING = 0x2200000067452301"
definition BLOCK_TYPE_COMMON_2 :: u64 where "BLOCK_TYPE_COMMON_2 = 0x0001000067452301"
definition BLOCK_TYPE_STATE_2 :: u64 where "BLOCK_TYPE_STATE_2 = 0x1101000067452301"
definition BLOCK_TYPE_FORGING_2 :: u64 where "BLOCK_TYPE_FORGING_2 = 0x2201000067452301"

definition isStateBlock :: "blockHeader \<Rightarrow> bool" where
  "isStateBlock bh \<longleftrightarrow> bh_blockType bh = BLOCK_TYPE_STATE \<or> bh_blockType bh = BLOCK_TYPE_STATE_2"

definition isSimpleBlock :: "blockHeader \<Rightarrow> bool" where
  "isSimpleBlock bh \<longleftrightarrow> bh_blockType bh = BLOCK_TYPE \<or> bh_blockType bh = BLOCK_TYPE_COMMON
     \<or> bh_blockType bh = BLOCK_TYPE_COMMON_2"

definition isForgingBlock :: "blockHeader \<Rightarrow> bool" where
  "isForgingBlock bh \<longleftrightarrow>
     bh_blockType bh = BLOCK_TYPE_FORGING \<or> bh_blockType bh = BLOCK_TYPE_FORGING_2"

definition getBlockType :: "blockHeader \<Rightarrow> string res" where
  "getBlockType bh =
     (if isStateBlock bh then Ok ''state''
      else if isSimpleBlock bh then Ok ''block''
      else if isForgingBlock bh then Ok ''forging''
      else Err (Exception (''Unknown block type '' @ to_string_u64 (bh_blockType bh))))"

definition BlockHeader_serialize :: "blockHeader \<Rightarrow> string res" where
  "BlockHeader_serialize bh =
     rbind (CHECK (bh_hash bh \<noteq> []) ''empty hash'') (\<lambda>_.
     rbind (CHECK (bh_prevHash bh \<noteq> []) ''empty prevHash'') (\<lambda>_.
     let res = FilePosition_serialize (bh_filePos bh)
       @ serializeString (bh_prevHash bh)
       @ serializeString (bh_hash bh)
       @ serializeString (bh_txsHash bh)
       @ serializeString (bh_signature bh)
       @ serializeInt (bh_blockSize bh)
       @ serializeInt (bh_blockType bh)
       @ serializeInt (bh_timestamp bh)
     in case bh_countTxs bh of
          None \<Rightarrow> Err (Exception ''Count txs not set'')
        | Some countTxs \<Rightarrow>
            Ok (res @ serializeInt countTxs
              @ serializeString (bh_senderSign bh)
              @ serializeString (bh_senderPubkey bh)
              @ serializeString (bh_senderAddress bh))))"

definition BlockHeader_parse :: "blockHeader parser" where
  "BlockHeader_parse =
     pbind FilePosition_deserialize2 (\<lambda>filePos.
     pbind deserializeString (\<lambda>prevHash.
     pbind deserializeString (\<lambda>hash.
     pbind deserializeString (\<lambda>txsHash.
     pbind deserializeString (\<lambda>sign.
     pbind deserializeInt (\<lambda>blockSize.
     pbind deserializeInt (\<lambda>blockType.
     pbind deserializeInt (\<lambda>timestamp.
     pbind deserializeInt (\<lambda>countTxs.
     pbind deserializeString (\<lambda>senderSign.
     pbind deserializeString (\<lambda>senderPubkey.
     pbind deserializeString (\<lambda>senderAddress.
     pret (BlockHeader_default\<lparr>bh_filePos := filePos, bh_prevHash := prevHash, bh_hash := hash,
       bh_txsHash := txsHash, bh_signature := sign, bh_blockSize := blockSize,
       bh_blockType := blockType, bh_timestamp := timestamp, bh_countTxs := Some countTxs,
       bh_senderSign := senderSign, bh_senderPubkey := senderPubkey,
       bh_senderAddress := senderAddress\<rparr>)))))))))))))"

definition BlockHeader_deserialize :: "string \<Rightarrow> blockHeader res" where
  "BlockHeader_deserialize raw = rbind (BlockHeader_parse raw 0) (\<lambda>(result, from). Ok result)"

section \<open>Blocks and metadata\<close>

record blockInfo =
  bi_header :: blockHeader
  bi_txs :: "transactionInfo list"

definition getBlockSignatures :: "blockInfo \<Rightarrow> transactionInfo list" where
  "getBlockSignatures bi = filter isSignBlockTx (bi_txs bi)"

record blocksMetadata =
  bm_blockHash :: string
  bm_prevBlockHash :: string
  bm_blockNumber :: size_t

definition BlocksMetadata_default :: blocksMetadata where
  "BlocksMetadata_default = \<lparr>bm_blockHash = [], bm_prevBlockHash = [], bm_blockNumber = 0\<rparr>"

definition BlocksMetadata_serialize :: "blocksMetadata \<Rightarrow> string res" where
  "BlocksMetadata_serialize bm =
     rbind (CHECK (bm_blockHash bm \<noteq> []) ''Incorrect metadata'') (\<lambda>_.
     rbind (CHECK (bm_prevBlockHash bm \<noteq> []) ''Incorrect metadata'') (\<lambda>_.
     Ok (serializeString (bm_blockHash bm) @ serializeString (bm_prevBlockHash bm)
         @ serializeInt (bm_blockNumber bm))))"

definition BlocksMetadata_parse :: "blocksMetadata parser" where
  "BlocksMetadata_parse =
     pbind deserializeString (\<lambda>blockHash.
     pbind deserializeString (\<lambda>prevBlockHash.
     pbind deserializeInt (\<lambda>blockNumber.
     pret \<lparr>bm_blockHash = blockHash, bm_prevBlockHash = prevBlockHash,
           bm_blockNumber = blockNumber\<rparr>)))"

definition BlocksMetadata_deserialize :: "string \<Rightarrow> blocksMetadata res" where
  "BlocksMetadata_deserialize raw =
     (if raw = [] then Ok BlocksMetadata_default
      else rbind (BlocksMetadata_parse raw 0) (\<lambda>(result, from). Ok result))"

record mainBlockInfo =
  mbi_blockNumber :: size_t
  mbi_blockHash :: string
  mbi_countVal :: size_t

definition MainBlockInfo_default :: mainBlockInfo where
  "MainBlockInfo_default = \<lparr>mbi_blockNumber = 0, mbi_blockHash = [], mbi_countVal = 0\<rparr>"

definition MainBlockInfo_serialize :: "mainBlockInfo \<Rightarrow> string res" where
  "MainBlockInfo_serialize mb =
     rbind (CHECK (mbi_blockHash mb \<noteq> []) ''Incorrect metadata'') (\<lambda>_.
     Ok (serializeString (mbi_blockHash mb) @ serializeInt (mbi_blockNumber mb)
         @ serializeInt (mbi_countVal mb)))"

definition MainBlockInfo_parse :: "mainBlockInfo parser" where
  "MainBlockInfo_parse =
     pbind deserializeString (\<lambda>blockHash.
     pbind deserializeInt (\<lambda>blockNumber.
     pbind deserializeInt (\<lambda>countVal.
     pret \<lparr>mbi_blockNumber = blockNumber, mbi_blockHash = blockHash,
           mbi_countVal = countVal\<rparr>)))"

definition MainBlockInfo_deserialize :: "string \<Rightarrow> mainBlockInfo res" where
  "MainBlockInfo_deserialize raw =
     (if raw = [] then Ok MainBlockInfo_default
      else rbind (MainBlockInfo_parse raw 0) (\<lambda>(result, from). Ok result))"

record fileInfo =
  fi_filePos :: filePosition

definition FileInfo_default :: fileInfo where
  "FileInfo_default = \<lparr>fi_filePos = \<lparr>fp_pos = 0, fp_fileName = []\<rparr>\<rparr>"

definition FileInfo_serialize :: "fileInfo \<Rightarrow> string" where
  "FileInfo_serialize fi = FilePosition_serialize (fi_filePos fi)"

definition FileInfo_deserialize :: "string \<Rightarrow> fileInfo res" where
  "FileInfo_deserialize raw =
     rbind (FilePosition_deserialize raw) (\<lambda>fp. Ok \<lparr>fi_filePos = fp\<rparr>)"

section \<open>Largest block number of a history\<close>

definition getMaxBlockNumber_txs :: "transactionInfo list \<Rightarrow> size_t" where
  "getMaxBlockNumber_txs infos =
     (if infos \<noteq> [] then max (ti_blockNumber (hd infos)) (ti_blockNumber (last infos)) else 0)"

definition getMaxBlockNumber_statuses :: "transactionStatus list \<Rightarrow> size_t" where
  "getMaxBlockNumber_statuses infos =
     (if infos \<noteq> [] then max (ts_blockNumber (hd infos)) (ts_blockNumber (last infos)) else 0)"

definition isGreater_txs :: "transactionInfo list \<Rightarrow> size_t \<Rightarrow> bool" where
  "isGreater_txs infos blockNumber =
     (if infos = [] then False else getMaxBlockNumber_txs infos > blockNumber)"

definition isGreater_statuses :: "transactionStatus list \<Rightarrow> size_t \<Rightarrow> bool" where
  "isGreater_statuses infos blockNumber =
     (if infos = [] then False else getMaxBlockNumber_statuses infos > blockNumber)"

section \<open>Round trips\<close>

lemma FilePosition_serialize_buf_eq [simp]:
  "FilePosition_serialize_buf fp buffer = buffer @ FilePosition_serialize fp"
  by (simp add: FilePosition_serialize_buf_def FilePosition_serialize_def)

lemma deserializeString_via3:
  "deserializeString raw from = Ok (x, e) \<Longrightarrow>
   deserializeString3 raw from = Ok (x, e) \<and> e \<noteq> from"
  by (auto simp: deserializeString_def deserializeString3_def deserializeStringBigEndian_def
      rbind_Ok_iff)

lemma deserializeInt_via3:
  "deserializeInt raw from = Ok (x, e) \<Longrightarrow> deserializeInt3 raw from = Ok (x, e) \<and> e \<noteq> from"
  by (auto simp: deserializeInt_def deserializeInt3_def deserializeIntBigEndian_def rbind_Ok_iff)

lemma FilePosition_deserialize3_fields:
  assumes "deserializeString raw from = Ok (fn, e)" and "deserializeInt raw e = Ok (p, e')"
  shows "FilePosition_deserialize3 raw from = Ok (\<lparr>fp_pos = p, fp_fileName = fn\<rparr>, e')"
  using deserializeString_via3 [OF assms(1)] deserializeInt_via3 [OF assms(2)]
  by (simp add: FilePosition_deserialize3_def)

lemma encodes_FilePosition3:
  "encodes FilePosition_deserialize3 (FilePosition_serialize fp) fp"
proof (rule encodesI)
  fix pre post :: string
  let ?s = "serializeString (fp_fileName fp)" and ?i = "serializeInt (fp_pos fp)"
  let ?raw = "pre @ FilePosition_serialize fp @ post"
  assume len: "length ?raw < 2 ^ 64"
  have raw: "?raw = pre @ ?s @ (?i @ post)" "?raw = (pre @ ?s) @ ?i @ post"
    by (simp_all add: FilePosition_serialize_def)
  have s: "deserializeString ?raw (of_nat (length pre)) =
      Ok (fp_fileName fp, of_nat (length (pre @ ?s)))"
    using len unfolding raw(1) by (rule encodesD [OF encodes_deserializeString])
  have i: "deserializeInt ?raw (of_nat (length (pre @ ?s))) =
      Ok (fp_pos fp, of_nat (length ((pre @ ?s) @ ?i)))"
    using len unfolding raw(2) by (rule encodesD [OF int64.dec_enc [OF TrueI]])
  show "FilePosition_deserialize3 ?raw (of_nat (length pre)) =
      Ok (fp, of_nat (length (pre @ FilePosition_serialize fp)))"
    using FilePosition_deserialize3_fields [OF s i] by (simp add: FilePosition_serialize_def)
qed

lemma length_FilePosition_serialize [simp]:
  "length (FilePosition_serialize fp) = 16 + length (fp_fileName fp)"
  by (simp add: FilePosition_serialize_def)

lemma encodes_FilePosition2 [codec_intros]:
  "encodes FilePosition_deserialize2 (FilePosition_serialize fp) fp"
proof (rule encodesI)
  fix pre post :: string
  assume len: "length (pre @ FilePosition_serialize fp @ post) < 2 ^ 64"
  have "(of_nat (length pre + (16 + length (fp_fileName fp))) :: size_t) \<noteq> of_nat (length pre)"
    using len by (intro position_moved) simp_all
  with encodesD [OF encodes_FilePosition3 len]
  show "FilePosition_deserialize2 (pre @ FilePosition_serialize fp @ post) (of_nat (length pre)) =
      Ok (fp, of_nat (length (pre @ FilePosition_serialize fp)))"
    by (simp add: FilePosition_deserialize2_def del: of_nat_add)
qed

interpretation fpos: codec FilePosition_serialize FilePosition_deserialize2 "\<lambda>_. True"
  by unfold_locales (rule encodes_FilePosition2)

lemma FilePosition_roundtrip:
  "length (FilePosition_serialize fp) < 2 ^ 64 \<Longrightarrow>
   FilePosition_deserialize (FilePosition_serialize fp) = Ok fp"
  using encodes_whole [OF encodes_FilePosition3, of fp]
  by (simp add: FilePosition_deserialize_def)

text \<open>Chains of fields: the tactic of every struct below is to apply \<open>encodes_pbind\<close> once per
  field, with the field's own codec, up to the final \<open>pret\<close>.\<close>

lemmas encodes_chain =
  encodes_pbind [OF encodes_deserializeString] encodes_pbind [OF encodes_FilePosition2]
  encodes_pbind [OF int8.dec_enc [OF TrueI]] encodes_pbind [OF int64.dec_enc [OF TrueI]]

lemmas encodes_last =
  encodes_pbind_pret [OF encodes_deserializeString]
  encodes_pbind_pret [OF int64.dec_enc [OF TrueI]]

lemma encodes_BlockHeader:
  assumes "BlockHeader_serialize bh = Ok e"
  shows "encodes BlockHeader_parse e (bh\<lparr>bh_endBlockPos := 0, bh_blockNumber := None\<rparr>)"
proof -
  from assms obtain n where n: "bh_countTxs bh = Some n"
    and e: "e = FilePosition_serialize (bh_filePos bh) @ serializeString (bh_prevHash bh)
      @ serializeString (bh_hash bh) @ serializeString (bh_txsHash bh)
      @ serializeString (bh_signature bh) @ serializeInt (bh_blockSize bh)
      @ serializeInt (bh_blockType bh) @ serializeInt (bh_timestamp bh) @ serializeInt n
      @ serializeString (bh_senderSign bh) @ serializeString (bh_senderPubkey bh)
      @ serializeString (bh_senderAddress bh)"
    by (auto simp: BlockHeader_serialize_def rbind_Ok_iff split: option.splits)
  show ?thesis
    unfolding BlockHeader_parse_def e
    by (rule encodes_chain encodes_last)+ (simp add: BlockHeader_default_def n)
qed

lemma encodes_UnDelegate:
  "encodes UnDelegate_deserialize (UnDelegate_serialize u []) u"
  unfolding UnDelegate_deserialize_def UnDelegate_serialize_def
    serializeString_buf_eq serializeInt_buf_eq append_Nil
  by (rule encodes_chain encodes_last)+ simp

lemma bool_u8_nonzero [simp]: "bool_u8 b \<noteq> 0 \<longleftrightarrow> b"
  by (simp add: bool_u8_def)

lemma UnDelegate_serialize_app: "UnDelegate_serialize u buffer = buffer @ UnDelegate_serialize u []"
  by (simp add: UnDelegate_serialize_def)

lemma V8Status_serialize_app:
  "V8Status_serialize v buffer = rbind (V8Status_serialize v []) (\<lambda>e. Ok (buffer @ e))"
  by (cases "isEmpty (compiledContractAddress v)"; cases "getBinaryString (compiledContractAddress v)")
    (auto simp: V8Status_serialize_def Let_def)

lemma encodes_V8Status:
  assumes "V8Status_serialize v [] = Ok e" and wf: "address_wf (compiledContractAddress v)"
  shows "encodes V8Status_deserialize e v"
proof -
  let ?a = "compiledContractAddress v"
  have e: "e = serializeInt (bool_u8 (isServerError v)) @ serializeInt (bool_u8 (isScriptError v))
      @ serializeString (addr_bytes ?a)"
    using assms by (auto simp: V8Status_serialize_def isEmpty_def getBinaryString_def
        address_wf_def split: if_splits)
  have "(if addr_bytes ?a \<noteq> [] then Address_range (addr_bytes ?a) else setEmpty Address_default)
      = ?a"
    using wf by (auto simp: address_wf_def Address_range_def setEmpty_def Address_default_def)
  then show ?thesis
    unfolding V8Status_deserialize_def e
    by (intro encodes_chain encodes_last) simp
qed

lemma encodes_parseVarint:
  assumes "case st of V8Status v \<Rightarrow> address_wf (compiledContractAddress v) | _ \<Rightarrow> True"
    and "st \<noteq> Monostate"
    and "(case st of UnDelegate u \<Rightarrow> Ok (UnDelegate_serialize u [])
      | V8Status v \<Rightarrow> V8Status_serialize v [] | _ \<Rightarrow> Ok []) = Ok e"
  shows "encodes (TransactionStatus_parseVarint (txStatus_index st)) e st"
proof (cases st)
  case (UnDelegate u)
  with assms have e: "e = UnDelegate_serialize u []" by simp
  show ?thesis
    unfolding e UnDelegate
    by (simp add: TransactionStatus_parseVarint_def txStatus_index_def)
      (rule encodes_pbind_pret [OF encodes_UnDelegate], simp)
next
  case (V8Status v)
  with assms show ?thesis
    by (simp add: TransactionStatus_parseVarint_def txStatus_index_def)
      (rule encodes_pbind_pret [OF encodes_V8Status], auto)
qed (use assms in \<open>simp_all add: TransactionStatus_parseVarint_def txStatus_index_def
      encodes_pret\<close>)

definition transactionStatus_wf :: "transactionStatus \<Rightarrow> bool" where
  "transactionStatus_wf ts \<longleftrightarrow>
     (case ts_status ts of
        Monostate \<Rightarrow> False
      | V8Status v \<Rightarrow> address_wf (compiledContractAddress v)
      | _ \<Rightarrow> True)"

lemma TransactionStatus_serialize_split:
  assumes "TransactionStatus_serialize ts = Ok e"
  obtains e' where
    "e = serializeInt (bool_u8 (ts_isSuccess ts)) @ serializeInt (ts_blockNumber ts)
       @ serializeString (ts_transaction ts) @ serializeInt (txStatus_index (ts_status ts)) @ e'"
    "(case ts_status ts of UnDelegate u \<Rightarrow> Ok (UnDelegate_serialize u [])
      | V8Status v \<Rightarrow> V8Status_serialize v [] | _ \<Rightarrow> Ok []) = Ok e'"
    "ts_status ts \<noteq> Monostate"
proof (cases "ts_status ts")
  case (UnDelegate u)
  with assms that [of "UnDelegate_serialize u []"] show ?thesis
    by (simp add: TransactionStatus_serialize_def UnDelegate_serialize_app [of u "_ @ _"]
        txStatus_index_def)
next
  case (V8Status v)
  from assms V8Status obtain e' where
    "V8Status_serialize v [] = Ok e'"
    "e = (serializeInt (bool_u8 (ts_isSuccess ts)) @ serializeInt (ts_blockNumber ts)
       @ serializeString (ts_transaction ts) @ serializeInt (txStatus_index (ts_status ts))) @ e'"
    by (auto simp: TransactionStatus_serialize_def V8Status_serialize_app [of v "_ @ _"]
        rbind_Ok_iff)
  with that [of e'] V8Status show ?thesis by simp
qed (use assms that in \<open>auto simp: TransactionStatus_serialize_def txStatus_index_def
      rbind_Ok_iff\<close>)

lemma txStatus_index_range:
  "st \<noteq> Monostate \<Longrightarrow> txStatus_index st \<noteq> 0 \<and> txStatus_index st < 4"
  by (cases st) (simp_all add: txStatus_index_def)

lemma encodes_TransactionStatus:
  assumes wf: "transactionStatus_wf ts" and e: "TransactionStatus_serialize ts = Ok e"
  shows "encodes TransactionStatus_parse e ts"
proof -
  obtain e' where split:
    "e = serializeInt (bool_u8 (ts_isSuccess ts)) @ serializeInt (ts_blockNumber ts)
       @ serializeString (ts_transaction ts) @ serializeInt (txStatus_index (ts_status ts)) @ e'"
    and e': "(case ts_status ts of UnDelegate u \<Rightarrow> Ok (UnDelegate_serialize u [])
      | V8Status v \<Rightarrow> V8Status_serialize v [] | _ \<Rightarrow> Ok []) = Ok e'"
    and ne: "ts_status ts \<noteq> Monostate"
    by (rule TransactionStatus_serialize_split [OF e])
  have var: "encodes (TransactionStatus_parseVarint (txStatus_index (ts_status ts))) e'
      (ts_status ts)"
    using wf by (intro encodes_parseVarint [OF _ ne e'])
      (auto simp: transactionStatus_wf_def split: txStatus.splits)
  show ?thesis
    unfolding TransactionStatus_parse_def split
    by (intro encodes_chain encodes_pcheck txStatus_index_range [OF ne]
        encodes_pbind_pret [OF var]) simp
qed

lemma encodes_TransactionInfo2:
  "encodes TransactionInfo_deserialize2 (TransactionInfo_serialize ti)
     (TransactionInfo_default\<lparr>ti_filePos := ti_filePos ti, ti_blockNumber := ti_blockNumber ti\<rparr>)"
  unfolding TransactionInfo_deserialize2_def TransactionInfo_serialize_def
    serializeInt_buf_eq FilePosition_serialize_buf_eq append_Nil
  by (rule encodes_chain encodes_last)+ simp

lemma AddressInfo_serialize_eq:
  "AddressInfo_serialize ai = FilePosition_serialize (ai_filePos ai)
     @ serializeInt (ai_blockNumber ai)
     @ (case ai_undelegateValue ai of None \<Rightarrow> [] | Some v \<Rightarrow> serializeInt v)"
  by (simp add: AddressInfo_serialize_def split: option.splits)

lemma encodes_BlocksMetadata:
  assumes "BlocksMetadata_serialize bm = Ok e"
  shows "encodes BlocksMetadata_parse e bm"
proof -
  from assms have e: "e = serializeString (bm_blockHash bm) @ serializeString (bm_prevBlockHash bm)
      @ serializeInt (bm_blockNumber bm)"
    by (auto simp: BlocksMetadata_serialize_def rbind_Ok_iff)
  show ?thesis
    unfolding BlocksMetadata_parse_def e by (rule encodes_chain encodes_last)+ simp
qed

lemma encodes_MainBlockInfo:
  assumes "MainBlockInfo_serialize mb = Ok e"
  shows "encodes MainBlockInfo_parse e mb"
proof -
  from assms have e: "e = serializeString (mbi_blockHash mb) @ serializeInt (mbi_blockNumber mb)
      @ serializeInt (mbi_countVal mb)"
    by (auto simp: MainBlockInfo_serialize_def rbind_Ok_iff)
  show ?thesis
    unfolding MainBlockInfo_parse_def e by (rule encodes_chain encodes_last)+ simp
qed

text \<open>What the workers rely on when they read their own metadata back.\<close>

lemma MainBlockInfo_deserialize_serialize:
  assumes "MainBlockInfo_serialize mb = Ok e" and "length e < 2 ^ 64"
  shows "MainBlockInfo_deserialize e = Ok mb"
proof -
  have "e \<noteq> []"
    using assms(1) by (auto simp: MainBlockInfo_serialize_def rbind_Ok_iff serializeString_unfold)
  then show ?thesis
    using encodes_whole [OF encodes_MainBlockInfo [OF assms(1)] assms(2)]
    by (simp add: MainBlockInfo_deserialize_def)
qed

lemma BlocksMetadata_deserialize_serialize:
  assumes "BlocksMetadata_serialize bm = Ok e" and "length e < 2 ^ 64"
  shows "BlocksMetadata_deserialize e = Ok bm"
proof -
  have "e \<noteq> []"
    using assms(1)
    by (auto simp: BlocksMetadata_serialize_def rbind_Ok_iff serializeString_unfold)
  then show ?thesis
    using encodes_whole [OF encodes_BlocksMetadata [OF assms(1)] assms(2)]
    by (simp add: BlocksMetadata_deserialize_def)
qed

lemma FileInfo_deserialize_serialize:
  "length (FileInfo_serialize fi) < 2 ^ 64 \<Longrightarrow> FileInfo_deserialize (FileInfo_serialize fi) = Ok fi"
  using FilePosition_roundtrip [of "fi_filePos fi"]
  by (simp add: FileInfo_deserialize_def FileInfo_serialize_def)

lemma AddressInfo_deserialize_serialize:
  assumes "length (AddressInfo_serialize ai) < 2 ^ 64"
  shows "AddressInfo_deserialize (AddressInfo_serialize ai) = Ok ai"
proof -
  let ?f = "FilePosition_serialize (ai_filePos ai)" and ?n = "serializeInt (ai_blockNumber ai)"
  let ?t = "case ai_undelegateValue ai of None \<Rightarrow> [] | Some v \<Rightarrow> serializeInt v"
  let ?raw = "?f @ ?n @ ?t"
  have raw: "AddressInfo_serialize ai = ?raw" by (rule AddressInfo_serialize_eq)
  have len: "length ?raw < 2 ^ 64" using assms unfolding raw .
  have f: "FilePosition_deserialize2 ?raw 0 = Ok (ai_filePos ai, size_of ?f)"
    using len by (rule encodes_at_0 [OF encodes_FilePosition2])
  have n: "deserializeInt ?raw (size_of ?f) = Ok (ai_blockNumber ai, size_of (?f @ ?n))"
    using encodesD [OF int64.dec_enc [OF TrueI] len] unfolding size_of_def .
  show ?thesis
  proof (cases "ai_undelegateValue ai")
    case None
    with f n show ?thesis unfolding raw AddressInfo_deserialize_def by simp
  next
    case (Some v)
    have less: "size_of (?f @ ?n) < size_of ((?f @ ?n) @ serializeInt v)"
      using len Some by (simp add: size_of_def of_nat_u64_less_iff del: of_nat_add)
    have "deserializeInt ((?f @ ?n) @ serializeInt v @ []) (of_nat (length (?f @ ?n))) =
        Ok (v, of_nat (length ((?f @ ?n) @ serializeInt v)))"
      using len Some by (intro encodesD [OF int64.dec_enc [OF TrueI]]) simp
    with f n less Some show ?thesis unfolding raw AddressInfo_deserialize_def
      by (simp add: size_of_def)
  qed
qed

section \<open>Properties\<close>

text \<open>C30: A block header that serializes is read back from the database with every stored field as it
  was. The number and the end position of the block are not stored: they come back unset, and the
  chain numbers the header again at start.\<close>

theorem BlockHeader_roundtrip:
  assumes "BlockHeader_serialize bh = Ok e" and "length e < 2 ^ 64"
  shows "BlockHeader_deserialize e = Ok (bh\<lparr>bh_endBlockPos := 0, bh_blockNumber := None\<rparr>)"
  using encodes_whole [OF encodes_BlockHeader [OF assms(1)] assms(2)]
  by (simp add: BlockHeader_deserialize_def)

theorem BlockHeader_roundtrip_witness:
  "\<exists>e. BlockHeader_serialize (BlockHeader_default\<lparr>bh_hash := ''h'', bh_prevHash := ''p'',
       bh_countTxs := Some 3, bh_blockNumber := Some 7\<rparr>) = Ok e \<and>
     BlockHeader_deserialize e = Ok (BlockHeader_default\<lparr>bh_hash := ''h'', bh_prevHash := ''p'',
       bh_countTxs := Some 3\<rparr>)"
proof -
  let ?bh = "BlockHeader_default\<lparr>bh_hash := ''h'', bh_prevHash := ''p'', bh_countTxs := Some 3,
    bh_blockNumber := Some 7\<rparr>"
  obtain e where e: "BlockHeader_serialize ?bh = Ok e" and len: "length e < 2 ^ 64"
    by (simp add: BlockHeader_serialize_def BlockHeader_default_def)
  from BlockHeader_roundtrip [OF e len] e show ?thesis by (auto simp: BlockHeader_default_def)
qed

text \<open>A header without a hash, without a parent hash or without a transaction count is never
  written: serializing it throws.\<close>

lemma BlockHeader_serialize_complete:
  "(\<exists>e. BlockHeader_serialize bh = Ok e) \<longleftrightarrow>
   bh_hash bh \<noteq> [] \<and> bh_prevHash bh \<noteq> [] \<and> bh_countTxs bh \<noteq> None"
  by (auto simp: BlockHeader_serialize_def CHECK_def split: option.splits)

text \<open>The status of a transaction (delegation, undelegation, script result) is read back as it was
  written, over all alternatives of the variant.\<close>

lemma TransactionStatus_roundtrip:
  assumes "transactionStatus_wf ts" and "TransactionStatus_serialize ts = Ok e" and "length e < 2 ^ 64"
  shows "TransactionStatus_deserialize e = Ok ts"
  using encodes_whole [OF encodes_TransactionStatus [OF assms(1,2)] assms(3)]
  by (simp add: TransactionStatus_deserialize_def)

lemma TransactionStatus_roundtrip_example:
  "\<exists>e. TransactionStatus_serialize \<lparr>ts_isSuccess = True, ts_transaction = ''t'', ts_blockNumber = 5,
       ts_status = UnDelegate \<lparr>ud_value = 9, delegateHash = ''d''\<rparr>\<rparr> = Ok e \<and>
     TransactionStatus_deserialize e = Ok \<lparr>ts_isSuccess = True, ts_transaction = ''t'', ts_blockNumber = 5,
       ts_status = UnDelegate \<lparr>ud_value = 9, delegateHash = ''d''\<rparr>\<rparr>"
proof -
  let ?ts = "\<lparr>ts_isSuccess = True, ts_transaction = ''t'', ts_blockNumber = 5,
    ts_status = UnDelegate \<lparr>ud_value = 9, delegateHash = ''d''\<rparr>\<rparr>"
  obtain e where e: "TransactionStatus_serialize ?ts = Ok e" and len: "length e < 2 ^ 64"
    by (simp add: TransactionStatus_serialize_def txStatus_index_def UnDelegate_serialize_def)
  have "transactionStatus_wf ?ts" by (simp add: transactionStatus_wf_def)
  from TransactionStatus_roundtrip [OF this e len] e show ?thesis by auto
qed

text \<open>The records of the address history, of transactions, of the parsed files and of the workers'
  progress are read back from their stored form; of a transaction the place in the files and the
  block number are kept.\<close>

lemma stored_records_roundtrip:
  "(length (AddressInfo_serialize ai) < 2 ^ 64 \<longrightarrow> AddressInfo_deserialize (AddressInfo_serialize ai) = Ok ai) \<and>
   (length (TransactionInfo_serialize ti) < 2 ^ 64 \<longrightarrow>
      TransactionInfo_deserialize (TransactionInfo_serialize ti) =
        Ok (TransactionInfo_default\<lparr>ti_filePos := ti_filePos ti, ti_blockNumber := ti_blockNumber ti\<rparr>)) \<and>
   (length (FileInfo_serialize fi) < 2 ^ 64 \<longrightarrow> FileInfo_deserialize (FileInfo_serialize fi) = Ok fi) \<and>
   (BlocksMetadata_serialize bm = Ok e \<and> length e < 2 ^ 64 \<longrightarrow> BlocksMetadata_deserialize e = Ok bm) \<and>
   (MainBlockInfo_serialize mb = Ok e' \<and> length e' < 2 ^ 64 \<longrightarrow> MainBlockInfo_deserialize e' = Ok mb)"
  using AddressInfo_deserialize_serialize [of ai] encodes_whole [OF encodes_TransactionInfo2, of ti]
    FileInfo_deserialize_serialize [of fi] BlocksMetadata_deserialize_serialize [of bm e]
    MainBlockInfo_deserialize_serialize [of mb e']
  by (simp add: TransactionInfo_deserialize_def)

lemma stored_records_roundtrip_example:
  "AddressInfo_deserialize (AddressInfo_serialize \<lparr>ai_filePos = \<lparr>fp_pos = 1, fp_fileName = ''f''\<rparr>,
      ai_blockNumber = 2, ai_undelegateValue = Some 3\<rparr>) =
   Ok \<lparr>ai_filePos = \<lparr>fp_pos = 1, fp_fileName = ''f''\<rparr>, ai_blockNumber = 2, ai_undelegateValue = Some 3\<rparr>"
proof -
  let ?ai = "\<lparr>ai_filePos = \<lparr>fp_pos = 1, fp_fileName = ''f''\<rparr>, ai_blockNumber = 2, ai_undelegateValue = Some 3\<rparr>"
  have "length (AddressInfo_serialize ?ai) < 2 ^ 64" by (simp add: AddressInfo_serialize_eq)
  then show ?thesis
    using stored_records_roundtrip [of ?ai TransactionInfo_default FileInfo_default BlocksMetadata_default
        "[]" MainBlockInfo_default "[]"] by blast
qed

end
