(* ===== verification/BlockChain.thy ===== *)
theory BlockChain
  imports BlockInfo
begin

text \<open>
  \<^verbatim>\<open>src/src/BlockChain.h\<close> and \<^verbatim>\<open>src/src/BlockChain.cpp\<close>: the in-memory chain. \<open>blocks\<close> is the
  \<open>unordered_map\<close> from hash to header, \<open>hashes\<close> the vector of the hashes of the main chain by
  block number. A reference to a stored header is its key. An operation that can throw after it
  has changed the object returns the changed object beside the error. Each operation runs under
  the object's mutex and is one step here.
\<close>

record blockChain =
  blocks :: "(string, blockHeader) fmap"
  hashes :: "string list"

definition GENESIS_BLOCK_HASH :: string where
  "GENESIS_BLOCK_HASH = replicate 64 (CHR ''0'')"

definition genesisBlock :: blockHeader where
  "genesisBlock = BlockHeader_default\<lparr>bh_hash := GENESIS_BLOCK_HASH, bh_blockNumber := Some 0\<rparr>"

definition BlockChain_initialize :: "blockChain \<Rightarrow> blockChain" where
  "BlockChain_initialize bc =
     bc\<lparr>blocks := fmupd GENESIS_BLOCK_HASH genesisBlock (blocks bc),
        hashes := hashes bc @ [GENESIS_BLOCK_HASH]\<rparr>"

definition BlockChain_new :: blockChain where
  "BlockChain_new = BlockChain_initialize \<lparr>blocks = fmempty, hashes = []\<rparr>"

definition addWithoutCalc :: "blockChain \<Rightarrow> blockHeader \<Rightarrow> (blockChain \<times> bool) res" where
  "addWithoutCalc bc block =
     rbind (CHECK (bh_hash block \<noteq> []) ''Empty block hash'') (\<lambda>_.
     let exist = (fmlookup (blocks bc) (bh_hash block) \<noteq> None)
     in Ok (if \<not> exist then bc\<lparr>blocks := fmupd (bh_hash block) block (blocks bc)\<rparr> else bc, exist))"

definition removeBlock :: "blockChain \<Rightarrow> blockHeader \<Rightarrow> blockChain res" where
  "removeBlock bc block =
     rbind (CHECK (bh_hash block \<noteq> []) ''Empty block hash'') (\<lambda>_.
     Ok (bc\<lparr>blocks := fmdrop (bh_hash block) (blocks bc)\<rparr>))"

text \<open>The backward walk of \<open>calcBlockchain\<close>: every header without a number gets its distance from
  the start, until a numbered header is met or the parent is not stored. The second argument is
  the key of the header the reference \<open>bh\<close> denotes. The walk ends because each round numbers one
  more header.\<close>

definition unnumbered :: "(string, blockHeader) fmap \<Rightarrow> string set" where
  "unnumbered m = {k. \<exists>bh. fmlookup m k = Some bh \<and> bh_blockNumber bh = None}"

lemma finite_unnumbered: "finite (unnumbered m)"
  by (rule finite_subset [of _ "fmdom' m"]) (auto simp: unnumbered_def intro: fmdom'I)

function calc_walk ::
    "(string, blockHeader) fmap \<Rightarrow> string \<Rightarrow> size_t \<Rightarrow> string list \<Rightarrow>
     (string, blockHeader) fmap \<times> string \<times> size_t \<times> string list \<times> unit res" where
  "calc_walk m key currNum processed =
     (case fmlookup m key of
        None \<Rightarrow> (m, key, currNum, processed, Err Undefined)
      | Some bh \<Rightarrow>
          if bh_blockNumber bh \<noteq> None then (m, key, currNum, processed, Ok ())
          else
            let m = fmupd key (bh\<lparr>bh_blockNumber := Some currNum\<rparr>) m;
                processed = processed @ [key];
                currNum = currNum + 1;
                prevHash = bh_prevHash bh
            in if prevHash = [] then
                 (m, key, currNum, processed, Err (Exception ''Empty block hash''))
               else if fmlookup m prevHash = None then (m, key, currNum, processed, Ok ())
               else calc_walk m prevHash currNum processed)"
  by pat_completeness auto
termination
proof (relation "measure (\<lambda>(m, key, currNum, processed). card (unnumbered m))", goal_cases)
  case (2 m key currNum processed bh m' processed' currNum' prevHash)
  have "unnumbered m' = unnumbered m - {key}" and "key \<in> unnumbered m"
    using 2 by (auto simp: unnumbered_def)
  then have "card (unnumbered m') < card (unnumbered m)"
    by (metis card_Diff1_less finite_unnumbered)
  then show ?case by simp
qed simp

declare calc_walk.simps [simp del]

text \<open>The renumbering loop over \<open>processedBlocks\<close> from the back.\<close>

fun calc_assign :: "size_t \<Rightarrow> string list \<Rightarrow> blockChain \<Rightarrow> blockChain \<times> unit res" where
  "calc_assign allNum [] bc = (bc, Ok ())"
| "calc_assign allNum (k # ks) bc =
     (case fmlookup (blocks bc) k of
        None \<Rightarrow> (bc, Err Undefined)
      | Some bh \<Rightarrow>
          (case bh_blockNumber bh of
             None \<Rightarrow> (bc, Err (StdException ''bad_optional_access''))
           | Some n \<Rightarrow>
               let bh = bh\<lparr>bh_blockNumber := Some (allNum - n)\<rparr>;
                   bc = bc\<lparr>blocks := fmupd k bh (blocks bc)\<rparr>
               in if allNum - n = size_of (hashes bc)
                  then calc_assign allNum ks (bc\<lparr>hashes := hashes bc @ [bh_hash bh]\<rparr>)
                  else (bc, Err (Exception ''Ups''))))"

fun calc_reset :: "string list \<Rightarrow> (string, blockHeader) fmap \<Rightarrow> (string, blockHeader) fmap" where
  "calc_reset [] m = m"
| "calc_reset (k # ks) m =
     (case fmlookup m k of
        None \<Rightarrow> calc_reset ks m
      | Some bh \<Rightarrow> calc_reset ks (fmupd k (bh\<lparr>bh_blockNumber := None\<rparr>) m))"

definition calcBlockchain :: "blockChain \<Rightarrow> string \<Rightarrow> blockChain \<times> size_t res" where
  "calcBlockchain bc lastHash =
     (if lastHash = [] then (bc, Err (Exception ''Empty block hash''))
      else if fmlookup (blocks bc) lastHash = None then
        (bc, Err (Exception (''Hash '' @ lastHash @ '' dont append to blockchain'')))
      else
        (case calc_walk (blocks bc) lastHash 0 [] of
           (m, key, currNum, processed, Inl e) \<Rightarrow> (bc\<lparr>blocks := m\<rparr>, Err e)
         | (m, key, currNum, processed, Inr _) \<Rightarrow>
             (case bh_blockNumber (the (fmlookup m key)) of
                Some n \<Rightarrow>
                  let allNum = currNum + n
                  in (case calc_assign allNum (rev processed) (bc\<lparr>blocks := m\<rparr>) of
                        (bc, Inl e) \<Rightarrow> (bc, Err e)
                      | (bc, Inr _) \<Rightarrow> (bc, Ok allNum))
              | None \<Rightarrow> (bc\<lparr>blocks := calc_reset processed m\<rparr>, Ok 0))))"

text \<open>\<open>addBlock\<close> undoes the insertion when a check of \<open>calcBlockchain\<close> throws, and rethrows.\<close>

definition addBlock :: "blockChain \<Rightarrow> blockHeader \<Rightarrow> blockChain \<times> size_t res" where
  "addBlock bc block =
     (case addWithoutCalc bc block of
        Inl e \<Rightarrow> (bc, Err e)
      | Inr (bc, found) \<Rightarrow>
          if found then (bc, Err (Exception (''Block '' @ bh_hash block @ '' already exist'')))
          else
            (case calcBlockchain bc (bh_hash block) of
               (bc, Inr n) \<Rightarrow> (bc, Ok n)
             | (bc, Inl (Exception msg)) \<Rightarrow>
                 (case removeBlock bc block of
                    Inl e \<Rightarrow> (bc, Err e)
                  | Inr bc \<Rightarrow> (bc, Err (Exception msg)))
             | (bc, Inl e) \<Rightarrow> (bc, Err e)))"

definition getBlockImpl_hash :: "blockChain \<Rightarrow> string \<Rightarrow> blockHeader" where
  "getBlockImpl_hash bc hash =
     (case fmlookup (blocks bc) hash of None \<Rightarrow> BlockHeader_default | Some bh \<Rightarrow> bh)"

definition getBlock_hash :: "blockChain \<Rightarrow> string \<Rightarrow> blockHeader res" where
  "getBlock_hash bc hash =
     rbind (CHECK (hash \<noteq> []) ''Empty block hash'') (\<lambda>_. Ok (getBlockImpl_hash bc hash))"

definition getBlockImpl_number :: "blockChain \<Rightarrow> size_t \<Rightarrow> blockHeader" where
  "getBlockImpl_number bc blockNumber =
     (if size_of (hashes bc) \<le> blockNumber then BlockHeader_default
      else getBlockImpl_hash bc (hashes bc ! unat blockNumber))"

definition getBlock_number :: "blockChain \<Rightarrow> size_t \<Rightarrow> blockHeader" where
  "getBlock_number bc blockNumber = getBlockImpl_number bc blockNumber"

definition getLastBlock :: "blockChain \<Rightarrow> blockHeader" where
  "getLastBlock bc = getBlockImpl_number bc (size_of (hashes bc) - 1)"

definition countBlocks :: "blockChain \<Rightarrow> size_t" where
  "countBlocks bc = size_of (hashes bc) - 1"

definition BlockChain_clear :: "blockChain \<Rightarrow> blockChain" where
  "BlockChain_clear bc = BlockChain_initialize (bc\<lparr>blocks := fmempty, hashes := []\<rparr>)"

section \<open>Numbering as a map update\<close>

text \<open>\<open>number_with f m\<close> gives every stored header in the domain of \<open>f\<close> the number \<open>f\<close> says. Both
  loops of \<open>calcBlockchain\<close> are such updates.\<close>

definition number_with ::
    "(string \<rightharpoonup> size_t) \<Rightarrow> (string, blockHeader) fmap \<Rightarrow> (string, blockHeader) fmap" where
  "number_with f m =
     fmmap_keys (\<lambda>k bh. case f k of None \<Rightarrow> bh | Some n \<Rightarrow> bh\<lparr>bh_blockNumber := Some n\<rparr>) m"

lemma lookup_number_with:
  "fmlookup (number_with f m) k =
     map_option (\<lambda>bh. case f k of None \<Rightarrow> bh | Some n \<Rightarrow> bh\<lparr>bh_blockNumber := Some n\<rparr>) (fmlookup m k)"
  by (simp add: number_with_def)

lemma lookup_number_with_other: "f k = None \<Longrightarrow> fmlookup (number_with f m) k = fmlookup m k"
  by (simp add: lookup_number_with option.map_ident)

lemma lookup_number_withD:
  "fmlookup (number_with f m) k = Some bh \<Longrightarrow>
   \<exists>bh0. fmlookup m k = Some bh0 \<and> bh_hash bh = bh_hash bh0 \<and> bh_prevHash bh = bh_prevHash bh0"
  by (cases "f k") (auto simp: lookup_number_with)

lemma number_with_empty [simp]: "number_with Map.empty m = m"
  by (rule fmap_ext) (simp add: lookup_number_with option.map_ident)

lemma number_with_upd:
  "fmlookup m k = Some bh \<Longrightarrow>
   fmupd k (bh\<lparr>bh_blockNumber := Some n\<rparr>) m = number_with [k \<mapsto> n] m"
  by (rule fmap_ext) (auto simp: lookup_number_with option.map_ident)

lemma number_with_comp: "number_with f (number_with g m) = number_with (g ++ f) m"
  by (rule fmap_ext)
    (auto simp: lookup_number_with map_add_def option.map_comp comp_def
      split: option.splits intro!: option.map_cong)

lemma fmdom_number_with [simp]: "fmdom (number_with f m) = fmdom m"
  by (simp add: number_with_def)


lemma number_with_override: "dom g \<subseteq> dom f \<Longrightarrow> number_with f (number_with g m) = number_with f m"
proof -
  assume "dom g \<subseteq> dom f"
  then have "g ++ f = f"
    by (auto simp: fun_eq_iff map_add_def split: option.splits)
  then show ?thesis by (simp add: number_with_comp)
qed

definition nums :: "size_t \<Rightarrow> nat \<Rightarrow> size_t list" where
  "nums c n = map (\<lambda>i. c + of_nat i) [0..<n]"

lemma length_nums [simp]: "length (nums c n) = n"
  by (simp add: nums_def)

lemma nums_0 [simp]: "nums c 0 = []"
  by (simp add: nums_def)

lemma nums_Suc: "nums c (Suc n) = c # nums (c + 1) n"
  by (simp add: nums_def upt_rec [of 0] map_Suc_upt [symmetric] comp_def algebra_simps del: upt_Suc)

lemma map_of_zip_nums_Cons:
  assumes "k \<notin> set ks"
  shows "[k \<mapsto> c] ++ map_of (zip ks (nums (c + 1) (length ks))) =
    map_of (zip (k # ks) (nums c (length (k # ks))))"
proof -
  have "dom [k \<mapsto> c] \<inter> dom (map_of (zip ks (nums (c + 1) (length ks)))) = {}"
    using assms by (simp add: dom_map_of_zip)
  then have "[k \<mapsto> c] ++ map_of (zip ks (nums (c + 1) (length ks))) =
      map_of (zip ks (nums (c + 1) (length ks))) ++ [k \<mapsto> c]"
    by (rule map_add_comm)
  then show ?thesis by (simp add: nums_Suc)
qed

section \<open>The two loops on a linked path\<close>

text \<open>\<open>links m ks base\<close>: the keys \<open>ks\<close>, newest first, are different stored headers without a
  number, each of which names the next one, and the oldest \<open>base\<close>, as its parent.\<close>

fun links :: "(string, blockHeader) fmap \<Rightarrow> string list \<Rightarrow> string \<Rightarrow> bool" where
  "links m [] base \<longleftrightarrow> True"
| "links m (k # ks) base \<longleftrightarrow>
     (case fmlookup m k of
        None \<Rightarrow> False
      | Some bh \<Rightarrow> bh_blockNumber bh = None \<and> bh_prevHash bh = hd (ks @ [base])) \<and>
     k \<notin> set ks \<and> links m ks base"

lemma links_cong:
  "links m ks base \<Longrightarrow> (\<And>k. k \<in> set ks \<Longrightarrow> fmlookup m' k = fmlookup m k) \<Longrightarrow> links m' ks base"
  by (induction ks) auto

lemma links_distinct: "links m ks base \<Longrightarrow> distinct ks"
  by (induction ks) auto

lemma links_unnumbered:
  "links m ks base \<Longrightarrow> k \<in> set ks \<Longrightarrow> \<exists>bh. fmlookup m k = Some bh \<and> bh_blockNumber bh = None"
  by (induction ks) (auto split: option.splits)

lemma calc_walk_links:
  assumes "links m ks base" and "fmlookup m base = Some bb" and "bh_blockNumber bb = Some n"
    and "[] \<notin> set ks" and "base \<noteq> []"
  shows "calc_walk m (hd (ks @ [base])) c ps =
    (number_with (map_of (zip ks (nums c (length ks)))) m, base, c + of_nat (length ks), ps @ ks, Ok ())"
  using assms
proof (induction ks arbitrary: m c ps)
  case Nil
  then show ?case by (simp add: calc_walk.simps [of m base])
next
  case (Cons k ks)
  from Cons.prems(1) obtain bh where bh: "fmlookup m k = Some bh" "bh_blockNumber bh = None"
    "bh_prevHash bh = hd (ks @ [base])" and k: "k \<notin> set ks" and lk: "links m ks base"
    by (auto split: option.splits)
  have kb: "k \<noteq> base" using bh Cons.prems(2,3) by auto
  define m' where "m' = fmupd k (bh\<lparr>bh_blockNumber := Some c\<rparr>) m"
  have m': "m' = number_with [k \<mapsto> c] m"
    using bh by (simp add: m'_def number_with_upd)
  have lk': "links m' ks base"
    by (rule links_cong [OF lk]) (use k in \<open>auto simp: m'_def\<close>)
  have b': "fmlookup m' base = Some bb" using kb Cons.prems(2) by (simp add: m'_def)
  have "hd (ks @ [base]) \<in> insert base (set ks)" by (cases ks) simp_all
  then have prev: "hd (ks @ [base]) \<noteq> []" "fmlookup m' (hd (ks @ [base])) \<noteq> None"
    using Cons.prems(4,5) links_unnumbered [OF lk'] b' by fastforce+
  have IH: "calc_walk m' (hd (ks @ [base])) (c + 1) (ps @ [k]) =
    (number_with (map_of (zip ks (nums (c + 1) (length ks)))) m', base,
     c + 1 + of_nat (length ks), (ps @ [k]) @ ks, Ok ())"
  proof (rule Cons.IH [OF lk' b'])
    show "[] \<notin> set ks" using Cons.prems(4) by simp
  qed (fact Cons.prems)+
  have "number_with (map_of (zip ks (nums (c + 1) (length ks)))) m' =
      number_with (map_of (zip (k # ks) (nums c (length (k # ks))))) m"
    by (simp only: m' number_with_comp map_of_zip_nums_Cons [OF k])
  then show ?case
    using bh prev IH by (auto simp: calc_walk.simps [of m k] Let_def m'_def add.assoc)
qed

lemma calc_assign_run:
  assumes "distinct ks"
    and "\<forall>i<length ks. \<exists>bh n. fmlookup (blocks bc) (ks ! i) = Some bh \<and> bh_blockNumber bh = Some n \<and>
      allNum - n = size_of (hashes bc) + of_nat i \<and> bh_hash bh = ks ! i"
  shows "calc_assign allNum ks bc =
    (bc\<lparr>blocks := number_with (map_of (zip ks (nums (size_of (hashes bc)) (length ks)))) (blocks bc),
        hashes := hashes bc @ ks\<rparr>, Ok ())"
  using assms
proof (induction ks arbitrary: bc)
  case Nil
  then show ?case by simp
next
  case (Cons k ks)
  let ?h = "size_of (hashes bc)"
  obtain bh n where bh: "fmlookup (blocks bc) k = Some bh" "bh_blockNumber bh = Some n"
    "allNum - n = ?h" "bh_hash bh = k"
    using Cons.prems(2) [rule_format, of 0] by auto
  define bc' where "bc' = bc\<lparr>blocks := fmupd k (bh\<lparr>bh_blockNumber := Some ?h\<rparr>) (blocks bc),
    hashes := hashes bc @ [k]\<rparr>"
  have b': "blocks bc' = number_with [k \<mapsto> ?h] (blocks bc)"
    using bh by (simp add: bc'_def number_with_upd)
  have h': "size_of (hashes bc') = ?h + 1" by (simp add: bc'_def size_of_def)
  have pre: "\<forall>i<length ks. \<exists>bh n. fmlookup (blocks bc') (ks ! i) = Some bh \<and> bh_blockNumber bh = Some n \<and>
      allNum - n = size_of (hashes bc') + of_nat i \<and> bh_hash bh = ks ! i"
  proof (intro allI impI)
    fix i assume i: "i < length ks"
    have "ks ! i \<noteq> k" using Cons.prems(1) i by auto
    then show "\<exists>bh n. fmlookup (blocks bc') (ks ! i) = Some bh \<and> bh_blockNumber bh = Some n \<and>
      allNum - n = size_of (hashes bc') + of_nat i \<and> bh_hash bh = ks ! i"
      using Cons.prems(2) [rule_format, of "Suc i"] i h' by (simp add: bc'_def algebra_simps)
  qed
  have IH: "calc_assign allNum ks bc' =
    (bc'\<lparr>blocks := number_with (map_of (zip ks (nums (?h + 1) (length ks)))) (blocks bc'),
         hashes := hashes bc' @ ks\<rparr>, Ok ())"
    using Cons.IH [OF _ pre] Cons.prems(1) h' by simp
  have k: "k \<notin> set ks" using Cons.prems(1) by simp
  have eq: "number_with (map_of (zip ks (nums (?h + 1) (length ks)))) (blocks bc') =
      number_with (map_of (zip (k # ks) (nums ?h (length (k # ks))))) (blocks bc)"
    by (simp only: b' number_with_comp map_of_zip_nums_Cons [OF k])
  have "calc_assign allNum (k # ks) bc = calc_assign allNum ks bc'"
    using bh by (simp add: Let_def bc'_def)
  also have "\<dots> = (bc\<lparr>blocks := number_with (map_of (zip (k # ks) (nums ?h (length (k # ks))))) (blocks bc),
        hashes := hashes bc @ k # ks\<rparr>, Ok ())"
    unfolding IH eq by (simp add: bc'_def)
  finally show ?case .
qed

section \<open>Numbering a stored branch\<close>

definition keyed :: "blockChain \<Rightarrow> bool" where
  "keyed bc \<longleftrightarrow> fmpred (\<lambda>k bh. bh_hash bh = k \<and> k \<noteq> []) (blocks bc)"

lemma keyed_iff:
  "keyed bc \<longleftrightarrow> (\<forall>k bh. fmlookup (blocks bc) k = Some bh \<longrightarrow> bh_hash bh = k \<and> k \<noteq> [])"
  by (simp add: keyed_def fmpred_iff)

lemma keyedD: "keyed bc \<Longrightarrow> fmlookup (blocks bc) k = Some bh \<Longrightarrow> bh_hash bh = k \<and> k \<noteq> []"
  by (auto simp: keyed_def dest: fmpredD)

text \<open>The outcome of numbering the keys \<open>ks\<close> (oldest first) behind the current end of the chain.\<close>

definition append_chain :: "string list \<Rightarrow> blockChain \<Rightarrow> blockChain" where
  "append_chain ks bc =
     bc\<lparr>blocks := number_with (map_of (zip ks (nums (size_of (hashes bc)) (length ks)))) (blocks bc),
        hashes := hashes bc @ ks\<rparr>"

lemma nth_map_of_zip: "distinct ks \<Longrightarrow> length vs = length ks \<Longrightarrow> i < length ks \<Longrightarrow>
    map_of (zip ks vs) (ks ! i) = Some (vs ! i)"
  by (simp add: map_of_zip_nth)

lemma nth_nums [simp]: "i < n \<Longrightarrow> nums c n ! i = c + of_nat i"
  by (simp add: nums_def)

lemma calcBlockchain_links:
  assumes lk: "links (blocks bc) ks base" and bb: "fmlookup (blocks bc) base = Some bb"
    and n: "bh_blockNumber bb = Some n" "n + 1 = size_of (hashes bc)" and key: "keyed bc"
  shows "calcBlockchain bc (hd (ks @ [base])) = (append_chain (rev ks) bc, Ok (n + of_nat (length ks)))"
proof -
  let ?f = "map_of (zip ks (nums 0 (length ks)))" and ?N = "of_nat (length ks) + n"
  let ?m = "number_with ?f (blocks bc)"
  have ne: "[] \<notin> set ks" "base \<noteq> []"
    using links_unnumbered [OF lk] keyedD [OF key] bb by fastforce+
  have start: "hd (ks @ [base]) \<noteq> []" "fmlookup (blocks bc) (hd (ks @ [base])) \<noteq> None"
    using ne links_unnumbered [OF lk] bb by (cases ks; fastforce)+
  have walk: "calc_walk (blocks bc) (hd (ks @ [base])) 0 [] = (?m, base, of_nat (length ks), ks, Ok ())"
    using calc_walk_links [OF lk bb n(1) ne, of 0 "[]"] by simp
  have "base \<notin> set ks" using links_unnumbered [OF lk, of base] bb n by auto
  then have "?f base = None" by (metis dom_map_of_zip domIff length_nums)
  then have mb: "fmlookup ?m base = Some bb" using bb by (rule lookup_number_with_other [THEN trans])
  have "\<forall>i<length (rev ks). \<exists>bh j. fmlookup ?m (rev ks ! i) = Some bh \<and>
      bh_blockNumber bh = Some j \<and> ?N - j = size_of (hashes bc) + of_nat i \<and> bh_hash bh = rev ks ! i"
  proof (intro allI impI)
    fix i assume i: "i < length (rev ks)"
    let ?j = "length ks - Suc i"
    have r: "rev ks ! i = ks ! ?j" "?j < length ks" using i by (simp_all add: rev_nth)
    obtain bh where bh: "fmlookup (blocks bc) (ks ! ?j) = Some bh" "bh_hash bh = ks ! ?j"
      using links_unnumbered [OF lk, of "ks ! ?j"] keyedD [OF key] r(2) by fastforce
    have "?f (ks ! ?j) = Some (of_nat ?j)"
      using nth_map_of_zip [OF links_distinct [OF lk], of "nums 0 (length ks)" ?j] r(2) by simp
    moreover have "?N - of_nat ?j = size_of (hashes bc) + of_nat i"
      using i by (simp add: of_nat_diff n(2) [symmetric] algebra_simps)
    ultimately show "\<exists>bh j. fmlookup ?m (rev ks ! i) = Some bh \<and> bh_blockNumber bh = Some j \<and>
        ?N - j = size_of (hashes bc) + of_nat i \<and> bh_hash bh = rev ks ! i"
      by (simp add: lookup_number_with r(1) bh)
  qed
  then have "calc_assign ?N (rev ks) (bc\<lparr>blocks := ?m\<rparr>) = (append_chain (rev ks) (bc\<lparr>blocks := ?m\<rparr>), Ok ())"
    using calc_assign_run [of "rev ks" "bc\<lparr>blocks := ?m\<rparr>" ?N] links_distinct [OF lk]
    by (simp add: append_chain_def)
  moreover have "append_chain (rev ks) (bc\<lparr>blocks := ?m\<rparr>) = append_chain (rev ks) bc"
    by (simp add: append_chain_def number_with_override dom_map_of_zip)
  ultimately show ?thesis
    using start walk mb n(1) by (simp add: calcBlockchain_def Let_def add.commute)
qed

section \<open>The invariant of the chain\<close>

text \<open>\<open>chain_ok\<close>: \<open>hashes\<close> lists different stored headers, each under its own hash and numbered with
  its position, and a numbered header stands at its number. \<open>settled\<close>: moreover every stored
  header is on the chain, as it is once the stored branch has been numbered.\<close>

definition chain_ok :: "blockChain \<Rightarrow> bool" where
  "chain_ok bc \<longleftrightarrow>
     keyed bc \<and> hashes bc \<noteq> [] \<and> distinct (hashes bc) \<and> length (hashes bc) < 2 ^ 64 \<and>
     (\<forall>i<length (hashes bc). \<exists>bh. fmlookup (blocks bc) (hashes bc ! i) = Some bh \<and>
        bh_blockNumber bh = Some (of_nat i)) \<and>
     fmpred (\<lambda>k bh. case bh_blockNumber bh of
        None \<Rightarrow> True | Some n \<Rightarrow> unat n < length (hashes bc) \<and> hashes bc ! unat n = k) (blocks bc)"

definition settled :: "blockChain \<Rightarrow> bool" where
  "settled bc \<longleftrightarrow> chain_ok bc \<and> fmdom' (blocks bc) = set (hashes bc)"

lemma chain_ok_keyed: "chain_ok bc \<Longrightarrow> keyed bc"
  by (simp add: chain_ok_def)

lemma chain_ok_nth:
  assumes "chain_ok bc" and "i < length (hashes bc)"
  obtains bh where "fmlookup (blocks bc) (hashes bc ! i) = Some bh"
    and "bh_blockNumber bh = Some (of_nat i)" and "bh_hash bh = hashes bc ! i"
proof -
  from assms obtain bh where "fmlookup (blocks bc) (hashes bc ! i) = Some bh"
    "bh_blockNumber bh = Some (of_nat i)"
    unfolding chain_ok_def by blast
  then show thesis using that keyedD [OF chain_ok_keyed [OF assms(1)]] by blast
qed

lemma chain_ok_number:
  assumes "chain_ok bc" and "fmlookup (blocks bc) k = Some bh" and "bh_blockNumber bh = Some n"
  shows "unat n < length (hashes bc)" and "hashes bc ! unat n = k"
  using assms by (auto simp: chain_ok_def dest!: fmpredD)

lemma settled_numbered:
  assumes "settled bc" and "fmlookup (blocks bc) k = Some bh"
  obtains n where "bh_blockNumber bh = Some n" and "unat n < length (hashes bc)"
    and "hashes bc ! unat n = k"
proof -
  have ok: "chain_ok bc" using assms(1) by (simp add: settled_def)
  have "k \<in> set (hashes bc)" using assms by (auto simp: settled_def intro: fmdom'I)
  then obtain i where i: "i < length (hashes bc)" "hashes bc ! i = k" by (auto simp: in_set_conv_nth)
  then have n: "bh_blockNumber bh = Some (of_nat i)"
    using chain_ok_nth [OF ok i(1)] assms(2) by auto
  show thesis using that [OF n] chain_ok_number [OF ok assms(2) n] by simp
qed

lemma chain_ok_new [simp]: "chain_ok BlockChain_new"
  by (simp add: chain_ok_def keyed_def BlockChain_new_def BlockChain_initialize_def genesisBlock_def
      GENESIS_BLOCK_HASH_def fmpred_iff)

lemma settled_new [simp]: "settled BlockChain_new"
  by (simp add: settled_def) (simp add: BlockChain_new_def BlockChain_initialize_def)

lemma BlockChain_clear_new: "BlockChain_clear bc = BlockChain_new"
  by (simp add: BlockChain_clear_def BlockChain_new_def BlockChain_initialize_def)

text \<open>Appending numbered blocks behind the end keeps the invariant.\<close>

lemma keyed_append_chain [simp]: "keyed bc \<Longrightarrow> keyed (append_chain ks bc)"
  unfolding keyed_iff append_chain_def by simp (metis lookup_number_withD)

lemma append_chain_lookup_old:
  "k \<notin> set ks \<Longrightarrow> fmlookup (blocks (append_chain ks bc)) k = fmlookup (blocks bc) k"
  unfolding append_chain_def
  by (simp, rule lookup_number_with_other) (metis dom_map_of_zip domIff length_nums)

lemma append_chain_lookup_new:
  assumes "distinct ks" and "i < length ks" and "fmlookup (blocks bc) (ks ! i) = Some bh"
  shows "fmlookup (blocks (append_chain ks bc)) (ks ! i) =
    Some (bh\<lparr>bh_blockNumber := Some (size_of (hashes bc) + of_nat i)\<rparr>)"
  using assms nth_map_of_zip [OF assms(1), of "nums (size_of (hashes bc)) (length ks)" i]
  by (simp add: append_chain_def lookup_number_with)

lemma chain_ok_append_chain:
  assumes ok: "chain_ok bc" and ks: "distinct ks" "set ks \<inter> set (hashes bc) = {}"
    and stored: "set ks \<subseteq> fmdom' (blocks bc)" and room: "length (hashes bc) + length ks < 2 ^ 64"
  shows "chain_ok (append_chain ks bc)"
proof -
  let ?bc = "append_chain ks bc" and ?n = "length (hashes bc)"
  have h: "hashes ?bc = hashes bc @ ks" by (simp add: append_chain_def)
  have num: "\<exists>bh. fmlookup (blocks ?bc) (hashes ?bc ! i) = Some bh \<and> bh_blockNumber bh = Some (of_nat i)"
    if "i < length (hashes ?bc)" for i
  proof (cases "i < ?n")
    case True
    then have "hashes bc ! i \<notin> set ks" using ks(2) nth_mem [OF True] by auto
    then show ?thesis
      using chain_ok_nth [OF ok True] True by (auto simp: h nth_append append_chain_lookup_old)
  next
    case False
    then have i: "i - ?n < length ks" using that by (simp add: h)
    then obtain bh where "fmlookup (blocks bc) (ks ! (i - ?n)) = Some bh"
      using stored nth_mem [OF i] by (metis fmlookup_dom'_iff subsetD)
    from append_chain_lookup_new [OF ks(1) i this] False show ?thesis
      by (auto simp: h nth_append size_of_def simp flip: of_nat_add)
  qed
  have pos: "unat n < length (hashes ?bc) \<and> hashes ?bc ! unat n = k"
    if k: "fmlookup (blocks ?bc) k = Some bh" "bh_blockNumber bh = Some n" for k bh n
  proof (cases "k \<in> set ks")
    case True
    then obtain i where i: "i < length ks" "ks ! i = k" by (auto simp: in_set_conv_nth)
    with num [of "?n + i"] k have "n = of_nat (?n + i)" by (auto simp: h nth_append)
    then have "unat n = ?n + i" using room i by (simp add: unat_of_nat_u64 del: of_nat_add)
    with i show ?thesis by (simp add: h nth_append)
  next
    case False
    then show ?thesis
      using k chain_ok_number [OF ok] by (fastforce simp: h nth_append append_chain_lookup_old)
  qed
  show ?thesis
    unfolding chain_ok_def
  proof (intro conjI fmpredI)
    show "case bh_blockNumber bh of None \<Rightarrow> True
        | Some n \<Rightarrow> unat n < length (hashes ?bc) \<and> hashes ?bc ! unat n = k"
      if "fmlookup (blocks ?bc) k = Some bh" for k bh
      using pos [OF that] by (simp split: option.split)
  qed (use ok ks room num in \<open>auto simp: h chain_ok_def\<close>)
qed

section \<open>Adding one block\<close>

text \<open>What \<open>addBlock\<close> promises on a chain whose stored headers are all numbered: the block goes to
  the end exactly when it names the last block as its parent; a block whose parent is not stored
  is taken only as the first block behind the genesis block. Everything else is refused and leaves
  the object as it was.\<close>

definition accepts :: "blockChain \<Rightarrow> blockHeader \<Rightarrow> bool" where
  "accepts bc b \<longleftrightarrow>
     (if bh_prevHash b \<in> set (hashes bc) then bh_prevHash b = last (hashes bc)
      else length (hashes bc) = 1)"

definition push_block :: "blockChain \<Rightarrow> blockHeader \<Rightarrow> blockChain" where
  "push_block bc b =
     bc\<lparr>blocks := fmupd (bh_hash b) (b\<lparr>bh_blockNumber := Some (size_of (hashes bc))\<rparr>) (blocks bc),
        hashes := hashes bc @ [bh_hash b]\<rparr>"

definition addBlock_spec :: "blockChain \<Rightarrow> blockHeader \<Rightarrow> blockChain \<times> size_t res" where
  "addBlock_spec bc b =
     (if bh_hash b = [] then (bc, Err (Exception ''Empty block hash''))
      else if bh_hash b \<in> set (hashes bc) then
        (bc, Err (Exception (''Block '' @ bh_hash b @ '' already exist'')))
      else if bh_prevHash b = [] then (bc, Err (Exception ''Empty block hash''))
      else if accepts bc b then (push_block bc b, Ok (size_of (hashes bc)))
      else (bc, Err (Exception ''Ups'')))"

lemma settled_stored_iff: "settled bc \<Longrightarrow> fmlookup (blocks bc) k \<noteq> None \<longleftrightarrow> k \<in> set (hashes bc)"
  by (auto simp: settled_def simp flip: fmlookup_dom'_iff)

lemma settled_tip_iff:
  assumes "settled bc" and "fmlookup (blocks bc) k = Some bh" and "bh_blockNumber bh = Some n"
  shows "n + 1 = size_of (hashes bc) \<longleftrightarrow> k = last (hashes bc)"
proof -
  have ok: "chain_ok bc" using assms(1) by (simp add: settled_def)
  let ?l = "length (hashes bc)"
  have i: "unat n < ?l" "hashes bc ! unat n = k" by (fact chain_ok_number [OF ok assms(2,3)])+
  have h: "hashes bc \<noteq> []" "distinct (hashes bc)" "?l < 2 ^ 64" using ok by (simp_all add: chain_ok_def)
  have "n + 1 = size_of (hashes bc) \<longleftrightarrow> unat n + 1 = ?l"
    using of_nat_u64_inj [of "unat n + 1" ?l] i(1) h(3) by (simp add: size_of_def add.commute)
  also have "\<dots> \<longleftrightarrow> k = last (hashes bc)"
    using i h by (auto simp: last_conv_nth nth_eq_iff_index_eq simp flip: i(2))
  finally show ?thesis .
qed

text \<open>The walk from a block just inserted over numbered headers is one step long; \<open>n\<close> is the number
  the walk ends on.\<close>

lemma calcBlockchain_single:
  assumes "fmlookup (blocks bc) h = None" and "h \<noteq> []" and "bh_hash b = h"
    and "bh_blockNumber b = None" and "bh_prevHash b \<noteq> []"
    and n: "n = (case fmlookup (blocks bc) (bh_prevHash b) of
        None \<Rightarrow> 0 | Some p \<Rightarrow> the (bh_blockNumber p))"
    and num: "\<And>p. fmlookup (blocks bc) (bh_prevHash b) = Some p \<Longrightarrow> bh_blockNumber p \<noteq> None"
  shows "calcBlockchain (bc\<lparr>blocks := fmupd h b (blocks bc)\<rparr>) h =
    (if n + 1 = size_of (hashes bc)
     then (bc\<lparr>blocks := fmupd h (b\<lparr>bh_blockNumber := Some (n + 1)\<rparr>) (blocks bc),
              hashes := hashes bc @ [h]\<rparr>, Ok (n + 1))
     else (bc\<lparr>blocks := fmupd h (b\<lparr>bh_blockNumber := Some (n + 1)\<rparr>) (blocks bc)\<rparr>, Err (Exception ''Ups'')))"
proof -
  let ?m = "fmupd h (b\<lparr>bh_blockNumber := Some 0\<rparr>) (blocks bc)"
  let ?base = "if fmlookup (blocks bc) (bh_prevHash b) = None then h else bh_prevHash b"
  have walk: "calc_walk (fmupd h b (blocks bc)) h 0 [] = (?m, ?base, 1, [h], Ok ())"
    using assms
    by (auto simp: calc_walk.simps [of "fmupd h b (blocks bc)"] calc_walk.simps [of ?m] Let_def)
  have base: "bh_blockNumber (the (fmlookup ?m ?base)) = Some n"
    using assms by (auto split: option.splits)
  have "calc_assign (n + 1) [h] (bc\<lparr>blocks := ?m\<rparr>) =
    (if n + 1 = size_of (hashes bc)
     then (bc\<lparr>blocks := fmupd h (b\<lparr>bh_blockNumber := Some (n + 1)\<rparr>) (blocks bc),
              hashes := hashes bc @ [h]\<rparr>, Ok ())
     else (bc\<lparr>blocks := fmupd h (b\<lparr>bh_blockNumber := Some (n + 1)\<rparr>) (blocks bc)\<rparr>, Err (Exception ''Ups'')))"
    using assms by (simp add: Let_def)
  then show ?thesis
    using assms(2) base by (simp add: calcBlockchain_def walk add.commute [of 1] Let_def)
qed

lemma accepts_iff:
  assumes set: "settled bc" and n: "n = (case fmlookup (blocks bc) (bh_prevHash b) of
        None \<Rightarrow> 0 | Some p \<Rightarrow> the (bh_blockNumber p))"
  shows "n + 1 = size_of (hashes bc) \<longleftrightarrow> accepts bc b"
proof (cases "fmlookup (blocks bc) (bh_prevHash b)")
  case None
  then have "bh_prevHash b \<notin> set (hashes bc)" using settled_stored_iff [OF set] by blast
  moreover have "1 = size_of (hashes bc) \<longleftrightarrow> length (hashes bc) = 1"
    using set of_nat_u64_inj [of 1 "length (hashes bc)"] by (auto simp: settled_def chain_ok_def size_of_def)
  ultimately show ?thesis using None n by (simp add: accepts_def)
next
  case (Some p)
  then have "bh_prevHash b \<in> set (hashes bc)" using settled_stored_iff [OF set] by blast
  moreover obtain k where "bh_blockNumber p = Some k" using settled_numbered [OF set Some] .
  ultimately show ?thesis using settled_tip_iff [OF set Some] n by (simp add: accepts_def Some)
qed

lemma addBlock_eq_spec:
  assumes set: "settled bc" and new: "bh_blockNumber b = None"
  shows "addBlock bc b = addBlock_spec bc b"
proof (cases "bh_hash b = [] \<or> bh_hash b \<in> set (hashes bc)")
  case True
  then show ?thesis
    using settled_stored_iff [OF set, of "bh_hash b"]
    by (auto simp: addBlock_def addBlock_spec_def addWithoutCalc_def Let_def)
next
  case False
  define bc' where "bc' = bc\<lparr>blocks := fmupd (bh_hash b) b (blocks bc)\<rparr>"
  have h: "bh_hash b \<noteq> []" "fmlookup (blocks bc) (bh_hash b) = None"
    using False settled_stored_iff [OF set, of "bh_hash b"] by auto
  then have add: "addWithoutCalc bc b = Ok (bc', False)"
    by (simp add: addWithoutCalc_def Let_def bc'_def)
  have drop: "fmdrop (bh_hash b) (fmupd (bh_hash b) x (blocks bc)) = blocks bc" for x
    using h(2) by (intro fmap_ext) auto
  show ?thesis
  proof (cases "bh_prevHash b = []")
    case True
    then have "calcBlockchain bc' (bh_hash b) =
        (bc\<lparr>blocks := fmupd (bh_hash b) (b\<lparr>bh_blockNumber := Some 0\<rparr>) (blocks bc)\<rparr>,
         Err (Exception ''Empty block hash''))"
      using h new by (simp add: calcBlockchain_def bc'_def calc_walk.simps [of "fmupd (bh_hash b) b (blocks bc)"])
    with True False h(1) show ?thesis
      by (simp add: addBlock_def addBlock_spec_def add removeBlock_def drop)
  next
    case pr: False
    define n where "n = (case fmlookup (blocks bc) (bh_prevHash b) of
        None \<Rightarrow> 0 | Some p \<Rightarrow> the (bh_blockNumber p))"
    have "bh_blockNumber p \<noteq> None" if "fmlookup (blocks bc) (bh_prevHash b) = Some p" for p
      using settled_numbered [OF set that] by auto
    note calc = calcBlockchain_single [OF h(2,1) refl new pr n_def this, folded bc'_def]
    note acc = accepts_iff [OF set n_def]
    show ?thesis
      using False h(1) pr acc
      by (auto simp: addBlock_def addBlock_spec_def add calc removeBlock_def drop push_block_def)
  qed
qed

text \<open>An accepted block keeps the chain settled, and all later blocks linked to their parents.\<close>

lemma push_block_append_chain:
  "bh_hash b \<notin> set (hashes bc) \<Longrightarrow>
   push_block bc b = append_chain [bh_hash b] (bc\<lparr>blocks := fmupd (bh_hash b) b (blocks bc)\<rparr>)"
  by (simp add: push_block_def append_chain_def nums_Suc flip: number_with_upd)

lemma chain_ok_insert:
  assumes "chain_ok bc" and "bh_hash b \<noteq> []" and "fmlookup (blocks bc) (bh_hash b) = None"
    and "bh_blockNumber b = None"
  shows "chain_ok (bc\<lparr>blocks := fmupd (bh_hash b) b (blocks bc)\<rparr>)"
proof -
  let ?bc = "bc\<lparr>blocks := fmupd (bh_hash b) b (blocks bc)\<rparr>"
  have "keyed ?bc" using assms(2) chain_ok_keyed [OF assms(1)] by (simp add: keyed_iff)
  moreover have "\<forall>i<length (hashes ?bc). \<exists>bh. fmlookup (blocks ?bc) (hashes ?bc ! i) = Some bh \<and>
      bh_blockNumber bh = Some (of_nat i)"
  proof (intro allI impI)
    fix i assume "i < length (hashes ?bc)"
    then have "i < length (hashes bc)" by simp
    then obtain bh where bh: "fmlookup (blocks bc) (hashes bc ! i) = Some bh"
      "bh_blockNumber bh = Some (of_nat i)" by (rule chain_ok_nth [OF assms(1)])
    with assms(3) have "bh_hash b \<noteq> hashes bc ! i" by auto
    with bh show "\<exists>bh. fmlookup (blocks ?bc) (hashes ?bc ! i) = Some bh \<and>
      bh_blockNumber bh = Some (of_nat i)" by simp
  qed
  moreover have "fmpred (\<lambda>k bh. case bh_blockNumber bh of None \<Rightarrow> True
      | Some n \<Rightarrow> unat n < length (hashes ?bc) \<and> hashes ?bc ! unat n = k) (blocks ?bc)"
    using assms(4) chain_ok_number [OF assms(1)] by (auto simp: fmpred_iff split: option.split)
  ultimately show ?thesis using assms(1) by (simp add: chain_ok_def)
qed

lemma settled_push_block:
  assumes set: "settled bc" and b: "bh_hash b \<noteq> []" "bh_hash b \<notin> set (hashes bc)" "bh_blockNumber b = None"
    and room: "length (hashes bc) + 1 < 2 ^ 64"
  shows "settled (push_block bc b)"
proof -
  let ?bc = "bc\<lparr>blocks := fmupd (bh_hash b) b (blocks bc)\<rparr>"
  have "chain_ok ?bc"
    using set b settled_stored_iff [OF set, of "bh_hash b"]
    by (intro chain_ok_insert) (auto simp: settled_def)
  then have "chain_ok (append_chain [bh_hash b] ?bc)"
    by (rule chain_ok_append_chain) (use b room in auto)
  with set b show ?thesis
    by (simp add: settled_def push_block_append_chain) (simp add: append_chain_def fmdom'_alt_def)
qed

definition linked :: "blockChain \<Rightarrow> bool" where
  "linked bc \<longleftrightarrow> (\<forall>i\<in>{2..<length (hashes bc)}.
     bh_prevHash (the (fmlookup (blocks bc) (hashes bc ! i))) = hashes bc ! (i - 1))"

lemma linked_push_block:
  assumes lk: "linked bc" and b: "bh_hash b \<notin> set (hashes bc)" "accepts bc b"
  shows "linked (push_block bc b)"
  unfolding linked_def
proof
  fix i assume i: "i \<in> {2..<length (hashes (push_block bc b))}"
  show "bh_prevHash (the (fmlookup (blocks (push_block bc b)) (hashes (push_block bc b) ! i))) =
      hashes (push_block bc b) ! (i - 1)"
  proof (cases "i < length (hashes bc)")
    case True
    then have "hashes bc ! i \<noteq> bh_hash b" using b(1) nth_mem by metis
    moreover have "i - 1 < length (hashes bc)" using True by simp
    ultimately show ?thesis using True i lk by (simp add: push_block_def nth_append linked_def)
  next
    case False
    with i have i': "i = length (hashes bc)" "hashes bc \<noteq> []" by (auto simp: push_block_def)
    with i b(2) have "bh_prevHash b = hashes bc ! (i - 1)"
      by (auto simp: accepts_def last_conv_nth split: if_splits)
    with i' show ?thesis by (simp add: push_block_def nth_append)
  qed
qed

text \<open>The states of the chain while blocks arrive. A block comes from the parser without a number;
  both outcomes of \<open>addBlock\<close> are states the program goes on with.\<close>

inductive chain_run :: "blockChain \<Rightarrow> bool" where
  start: "chain_run BlockChain_new"
| add: "chain_run bc \<Longrightarrow> bh_blockNumber b = None \<Longrightarrow> length (hashes bc) + 1 < 2 ^ 64 \<Longrightarrow>
    chain_run (fst (addBlock bc b))"
| clear: "chain_run bc \<Longrightarrow> chain_run (BlockChain_clear bc)"

lemma linked_new: "linked BlockChain_new"
  by (simp add: linked_def BlockChain_new_def BlockChain_initialize_def)

lemma addBlock_spec_cases:
  obtains "fst (addBlock_spec bc b) = bc"
  | "fst (addBlock_spec bc b) = push_block bc b" "bh_hash b \<noteq> []" "bh_hash b \<notin> set (hashes bc)"
    "accepts bc b"
proof (cases "bh_hash b = [] \<or> bh_hash b \<in> set (hashes bc) \<or> bh_prevHash b = [] \<or> \<not> accepts bc b")
  case True
  then show thesis using that(1) by (auto simp: addBlock_spec_def)
next
  case False
  then show thesis using that(2) by (simp add: addBlock_spec_def)
qed

lemma chain_run_inv: "chain_run bc \<Longrightarrow> settled bc \<and> linked bc \<and> hd (hashes bc) = GENESIS_BLOCK_HASH"
proof (induction rule: chain_run.induct)
  case start
  show ?case by (simp add: linked_new) (simp add: BlockChain_new_def BlockChain_initialize_def)
next
  case (add bc b)
  then have eq: "addBlock bc b = addBlock_spec bc b" by (simp add: addBlock_eq_spec)
  show ?case
  proof (cases rule: addBlock_spec_cases [of bc b])
    case 1
    then show ?thesis using add.IH eq by simp
  next
    case 2
    have "hashes bc \<noteq> []" using add.IH by (auto simp: settled_def chain_ok_def)
    then have "hd (hashes (push_block bc b)) = GENESIS_BLOCK_HASH"
      using add.IH by (simp add: push_block_def)
    moreover have "settled (push_block bc b)" using 2 add by (intro settled_push_block) auto
    moreover have "linked (push_block bc b)" using 2 add by (intro linked_push_block) auto
    ultimately show ?thesis by (simp add: eq 2)
  qed
next
  case (clear bc)
  show ?case
    by (simp add: BlockChain_clear_new linked_new) (simp add: BlockChain_new_def BlockChain_initialize_def)
qed

section \<open>Numbering the stored headers at start\<close>

text \<open>The loop of the start: every stored header is added without a number.\<close>

definition store_all :: "blockHeader list \<Rightarrow> blockChain \<Rightarrow> blockChain res" where
  "store_all bs bc = fold (\<lambda>b r. rbind r (\<lambda>bc. rbind (addWithoutCalc bc b) (\<lambda>(bc, exist). Ok bc))) bs (Ok bc)"

definition chained :: "string \<Rightarrow> blockHeader list \<Rightarrow> bool" where
  "chained base bs \<longleftrightarrow> (\<forall>i<length bs. bh_prevHash (bs ! i) = (base # map bh_hash bs) ! i)"

lemma chained_snoc:
  "chained base (bs @ [b]) \<longleftrightarrow> chained base bs \<and> bh_prevHash b = last (base # map bh_hash bs)"
proof -
  have eq: "(base # map bh_hash (bs @ [b])) ! i = (base # map bh_hash bs) ! i" if "i \<le> length bs" for i
    using that nth_append [of "base # map bh_hash bs" "[bh_hash b]" i] by simp
  have "last (base # map bh_hash bs) = (base # map bh_hash bs) ! length bs"
    by (simp add: last_conv_nth)
  then show ?thesis
    using eq by (auto simp: chained_def nth_append All_less_Suc simp del: map_append)
qed

lemma store_all_lookup:
  assumes "\<forall>b\<in>set bs. bh_hash b \<noteq> []"
  shows "\<exists>bc'. store_all bs bc = Ok bc' \<and> hashes bc' = hashes bc \<and>
    (\<forall>k. fmlookup (blocks bc') k = (case fmlookup (blocks bc) k of
       None \<Rightarrow> find (\<lambda>b. bh_hash b = k) bs | Some bh \<Rightarrow> Some bh))"
  using assms
proof (induction bs arbitrary: bc)
  case Nil
  show ?case by (simp add: store_all_def split: option.split)
next
  case (Cons b bs)
  obtain bc1 e where add: "addWithoutCalc bc b = Ok (bc1, e)" and h: "hashes bc1 = hashes bc"
    and l: "\<And>k. fmlookup (blocks bc1) k = (case fmlookup (blocks bc) k of
       None \<Rightarrow> if bh_hash b = k then Some b else None | Some bh \<Rightarrow> Some bh)"
    using Cons.prems by (auto simp: addWithoutCalc_def Let_def split: option.split)
  have "store_all (b # bs) bc = store_all bs bc1" by (simp add: store_all_def add)
  moreover obtain bc' where "store_all bs bc1 = Ok bc'" "hashes bc' = hashes bc1"
    and l': "\<And>k. fmlookup (blocks bc') k = (case fmlookup (blocks bc1) k of
       None \<Rightarrow> find (\<lambda>b. bh_hash b = k) bs | Some bh \<Rightarrow> Some bh)"
    using Cons.IH [of bc1] Cons.prems by auto
  moreover have "fmlookup (blocks bc') k = (case fmlookup (blocks bc) k of
       None \<Rightarrow> find (\<lambda>b. bh_hash b = k) (b # bs) | Some bh \<Rightarrow> Some bh)" for k
    by (cases "fmlookup (blocks bc) k") (auto simp: l l')
  ultimately show ?case using h by auto
qed

lemma find_hash:
  assumes "distinct (map bh_hash bs)" and "set bs' = set bs" and "b \<in> set bs"
  shows "find (\<lambda>x. bh_hash x = bh_hash b) bs' = Some b"
proof (cases "find (\<lambda>x. bh_hash x = bh_hash b) bs'")
  case None
  then show ?thesis using assms by (auto simp: find_None_iff)
next
  case (Some x)
  then have "x \<in> set bs" "bh_hash x = bh_hash b" using assms by (auto simp: find_Some_iff)
  then show ?thesis using Some assms by (simp add: distinct_map inj_on_def)
qed

lemma links_chained:
  assumes "chained base bs" and "distinct (map bh_hash bs)"
    and "\<And>b. b \<in> set bs \<Longrightarrow> fmlookup m (bh_hash b) = Some b \<and> bh_blockNumber b = None"
  shows "links m (rev (map bh_hash bs)) base"
  using assms
proof (induction bs rule: rev_induct)
  case Nil
  show ?case by simp
next
  case (snoc b bs)
  have "last (base # map bh_hash bs) = hd (rev (map bh_hash bs) @ [base])"
    by (cases bs rule: rev_cases) simp_all
  with snoc show ?case by (simp add: chained_snoc)
qed

lemma BlockChain_new_simps [simp]:
  "blocks BlockChain_new = fmupd GENESIS_BLOCK_HASH genesisBlock fmempty"
  "hashes BlockChain_new = [GENESIS_BLOCK_HASH]"
  by (simp_all add: BlockChain_new_def BlockChain_initialize_def)

lemma genesisBlock_simps [simp]:
  "bh_hash genesisBlock = GENESIS_BLOCK_HASH" "bh_blockNumber genesisBlock = Some 0"
  "GENESIS_BLOCK_HASH \<noteq> []"
  by (simp_all add: genesisBlock_def GENESIS_BLOCK_HASH_def)

lemma startup_settled:
  assumes bs: "distinct (map bh_hash bs)" "\<forall>b\<in>set bs. bh_hash b \<noteq> [] \<and> bh_blockNumber b = None"
      "GENESIS_BLOCK_HASH \<notin> bh_hash ` set bs" "chained GENESIS_BLOCK_HASH bs"
    and perm: "set bs' = set bs" and room: "length bs + 1 < 2 ^ 64"
  shows "\<exists>bc0 bc. store_all bs' BlockChain_new = Ok bc0 \<and>
    calcBlockchain bc0 (last (GENESIS_BLOCK_HASH # map bh_hash bs)) = (bc, Ok (of_nat (length bs))) \<and>
    hashes bc = GENESIS_BLOCK_HASH # map bh_hash bs \<and> settled bc"
proof -
  let ?g = GENESIS_BLOCK_HASH and ?ks = "map bh_hash bs"
  obtain bc0 where st: "store_all bs' BlockChain_new = Ok bc0" "hashes bc0 = [?g]"
    and l0: "\<And>k. fmlookup (blocks bc0) k = (case fmlookup (blocks BlockChain_new) k of
       None \<Rightarrow> find (\<lambda>b. bh_hash b = k) bs' | Some bh \<Rightarrow> Some bh)"
    using store_all_lookup [of bs' BlockChain_new] bs(2) perm by auto
  have l: "fmlookup (blocks bc0) k = (if k = ?g then Some genesisBlock else find (\<lambda>b. bh_hash b = k) bs')" for k
    by (simp add: l0)
  have in_bs: "fmlookup (blocks bc0) (bh_hash b) = Some b" if "b \<in> set bs" for b
  proof -
    have "bh_hash b \<noteq> ?g" using that bs(3) by (metis imageI)
    then show ?thesis using find_hash [OF bs(1) perm that] by (simp add: l)
  qed
  have from_bs: "b \<in> set bs \<and> bh_hash b = k" if "fmlookup (blocks bc0) k = Some b" "k \<noteq> ?g" for k b
    using that perm by (auto simp: l find_Some_iff)
  have key: "keyed bc0"
    unfolding keyed_iff using from_bs bs(2) by (metis genesisBlock_simps(1,3) l option.inject)
  have dom: "fmdom' (blocks bc0) = insert ?g (set ?ks)"
  proof (rule set_eqI)
    fix k
    have "k \<in> fmdom' (blocks bc0) \<longleftrightarrow> (\<exists>b. fmlookup (blocks bc0) k = Some b)"
      by (simp add: fmlookup_dom'_iff)
    also have "\<dots> \<longleftrightarrow> k = ?g \<or> k \<in> bh_hash ` set bs"
      using in_bs from_bs l [of ?g] by (metis imageE image_eqI)
    finally show "k \<in> fmdom' (blocks bc0) \<longleftrightarrow> k \<in> insert ?g (set ?ks)" by simp
  qed
  have ok: "chain_ok bc0"
    unfolding chain_ok_def
    using key st(2) l [of ?g] from_bs bs(2) by (fastforce simp: fmpred_iff split: option.split)
  have "links (blocks bc0) (rev ?ks) ?g"
    using links_chained [OF bs(4,1)] in_bs bs(2) by blast
  moreover have "hd (rev ?ks @ [?g]) = last (?g # ?ks)"
    by (cases bs rule: rev_cases) simp_all
  ultimately have "calcBlockchain bc0 (last (?g # ?ks)) = (append_chain ?ks bc0, Ok (of_nat (length bs)))"
    using calcBlockchain_links [of bc0 "rev ?ks" ?g genesisBlock 0] key l [of ?g] st(2)
    by (simp add: size_of_def)
  moreover have "chain_ok (append_chain ?ks bc0)"
    by (rule chain_ok_append_chain [OF ok]) (use bs st(2) dom room in auto)
  moreover have "hashes (append_chain ?ks bc0) = ?g # ?ks" "fmdom' (blocks (append_chain ?ks bc0)) = set (?g # ?ks)"
    using st(2) dom by (simp_all add: append_chain_def fmdom'_alt_def)
  ultimately show ?thesis using st(1) by (auto simp: settled_def)
qed

section \<open>Reading the chain\<close>

text \<open>The contract of \<^verbatim>\<open>BlockChainReadInterface.h\<close>: the lookups by number and by hash agree, the
  numbers from 0 to \<open>countBlocks\<close> are exactly the ones present, and the last block is the one with
  the highest number. What the clients of the interface use follows from these laws.\<close>

locale chain_read =
  fixes inv :: "'s \<Rightarrow> bool" and by_hash :: "'s \<Rightarrow> string \<Rightarrow> blockHeader res"
    and by_number :: "'s \<Rightarrow> size_t \<Rightarrow> blockHeader" and last_block :: "'s \<Rightarrow> blockHeader"
    and count :: "'s \<Rightarrow> size_t"
  assumes number_present: "inv s \<Longrightarrow> n \<le> count s \<Longrightarrow> bh_blockNumber (by_number s n) = Some n"
    and number_absent: "inv s \<Longrightarrow> count s < n \<Longrightarrow> by_number s n = BlockHeader_default"
    and hash_number: "inv s \<Longrightarrow> n \<le> count s \<Longrightarrow> by_hash s (bh_hash (by_number s n)) = Ok (by_number s n)"
    and last_number: "inv s \<Longrightarrow> last_block s = by_number s (count s)"
begin

lemma present_iff: "inv s \<Longrightarrow> bh_blockNumber (by_number s n) \<noteq> None \<longleftrightarrow> n \<le> count s"
proof (cases "n \<le> count s")
  case False
  then show "inv s \<Longrightarrow> ?thesis" by (simp add: number_absent BlockHeader_default_def)
qed (simp add: number_present)

lemma hash_inj:
  assumes "inv s" "m \<le> count s" "n \<le> count s" "bh_hash (by_number s m) = bh_hash (by_number s n)"
  shows "m = n"
proof -
  have "Ok (by_number s m) = by_hash s (bh_hash (by_number s n))"
    unfolding assms(4) [symmetric] by (rule hash_number [OF assms(1,2), symmetric])
  also have "\<dots> = Ok (by_number s n)" by (rule hash_number [OF assms(1,3)])
  finally have eq: "by_number s m = by_number s n" by (rule Inr_inject)
  have "Some m = bh_blockNumber (by_number s n)"
    unfolding eq [symmetric] by (rule number_present [OF assms(1,2), symmetric])
  then show ?thesis unfolding number_present [OF assms(1,3)] by (rule option.inject [THEN iffD1])
qed

lemma last_is_count: "inv s \<Longrightarrow> bh_blockNumber (last_block s) = Some (count s)"
  by (simp add: last_number number_present)

end

lemma chain_ok_count:
  assumes "chain_ok bc"
  shows "n \<le> countBlocks bc \<longleftrightarrow> unat n < length (hashes bc)"
proof -
  have h: "hashes bc \<noteq> []" "length (hashes bc) < 2 ^ 64" using assms by (simp_all add: chain_ok_def)
  then have "countBlocks bc = of_nat (length (hashes bc) - 1)"
    by (cases "hashes bc") (simp_all add: countBlocks_def size_of_def)
  then have "unat (countBlocks bc) = length (hashes bc) - 1"
    using h by (simp add: unat_of_nat_u64)
  then show ?thesis using h by (cases "hashes bc") (simp_all add: word_le_nat_alt less_Suc_eq_le)
qed

lemma getBlock_number_present:
  assumes "chain_ok bc" and "n \<le> countBlocks bc"
  obtains bh where "fmlookup (blocks bc) (hashes bc ! unat n) = Some bh" and "getBlock_number bc n = bh"
    and "bh_blockNumber bh = Some n" and "bh_hash bh = hashes bc ! unat n"
proof -
  have n: "unat n < length (hashes bc)" using assms chain_ok_count by simp
  moreover have "\<not> size_of (hashes bc) \<le> n"
    using n assms(1) by (simp add: word_le_nat_alt chain_ok_def)
  ultimately show thesis
    using that chain_ok_nth [OF assms(1) n]
    by (auto simp: getBlock_number_def getBlockImpl_number_def getBlockImpl_hash_def)
qed

interpretation chain: chain_read chain_ok getBlock_hash getBlock_number getLastBlock countBlocks
proof
  fix s n
  assume ok: "chain_ok s"
  show "n \<le> countBlocks s \<Longrightarrow> bh_blockNumber (getBlock_number s n) = Some n"
    using getBlock_number_present [OF ok] by metis
  show "countBlocks s < n \<Longrightarrow> getBlock_number s n = BlockHeader_default"
    using chain_ok_count [OF ok, of n] ok
    by (simp add: getBlock_number_def getBlockImpl_number_def word_le_nat_alt [of "size_of (hashes s)"]
        chain_ok_def not_le [symmetric])
  show "n \<le> countBlocks s \<Longrightarrow> getBlock_hash s (bh_hash (getBlock_number s n)) = Ok (getBlock_number s n)"
  proof -
    assume "n \<le> countBlocks s"
    then obtain bh where bh: "fmlookup (blocks s) (hashes s ! unat n) = Some bh"
      "getBlock_number s n = bh" "bh_hash bh = hashes s ! unat n"
      by (rule getBlock_number_present [OF ok])
    then show ?thesis
      using keyedD [OF chain_ok_keyed [OF ok] bh(1)]
      by (simp add: getBlock_hash_def getBlockImpl_hash_def)
  qed
  show "getLastBlock s = getBlock_number s (countBlocks s)"
    by (simp add: getLastBlock_def getBlock_number_def countBlocks_def)
qed

section \<open>Properties\<close>

lemma GENESIS_BLOCK_HASH_not_singleton [simp]:
  "[c] \<noteq> GENESIS_BLOCK_HASH" "GENESIS_BLOCK_HASH \<noteq> [c]"
  by (auto simp: GENESIS_BLOCK_HASH_def dest: arg_cong [of _ _ length])

text \<open>C2: On a chain whose stored headers are all numbered, adding a block that carries no number does
  exactly what the specification says: it is appended behind the last block and its number returned
  when it names the last block as parent (or, on a chain of the genesis block alone, a parent that
  is not stored); an empty or known hash, an empty parent hash, a fork and an unknown parent are
  refused with the error the specification names, and the object is as it was before.\<close>

theorem addBlock_refines_spec:
  assumes "settled bc" and "bh_blockNumber b = None"
  shows "addBlock bc b = addBlock_spec bc b"
  using assms by (rule addBlock_eq_spec)

theorem addBlock_refines_spec_witness:
  "addBlock BlockChain_new (BlockHeader_default\<lparr>bh_hash := ''a'', bh_prevHash := GENESIS_BLOCK_HASH\<rparr>) =
     (push_block BlockChain_new (BlockHeader_default\<lparr>bh_hash := ''a'', bh_prevHash := GENESIS_BLOCK_HASH\<rparr>), Ok 1)"
proof -
  let ?b = "BlockHeader_default\<lparr>bh_hash := ''a'', bh_prevHash := GENESIS_BLOCK_HASH\<rparr>"
  have "addBlock BlockChain_new ?b = addBlock_spec BlockChain_new ?b"
    by (rule addBlock_refines_spec) (simp_all add: BlockHeader_default_def)
  then show ?thesis
    by (simp add: addBlock_spec_def accepts_def size_of_def)
qed

text \<open>C3: Whatever blocks arrive, in whatever order, accepted or refused: the chain starts with the
  genesis block, its hashes are different, every stored header is on it under its own hash and
  numbered with its position, and every block from number 2 on names its predecessor as parent.\<close>

theorem chain_run_invariant:
  assumes "chain_run bc"
  shows "settled bc \<and> linked bc \<and> hd (hashes bc) = GENESIS_BLOCK_HASH"
  using chain_run_inv [OF assms] .

theorem chain_run_invariant_witness:
  "let bc = fst (addBlock BlockChain_new (BlockHeader_default\<lparr>bh_hash := ''a'', bh_prevHash := ''b''\<rparr>))
   in chain_run bc \<and> settled bc \<and> linked bc \<and> hd (hashes bc) = GENESIS_BLOCK_HASH"
proof -
  let ?b = "BlockHeader_default\<lparr>bh_hash := ''a'', bh_prevHash := ''b''\<rparr>"
  have "chain_run (fst (addBlock BlockChain_new ?b))"
    by (rule chain_run.add [OF chain_run.start]) (simp_all add: BlockHeader_default_def)
  with chain_run_invariant [OF this] show ?thesis by (simp add: Let_def)
qed

text \<open>C9: At start the headers of the database come in the order of their keys. When the different
  headers \<open>bs\<close> form a branch from the genesis block, then storing them in any order and numbering
  from the last one yields exactly this branch: the count is returned, \<open>hashes\<close> is the branch by
  block number, and the chain is consistent.\<close>

theorem startup_numbers_branch:
  assumes "distinct (map bh_hash bs)" and "\<forall>b\<in>set bs. bh_hash b \<noteq> [] \<and> bh_blockNumber b = None"
    and "GENESIS_BLOCK_HASH \<notin> bh_hash ` set bs" and "chained GENESIS_BLOCK_HASH bs"
    and "set bs' = set bs" and "length bs + 1 < 2 ^ 64"
  shows "\<exists>bc0 bc. store_all bs' BlockChain_new = Ok bc0 \<and>
    calcBlockchain bc0 (last (GENESIS_BLOCK_HASH # map bh_hash bs)) = (bc, Ok (of_nat (length bs))) \<and>
    hashes bc = GENESIS_BLOCK_HASH # map bh_hash bs \<and> settled bc"
  using assms by (rule startup_settled)

theorem startup_numbers_branch_witness:
  "let a = BlockHeader_default\<lparr>bh_hash := ''a'', bh_prevHash := GENESIS_BLOCK_HASH\<rparr>;
       b = BlockHeader_default\<lparr>bh_hash := ''b'', bh_prevHash := ''a''\<rparr>
   in \<exists>bc0 bc. store_all [b, a] BlockChain_new = Ok bc0 \<and>
     calcBlockchain bc0 ''b'' = (bc, Ok 2) \<and> hashes bc = [GENESIS_BLOCK_HASH, ''a'', ''b''] \<and> settled bc"
proof -
  let ?a = "BlockHeader_default\<lparr>bh_hash := ''a'', bh_prevHash := GENESIS_BLOCK_HASH\<rparr>"
    and ?b = "BlockHeader_default\<lparr>bh_hash := ''b'', bh_prevHash := ''a''\<rparr>"
  have "chained GENESIS_BLOCK_HASH [?a, ?b]"
    by (simp add: chained_def All_less_Suc)
  moreover have "\<forall>b\<in>set [?a, ?b]. bh_hash b \<noteq> [] \<and> bh_blockNumber b = None"
    by (simp add: BlockHeader_default_def)
  moreover have "GENESIS_BLOCK_HASH \<notin> bh_hash ` set [?a, ?b]" by simp
  moreover have "set [?b, ?a] = set [?a, ?b]" by auto
  ultimately show ?thesis
    using startup_numbers_branch [of "[?a, ?b]" "[?b, ?a]"] by (simp add: Let_def)
qed

text \<open>On a consistent chain the numbers from 0 to \<open>countBlocks\<close> are exactly the present ones; the
  header returned for such a number carries it, looking its hash up returns the same header, two
  numbers never share a hash, and the last block is the one with the highest number.\<close>

lemma chain_lookups_agree:
  assumes "chain_ok bc"
  shows "(bh_blockNumber (getBlock_number bc n) \<noteq> None \<longleftrightarrow> n \<le> countBlocks bc) \<and>
    (n \<le> countBlocks bc \<longrightarrow> bh_blockNumber (getBlock_number bc n) = Some n \<and>
       getBlock_hash bc (bh_hash (getBlock_number bc n)) = Ok (getBlock_number bc n)) \<and>
    (n \<le> countBlocks bc \<and> m \<le> countBlocks bc \<and>
       bh_hash (getBlock_number bc n) = bh_hash (getBlock_number bc m) \<longrightarrow> n = m) \<and>
    bh_blockNumber (getLastBlock bc) = Some (countBlocks bc)"
  using chain.present_iff [OF assms] chain.number_present [OF assms] chain.hash_number [OF assms]
    chain.hash_inj [OF assms] chain.last_is_count [OF assms] by blast

lemma chain_lookups_agree_example:
  "bh_blockNumber (getLastBlock BlockChain_new) = Some (countBlocks BlockChain_new) \<and>
   getBlock_hash BlockChain_new (bh_hash (getBlock_number BlockChain_new 0)) = Ok (getBlock_number BlockChain_new 0)"
  using chain_lookups_agree [OF chain_ok_new, of 0] by simp



end
