(* ===== verification/NodeTests.thy ===== *)
theory NodeTests
  imports BlockInfo
begin

text \<open>
  \<^verbatim>\<open>src/src/Workers/NodeTestsBlockInfo.h\<close> and \<^verbatim>\<open>.cpp\<close>: the records of the node-test database. A
  \<open>std::map\<close> is a finite map that is iterated in the order of its keys, a \<open>std::set\<close> of strings a
  finite set iterated in order, a \<open>std::set<Address>\<close> a finite map from the compared bytes to the
  element. The loops that read \<open>count\<close> elements are \<open>pmany\<close>, which stops at the first error.
\<close>

datatype nodeTestType = unknown | torrent | proxy

definition NodeTestType_serialize :: "nodeTestType \<Rightarrow> string res" where
  "NodeTestType_serialize t =
     (case t of
        torrent \<Rightarrow> Ok (serializeInt (1 :: u8))
      | proxy \<Rightarrow> Ok (serializeInt (2 :: u8))
      | unknown \<Rightarrow> Err (Exception ''Incorrect nodeTestType''))"

definition NodeTestType_deserialize :: "nodeTestType parser" where
  "NodeTestType_deserialize raw from =
     (if size_of raw \<le> from then Ok (unknown, from)
      else rbind (deserializeInt raw from) (\<lambda>(typeInt :: u8, from).
        if typeInt = 1 then Ok (torrent, from)
        else if typeInt = 2 then Ok (proxy, from)
        else Err (Exception (''Incorrect type '' @ to_string_nat (unat typeInt)))))"

record nodeTestResult =
  ntr_result :: string
  ntr_timestamp :: size_t
  ntr_type :: nodeTestType
  ntr_ip :: string
  ntr_day :: size_t
  avgRps :: u64

definition NodeTestResult_default :: nodeTestResult where
  "NodeTestResult_default =
     \<lparr>ntr_result = [], ntr_timestamp = 0, ntr_type = unknown, ntr_ip = [], ntr_day = 0, avgRps = 0\<rparr>"

definition NodeTestResult_serialize :: "nodeTestResult \<Rightarrow> string res" where
  "NodeTestResult_serialize r =
     rbind (NodeTestType_serialize (ntr_type r)) (\<lambda>t.
     Ok (serializeString (ntr_result r) @ serializeInt (ntr_timestamp r) @ t
         @ serializeString (ntr_ip r) @ serializeInt (ntr_day r)))"

definition NodeTestResult_parse :: "nodeTestResult parser" where
  "NodeTestResult_parse =
     pbind deserializeString (\<lambda>result.
     pbind deserializeInt (\<lambda>timestamp.
     pbind NodeTestType_deserialize (\<lambda>type.
     pbind deserializeString (\<lambda>ip.
     pbind deserializeInt (\<lambda>day.
     pret (NodeTestResult_default\<lparr>ntr_result := result, ntr_timestamp := timestamp, ntr_type := type,
       ntr_ip := ip, ntr_day := day\<rparr>))))))"

text \<open>A record that is missing in the database (an empty value) is the default one.\<close>

definition read_record :: "'a parser \<Rightarrow> 'a \<Rightarrow> string \<Rightarrow> 'a res" where
  "read_record p dflt raw =
     (if raw = [] then Ok dflt else rbind (p raw 0) (\<lambda>(result, from). Ok result))"

definition NodeTestResult_deserialize :: "string \<Rightarrow> nodeTestResult res" where
  "NodeTestResult_deserialize raw = read_record NodeTestResult_parse NodeTestResult_default raw"

text \<open>\<open>trust\<close> is an \<open>int\<close>: it is sign-extended to \<open>size_t\<close> when written and cut to 32 bits when read.\<close>

record nodeTestTrust =
  trustJson :: string
  ntt_timestamp :: size_t
  trust :: u32

definition NodeTestTrust_default :: nodeTestTrust where
  "NodeTestTrust_default = \<lparr>trustJson = [], ntt_timestamp = 0, trust = 1\<rparr>"

definition NodeTestTrust_serialize :: "nodeTestTrust \<Rightarrow> string" where
  "NodeTestTrust_serialize t =
     serializeString (trustJson t) @ serializeInt (ntt_timestamp t)
     @ serializeInt (scast (trust t) :: size_t)"

definition NodeTestTrust_parse :: "nodeTestTrust parser" where
  "NodeTestTrust_parse =
     pbind deserializeString (\<lambda>json.
     pbind deserializeInt (\<lambda>timestamp.
     pbind deserializeInt (\<lambda>t :: size_t.
     pret \<lparr>trustJson = json, ntt_timestamp = timestamp, trust = ucast t\<rparr>)))"

definition NodeTestTrust_deserialize :: "string \<Rightarrow> nodeTestTrust res" where
  "NodeTestTrust_deserialize raw = read_record NodeTestTrust_parse NodeTestTrust_default raw"

record nodeTestCount =
  countAll :: size_t
  countFailure :: size_t
  ntc_day :: size_t
  testers :: "(string, address) fmap"

definition NodeTestCount_default :: nodeTestCount where
  "NodeTestCount_default = \<lparr>countAll = 0, countFailure = 0, ntc_day = 0, testers = fmempty\<rparr>"

definition countSuccess :: "nodeTestCount \<Rightarrow> size_t" where
  "countSuccess c = countAll c - countFailure c"

definition insert_address :: "address \<Rightarrow> (string, address) fmap \<Rightarrow> (string, address) fmap" where
  "insert_address a s = (if addr_bytes a |\<in>| fmdom s then s else fmupd (addr_bytes a) a s)"

text \<open>Iteration over a map in the order of the keys.\<close>

definition entries :: "(string, 'v) fmap \<Rightarrow> (string \<times> 'v) list" where
  "entries m = map (\<lambda>k. (k, the (fmlookup m k))) (sorted_list_of_fset (fmdom m))"

fun serialize_testers :: "address list \<Rightarrow> string res" where
  "serialize_testers [] = Ok []"
| "serialize_testers (a # as) =
     rbind (toBdString a) (\<lambda>s. rbind (serialize_testers as) (\<lambda>r. Ok (serializeString s @ r)))"

definition NodeTestCount_serialize :: "nodeTestCount \<Rightarrow> string res" where
  "NodeTestCount_serialize c =
     rbind (serialize_testers (map snd (entries (testers c)))) (\<lambda>ts.
     Ok (serializeInt (countAll c) @ serializeInt (countFailure c) @ serializeInt (ntc_day c)
         @ serializeInt (of_nat (size (fmdom (testers c))) :: size_t) @ ts))"

definition NodeTestCount_parse :: "nodeTestCount parser" where
  "NodeTestCount_parse =
     pbind deserializeInt (\<lambda>all.
     pbind deserializeInt (\<lambda>failure.
     pbind deserializeInt (\<lambda>day.
     pbind deserializeInt (\<lambda>countTesters :: size_t.
     pbind (pmany deserializeString (unat countTesters)) (\<lambda>addrs.
     pret \<lparr>countAll = all, countFailure = failure, ntc_day = day,
           testers = fold (\<lambda>addr. insert_address (Address_range addr)) addrs fmempty\<rparr>)))))"

definition NodeTestCount_deserialize :: "string \<Rightarrow> nodeTestCount res" where
  "NodeTestCount_deserialize raw = read_record NodeTestCount_parse NodeTestCount_default raw"

definition NodeTestCount_add :: "nodeTestCount \<Rightarrow> nodeTestCount \<Rightarrow> nodeTestCount" where
  "NodeTestCount_add first second =
     first\<lparr>countAll := countAll first + countAll second,
           countFailure := countFailure first + countFailure second,
           testers := fold insert_address (map snd (entries (testers second))) (testers first),
           ntc_day := max (ntc_day first) (ntc_day second)\<rparr>"

record nodeStatBlockInfo =
  nsb_blockNumber :: size_t
  nsb_blockHash :: string
  nsb_countVal :: size_t

definition NodeStatBlockInfo_default :: nodeStatBlockInfo where
  "NodeStatBlockInfo_default = \<lparr>nsb_blockNumber = 0, nsb_blockHash = [], nsb_countVal = 0\<rparr>"

definition NodeStatBlockInfo_serialize :: "nodeStatBlockInfo \<Rightarrow> string res" where
  "NodeStatBlockInfo_serialize b =
     rbind (CHECK (nsb_blockHash b \<noteq> []) ''Incorrect metadata'') (\<lambda>_.
     Ok (serializeString (nsb_blockHash b) @ serializeInt (nsb_blockNumber b)
         @ serializeInt (nsb_countVal b)))"

definition NodeStatBlockInfo_parse :: "nodeStatBlockInfo parser" where
  "NodeStatBlockInfo_parse =
     pbind deserializeString (\<lambda>blockHash.
     pbind deserializeInt (\<lambda>blockNumber.
     pbind deserializeInt (\<lambda>countVal.
     pret \<lparr>nsb_blockNumber = blockNumber, nsb_blockHash = blockHash, nsb_countVal = countVal\<rparr>)))"

definition NodeStatBlockInfo_deserialize :: "string \<Rightarrow> nodeStatBlockInfo res" where
  "NodeStatBlockInfo_deserialize raw = read_record NodeStatBlockInfo_parse NodeStatBlockInfo_default raw"

record nodeTestExtendedStat =
  nte_count :: nodeTestCount
  nte_type :: nodeTestType
  nte_ip :: string

record nodeTestDayNumber =
  dayNumber :: size_t

definition NodeTestDayNumber_serialize :: "nodeTestDayNumber \<Rightarrow> string" where
  "NodeTestDayNumber_serialize d = serializeInt (dayNumber d)"

definition NodeTestDayNumber_parse :: "nodeTestDayNumber parser" where
  "NodeTestDayNumber_parse = pbind deserializeInt (\<lambda>d. pret \<lparr>dayNumber = d\<rparr>)"

definition NodeTestDayNumber_deserialize :: "string \<Rightarrow> nodeTestDayNumber res" where
  "NodeTestDayNumber_deserialize raw = read_record NodeTestDayNumber_parse \<lparr>dayNumber = 0\<rparr> raw"

record allTestedNodes =
  atn_nodes :: "string fset"
  atn_day :: size_t

definition AllTestedNodes_serialize :: "allTestedNodes \<Rightarrow> string" where
  "AllTestedNodes_serialize n =
     serializeInt (atn_day n) @ serializeInt (of_nat (size (atn_nodes n)) :: size_t)
     @ concat (map serializeString (sorted_list_of_fset (atn_nodes n)))"

definition AllTestedNodes_parse :: "allTestedNodes parser" where
  "AllTestedNodes_parse =
     pbind deserializeInt (\<lambda>day.
     pbind deserializeInt (\<lambda>count :: size_t.
     pbind (pmany deserializeString (unat count)) (\<lambda>nodes.
     pret \<lparr>atn_nodes = fold finsert nodes {||}, atn_day = day\<rparr>)))"

definition AllTestedNodes_deserialize :: "string \<Rightarrow> allTestedNodes res" where
  "AllTestedNodes_deserialize raw = read_record AllTestedNodes_parse \<lparr>atn_nodes = {||}, atn_day = 0\<rparr> raw"

record allNodes =
  an_nodes :: "(string, string) fmap"

definition serialize_node :: "string \<times> string \<Rightarrow> string" where
  "serialize_node p = serializeString (fst p) @ serializeString (snd p)"

definition deserialize_node :: "(string \<times> string) parser" where
  "deserialize_node =
     pbind deserializeString (\<lambda>node. pbind deserializeString (\<lambda>name. pret (node, name)))"

definition AllNodes_serialize :: "allNodes \<Rightarrow> string" where
  "AllNodes_serialize n =
     serializeInt (of_nat (size (fmdom (an_nodes n))) :: size_t)
     @ concat (map serialize_node (entries (an_nodes n)))"

definition AllNodes_parse :: "allNodes parser" where
  "AllNodes_parse =
     pbind deserializeInt (\<lambda>count :: size_t.
     pbind (pmany deserialize_node (unat count)) (\<lambda>nodes.
     pret \<lparr>an_nodes = fold (\<lambda>(node, name). fmupd node name) nodes fmempty\<rparr>))"

definition AllNodes_deserialize :: "string \<Rightarrow> allNodes res" where
  "AllNodes_deserialize raw = read_record AllNodes_parse \<lparr>an_nodes = fmempty\<rparr> raw"

record nodeRps =
  rps :: "u64 list"

definition NodeRps_serialize :: "nodeRps \<Rightarrow> string" where
  "NodeRps_serialize r = serializeInt (size_of (rps r)) @ concat (map serializeInt (rps r))"

definition NodeRps_parse :: "nodeRps parser" where
  "NodeRps_parse =
     pbind deserializeInt (\<lambda>count :: size_t.
     pbind (pmany deserializeInt (unat count)) (\<lambda>r. pret \<lparr>rps = r\<rparr>))"

definition NodeRps_deserialize :: "string \<Rightarrow> nodeRps res" where
  "NodeRps_deserialize raw = read_record NodeRps_parse \<lparr>rps = []\<rparr> raw"

section \<open>Iteration and rebuilding\<close>

lemma read_record_encodes:
  "encodes p e x \<Longrightarrow> e \<noteq> [] \<Longrightarrow> length e < 2 ^ 64 \<Longrightarrow> read_record p d e = Ok x"
  by (simp add: read_record_def encodes_whole)

lemma length_entries [simp]: "length (entries m) = size (fmdom m)"
  by (simp add: entries_def sorted_list_of_fset.rep_eq)

lemma set_entries: "set (entries m) = {(k, v). fmlookup m k = Some v}"
  by (auto simp: entries_def fmlookup_dom_iff image_iff)

lemma lookup_fold_fmupd:
  "distinct ks \<Longrightarrow>
   fmlookup (fold (\<lambda>(k, v). fmupd k v) (map (\<lambda>k. (k, f k)) ks) m) k =
     (if k \<in> set ks then Some (f k) else fmlookup m k)"
  by (induction ks arbitrary: m) auto

lemma fold_entries: "fold (\<lambda>(k, v). fmupd k v) (entries m) fmempty = m"
proof (rule fmap_ext)
  fix k
  have "distinct (sorted_list_of_fset (fmdom m))" by (simp add: sorted_list_of_fset.rep_eq)
  then show "fmlookup (fold (\<lambda>(k, v). fmupd k v) (entries m) fmempty) k = fmlookup m k"
    unfolding entries_def by (auto simp: lookup_fold_fmupd fmlookup_dom_iff)
qed

lemma fold_finsert: "fold finsert xs A = fset_of_list xs |\<union>| A"
  by (induction xs arbitrary: A) auto

interpretation node_pair: codec serialize_node deserialize_node "\<lambda>_. True"
proof
  show "encodes deserialize_node (serialize_node p) p" for p
    unfolding deserialize_node_def serialize_node_def
    by (rule encodes_chain encodes_last)+ simp
qed

lemma serializeInt_not_Nil [simp]: "serializeInt (w :: u64) \<noteq> []"
  using length_serializeInt [of w] by (metis list.size(3) size_of_type_simps(4) zero_neq_numeral)

lemma serializeString_not_Nil [simp]: "serializeString s \<noteq> []"
  by (simp add: serializeString_unfold)

lemma serialize_node_not_Nil [simp]: "serialize_node p \<noteq> []"
  by (simp add: serialize_node_def)

section \<open>Round trips\<close>

lemma encodes_AllNodes: "encodes AllNodes_parse (AllNodes_serialize n) n"
proof -
  have size: "(of_nat (size (fmdom (an_nodes n))) :: size_t) = size_of (entries (an_nodes n))"
    by (simp add: size_of_def)
  show ?thesis
    unfolding AllNodes_parse_def AllNodes_serialize_def size
    by (rule node_pair.encodes_counted_last) (simp_all add: fold_entries list_all_iff)
qed

lemma encodes_AllTestedNodes: "encodes AllTestedNodes_parse (AllTestedNodes_serialize n) n"
proof -
  let ?xs = "sorted_list_of_fset (atn_nodes n)"
  have xs: "(of_nat (size (atn_nodes n)) :: size_t) = size_of ?xs" "fset_of_list ?xs = atn_nodes n"
    by (simp_all add: size_of_def sorted_list_of_fset.rep_eq fset_of_list.rep_eq flip: fset_inject)
  show ?thesis
    unfolding AllTestedNodes_parse_def AllTestedNodes_serialize_def xs(1)
    by (rule encodes_chain(4), rule str.encodes_counted_last)
      (simp_all add: fold_finsert xs(2) list_all_iff)
qed

lemma encodes_NodeRps: "encodes NodeRps_parse (NodeRps_serialize r) r"
  unfolding NodeRps_parse_def NodeRps_serialize_def
  by (rule int64.encodes_counted_last) (simp_all add: list_all_iff)

lemma encodes_NodeStatBlockInfo:
  assumes "NodeStatBlockInfo_serialize b = Ok e"
  shows "encodes NodeStatBlockInfo_parse e b \<and> e \<noteq> []"
proof -
  from assms have e: "e = serializeString (nsb_blockHash b) @ serializeInt (nsb_blockNumber b)
      @ serializeInt (nsb_countVal b)"
    by (auto simp: NodeStatBlockInfo_serialize_def rbind_Ok_iff)
  have "encodes NodeStatBlockInfo_parse e b"
    unfolding NodeStatBlockInfo_parse_def e by (rule encodes_chain encodes_last)+ simp
  then show ?thesis by (simp add: e)
qed

lemma scast_ucast_trust: "ucast (scast (t :: u32) :: u64) = t"
proof (rule bit_word_eqI)
  fix n assume "n < LENGTH(32)"
  then show "bit (ucast (scast t :: u64) :: u32) n = bit t n"
    by (cases "n = 31") (simp_all add: bit_ucast_iff bit_signed_iff min_def)
qed

lemma encodes_NodeTestTrust: "encodes NodeTestTrust_parse (NodeTestTrust_serialize t) t"
  unfolding NodeTestTrust_parse_def NodeTestTrust_serialize_def
  by (rule encodes_chain encodes_last)+ (simp add: scast_ucast_trust)

lemma encodes_NodeTestType:
  assumes "NodeTestType_serialize t = Ok e"
  shows "encodes NodeTestType_deserialize e t"
proof (rule encodesI)
  fix pre post :: string
  assume len: "length (pre @ e @ post) < 2 ^ 64"
  obtain w :: u8 where w: "e = serializeInt w" "t = torrent \<and> w = 1 \<or> t = proxy \<and> w = 2"
    using assms by (auto simp: NodeTestType_serialize_def split: nodeTestType.splits)
  have "\<not> size_of (pre @ e @ post) \<le> of_nat (length pre)"
    unfolding size_of_def not_le by (subst of_nat_u64_less_iff) (use len in \<open>simp_all add: w\<close>)
  moreover have "deserializeInt (pre @ e @ post) (of_nat (length pre)) = Ok (w, of_nat (length (pre @ e)))"
    using encodesD [OF int8.dec_enc [OF TrueI], of pre w post] len by (simp add: w)
  ultimately show "NodeTestType_deserialize (pre @ e @ post) (of_nat (length pre)) =
      Ok (t, of_nat (length (pre @ e)))"
    using w(2) by (auto simp: NodeTestType_deserialize_def)
qed

lemma encodes_NodeTestResult:
  assumes "NodeTestResult_serialize r = Ok e"
  shows "encodes NodeTestResult_parse e (r\<lparr>avgRps := 0\<rparr>) \<and> e \<noteq> []"
proof -
  from assms obtain t where t: "NodeTestType_serialize (ntr_type r) = Ok t"
    and e: "e = serializeString (ntr_result r) @ serializeInt (ntr_timestamp r) @ t
      @ serializeString (ntr_ip r) @ serializeInt (ntr_day r)"
    by (auto simp: NodeTestResult_serialize_def rbind_Ok_iff)
  have "encodes NodeTestResult_parse e (r\<lparr>avgRps := 0\<rparr>)"
    unfolding NodeTestResult_parse_def e
    by (rule encodes_chain encodes_pbind [OF encodes_NodeTestType [OF t]] encodes_last)+
      (simp add: NodeTestResult_default_def)
  then show ?thesis by (simp add: e)
qed

text \<open>The testers of a count: set, non-empty addresses, filed under their bytes, as the reader
  builds them.\<close>

definition testers_wf :: "nodeTestCount \<Rightarrow> bool" where
  "testers_wf c \<longleftrightarrow> fmpred (\<lambda>k a. k \<noteq> [] \<and> a = Address_range k) (testers c)"

lemma serialize_testers_range:
  "[] \<notin> set ks \<Longrightarrow> serialize_testers (map Address_range ks) = Ok (concat (map serializeString ks))"
  by (induction ks) (auto simp: toBdString_def getBinaryString_def Address_range_def)

lemma lookup_fold_insert_address:
  "fmlookup (fold (\<lambda>addr. insert_address (Address_range addr)) ks s) k =
     (if k \<in> set ks \<and> fmlookup s k = None then Some (Address_range k) else fmlookup s k)"
proof (induction ks arbitrary: s)
  case (Cons x ks)
  have "fmlookup (insert_address (Address_range x) s) k =
      (if k = x \<and> fmlookup s k = None then Some (Address_range k) else fmlookup s k)"
    by (auto simp: insert_address_def Address_range_def fmlookup_dom_iff)
  then show ?case using Cons.IH [of "insert_address (Address_range x) s"] by auto
qed simp

lemma encodes_NodeTestCount:
  assumes wf: "testers_wf c" and ser: "NodeTestCount_serialize c = Ok e"
  shows "encodes NodeTestCount_parse e c \<and> e \<noteq> []"
proof -
  let ?ks = "sorted_list_of_fset (fmdom (testers c))"
  have set: "set ?ks = fset (fmdom (testers c))" and size: "(of_nat (size (fmdom (testers c))) :: size_t) = size_of ?ks"
    by (simp_all add: size_of_def sorted_list_of_fset.rep_eq)
  have l: "fmlookup (testers c) k = (if k \<in> set ?ks then Some (Address_range k) else None)" for k
    using wf by (auto simp: testers_wf_def fmpred_iff set fmlookup_dom_iff)
  have "[] \<notin> set ?ks" using wf l by (fastforce simp: testers_wf_def fmpred_iff)
  moreover have "map snd (entries (testers c)) = map Address_range ?ks"
    unfolding entries_def by (simp add: l set)
  ultimately have e: "e = serializeInt (countAll c) @ serializeInt (countFailure c) @ serializeInt (ntc_day c)
      @ serializeInt (size_of ?ks) @ concat (map serializeString ?ks)"
    using ser by (simp add: NodeTestCount_serialize_def serialize_testers_range flip: size)
  have t: "fold (\<lambda>addr. insert_address (Address_range addr)) ?ks fmempty = testers c"
    by (rule fmap_ext) (simp add: lookup_fold_insert_address l)
  have "encodes NodeTestCount_parse e c"
    unfolding NodeTestCount_parse_def e
    by (rule encodes_chain(4), rule encodes_chain(4), rule encodes_chain(4), rule str.encodes_counted_last)
      (simp_all add: t list_all_iff)
  then show ?thesis by (simp add: e)
qed

lemma fmdom_insert_address [simp]: "fmdom (insert_address a s) = finsert (addr_bytes a) (fmdom s)"
  by (auto simp: insert_address_def)

lemma fmdom_fold_insert_address:
  "fset (fmdom (fold insert_address as s)) = addr_bytes ` set as \<union> fset (fmdom s)"
  by (induction as arbitrary: s) auto

section \<open>Properties\<close>

text \<open>Every record of the node-test database is read back from its stored form, sets and maps
  included: the registered nodes with their names, the tested nodes of a day, the request rates,
  the counts with their testers, the trust (a signed 32-bit value kept in 64 bits), the progress
  mark and the results (the average rate is not stored).\<close>

lemma node_test_records_roundtrip:
  "(length (AllNodes_serialize an) < 2 ^ 64 \<longrightarrow> AllNodes_deserialize (AllNodes_serialize an) = Ok an) \<and>
   (length (AllTestedNodes_serialize at) < 2 ^ 64 \<longrightarrow> AllTestedNodes_deserialize (AllTestedNodes_serialize at) = Ok at) \<and>
   (length (NodeRps_serialize nr) < 2 ^ 64 \<longrightarrow> NodeRps_deserialize (NodeRps_serialize nr) = Ok nr) \<and>
   (length (NodeTestTrust_serialize tr) < 2 ^ 64 \<longrightarrow> NodeTestTrust_deserialize (NodeTestTrust_serialize tr) = Ok tr) \<and>
   (testers_wf c \<and> NodeTestCount_serialize c = Ok e \<and> length e < 2 ^ 64 \<longrightarrow> NodeTestCount_deserialize e = Ok c) \<and>
   (NodeStatBlockInfo_serialize b = Ok e' \<and> length e' < 2 ^ 64 \<longrightarrow> NodeStatBlockInfo_deserialize e' = Ok b) \<and>
   (NodeTestResult_serialize r = Ok e'' \<and> length e'' < 2 ^ 64 \<longrightarrow>
      NodeTestResult_deserialize e'' = Ok (r\<lparr>avgRps := 0\<rparr>))"
proof (intro conjI impI)
  show "length (AllNodes_serialize an) < 2 ^ 64 \<Longrightarrow> AllNodes_deserialize (AllNodes_serialize an) = Ok an"
    unfolding AllNodes_deserialize_def
    by (rule read_record_encodes [OF encodes_AllNodes]) (simp_all add: AllNodes_serialize_def)
  show "length (AllTestedNodes_serialize at) < 2 ^ 64 \<Longrightarrow> AllTestedNodes_deserialize (AllTestedNodes_serialize at) = Ok at"
    unfolding AllTestedNodes_deserialize_def
    by (rule read_record_encodes [OF encodes_AllTestedNodes]) (simp_all add: AllTestedNodes_serialize_def)
  show "length (NodeRps_serialize nr) < 2 ^ 64 \<Longrightarrow> NodeRps_deserialize (NodeRps_serialize nr) = Ok nr"
    unfolding NodeRps_deserialize_def
    by (rule read_record_encodes [OF encodes_NodeRps]) (simp_all add: NodeRps_serialize_def)
  show "length (NodeTestTrust_serialize tr) < 2 ^ 64 \<Longrightarrow> NodeTestTrust_deserialize (NodeTestTrust_serialize tr) = Ok tr"
    unfolding NodeTestTrust_deserialize_def
    by (rule read_record_encodes [OF encodes_NodeTestTrust]) (simp_all add: NodeTestTrust_serialize_def)
  show "testers_wf c \<and> NodeTestCount_serialize c = Ok e \<and> length e < 2 ^ 64 \<Longrightarrow> NodeTestCount_deserialize e = Ok c"
    unfolding NodeTestCount_deserialize_def using encodes_NodeTestCount [of c e] by (simp add: read_record_encodes)
  show "NodeStatBlockInfo_serialize b = Ok e' \<and> length e' < 2 ^ 64 \<Longrightarrow> NodeStatBlockInfo_deserialize e' = Ok b"
    unfolding NodeStatBlockInfo_deserialize_def
    using encodes_NodeStatBlockInfo [of b e'] by (simp add: read_record_encodes)
  show "NodeTestResult_serialize r = Ok e'' \<and> length e'' < 2 ^ 64 \<Longrightarrow>
      NodeTestResult_deserialize e'' = Ok (r\<lparr>avgRps := 0\<rparr>)"
    unfolding NodeTestResult_deserialize_def
    using encodes_NodeTestResult [of r e''] by (simp add: read_record_encodes)
qed

lemma node_test_records_roundtrip_example:
  "AllNodes_deserialize (AllNodes_serialize \<lparr>an_nodes = fmupd ''h'' ''n'' fmempty\<rparr>) =
     Ok \<lparr>an_nodes = fmupd ''h'' ''n'' fmempty\<rparr>"
proof -
  let ?an = "\<lparr>an_nodes = fmupd ''h'' ''n'' fmempty\<rparr>"
  have "length (AllNodes_serialize ?an) < 2 ^ 64"
    by (simp add: AllNodes_serialize_def entries_def serialize_node_def sorted_list_of_fset.rep_eq)
  then show ?thesis using node_test_records_roundtrip [of ?an] by blast
qed

text \<open>Merging two counts adds the totals and failures, keeps the later day, and unites the testers;
  the successes of the merged count are the sum of the successes.\<close>

lemma NodeTestCount_add_merges:
  "countSuccess (NodeTestCount_add a b) = countSuccess a + countSuccess b \<and>
   ntc_day (NodeTestCount_add a b) = max (ntc_day a) (ntc_day b) \<and>
   (testers_wf b \<longrightarrow> fset (fmdom (testers (NodeTestCount_add a b))) =
      fset (fmdom (testers a)) \<union> fset (fmdom (testers b)))"
proof (intro conjI impI)
  assume "testers_wf b"
  then have "addr_bytes ` snd ` set (entries (testers b)) = fset (fmdom (testers b))"
    by (force simp: set_entries testers_wf_def fmpred_iff Address_range_def fmlookup_dom_iff image_iff)
  then show "fset (fmdom (testers (NodeTestCount_add a b))) =
      fset (fmdom (testers a)) \<union> fset (fmdom (testers b))"
    by (auto simp: NodeTestCount_add_def fmdom_fold_insert_address)
qed (simp_all add: NodeTestCount_add_def countSuccess_def)

lemma NodeTestCount_add_merges_example:
  "fset (fmdom (testers (NodeTestCount_add NodeTestCount_default
     (NodeTestCount_default\<lparr>testers := fmupd ''a'' (Address_range ''a'') fmempty\<rparr>)))) = {''a''}"
proof -
  let ?b = "NodeTestCount_default\<lparr>testers := fmupd ''a'' (Address_range ''a'') fmempty\<rparr>"
  have "testers_wf ?b" by (simp add: testers_wf_def fmpred_iff)
  then have "fset (fmdom (testers (NodeTestCount_add NodeTestCount_default ?b))) =
      fset (fmdom (testers NodeTestCount_default)) \<union> fset (fmdom (testers ?b))"
    using NodeTestCount_add_merges [of NodeTestCount_default ?b] by blast
  then show ?thesis by (simp add: NodeTestCount_default_def)
qed

end
