(* ===== verification/FileSystem.thy ===== *)
theory FileSystem
  imports NodeTests
begin

text \<open>
  \<^verbatim>\<open>src/src/utils/FileSystem.h\<close> and \<^verbatim>\<open>.cpp\<close>: file names and the choice of the next block file to read.
  Paths follow \<open>std::experimental::filesystem\<close> on a POSIX system. The disk is explicit: a finite
  map from full paths to contents; the entries of a folder and the size of a file are read from it
  by the caller and passed on.
\<close>

type_synonym disk = "(string, string) fmap"

text \<open>\<open>path::filename\<close>: what follows the last separator; a dot when the path ends in one, and the
  root itself.\<close>

definition getBasename :: "string \<Rightarrow> string" where
  "getBasename path =
     (let name = rev (takeWhile (\<lambda>c. c \<noteq> CHR ''/'') (rev path))
      in if path \<noteq> [] \<and> name = [] then
           (if list_all (\<lambda>c. c = CHR ''/'') path then ''/'' else ''.'')
         else name)"

text \<open>\<open>operator/\<close>: a separator is put between the parts unless it would be redundant.\<close>

definition path_append :: "string \<Rightarrow> string \<Rightarrow> string" where
  "path_append p q =
     (if p = [] \<or> q = [] \<or> last p = CHR ''/'' \<or> hd q = CHR ''/'' then p @ q else p @ ''/'' @ q)"

definition getFullPath :: "string \<Rightarrow> string \<Rightarrow> string" where
  "getFullPath fileName folder = path_append folder fileName"

text \<open>A \<open>CroppedFileName\<close> is its base name.\<close>

definition CroppedFileName :: "string \<Rightarrow> string" where
  "CroppedFileName name = getBasename name"

fun is_infix :: "string \<Rightarrow> string \<Rightarrow> bool" where
  "is_infix p s \<longleftrightarrow> take (length p) s = p \<or> (case s of [] \<Rightarrow> False | _ # t \<Rightarrow> is_infix p t)"

declare is_infix.simps [simp del]

text \<open>\<open>std::getline\<close> over the contents of a file: a last line without line feed counts if it is not empty.\<close>

function getlines :: "string \<Rightarrow> string list" where
  "getlines [] = []"
| "getlines (c # s) =
     (let line = takeWhile (\<lambda>c. c \<noteq> CHR 0x0A) (c # s);
          rest = drop (length line) (c # s)
      in line # getlines (tl rest))"
  by pat_completeness auto
termination by (relation "measure length") auto

fun getNextFile_loop ::
    "(string, fileInfo) fmap \<Rightarrow> string \<Rightarrow> (string \<Rightarrow> size_t) \<Rightarrow> string list \<Rightarrow> fileInfo" where
  "getNextFile_loop processedFiles folder file_size [] = FileInfo_default"
| "getNextFile_loop processedFiles folder file_size (file # files) =
     (let p = path_append folder file
      in case fmlookup processedFiles file of
           None \<Rightarrow> \<lparr>fi_filePos = \<lparr>fp_pos = 0, fp_fileName = p\<rparr>\<rparr>
         | Some fi \<Rightarrow>
             if fp_pos (fi_filePos fi) < file_size p then fi
             else getNextFile_loop processedFiles folder file_size files)"

definition getNextFile ::
    "(string, fileInfo) fmap \<Rightarrow> string \<Rightarrow> string list \<Rightarrow> (string \<Rightarrow> size_t) \<Rightarrow> fileInfo" where
  "getNextFile processedFiles folder directory file_size =
     getNextFile_loop processedFiles folder file_size
       (sorted_list_of_set (set (filter (is_infix ''.blk'') (map CroppedFileName directory))))"

definition saveToFile :: "string \<Rightarrow> string \<Rightarrow> string \<Rightarrow> disk \<Rightarrow> disk" where
  "saveToFile folder fileName data d = fmupd (getFullPath fileName folder) data d"

definition removeFile :: "string \<Rightarrow> string \<Rightarrow> disk \<Rightarrow> disk" where
  "removeFile folder fileName d = fmdrop (getFullPath fileName folder) d"

text \<open>A stream on a file that does not exist reads as empty.\<close>

definition loadFile :: "string \<Rightarrow> string \<Rightarrow> disk \<Rightarrow> string" where
  "loadFile folder fileName d =
     (case fmlookup d (getFullPath fileName folder) of None \<Rightarrow> [] | Some content \<Rightarrow> content)"

definition isFileExist :: "string \<Rightarrow> disk \<Rightarrow> bool" where
  "isFileExist file d \<longleftrightarrow> file |\<in>| fmdom d"

section \<open>Names\<close>

lemma getBasename_path_append:
  assumes "file \<noteq> []" and "CHR ''/'' \<notin> set file"
  shows "getBasename (path_append folder file) = file"
proof -
  have all: "takeWhile (\<lambda>c. c \<noteq> CHR ''/'') (rev file @ CHR ''/'' # xs) = rev file" for xs
    using assms(2) by (subst takeWhile_append2) auto
  have all': "takeWhile (\<lambda>c. c \<noteq> CHR ''/'') (rev file) = rev file"
    using assms(2) by (auto simp: takeWhile_eq_all_conv)
  have hd: "hd file \<noteq> CHR ''/''" using assms hd_in_set by metis
  consider "folder = []" | ys where "folder = ys @ [CHR ''/'']" | "folder \<noteq> []" "last folder \<noteq> CHR ''/''"
    by (metis append_butlast_last_id)
  then show ?thesis
  proof cases
    case 1
    then show ?thesis
      using assms(1) unfolding getBasename_def path_append_def by (simp add: all' del: takeWhile_eq_all_conv)
  next
    case 2
    then show ?thesis using assms all by (simp add: getBasename_def path_append_def)
  next
    case 3
    then show ?thesis using assms hd all by (simp add: getBasename_def path_append_def)
  qed
qed

section \<open>The next file to read\<close>

text \<open>A block file is finished when it is recorded with a position at or behind its end.\<close>

definition file_done :: "(string, fileInfo) fmap \<Rightarrow> string \<Rightarrow> (string \<Rightarrow> size_t) \<Rightarrow> string \<Rightarrow> bool" where
  "file_done processedFiles folder file_size file =
     (case fmlookup processedFiles file of
        None \<Rightarrow> False
      | Some fi \<Rightarrow> file_size (path_append folder file) \<le> fp_pos (fi_filePos fi))"

definition resume_at :: "(string, fileInfo) fmap \<Rightarrow> string \<Rightarrow> string \<Rightarrow> fileInfo" where
  "resume_at processedFiles folder file =
     (case fmlookup processedFiles file of
        None \<Rightarrow> \<lparr>fi_filePos = \<lparr>fp_pos = 0, fp_fileName = path_append folder file\<rparr>\<rparr>
      | Some fi \<Rightarrow> fi)"

lemma getNextFile_loop_find:
  "getNextFile_loop pf folder fsz files =
     (case find (\<lambda>f. \<not> file_done pf folder fsz f) files of
        None \<Rightarrow> FileInfo_default | Some f \<Rightarrow> resume_at pf folder f)"
  by (induction files) (auto simp: file_done_def resume_at_def not_le split: option.split)

lemma find_sorted_list_of_set:
  assumes "finite A"
  shows "find P (sorted_list_of_set A) =
    (if {a \<in> A. P a} = {} then None else Some (Min {a \<in> A. P a}))"
proof -
  have fin: "finite {a \<in> A. P a}" using assms by simp
  have "filter P (sorted_list_of_set A) = sorted_list_of_set {a \<in> A. P a}"
    using assms by (intro sorted_distinct_set_unique) (auto intro: sorted_wrt_filter)
  moreover have "find P xs = (case filter P xs of [] \<Rightarrow> None | x # _ \<Rightarrow> Some x)" for xs
    by (induction xs) auto
  ultimately have eq: "find P (sorted_list_of_set A) =
      (case sorted_list_of_set {a \<in> A. P a} of [] \<Rightarrow> None | x # _ \<Rightarrow> Some x)" by simp
  show ?thesis
  proof (cases "{a \<in> A. P a} = {}")
    case True
    show ?thesis unfolding eq True by simp
  next
    case False
    show ?thesis unfolding eq sorted_list_of_set_nonempty [OF fin False] using False by simp
  qed
qed

section \<open>Properties\<close>

text \<open>The block file to read next is the first one, in the order of the file names, whose name
  contains \<open>.blk\<close> and that has unread bytes: a file not recorded yet is read from its beginning, a
  recorded one from its recorded position. When all are read the answer is the empty name.\<close>

lemma getNextFile_first_unread:
  "getNextFile pf folder dir fsz =
     (let unread = {f \<in> CroppedFileName ` set dir. is_infix ''.blk'' f \<and> \<not> file_done pf folder fsz f}
      in if unread = {} then FileInfo_default else resume_at pf folder (Min unread))"
proof -
  let ?A = "set (filter (is_infix ''.blk'') (map CroppedFileName dir))"
  have "{a \<in> ?A. \<not> file_done pf folder fsz a} =
      {f \<in> CroppedFileName ` set dir. is_infix ''.blk'' f \<and> \<not> file_done pf folder fsz f}"
    by auto
  then show ?thesis
    unfolding getNextFile_def getNextFile_loop_find find_sorted_list_of_set [OF finite_set] Let_def
    by (cases "{a \<in> ?A. \<not> file_done pf folder fsz a} = {}") (simp_all only: if_True if_False simp_thms option.case)
qed

end
