(* ===== verification/LevelDb.thy ===== *)
theory LevelDb
  imports FileSystem
begin

text \<open>
  \<^verbatim>\<open>src/src/LevelDb.h\<close> and \<^verbatim>\<open>.cpp\<close>: the node's use of LevelDB. The database library itself is a
  parameter: a record of its operations over a state \<open>'s\<close>. \<open>ldb_seek s k\<close> is the list of entries that an
  iterator over \<open>s\<close> passes from \<open>Seek k\<close> on; a status is \<open>None\<close> when it is ok and its text otherwise.
  \<open>leveldb_spec\<close> states what the library documents: a map that is read back, batches that apply in
  order, iteration in the bytewise order of the keys.
\<close>

datatype get_status = Found string | NotFound string | Failed string

datatype write_op = Put string string | Delete string

record 's leveldb_ops =
  ldb_get :: "'s \<Rightarrow> string \<Rightarrow> get_status"
  ldb_put :: "'s \<Rightarrow> string \<Rightarrow> string \<Rightarrow> 's \<times> string option"
  ldb_delete :: "'s \<Rightarrow> string \<Rightarrow> 's \<times> string option"
  ldb_write :: "'s \<Rightarrow> write_op list \<Rightarrow> 's \<times> string option"
  ldb_seek :: "'s \<Rightarrow> string \<Rightarrow> (string \<times> string) list"

section \<open>Keys\<close>

definition KEY_BLOCK_METADATA :: string where "KEY_BLOCK_METADATA = ''?block_meta''"
definition VERSION_DB :: string where "VERSION_DB = ''?version_db''"
definition BLOCK_PREFIX :: string where "BLOCK_PREFIX = ''b_''"
definition MAIN_BLOCK_NUMBER_PREFIX :: string where "MAIN_BLOCK_NUMBER_PREFIX = ''ms_''"
definition NODE_STAT_BLOCK_NUMBER_PREFIX :: string where "NODE_STAT_BLOCK_NUMBER_PREFIX = ''ns_''"
definition FILE_PREFIX :: string where "FILE_PREFIX = ''f_''"
definition MODULES_KEY :: string where "MODULES_KEY = ''modules''"
definition NODES_STATS_ALL :: string where "NODES_STATS_ALL = ''nsaa_''"

lemmas db_keys =
  KEY_BLOCK_METADATA_def VERSION_DB_def BLOCK_PREFIX_def MAIN_BLOCK_NUMBER_PREFIX_def
  NODE_STAT_BLOCK_NUMBER_PREFIX_def FILE_PREFIX_def MODULES_KEY_def NODES_STATS_ALL_def

section \<open>The database object\<close>

definition check_status :: "'s \<times> string option \<Rightarrow> string \<Rightarrow> 's \<times> unit res" where
  "check_status r msg =
     (case snd r of None \<Rightarrow> (fst r, Ok ()) | Some status \<Rightarrow> (fst r, Err (Exception (msg @ status))))"

definition saveValue :: "'s leveldb_ops \<Rightarrow> 's \<Rightarrow> string \<Rightarrow> string \<Rightarrow> 's \<times> unit res" where
  "saveValue ops db key value =
     check_status (ldb_put ops db key value) (''dont add key to bd '' @ key @ ''. '')"

fun findKey_loop ::
    "string \<Rightarrow> size_t \<Rightarrow> size_t \<Rightarrow> (string \<times> string \<Rightarrow> 'r) \<Rightarrow> (string \<times> string) list \<Rightarrow> size_t \<Rightarrow>
     'r list \<Rightarrow> 'r list" where
  "findKey_loop keyTo from count func [] index result = result"
| "findKey_loop keyTo from count func (e # it) index result =
     (if \<not> fst e < keyTo then result
      else if count \<noteq> 0 \<and> from + count \<le> index then result
      else findKey_loop keyTo from count func it (index + 1)
             (if from \<le> index then result @ [func e] else result))"

definition findKeyInternal ::
    "'s leveldb_ops \<Rightarrow> 's \<Rightarrow> string \<Rightarrow> string \<Rightarrow> size_t \<Rightarrow> size_t \<Rightarrow> (string \<times> string \<Rightarrow> 'r) \<Rightarrow> 'r list" where
  "findKeyInternal ops db keyFrom keyTo from count func =
     findKey_loop keyTo from count func (ldb_seek ops db keyFrom) 0 []"

definition findKey :: "'s leveldb_ops \<Rightarrow> 's \<Rightarrow> string \<Rightarrow> string \<Rightarrow> size_t \<Rightarrow> size_t \<Rightarrow> string list" where
  "findKey ops db keyFrom keyTo from count = findKeyInternal ops db keyFrom keyTo from count snd"

definition findKey2 ::
    "'s leveldb_ops \<Rightarrow> 's \<Rightarrow> string \<Rightarrow> string \<Rightarrow> size_t \<Rightarrow> size_t \<Rightarrow> (string \<times> string) list" where
  "findKey2 ops db keyFrom keyTo from count = findKeyInternal ops db keyFrom keyTo from count (\<lambda>e. (fst e, snd e))"

definition findOneValueInternal :: "'s leveldb_ops \<Rightarrow> 's \<Rightarrow> string \<Rightarrow> bool \<Rightarrow> string res" where
  "findOneValueInternal ops db key isCheck =
     (case ldb_get ops db key of
        Found value \<Rightarrow> Ok value
      | NotFound status \<Rightarrow>
          if \<not> isCheck then Ok [] else Err (Exception (''dont add key to bd count val '' @ status))
      | Failed status \<Rightarrow> Err (Exception (''dont add key to bd count val '' @ status)))"

definition findOneValue :: "'s leveldb_ops \<Rightarrow> 's \<Rightarrow> string \<Rightarrow> string res" where
  "findOneValue ops db key = findOneValueInternal ops db key True"

definition findOneValueWithoutCheck :: "'s leveldb_ops \<Rightarrow> 's \<Rightarrow> string \<Rightarrow> string res" where
  "findOneValueWithoutCheck ops db key = findOneValueInternal ops db key False"

text \<open>\<open>beginWith\<close> is a function of the common library.\<close>

fun findFirstOf_loop ::
    "(string \<Rightarrow> string \<Rightarrow> bool) \<Rightarrow> string \<Rightarrow> string set \<Rightarrow> (string \<times> string) list \<Rightarrow> string \<times> string" where
  "findFirstOf_loop beginWith key excluded [] = ([], [])"
| "findFirstOf_loop beginWith key excluded ((k, v) # it) =
     (if beginWith k key then
        (if k \<in> excluded then findFirstOf_loop beginWith key excluded it else (k, v))
      else ([], []))"

definition findFirstOf ::
    "(string \<Rightarrow> string \<Rightarrow> bool) \<Rightarrow> 's leveldb_ops \<Rightarrow> 's \<Rightarrow> string \<Rightarrow> string set \<Rightarrow> string \<times> string" where
  "findFirstOf beginWith ops db key excluded =
     findFirstOf_loop beginWith key excluded (ldb_seek ops db key)"

definition LevelDb_addBatch :: "'s leveldb_ops \<Rightarrow> 's \<Rightarrow> write_op list \<Rightarrow> 's \<times> unit res" where
  "LevelDb_addBatch ops db batch = check_status (ldb_write ops db batch) ''dont add key to bd. ''"

definition removeKey :: "'s leveldb_ops \<Rightarrow> 's \<Rightarrow> string \<Rightarrow> 's \<times> unit res" where
  "removeKey ops db key = check_status (ldb_delete ops db key) ''dont delete key to bd. ''"

section \<open>Batches\<close>

definition makeKeyPrefix :: "string \<Rightarrow> string \<Rightarrow> string" where
  "makeKeyPrefix key prefix = prefix @ key"

definition makeBlockKey :: "string \<Rightarrow> string res" where
  "makeBlockKey blockHash =
     rbind (CHECK (blockHash \<noteq> []) ''Incorrect blockHash: empty'') (\<lambda>_.
     Ok (makeKeyPrefix blockHash BLOCK_PREFIX))"

definition makeFileKey :: "string \<Rightarrow> string res" where
  "makeFileKey fileName =
     rbind (CHECK (fileName \<noteq> []) ''Incorrect blockHash: empty'') (\<lambda>_.
     Ok (makeKeyPrefix fileName FILE_PREFIX))"

record batch =
  isSave :: bool
  batch_ops :: "write_op list"
  save :: "(string, string) fmap"
  deleted :: "string fset"

definition Batch_new :: "bool \<Rightarrow> batch" where
  "Batch_new b = \<lparr>isSave = b, batch_ops = [], save = fmempty, deleted = {||}\<rparr>"

text \<open>\<open>save.emplace\<close> keeps the value that is there.\<close>

definition addKey :: "string \<Rightarrow> string \<Rightarrow> batch \<Rightarrow> batch" where
  "addKey key value b =
     (let b = b\<lparr>batch_ops := batch_ops b @ [Put key value]\<rparr>
      in if isSave b then
           b\<lparr>save := (if key |\<in>| fmdom (save b) then save b else fmupd key value (save b))\<rparr>
         else b)"

definition findValueInBatch :: "string \<Rightarrow> batch \<Rightarrow> string option res" where
  "findValueInBatch key b =
     rbind (CHECK (isSave b) ''is save not set'') (\<lambda>_. Ok (fmlookup (save b) key))"

definition removeValue :: "string \<Rightarrow> batch \<Rightarrow> batch" where
  "removeValue key b =
     (let b = b\<lparr>batch_ops := batch_ops b @ [Delete key]\<rparr>
      in if isSave b then b\<lparr>save := fmdrop key (save b), deleted := finsert key (deleted b)\<rparr> else b)"

definition addBlockHeader :: "string \<Rightarrow> string \<Rightarrow> batch \<Rightarrow> batch res" where
  "addBlockHeader blockHash value b = rbind (makeBlockKey blockHash) (\<lambda>key. Ok (addKey key value b))"

definition addBlockMetadata :: "string \<Rightarrow> batch \<Rightarrow> batch" where
  "addBlockMetadata value b = addKey KEY_BLOCK_METADATA value b"

definition addFileMetadata :: "string \<Rightarrow> string \<Rightarrow> batch \<Rightarrow> batch res" where
  "addFileMetadata fileName value b = rbind (makeFileKey fileName) (\<lambda>key. Ok (addKey key value b))"

definition addMainBlock :: "string \<Rightarrow> batch \<Rightarrow> batch" where
  "addMainBlock value b = addKey MAIN_BLOCK_NUMBER_PREFIX value b"

definition addAllNodes :: "string \<Rightarrow> batch \<Rightarrow> batch" where
  "addAllNodes value b = addKey NODES_STATS_ALL value b"

definition addNodeStatBlock :: "string \<Rightarrow> batch \<Rightarrow> batch" where
  "addNodeStatBlock value b = addKey NODE_STAT_BLOCK_NUMBER_PREFIX value b"

definition addBatch :: "'s leveldb_ops \<Rightarrow> batch \<Rightarrow> 's \<Rightarrow> 's \<times> unit res" where
  "addBatch ops b db = LevelDb_addBatch ops db (batch_ops b)"

section \<open>Records of the node\<close>

definition saveModules :: "'s leveldb_ops \<Rightarrow> string \<Rightarrow> 's \<Rightarrow> 's \<times> unit res" where
  "saveModules ops modules db = saveValue ops db MODULES_KEY modules"

definition saveVersionDb :: "'s leveldb_ops \<Rightarrow> string \<Rightarrow> 's \<Rightarrow> 's \<times> unit res" where
  "saveVersionDb ops value db = saveValue ops db VERSION_DB value"

definition saveAddressStatus :: "'s leveldb_ops \<Rightarrow> string \<Rightarrow> string \<Rightarrow> 's \<Rightarrow> 's \<times> unit res" where
  "saveAddressStatus ops addressAndHash value db = saveValue ops db addressAndHash value"

definition findBlockMetadata :: "'s leveldb_ops \<Rightarrow> 's \<Rightarrow> string res" where
  "findBlockMetadata ops db = findOneValueWithoutCheck ops db KEY_BLOCK_METADATA"

definition findModules :: "'s leveldb_ops \<Rightarrow> 's \<Rightarrow> string res" where
  "findModules ops db = findOneValueWithoutCheck ops db MODULES_KEY"

definition findMainBlock :: "'s leveldb_ops \<Rightarrow> 's \<Rightarrow> string res" where
  "findMainBlock ops db = findOneValueWithoutCheck ops db MAIN_BLOCK_NUMBER_PREFIX"

definition findVersionDb :: "'s leveldb_ops \<Rightarrow> 's \<Rightarrow> string res" where
  "findVersionDb ops db = findOneValueWithoutCheck ops db VERSION_DB"

definition findNodeStatBlock :: "'s leveldb_ops \<Rightarrow> 's \<Rightarrow> string res" where
  "findNodeStatBlock ops db = findOneValueWithoutCheck ops db NODE_STAT_BLOCK_NUMBER_PREFIX"

definition findAllNodes :: "'s leveldb_ops \<Rightarrow> 's \<Rightarrow> string res" where
  "findAllNodes ops db = findOneValueWithoutCheck ops db NODES_STATS_ALL"

text \<open>The end of a prefix scan: the prefix with its last character incremented.\<close>

definition prefix_end :: "string \<Rightarrow> string" where
  "prefix_end from = butlast from @ [char_of (of_char (last from) + 1 :: nat)]"

fun getAllFiles_loop :: "string list \<Rightarrow> (string, fileInfo) fmap \<Rightarrow> (string, fileInfo) fmap res" where
  "getAllFiles_loop [] result = Ok result"
| "getAllFiles_loop (f # found) result =
     rbind (FileInfo_deserialize f) (\<lambda>fi.
     getAllFiles_loop found (fmupd (CroppedFileName (fp_fileName (fi_filePos fi))) fi result))"

definition getAllFiles :: "'s leveldb_ops \<Rightarrow> 's \<Rightarrow> (string, fileInfo) fmap res" where
  "getAllFiles ops db =
     getAllFiles_loop (findKey ops db FILE_PREFIX (prefix_end FILE_PREFIX) 0 0) fmempty"

definition getAllBlocks :: "'s leveldb_ops \<Rightarrow> 's \<Rightarrow> string set" where
  "getAllBlocks ops db = set (findKey ops db BLOCK_PREFIX (prefix_end BLOCK_PREFIX) 0 0)"

section \<open>What LevelDB documents\<close>

definition apply_op :: "write_op \<Rightarrow> (string, string) fmap \<Rightarrow> (string, string) fmap" where
  "apply_op op m = (case op of Put k v \<Rightarrow> fmupd k v m | Delete k \<Rightarrow> fmdrop k m)"

text \<open>\<open>view\<close> reads the contents of a state. A lookup, an iteration and a write that reports success
  behave as on an ordered map; a write that reports a failure may leave any state.\<close>

definition leveldb_spec :: "'s leveldb_ops \<Rightarrow> ('s \<Rightarrow> (string, string) fmap) \<Rightarrow> bool" where
  "leveldb_spec ops view \<longleftrightarrow>
     (\<forall>db k. case fmlookup (view db) k of
        None \<Rightarrow> (\<exists>status. ldb_get ops db k = NotFound status) | Some v \<Rightarrow> ldb_get ops db k = Found v) \<and>
     (\<forall>db k v. snd (ldb_put ops db k v) = None \<longrightarrow> view (fst (ldb_put ops db k v)) = fmupd k v (view db)) \<and>
     (\<forall>db k. snd (ldb_delete ops db k) = None \<longrightarrow> view (fst (ldb_delete ops db k)) = fmdrop k (view db)) \<and>
     (\<forall>db b. snd (ldb_write ops db b) = None \<longrightarrow> view (fst (ldb_write ops db b)) = fold apply_op b (view db)) \<and>
     (\<forall>db k. ldb_seek ops db k = filter (\<lambda>e. k \<le> fst e) (entries (view db)))"

text \<open>A database that is a finite map and never fails.\<close>

definition map_leveldb :: "(string, string) fmap leveldb_ops" where
  "map_leveldb =
     \<lparr>ldb_get = (\<lambda>db k. case fmlookup db k of None \<Rightarrow> NotFound ''NotFound: '' | Some v \<Rightarrow> Found v),
      ldb_put = (\<lambda>db k v. (fmupd k v db, None)),
      ldb_delete = (\<lambda>db k. (fmdrop k db, None)),
      ldb_write = (\<lambda>db b. (fold apply_op b db, None)),
      ldb_seek = (\<lambda>db k. filter (\<lambda>e. k \<le> fst e) (entries db))\<rparr>"

lemma map_leveldb_spec: "leveldb_spec map_leveldb (\<lambda>db. db)"
  by (simp add: leveldb_spec_def map_leveldb_def split: option.split)

lemma leveldb_specD:
  assumes "leveldb_spec ops view"
  shows "fmlookup (view db) k = Some v \<Longrightarrow> ldb_get ops db k = Found v"
    and "fmlookup (view db) k = None \<Longrightarrow> \<exists>status. ldb_get ops db k = NotFound status"
    and "snd (ldb_put ops db k v) = None \<Longrightarrow> view (fst (ldb_put ops db k v)) = fmupd k v (view db)"
    and "snd (ldb_write ops db b) = None \<Longrightarrow> view (fst (ldb_write ops db b)) = fold apply_op b (view db)"
    and "ldb_seek ops db k = filter (\<lambda>e. k \<le> fst e) (entries (view db))"
proof -
  have get: "case fmlookup (view db) k of
      None \<Rightarrow> (\<exists>status. ldb_get ops db k = NotFound status) | Some v \<Rightarrow> ldb_get ops db k = Found v"
    using assms unfolding leveldb_spec_def by blast
  then show "fmlookup (view db) k = Some v \<Longrightarrow> ldb_get ops db k = Found v"
    and "fmlookup (view db) k = None \<Longrightarrow> \<exists>status. ldb_get ops db k = NotFound status" by simp_all
qed (use assms in \<open>unfold leveldb_spec_def, blast+\<close>)

section \<open>Single values\<close>

lemma findOneValueWithoutCheck_eq:
  assumes "leveldb_spec ops view"
  shows "findOneValueWithoutCheck ops db k = Ok (case fmlookup (view db) k of None \<Rightarrow> [] | Some v \<Rightarrow> v)"
  using leveldb_specD(1,2) [OF assms, of db k]
  by (cases "fmlookup (view db) k") (auto simp: findOneValueWithoutCheck_def findOneValueInternal_def)

lemma addBatch_ok:
  assumes "leveldb_spec ops view" and "addBatch ops b db = (db', Ok ())"
  shows "view db' = fold apply_op (batch_ops b) (view db)"
  using leveldb_specD(4) [OF assms(1), of db "batch_ops b"] assms(2)
  by (auto simp: addBatch_def LevelDb_addBatch_def check_status_def split: option.splits)

lemma batch_ops_addKey [simp]: "batch_ops (addKey k v b) = batch_ops b @ [Put k v]"
  by (simp add: addKey_def Let_def)

section \<open>Range scans\<close>

lemma findKey_loop_eq:
  assumes "unat index + length it < 2 ^ 64" and "unat from + unat count < 2 ^ 64"
  shows "findKey_loop keyTo from count func it index result =
    result @ map func (drop (unat from - unat index)
      (let m = takeWhile (\<lambda>e. fst e < keyTo) it
       in if count = 0 then m else take (unat from + unat count - unat index) m))"
  using assms
proof (induction it arbitrary: index result)
  case (Cons e it)
  have next_i: "unat (index + 1) = Suc (unat index)"
    using Cons.prems(1) by (simp add: unat_word_ariths)
  have sum: "unat (from + count) = unat from + unat count"
    using Cons.prems(2) by (simp add: unat_word_ariths)
  have IH: "findKey_loop keyTo from count func it (index + 1) r =
    r @ map func (drop (unat from - Suc (unat index))
      (let m = takeWhile (\<lambda>e. fst e < keyTo) it
       in if count = 0 then m else take (unat from + unat count - Suc (unat index)) m))" for r
    using Cons.IH [of "index + 1"] Cons.prems by (simp add: next_i Let_def)
  show ?case
  proof (cases "from \<le> index")
    case True
    then have "unat from - unat index = 0" by (simp add: word_le_nat_alt)
    moreover have "unat from + unat count \<le> unat index \<or> unat from + unat count - unat index =
        Suc (unat from + unat count - Suc (unat index))" by linarith
    ultimately show ?thesis
      using IH [of "result @ [func e]"] True
      by (cases "count = 0") (auto simp: Let_def word_le_nat_alt sum)
  next
    case False
    then obtain d where d: "unat from - unat index = Suc d" "unat from - Suc (unat index) = d"
      by (cases "unat from - unat index") (auto simp: word_le_nat_alt)
    then have "unat from + unat count - unat index = Suc (unat from + unat count - Suc (unat index))"
      by linarith
    with False d show ?thesis by (auto simp: IH Let_def word_le_nat_alt sum)
  qed
qed simp

lemma sorted_entries: "sorted_wrt (\<lambda>a b. fst a < fst b) (entries m)"
  by (simp add: entries_def sorted_wrt_map sorted_list_of_fset.rep_eq)

lemma takeWhile_sorted:
  "sorted_wrt (\<lambda>a b. fst a < (fst b :: string)) xs \<Longrightarrow>
   takeWhile (\<lambda>e. fst e < t) xs = filter (\<lambda>e. fst e < t) xs"
  by (induction xs) (fastforce intro: filter_False [symmetric] dest: order.strict_trans)+

lemma scan_all:
  assumes "leveldb_spec ops view" and "size (fmdom (view db)) < 2 ^ 64"
  shows "findKeyInternal ops db keyFrom keyTo 0 0 func =
    map func (filter (\<lambda>e. keyFrom \<le> fst e \<and> fst e < keyTo) (entries (view db)))"
proof -
  let ?it = "filter (\<lambda>e. keyFrom \<le> fst e) (entries (view db))"
  have "length ?it < 2 ^ 64"
    using assms(2) length_filter_le [of "\<lambda>e. keyFrom \<le> fst e" "entries (view db)"] by simp
  then have "findKeyInternal ops db keyFrom keyTo 0 0 func = map func (takeWhile (\<lambda>e. fst e < keyTo) ?it)"
    by (simp add: findKeyInternal_def leveldb_specD(5) [OF assms(1)] findKey_loop_eq)
  also have "takeWhile (\<lambda>e. fst e < keyTo) ?it = filter (\<lambda>e. fst e < keyTo) ?it"
    by (intro takeWhile_sorted sorted_wrt_filter sorted_entries)
  finally show ?thesis by (simp add: conj_commute)
qed

text \<open>The interval of a prefix scan is the set of the strings that begin with the prefix.\<close>

lemma char_succ_less:
  assumes "of_char c < (255 :: nat)"
  shows "d < char_of (Suc (of_char c)) \<longleftrightarrow> d \<le> c"
  using assms by (simp add: less_char_def less_eq_char_def less_Suc_eq_le)

lemma prefix_interval:
  assumes "p \<noteq> []" and "of_char (last p) + 1 < (256 :: nat)"
  shows "p \<le> k \<and> k < prefix_end p \<longleftrightarrow> (\<exists>r. k = p @ r)"
  using assms
proof (induction p arbitrary: k)
  case (Cons c p)
  show ?case
  proof (cases "p = []")
    case True
    then show ?thesis
      using Cons.prems by (cases k) (auto simp: prefix_end_def char_succ_less)
  next
    case False
    then have "prefix_end (c # p) = c # prefix_end p" by (simp add: prefix_end_def)
    with Cons False show ?thesis by (cases k) auto
  qed
qed simp

lemma block_interval: "BLOCK_PREFIX \<le> k \<and> k < prefix_end BLOCK_PREFIX \<longleftrightarrow> (\<exists>h. k = makeKeyPrefix h BLOCK_PREFIX)"
  unfolding makeKeyPrefix_def by (rule prefix_interval) (simp_all add: BLOCK_PREFIX_def)

lemma file_interval: "FILE_PREFIX \<le> k \<and> k < prefix_end FILE_PREFIX \<longleftrightarrow> (\<exists>h. k = makeKeyPrefix h FILE_PREFIX)"
  unfolding makeKeyPrefix_def by (rule prefix_interval) (simp_all add: FILE_PREFIX_def)

lemma getAllBlocks_eq:
  assumes "leveldb_spec ops view" and "size (fmdom (view db)) < 2 ^ 64"
  shows "getAllBlocks ops db = {v. \<exists>h. fmlookup (view db) (makeKeyPrefix h BLOCK_PREFIX) = Some v}"
  unfolding getAllBlocks_def findKey_def scan_all [OF assms] block_interval
  by (auto simp: set_entries image_iff) force

section \<open>Properties\<close>

text \<open>A range scan returns, in the order of the keys, the entries of the database with a key in the
  half-open interval; with a page given, it skips \<open>from\<close> of them and returns at most \<open>count\<close>.\<close>

lemma findKey2_is_range:
  assumes "leveldb_spec ops view" and "size (fmdom (view db)) < 2 ^ 64" and "unat from + unat count < 2 ^ 64"
  shows "findKey2 ops db keyFrom keyTo from count =
    (let range = filter (\<lambda>e. keyFrom \<le> fst e \<and> fst e < keyTo) (entries (view db));
         page = drop (unat from) range
     in if count = 0 then page else take (unat count) page)"
proof -
  let ?it = "filter (\<lambda>e. keyFrom \<le> fst e) (entries (view db))"
  have len: "length ?it < 2 ^ 64"
    using assms(2) length_filter_le [of "\<lambda>e. keyFrom \<le> fst e" "entries (view db)"] by simp
  have "takeWhile (\<lambda>e. fst e < keyTo) ?it = filter (\<lambda>e. fst e < keyTo) ?it"
    by (intro takeWhile_sorted sorted_wrt_filter sorted_entries)
  then have "takeWhile (\<lambda>e. fst e < keyTo) ?it = filter (\<lambda>e. keyFrom \<le> fst e \<and> fst e < keyTo) (entries (view db))"
    by (simp add: conj_commute)
  then show ?thesis
    using findKey_loop_eq [of 0 ?it "from" count keyTo "\<lambda>e. (fst e, snd e)" "[]"] len assms(3)
    by (simp add: findKey2_def findKeyInternal_def leveldb_specD(5) [OF assms(1)] Let_def drop_take)
qed

lemma findKey2_is_range_example:
  "findKey2 map_leveldb (fmupd ''b_1'' ''x'' (fmupd ''b_2'' ''y'' (fmupd ''f_1'' ''z'' fmempty))) ''b_'' ''b`'' 1 5 =
     [(''b_2'', ''y'')]"
proof -
  let ?db = "fmupd ''b_1'' ''x'' (fmupd ''b_2'' ''y'' (fmupd ''f_1'' ''z'' fmempty))"
  have "findKey2 map_leveldb ?db ''b_'' ''b`'' 1 5 =
    (let range = filter (\<lambda>e. ''b_'' \<le> fst e \<and> fst e < ''b`'') (entries ?db); page = drop (unat (1 :: size_t)) range
     in if (5 :: size_t) = 0 then page else take (unat (5 :: size_t)) page)"
    by (rule findKey2_is_range [OF map_leveldb_spec]) simp_all
  then show ?thesis
    by (simp add: entries_def sorted_list_of_fset.rep_eq sorted_list_of_set_insert_remove)
qed

text \<open>C29: Writing a batch with a header, the progress record and the record of a block file is atomic
  and separate: when the write succeeds, the progress record reads back, the set of stored headers
  is what it was with the header of this block put in or replaced, no other header is touched, and
  the value of the file is found under its key.\<close>

theorem block_batch_written:
  assumes "leveldb_spec ops view" and "size (fmdom (view db)) + 3 < 2 ^ 64"
    and "addBlockHeader hash header (Batch_new False) = Ok b1"
    and "addFileMetadata fileName fi (addBlockMetadata meta b1) = Ok b2"
    and "addBatch ops b2 db = (db', Ok ())"
  shows "findBlockMetadata ops db' = Ok meta \<and>
    getAllBlocks ops db' = insert header {v. \<exists>h. h \<noteq> hash \<and> fmlookup (view db) (makeKeyPrefix h BLOCK_PREFIX) = Some v} \<and>
    fmlookup (view db') (makeKeyPrefix fileName FILE_PREFIX) = Some fi"
proof -
  have b2: "batch_ops b2 = [Put (makeKeyPrefix hash BLOCK_PREFIX) header, Put KEY_BLOCK_METADATA meta,
      Put (makeKeyPrefix fileName FILE_PREFIX) fi]"
    using assms(3,4) by (auto simp: addBlockHeader_def makeBlockKey_def addFileMetadata_def makeFileKey_def
        addBlockMetadata_def rbind_Ok_iff Batch_new_def)
  have db': "view db' = fmupd (makeKeyPrefix fileName FILE_PREFIX) fi (fmupd KEY_BLOCK_METADATA meta
      (fmupd (makeKeyPrefix hash BLOCK_PREFIX) header (view db)))"
    using addBatch_ok [OF assms(1,5)] by (simp add: b2 apply_op_def)
  have ne: "makeKeyPrefix h BLOCK_PREFIX \<noteq> makeKeyPrefix f FILE_PREFIX"
    "makeKeyPrefix h BLOCK_PREFIX \<noteq> KEY_BLOCK_METADATA" "makeKeyPrefix f FILE_PREFIX \<noteq> KEY_BLOCK_METADATA" for h f
    by (simp_all add: makeKeyPrefix_def db_keys)
  have "size (fmdom (view db')) \<le> size (fmdom (view db)) + 3"
    unfolding db' by (simp add: card_insert_if)
  with assms(2) have small: "size (fmdom (view db')) < 2 ^ 64" by linarith
  have l: "fmlookup (view db') (makeKeyPrefix h BLOCK_PREFIX) =
      (if h = hash then Some header else fmlookup (view db) (makeKeyPrefix h BLOCK_PREFIX))" for h
    by (simp add: db' makeKeyPrefix_def db_keys)
  have "getAllBlocks ops db' = insert header {v. \<exists>h. h \<noteq> hash \<and> fmlookup (view db) (makeKeyPrefix h BLOCK_PREFIX) = Some v}"
    unfolding getAllBlocks_eq [OF assms(1) small] l by auto
  moreover have "findBlockMetadata ops db' = Ok meta"
    unfolding findBlockMetadata_def findOneValueWithoutCheck_eq [OF assms(1)] db' using ne by simp
  ultimately show ?thesis by (simp add: db')
qed

theorem block_batch_written_witness:
  "\<exists>b1 b2 db'. addBlockHeader ''h'' ''H'' (Batch_new False) = Ok b1 \<and>
     addFileMetadata ''f'' ''F'' (addBlockMetadata ''M'' b1) = Ok b2 \<and>
     addBatch map_leveldb b2 fmempty = (db', Ok ()) \<and> findBlockMetadata map_leveldb db' = Ok ''M'' \<and>
     getAllBlocks map_leveldb db' = {''H''}"
proof -
  obtain b1 where b1: "addBlockHeader ''h'' ''H'' (Batch_new False) = Ok b1"
    by (simp add: addBlockHeader_def makeBlockKey_def)
  obtain b2 where b2: "addFileMetadata ''f'' ''F'' (addBlockMetadata ''M'' b1) = Ok b2"
    by (simp add: addFileMetadata_def makeFileKey_def)
  obtain db' where db': "addBatch map_leveldb b2 fmempty = (db', Ok ())"
    by (simp add: addBatch_def LevelDb_addBatch_def check_status_def map_leveldb_def)
  from block_batch_written [OF map_leveldb_spec _ b1 b2 db'] b1 b2 db' show ?thesis by auto
qed

text \<open>A batch that keeps the values it adds answers a lookup with the first value put under a key,
  while writing it stores the last one.\<close>

lemma findValueInBatch_keeps_first:
  assumes "leveldb_spec ops view" and "v \<noteq> v'"
    and "addBatch ops (addKey k v' (addKey k v (Batch_new True))) db = (db', Ok ())"
  shows "findValueInBatch k (addKey k v' (addKey k v (Batch_new True))) = Ok (Some v) \<and>
    findOneValueWithoutCheck ops db' k = Ok v'"
  using addBatch_ok [OF assms(1,3)]
  by (simp add: findOneValueWithoutCheck_eq [OF assms(1)] findValueInBatch_def addKey_def Batch_new_def
      apply_op_def Let_def)

lemma findValueInBatch_keeps_first_example:
  "\<exists>db'. findValueInBatch ''k'' (addKey ''k'' ''b'' (addKey ''k'' ''a'' (Batch_new True))) = Ok (Some ''a'') \<and>
     findOneValueWithoutCheck map_leveldb db' ''k'' = Ok ''b''"
proof -
  obtain db' where "addBatch map_leveldb (addKey ''k'' ''b'' (addKey ''k'' ''a'' (Batch_new True))) fmempty = (db', Ok ())"
    by (simp add: addBatch_def LevelDb_addBatch_def check_status_def map_leveldb_def)
  from findValueInBatch_keeps_first [OF map_leveldb_spec _ this] show ?thesis by auto
qed

end
