(* ===== verification/Heap.thy ===== *)
theory Heap
  imports NodeTests
begin

text \<open>
  \<^verbatim>\<open>src/src/utils/Heap.h\<close> and \<^verbatim>\<open>.cpp\<close>: the keys of a bounded cache by the time of their last use. \<open>keys\<close> is
  the \<open>unordered_map\<close>, \<open>heap\<close> the \<open>multimap\<close> as the list of its entries in iteration order. A time
  point is its number of ticks.
\<close>

type_synonym time_point = int

record 'k heap =
  keys :: "('k, time_point) fmap"
  heap_entries :: "(time_point \<times> 'k) list"

definition Heap_new :: "'k heap" where
  "Heap_new = \<lparr>keys = fmempty, heap_entries = []\<rparr>"

text \<open>\<open>multimap::insert\<close> puts a new entry behind those with the same key.\<close>

definition multimap_insert :: "time_point \<times> 'k \<Rightarrow> (time_point \<times> 'k) list \<Rightarrow> (time_point \<times> 'k) list" where
  "multimap_insert e h = takeWhile (\<lambda>x. fst x \<le> fst e) h @ e # dropWhile (\<lambda>x. fst x \<le> fst e) h"

definition Heap_addElement :: "'k \<Rightarrow> time_point \<Rightarrow> 'k heap \<Rightarrow> 'k heap \<times> unit res" where
  "Heap_addElement key value h =
     (case fmlookup (keys h) key of
        None \<Rightarrow> (\<lparr>keys = fmupd key value (keys h),
                 heap_entries = multimap_insert (value, key) (heap_entries h)\<rparr>, Ok ())
      | Some lastValue \<Rightarrow>
          if (lastValue, key) \<notin> set (heap_entries h) then (h, Err (Exception ''Not found element''))
          else (\<lparr>keys = fmupd key value (keys h),
                 heap_entries = multimap_insert (value, key) (remove1 (lastValue, key) (heap_entries h))\<rparr>, Ok ()))"

text \<open>\<open>lower_bound\<close> of the least time is the first entry; dereferencing it on an empty heap is
  undefined.\<close>

fun reduceToMax_loop ::
    "nat \<Rightarrow> ('k, time_point) fmap \<Rightarrow> (time_point \<times> 'k) list \<Rightarrow> 'k list \<Rightarrow> 'k heap \<times> 'k list res" where
  "reduceToMax_loop newSize ks [] result =
     (if newSize < size (fmdom ks) then (\<lparr>keys = ks, heap_entries = []\<rparr>, Err Undefined)
      else (\<lparr>keys = ks, heap_entries = []\<rparr>, Ok result))"
| "reduceToMax_loop newSize ks (e # h) result =
     (if newSize < size (fmdom ks) then reduceToMax_loop newSize (fmdrop (snd e) ks) h (result @ [snd e])
      else (\<lparr>keys = ks, heap_entries = e # h\<rparr>, Ok result))"

definition Heap_reduceToMax :: "size_t \<Rightarrow> 'k heap \<Rightarrow> 'k heap \<times> 'k list res" where
  "Heap_reduceToMax newSize h =
     (if newSize = 0 then (h, Err (Exception ''Incorrect new size''))
      else reduceToMax_loop (unat newSize) (keys h) (heap_entries h) [])"

section \<open>Invariant\<close>

text \<open>The two containers agree: the entries are in the order of time, and they are the key map
  turned around.\<close>

definition heap_inv :: "'k heap \<Rightarrow> bool" where
  "heap_inv h \<longleftrightarrow>
     sorted (map fst (heap_entries h)) \<and> distinct (map snd (heap_entries h)) \<and>
     (\<forall>v k. (v, k) \<in> set (heap_entries h) \<longleftrightarrow> fmlookup (keys h) k = Some v)"

lemma heap_inv_new [simp]: "heap_inv Heap_new"
  by (simp add: heap_inv_def Heap_new_def)

lemma set_multimap_insert: "set (multimap_insert e h) = insert e (set h)"
  unfolding multimap_insert_def
  by (metis (no_types, lifting) Un_insert_right list.simps(15) set_append takeWhile_dropWhile_id)

lemma distinct_multimap_insert:
  "distinct (map snd (multimap_insert e h)) \<longleftrightarrow> snd e \<notin> snd ` set h \<and> distinct (map snd h)"
proof -
  have "distinct (map snd (t @ e # d)) \<longleftrightarrow> snd e \<notin> snd ` set (t @ d) \<and> distinct (map snd (t @ d))" for t d
    by auto
  then show ?thesis unfolding multimap_insert_def by (simp only: takeWhile_dropWhile_id)
qed

lemma sorted_multimap_insert:
  assumes "sorted (map fst h)"
  shows "sorted (map fst (multimap_insert e h))"
proof -
  have "sorted (map fst (takeWhile (\<lambda>x. fst x \<le> fst e) h))"
    using assms by (metis sorted_append map_append takeWhile_dropWhile_id)
  moreover have "sorted (map fst (dropWhile (\<lambda>x. fst x \<le> fst e) h))"
    using assms by (metis sorted_append map_append takeWhile_dropWhile_id)
  moreover have "\<forall>x\<in>set (takeWhile (\<lambda>x. fst x \<le> fst e) h). fst x \<le> fst e"
    by (auto dest: set_takeWhileD)
  moreover have "\<forall>x\<in>set (dropWhile (\<lambda>x. fst x \<le> fst e) h). fst e \<le> fst x"
  proof (cases "dropWhile (\<lambda>x. fst x \<le> fst e) h")
    case (Cons y ys)
    then have "\<not> fst y \<le> fst e" by (metis hd_dropWhile list.discI list.sel(1))
    then show ?thesis using \<open>sorted (map fst (dropWhile _ h))\<close> Cons by fastforce
  next
    case Nil
    show ?thesis unfolding Nil by simp
  qed
  ultimately show ?thesis by (fastforce simp: multimap_insert_def sorted_append)
qed

lemma heap_inv_entry: "heap_inv h \<Longrightarrow> fmlookup (keys h) k = Some v \<Longrightarrow> (v, k) \<in> set (heap_entries h)"
  by (simp add: heap_inv_def)

lemma heap_inv_addElement:
  assumes "heap_inv h"
  shows "snd (Heap_addElement key value h) = Ok ()" and "heap_inv (fst (Heap_addElement key value h))"
proof -
  have s: "sorted (map fst (heap_entries h))" "distinct (map snd (heap_entries h))"
    and iff: "\<And>v k. (v, k) \<in> set (heap_entries h) \<longleftrightarrow> fmlookup (keys h) k = Some v"
    using assms by (auto simp: heap_inv_def)
  show "snd (Heap_addElement key value h) = Ok ()"
    by (simp add: Heap_addElement_def iff split: option.split)
  show "heap_inv (fst (Heap_addElement key value h))"
  proof (cases "fmlookup (keys h) key")
    case None
    then have "key \<notin> snd ` set (heap_entries h)" using iff by fastforce
    with None s show ?thesis
      by (auto simp: Heap_addElement_def heap_inv_def sorted_multimap_insert distinct_multimap_insert
          set_multimap_insert iff)
  next
    case (Some old)
    let ?h = "remove1 (old, key) (heap_entries h)"
    have set: "set ?h = set (heap_entries h) - {(old, key)}"
      using distinct_map [of snd "heap_entries h"] s(2) by simp
    have "sorted (map fst ?h)" "distinct (map snd ?h)"
      using s by (auto simp: sorted_map_remove1 distinct_map inj_on_def dest: notin_set_remove1)
    moreover have "key \<notin> snd ` set ?h"
      unfolding set using iff Some by fastforce
    ultimately show ?thesis
      using Some iff [of old key] by (auto simp: Heap_addElement_def heap_inv_def sorted_multimap_insert
          distinct_multimap_insert set_multimap_insert set iff)
  qed
qed

lemma heap_inv_fmdom:
  assumes "heap_inv h"
  shows "fset (fmdom (keys h)) = snd ` set (heap_entries h)"
proof (rule set_eqI)
  fix k
  have "k \<in> fset (fmdom (keys h)) \<longleftrightarrow> (\<exists>v. fmlookup (keys h) k = Some v)"
    by (simp add: fmlookup_dom_iff)
  also have "\<dots> \<longleftrightarrow> k \<in> snd ` set (heap_entries h)"
    using assms by (force simp: heap_inv_def)
  finally show "k \<in> fset (fmdom (keys h)) \<longleftrightarrow> k \<in> snd ` set (heap_entries h)" .
qed

lemma reduceToMax_loop_eq:
  assumes "distinct (map snd h)" and "fset (fmdom ks) = snd ` set h"
  shows "reduceToMax_loop N ks h r =
    (let n = length h - N
     in (\<lparr>keys = fmdrop_set (snd ` set (take n h)) ks, heap_entries = drop n h\<rparr>, Ok (r @ map snd (take n h))))"
  using assms
proof (induction h arbitrary: ks r)
  case (Cons e h)
  have size: "size (fmdom ks) = Suc (length h)"
    using Cons.prems distinct_card [of "map snd (e # h)"] by simp
  have "fset (fmdom (fmdrop (snd e) ks)) = snd ` set h"
    using Cons.prems by auto
  from Cons.IH [OF _ this] Cons.prems(1) have IH:
    "reduceToMax_loop N (fmdrop (snd e) ks) h (r @ [snd e]) =
     (let n = length h - N
      in (\<lparr>keys = fmdrop_set (snd ` set (take n h)) (fmdrop (snd e) ks), heap_entries = drop n h\<rparr>,
          Ok (r @ [snd e] @ map snd (take n h))))" by simp
  show ?case
  proof (cases "N < Suc (length h)")
    case True
    then have "Suc (length h) - N = Suc (length h - N)" by simp
    moreover have "fmdrop_set (snd ` set (take m h)) (fmdrop (snd e) ks) =
        fmdrop_set (snd ` set (take (Suc m) (e # h))) ks" for m
      by (rule fmap_ext) auto
    ultimately show ?thesis using True size IH by (simp add: Let_def)
  next
    case False
    then have "Suc (length h) - N = 0" by simp
    then show ?thesis using False size by (simp add: Let_def)
  qed
qed (simp add: Let_def)

lemma heap_inv_reduceToMax:
  assumes inv: "heap_inv h" and N: "newSize \<noteq> 0"
  shows "Heap_reduceToMax newSize h =
      (let n = length (heap_entries h) - unat newSize
       in (\<lparr>keys = fmdrop_set (snd ` set (take n (heap_entries h))) (keys h),
            heap_entries = drop n (heap_entries h)\<rparr>, Ok (map snd (take n (heap_entries h)))))"
    and "heap_inv (fst (Heap_reduceToMax newSize h))"
proof -
  let ?n = "length (heap_entries h) - unat newSize"
  let ?t = "take ?n (heap_entries h)" and ?d = "drop ?n (heap_entries h)"
  have d: "distinct (map snd (heap_entries h))" using inv by (simp add: heap_inv_def)
  show eq: "Heap_reduceToMax newSize h =
      (let n = length (heap_entries h) - unat newSize
       in (\<lparr>keys = fmdrop_set (snd ` set (take n (heap_entries h))) (keys h),
            heap_entries = drop n (heap_entries h)\<rparr>, Ok (map snd (take n (heap_entries h)))))"
    using reduceToMax_loop_eq [OF d heap_inv_fmdom [OF inv]] N by (simp add: Heap_reduceToMax_def)
  have split: "heap_entries h = ?t @ ?d" by simp
  have "distinct (map snd (?t @ ?d))" using d by simp
  then have disj: "snd ` set ?t \<inter> snd ` set ?d = {}"
    by (simp only: map_append distinct_append set_map)
  have "(v, k) \<in> set ?d \<longleftrightarrow> k \<notin> snd ` set ?t \<and> fmlookup (keys h) k = Some v" for v k
  proof -
    have "(v, k) \<in> set (?t @ ?d) \<longleftrightarrow> fmlookup (keys h) k = Some v"
      using inv by (simp only: append_take_drop_id heap_inv_def)
    moreover have "(v, k) \<in> S \<Longrightarrow> k \<in> snd ` S" for S :: "(time_point \<times> 'a) set"
      by (metis image_eqI snd_conv)
    ultimately show ?thesis using disj unfolding set_append Un_iff by blast
  qed
  moreover have "sorted (map fst ?d)"
    using inv by (simp add: heap_inv_def drop_map [symmetric] sorted_wrt_drop)
  moreover have "distinct (map snd ?d)" using d by (simp add: drop_map [symmetric])
  ultimately show "heap_inv (fst (Heap_reduceToMax newSize h))"
    unfolding eq Let_def heap_inv_def by simp
qed

lemma Heap_reduceToMax_result:
  assumes "heap_inv h" and "newSize \<noteq> 0"
  shows "\<exists>h' removed. Heap_reduceToMax newSize h = (h', Ok removed) \<and> heap_inv h'"
  using heap_inv_reduceToMax [OF assms] by (auto simp: Let_def)

section \<open>Properties\<close>

text \<open>Touching a key never fails on a consistent heap, keeps it consistent, and records exactly the
  new time for this key: the check that the old entry is found can not fail.\<close>

lemma Heap_addElement_total:
  assumes "heap_inv h"
  shows "\<exists>h'. Heap_addElement key t h = (h', Ok ()) \<and> heap_inv h' \<and> keys h' = fmupd key t (keys h)"
proof -
  have "keys (fst (Heap_addElement key t h)) = fmupd key t (keys h)"
    using heap_inv_addElement(1) [OF assms, of key t]
    by (auto simp: Heap_addElement_def split: option.splits if_splits)
  then show ?thesis
    using heap_inv_addElement [OF assms, of key t] by (metis prod.collapse)
qed

lemma Heap_addElement_total_example:
  "\<exists>h'. Heap_addElement ''k'' 5 (fst (Heap_addElement ''k'' 3 Heap_new)) = (h', Ok ()) \<and>
     fmlookup (keys h') ''k'' = Some 5"
proof -
  have "heap_inv (fst (Heap_addElement ''k'' 3 Heap_new))"
    by (rule heap_inv_addElement(2) [OF heap_inv_new])
  from Heap_addElement_total [OF this, of "''k''" 5] show ?thesis by auto
qed



end
