(* ===== verification/Cache.thy ===== *)
theory Cache
  imports Heap FileSystem
begin

text \<open>
  \<^verbatim>\<open>src/src/Cache\<close>: the value cache by attribute (\<open>Cache.h\<close>, \<open>Cache.cpp\<close>) and the cache of address
  histories (\<open>LocalCache.h\<close>, \<open>LocalCache.cpp\<close>). A \<open>HashedString\<close> is its string. The two instances of the
  \<open>LocalCacheInternal\<close> template, over transactions and over statuses, share the definitions: an
  instance is given by its \<open>getMaxBlockNumber\<close>. The clock and the getters are arguments. Each method
  body is one step; the places where the source gives up its lock in between are noted.
\<close>

section \<open>Cache by attribute\<close>

record 'v cache =
  cache_map :: "(string, 'v) fmap"
  attributes :: "(string, string list) fmap"

definition Cache_new :: "'v cache" where
  "Cache_new = \<lparr>cache_map = fmempty, attributes = fmempty\<rparr>"

definition attribute_keys :: "string \<Rightarrow> 'v cache \<Rightarrow> string list" where
  "attribute_keys attribute c = (case fmlookup (attributes c) attribute of None \<Rightarrow> [] | Some ks \<Rightarrow> ks)"

definition Cache_addValue :: "string \<Rightarrow> string \<Rightarrow> 'v \<Rightarrow> 'v cache \<Rightarrow> 'v cache" where
  "Cache_addValue key attribute value c =
     c\<lparr>attributes := fmupd attribute (attribute_keys attribute c @ [key]) (attributes c),
       cache_map := (if key |\<in>| fmdom (cache_map c) then cache_map c else fmupd key value (cache_map c))\<rparr>"

definition Cache_getValue :: "string \<Rightarrow> 'v cache \<Rightarrow> 'v option" where
  "Cache_getValue key c = fmlookup (cache_map c) key"

definition Cache_remove :: "string \<Rightarrow> 'v cache \<Rightarrow> 'v cache" where
  "Cache_remove attribute c =
     (case fmlookup (attributes c) attribute of
        None \<Rightarrow> c
      | Some ks \<Rightarrow> c\<lparr>cache_map := fold fmdrop ks (cache_map c), attributes := fmdrop attribute (attributes c)\<rparr>)"

section \<open>Cache of address histories\<close>

datatype 'e cacheValue = MaxNumber size_t | Full "'e list"

record 'e localCacheElement =
  lce_value :: "'e cacheValue"
  blockUnklesOrNewNum :: size_t
  lce_isSyncUpdated :: bool

record 'e localCache =
  lc_cache :: "(string, 'e localCacheElement) fmap"
  noSyncBlockchainThreadElements :: "string fset"
  lastBlockNum :: size_t
  maxCountElements :: size_t
  lc_heap :: "string heap"
  isSaveFull :: bool

definition DISABLED_CACHE :: size_t where "DISABLED_CACHE = 0"
definition WITHOUT_LIMITATION :: size_t where "WITHOUT_LIMITATION = - 1"

definition LocalCacheInternal_new :: "size_t \<Rightarrow> 'e localCache" where
  "LocalCacheInternal_new maxCount =
     \<lparr>lc_cache = fmempty, noSyncBlockchainThreadElements = {||}, lastBlockNum = 0,
      maxCountElements = maxCount, lc_heap = Heap_new, isSaveFull = True\<rparr>"

definition makeNewElementValue :: "('e list \<Rightarrow> size_t) \<Rightarrow> 'e list \<Rightarrow> bool \<Rightarrow> 'e cacheValue" where
  "makeNewElementValue getMax value saveFull = (if saveFull then Full value else MaxNumber (getMax value))"

definition LocalCacheElement ::
    "('e list \<Rightarrow> size_t) \<Rightarrow> 'e list \<Rightarrow> bool \<Rightarrow> bool \<Rightarrow> 'e localCacheElement" where
  "LocalCacheElement getMax value saveFull isSync =
     \<lparr>lce_value = makeNewElementValue getMax value saveFull, blockUnklesOrNewNum = 0, lce_isSyncUpdated = isSync\<rparr>"

definition addElementInternal ::
    "('e list \<Rightarrow> size_t) \<Rightarrow> string \<Rightarrow> 'e list \<Rightarrow> bool \<Rightarrow> bool \<Rightarrow> 'e localCache \<Rightarrow> 'e localCache" where
  "addElementInternal getMax address value isSync isNewElement lc =
     (let newElement = LocalCacheElement getMax value (isSaveFull lc) isSync;
          newElement = (if isNewElement then newElement\<lparr>blockUnklesOrNewNum := lastBlockNum lc + 1\<rparr> else newElement)
      in if \<not> isSync then
           lc\<lparr>lc_cache := fmupd address newElement (lc_cache lc),
              noSyncBlockchainThreadElements := finsert address (noSyncBlockchainThreadElements lc)\<rparr>
         else case fmlookup (lc_cache lc) address of
           None \<Rightarrow> lc
         | Some _ \<Rightarrow>
             lc\<lparr>lc_cache := fmupd address newElement (lc_cache lc),
                noSyncBlockchainThreadElements := noSyncBlockchainThreadElements lc |-| {|address|}\<rparr>)"

definition removeElement :: "string \<Rightarrow> 'e localCache \<Rightarrow> 'e localCache" where
  "removeElement address lc =
     lc\<lparr>lc_cache := fmdrop address (lc_cache lc),
        noSyncBlockchainThreadElements := noSyncBlockchainThreadElements lc |-| {|address|}\<rparr>"

text \<open>The lock is taken twice, for the insertion and for the eviction.\<close>

definition addElement ::
    "('e list \<Rightarrow> size_t) \<Rightarrow> string \<Rightarrow> 'e list \<Rightarrow> bool \<Rightarrow> 'e localCache \<Rightarrow> 'e localCache \<times> unit res" where
  "addElement getMax address value isSync lc =
     (if maxCountElements lc = DISABLED_CACHE then (lc, Ok ())
      else
        let lc = addElementInternal getMax address value isSync False lc
        in if maxCountElements lc \<noteq> WITHOUT_LIMITATION then
             (case Heap_reduceToMax (maxCountElements lc) (lc_heap lc) of
                (h, Inl e) \<Rightarrow> (lc\<lparr>lc_heap := h\<rparr>, Err e)
              | (h, Inr addrs) \<Rightarrow> (fold removeElement addrs (lc\<lparr>lc_heap := h\<rparr>), Ok ()))
           else (lc, Ok ()))"

text \<open>The lock is given up while the getter runs; \<open>getter\<close> is applied to the address.\<close>

definition addIfNoExist ::
    "('e list \<Rightarrow> size_t) \<Rightarrow> string \<Rightarrow> (string \<Rightarrow> 'e list) \<Rightarrow> bool \<Rightarrow> bool \<Rightarrow> 'e localCache \<Rightarrow> 'e localCache" where
  "addIfNoExist getMax address getter isSync isInitialized lc =
     (case fmlookup (lc_cache lc) address of
        None \<Rightarrow> addElementInternal getMax address (getter address) isSync True lc
      | Some el \<Rightarrow>
          if \<not> isInitialized then
            lc\<lparr>lc_cache := fmupd address (el\<lparr>blockUnklesOrNewNum := lastBlockNum lc + 1\<rparr>) (lc_cache lc)\<rparr>
          else lc)"

definition setLastBlockNum :: "size_t \<Rightarrow> 'e localCache \<Rightarrow> 'e localCache" where
  "setLastBlockNum newLastBlockNum lc =
     (let lc = (if lastBlockNum lc = 0 then
                  lc\<lparr>lc_cache := fmmap (\<lambda>el. el\<lparr>blockUnklesOrNewNum := newLastBlockNum + 1\<rparr>) (lc_cache lc)\<rparr>
                else lc)
      in lc\<lparr>lastBlockNum := newLastBlockNum\<rparr>)"

definition setTransactions ::
    "string \<Rightarrow> transactionInfo list \<Rightarrow> bool \<Rightarrow> transactionInfo localCache \<Rightarrow> transactionInfo localCache \<times> unit res" where
  "setTransactions address transactions isSync lc =
     (if transactions \<noteq> [] \<and> ti_blockNumber (last transactions) \<le> ti_blockNumber (hd transactions)
      then addElement getMaxBlockNumber_txs address transactions isSync lc
      else addElement getMaxBlockNumber_txs address (rev transactions) isSync lc)"

definition add_values ::
    "('e list \<Rightarrow> size_t) \<Rightarrow> string \<Rightarrow> 'e list \<Rightarrow> 'e localCache \<Rightarrow> 'e localCache" where
  "add_values getMax address values lc =
     (case fmlookup (lc_cache lc) address of
        None \<Rightarrow> lc
      | Some el \<Rightarrow>
          let v = (case lce_value el of MaxNumber _ \<Rightarrow> MaxNumber (getMax values) | Full vs \<Rightarrow> Full (values @ vs))
          in lc\<lparr>lc_cache := fmupd address (el\<lparr>lce_value := v\<rparr>) (lc_cache lc)\<rparr>)"

definition addTransactions ::
    "string \<Rightarrow> transactionInfo list \<Rightarrow> transactionInfo localCache \<Rightarrow> transactionInfo localCache" where
  "addTransactions address transactions lc = add_values getMaxBlockNumber_txs address transactions lc"

text \<open>\<open>cache.at\<close> throws on an absent key; reading the first element of an empty history is undefined.\<close>

definition remove_last ::
    "('e \<Rightarrow> size_t) \<Rightarrow> string \<Rightarrow> 'e localCache \<Rightarrow> 'e localCache \<times> unit res" where
  "remove_last blockNum address lc =
     (case fmlookup (lc_cache lc) address of
        None \<Rightarrow> (lc, Err (StdException ''out_of_range''))
      | Some el \<Rightarrow>
          (case lce_value el of
             Full [] \<Rightarrow> (lc, Err Undefined)
           | v \<Rightarrow>
               let v' = (case v of
                           MaxNumber n \<Rightarrow> MaxNumber n
                         | Full vs \<Rightarrow> Full (dropWhile (\<lambda>x. blockNum x = blockNum (hd vs)) vs));
                   el = el\<lparr>lce_value := v', blockUnklesOrNewNum := lastBlockNum lc + 1\<rparr>
               in (lc\<lparr>lc_cache := fmupd address el (lc_cache lc)\<rparr>, Ok ())))"

definition removeLastTransactions ::
    "string \<Rightarrow> transactionInfo localCache \<Rightarrow> transactionInfo localCache \<times> unit res" where
  "removeLastTransactions address lc = remove_last ti_blockNumber address lc"

text \<open>A page is a pair of iterators; when the sum of its bounds wraps below its start the range is
  not valid.\<close>

definition getTransactions :: "transactionInfo cacheValue \<Rightarrow> size_t \<Rightarrow> size_t \<Rightarrow> transactionInfo list res" where
  "getTransactions txs from count =
     (case txs of
        MaxNumber _ \<Rightarrow> Err (Exception ''Incorrect txs'')
      | Full res \<Rightarrow>
          if count = 0 then Ok res
          else
            let b = unat (min from (size_of res)); e = unat (min (from + count) (size_of res))
            in if e < b then Err Undefined else Ok (take (e - b) (drop b res)))"

definition setStatuses ::
    "string \<Rightarrow> transactionStatus list \<Rightarrow> bool \<Rightarrow> transactionStatus localCache \<Rightarrow>
     transactionStatus localCache \<times> unit res" where
  "setStatuses address transactions isSync lc = addElement getMaxBlockNumber_statuses address transactions isSync lc"

definition addStatuses ::
    "string \<Rightarrow> transactionStatus list \<Rightarrow> transactionStatus localCache \<Rightarrow> transactionStatus localCache" where
  "addStatuses address transactions lc = add_values getMaxBlockNumber_statuses address transactions lc"

definition removeLastStatuses ::
    "string \<Rightarrow> transactionStatus localCache \<Rightarrow> transactionStatus localCache \<times> unit res" where
  "removeLastStatuses address lc = remove_last ts_blockNumber address lc"

definition getStatuses :: "transactionStatus cacheValue \<Rightarrow> transactionStatus list res" where
  "getStatuses txs = (case txs of MaxNumber _ \<Rightarrow> Err (Exception ''Incorrect txs'') | Full res \<Rightarrow> Ok res)"

definition getNoSyncBlockchainThreadElements :: "'e localCache \<Rightarrow> string fset" where
  "getNoSyncBlockchainThreadElements lc = noSyncBlockchainThreadElements lc"

definition isExist :: "string \<Rightarrow> 'e localCache \<Rightarrow> bool" where
  "isExist address lc \<longleftrightarrow> address |\<in>| fmdom (lc_cache lc)"

definition isSyncBlockchainThreadUpdated :: "string \<Rightarrow> 'e localCache \<Rightarrow> bool" where
  "isSyncBlockchainThreadUpdated address lc =
     (case fmlookup (lc_cache lc) address of None \<Rightarrow> False | Some el \<Rightarrow> lce_isSyncUpdated el)"

text \<open>A lookup notes the time of use; the value is \<open>None\<close> for the answer \<open>false\<close>.\<close>

definition getValueIfExist ::
    "time_point \<Rightarrow> string \<Rightarrow> 'e localCache \<Rightarrow> 'e localCache \<times> 'e cacheValue option res" where
  "getValueIfExist now address lc =
     (if maxCountElements lc = DISABLED_CACHE then (lc, Ok None)
      else
        (case fmlookup (lc_cache lc) address of
           None \<Rightarrow> (lc, Ok None)
         | Some el \<Rightarrow>
             if maxCountElements lc \<noteq> WITHOUT_LIMITATION then
               (case Heap_addElement address now (lc_heap lc) of
                  (h, Inl e) \<Rightarrow> (lc\<lparr>lc_heap := h\<rparr>, Err e)
                | (h, Inr _) \<Rightarrow> (lc\<lparr>lc_heap := h\<rparr>, Ok (Some (lce_value el))))
             else (lc, Ok (Some (lce_value el)))))"

definition isGreater_value :: "('e list \<Rightarrow> size_t \<Rightarrow> bool) \<Rightarrow> 'e cacheValue \<Rightarrow> size_t \<Rightarrow> bool" where
  "isGreater_value isGreater infos blockNumber =
     (case infos of MaxNumber n \<Rightarrow> blockNumber < n | Full vs \<Rightarrow> isGreater vs blockNumber)"

record 'e batchResults =
  br_elements :: "(string \<times> 'e cacheValue) list"
  br_lastBlockNum :: size_t

definition findGreaterElements ::
    "('e list \<Rightarrow> size_t \<Rightarrow> bool) \<Rightarrow> string list \<Rightarrow> size_t \<Rightarrow> 'e localCache \<Rightarrow> 'e batchResults" where
  "findGreaterElements isGreater addresses blockNum lc =
     \<lparr>br_elements = List.map_filter (\<lambda>address.
        case fmlookup (lc_cache lc) address of
          None \<Rightarrow> None
        | Some el \<Rightarrow>
            if blockNum < blockUnklesOrNewNum el \<or> isGreater_value isGreater (lce_value el) blockNum
            then Some (address, lce_value el) else None) addresses,
      br_lastBlockNum = lastBlockNum lc\<rparr>"

section \<open>Invariants\<close>

lemma lookup_fold_fmdrop: "fmlookup (fold fmdrop ks m) k = (if k \<in> set ks then None else fmlookup m k)"
  by (induction ks arbitrary: m) auto

text \<open>Every cached key stands under an attribute that is still there, so that removing attributes
  frees the cache.\<close>

definition cache_inv :: "'v cache \<Rightarrow> bool" where
  "cache_inv c \<longleftrightarrow> (\<forall>k. Cache_getValue k c \<noteq> None \<longrightarrow> (\<exists>a. k \<in> set (attribute_keys a c)))"

inductive cache_run :: "'v cache \<Rightarrow> bool" where
  new: "cache_run Cache_new"
| add: "cache_run c \<Longrightarrow> cache_run (Cache_addValue key attribute v c)"
| remove: "cache_run c \<Longrightarrow> cache_run (Cache_remove attribute c)"

lemma attribute_keys_add:
  "attribute_keys a (Cache_addValue key attribute v c) =
     (if a = attribute then attribute_keys a c @ [key] else attribute_keys a c)"
  by (simp add: attribute_keys_def Cache_addValue_def)

lemma attribute_keys_remove:
  "attribute_keys a (Cache_remove attribute c) = (if a = attribute then [] else attribute_keys a c)"
  by (auto simp: attribute_keys_def Cache_remove_def split: option.split)

lemma getValue_add:
  "Cache_getValue k (Cache_addValue key attribute v c) =
     (case Cache_getValue k c of None \<Rightarrow> (if k = key then Some v else None) | Some w \<Rightarrow> Some w)"
  by (auto simp: Cache_getValue_def Cache_addValue_def fmlookup_dom_iff split: option.split)

lemma getValue_remove:
  "Cache_getValue k (Cache_remove attribute c) =
     (if k \<in> set (attribute_keys attribute c) then None else Cache_getValue k c)"
  by (auto simp: Cache_getValue_def Cache_remove_def attribute_keys_def lookup_fold_fmdrop split: option.split)

lemma cache_run_inv: "cache_run c \<Longrightarrow> cache_inv c"
proof (induction rule: cache_run.induct)
  case new
  show ?case by (simp add: cache_inv_def Cache_getValue_def Cache_new_def)
next
  case (add c key attribute v)
  show ?case
    unfolding cache_inv_def
  proof (intro allI impI)
    fix k assume k: "Cache_getValue k (Cache_addValue key attribute v c) \<noteq> None"
    show "\<exists>a. k \<in> set (attribute_keys a (Cache_addValue key attribute v c))"
    proof (cases "k = key")
      case True
      then show ?thesis by (intro exI [of _ attribute]) (simp add: attribute_keys_add)
    next
      case False
      with k have "Cache_getValue k c \<noteq> None" by (auto simp: getValue_add split: option.splits)
      with add.IH obtain a where "k \<in> set (attribute_keys a c)" by (auto simp: cache_inv_def)
      then show ?thesis by (intro exI [of _ a]) (auto simp: attribute_keys_add)
    qed
  qed
next
  case (remove c attribute)
  show ?case
    unfolding cache_inv_def
  proof (intro allI impI)
    fix k assume k: "Cache_getValue k (Cache_remove attribute c) \<noteq> None"
    then have no: "k \<notin> set (attribute_keys attribute c)" and "Cache_getValue k c \<noteq> None"
      by (simp_all add: getValue_remove split: if_splits)
    then obtain a where a: "k \<in> set (attribute_keys a c)" using remove.IH by (auto simp: cache_inv_def)
    with no have "a \<noteq> attribute" by auto
    with a show "\<exists>a. k \<in> set (attribute_keys a (Cache_remove attribute c))"
      by (intro exI [of _ a]) (simp add: attribute_keys_remove)
  qed
qed

text \<open>The set of the elements that the synchronizing thread has not updated is exactly what the
  elements themselves say, and the times of use are consistent.\<close>

definition local_cache_inv :: "'e localCache \<Rightarrow> bool" where
  "local_cache_inv lc \<longleftrightarrow>
     heap_inv (lc_heap lc) \<and>
     (\<forall>a. a |\<in>| noSyncBlockchainThreadElements lc \<longleftrightarrow>
        (\<exists>el. fmlookup (lc_cache lc) a = Some el \<and> \<not> lce_isSyncUpdated el))"

lemma local_cache_inv_new [simp]: "local_cache_inv (LocalCacheInternal_new n)"
  by (simp add: local_cache_inv_def LocalCacheInternal_new_def)

lemma local_cache_inv_addElementInternal:
  "local_cache_inv lc \<Longrightarrow> local_cache_inv (addElementInternal getMax address v isSync isNew lc)"
  by (auto simp: local_cache_inv_def addElementInternal_def LocalCacheElement_def Let_def split: option.split)

lemma local_cache_inv_removeElement: "local_cache_inv lc \<Longrightarrow> local_cache_inv (removeElement address lc)"
  by (auto simp: local_cache_inv_def removeElement_def)

lemma local_cache_inv_removeElements: "local_cache_inv lc \<Longrightarrow> local_cache_inv (fold removeElement addrs lc)"
  by (induction addrs arbitrary: lc) (simp_all add: local_cache_inv_removeElement)

lemma local_cache_inv_update:
  assumes "local_cache_inv lc" and "fmlookup (lc_cache lc) a = Some el"
    and "lce_isSyncUpdated el' = lce_isSyncUpdated el"
  shows "local_cache_inv (lc\<lparr>lc_cache := fmupd a el' (lc_cache lc)\<rparr>)"
  using assms by (auto simp: local_cache_inv_def)

lemma local_cache_inv_heap: "local_cache_inv lc \<Longrightarrow> heap_inv h \<Longrightarrow> local_cache_inv (lc\<lparr>lc_heap := h\<rparr>)"
  by (simp add: local_cache_inv_def)

lemma heap_addElementInternal [simp]:
  "lc_heap (addElementInternal getMax address v isSync isNew lc) = lc_heap lc"
  "maxCountElements (addElementInternal getMax address v isSync isNew lc) = maxCountElements lc"
  by (auto simp: addElementInternal_def Let_def split: option.split)

lemma addElement_ok:
  assumes inv: "local_cache_inv lc"
  shows "\<exists>lc'. addElement getMax address v isSync lc = (lc', Ok ()) \<and> local_cache_inv lc'"
proof -
  let ?lc = "addElementInternal getMax address v isSync False lc"
  have inv1: "local_cache_inv ?lc" by (rule local_cache_inv_addElementInternal [OF inv])
  have h: "heap_inv (lc_heap lc)" using inv by (simp add: local_cache_inv_def)
  show ?thesis
  proof (cases "maxCountElements lc = DISABLED_CACHE \<or> maxCountElements lc = WITHOUT_LIMITATION")
    case True
    then show ?thesis using inv inv1 by (auto simp: addElement_def Let_def)
  next
    case False
    then have "maxCountElements lc \<noteq> 0" by (simp add: DISABLED_CACHE_def)
    from Heap_reduceToMax_result [OF h this] obtain h' removed
      where r: "Heap_reduceToMax (maxCountElements lc) (lc_heap lc) = (h', Ok removed)" "heap_inv h'" by blast
    have "local_cache_inv (fold removeElement removed (?lc\<lparr>lc_heap := h'\<rparr>))"
      by (intro local_cache_inv_removeElements local_cache_inv_heap inv1 r(2))
    with False r show ?thesis by (simp add: addElement_def Let_def)
  qed
qed

lemma fmlookup_fmmap_iff: "fmlookup (fmmap f m) a = Some el \<longleftrightarrow> (\<exists>el0. fmlookup m a = Some el0 \<and> el = f el0)"
  by auto

lemma local_cache_inv_setLastBlockNum: "local_cache_inv lc \<Longrightarrow> local_cache_inv (setLastBlockNum n lc)"
  by (auto simp: local_cache_inv_def setLastBlockNum_def Let_def)

lemma local_cache_inv_addIfNoExist:
  "local_cache_inv lc \<Longrightarrow> local_cache_inv (addIfNoExist getMax address getter isSync isInit lc)"
  by (auto simp: addIfNoExist_def local_cache_inv_addElementInternal split: option.split
      intro: local_cache_inv_update)

lemma local_cache_inv_add_values: "local_cache_inv lc \<Longrightarrow> local_cache_inv (add_values getMax address vs lc)"
  by (auto simp: add_values_def Let_def split: option.split intro: local_cache_inv_update)

lemma local_cache_inv_remove_last: "local_cache_inv lc \<Longrightarrow> local_cache_inv (fst (remove_last bn address lc))"
  by (auto simp: remove_last_def Let_def split: option.split cacheValue.split list.split
      intro: local_cache_inv_update)

lemma local_cache_inv_getValueIfExist:
  assumes "local_cache_inv lc"
  shows "local_cache_inv (fst (getValueIfExist now address lc))"
proof -
  have h: "heap_inv (lc_heap lc)" using assms by (simp add: local_cache_inv_def)
  have "heap_inv (fst (Heap_addElement address now (lc_heap lc)))"
    by (rule heap_inv_addElement(2) [OF h])
  with assms show ?thesis
    by (auto simp: getValueIfExist_def local_cache_inv_heap split: option.split prod.split sum.split)
qed

text \<open>The states of the transaction cache under all its operations, in any order.\<close>

inductive txs_cache_run :: "transactionInfo localCache \<Rightarrow> bool" where
  new: "txs_cache_run (LocalCacheInternal_new n)"
| set: "txs_cache_run lc \<Longrightarrow> txs_cache_run (fst (setTransactions a txs isSync lc))"
| add: "txs_cache_run lc \<Longrightarrow> txs_cache_run (addTransactions a txs lc)"
| drop: "txs_cache_run lc \<Longrightarrow> txs_cache_run (fst (removeLastTransactions a lc))"
| load: "txs_cache_run lc \<Longrightarrow> txs_cache_run (addIfNoExist getMaxBlockNumber_txs a getter isSync isInit lc)"
| last: "txs_cache_run lc \<Longrightarrow> txs_cache_run (setLastBlockNum n lc)"
| get: "txs_cache_run lc \<Longrightarrow> txs_cache_run (fst (getValueIfExist now a lc))"

lemma setTransactions_ok:
  "local_cache_inv lc \<Longrightarrow> \<exists>lc'. setTransactions a txs isSync lc = (lc', Ok ()) \<and> local_cache_inv lc'"
  by (simp add: setTransactions_def addElement_ok)

lemma txs_cache_run_inv: "txs_cache_run lc \<Longrightarrow> local_cache_inv lc"
proof (induction rule: txs_cache_run.induct)
  case (set lc a txs isSync)
  then show ?case using setTransactions_ok [of lc a txs isSync] by auto
next
  case (add lc a txs)
  then show ?case by (simp add: addTransactions_def local_cache_inv_add_values)
next
  case (drop lc a)
  then show ?case by (simp add: removeLastTransactions_def local_cache_inv_remove_last)
next
  case (load lc a getter isSync isInit)
  then show ?case by (simp add: local_cache_inv_addIfNoExist)
qed (simp_all add: local_cache_inv_setLastBlockNum local_cache_inv_getValueIfExist)

lemma reduceToMax_small:
  assumes "heap_inv h" and "newSize \<noteq> 0" and "keys h = fmempty"
  shows "Heap_reduceToMax newSize h = (h, Ok [])"
proof -
  have "heap_entries h = []"
    using heap_inv_fmdom [OF assms(1)] assms(3) by simp
  then show ?thesis using assms by (cases h) (simp add: Heap_reduceToMax_def)
qed

section \<open>Properties\<close>

text \<open>The cache by attribute keeps the first value put under a key until an attribute that the key was
  put under is removed; removing an attribute removes exactly the keys put under it. Every cached
  key stands under an attribute that is still present, so nothing stays behind when the attributes are
  removed.\<close>

lemma cache_contents:
  assumes "cache_run c"
  shows "Cache_getValue k (Cache_addValue key a v c) =
      (case Cache_getValue k c of None \<Rightarrow> (if k = key then Some v else None) | Some w \<Rightarrow> Some w) \<and>
    Cache_getValue k (Cache_remove a c) = (if k \<in> set (attribute_keys a c) then None else Cache_getValue k c) \<and>
    (Cache_getValue k c \<noteq> None \<longrightarrow> (\<exists>a. k \<in> set (attribute_keys a c)))"
  using cache_run_inv [OF assms] by (simp add: getValue_add getValue_remove cache_inv_def)

lemma cache_contents_example:
  "\<exists>a. ''k'' \<in> set (attribute_keys a (Cache_addValue ''k'' ''b'' True Cache_new))"
proof -
  have run: "cache_run (Cache_addValue ''k'' ''b'' True Cache_new)" by (intro cache_run.intros)
  have "Cache_getValue ''k'' (Cache_addValue ''k'' ''b'' True Cache_new) \<noteq> None"
    by (simp add: Cache_getValue_def Cache_addValue_def Cache_new_def)
  then show ?thesis using cache_contents [OF run, of "''k''"] by blast
qed

text \<open>C32: Whatever operations run on the cache of transaction histories, the set of addresses that the
  synchronizing thread has not updated stays what the elements say, the times of use stay
  consistent, and neither storing a history nor looking one up ever fails.\<close>

theorem txs_cache_consistent:
  assumes "txs_cache_run lc"
  shows "local_cache_inv lc \<and> snd (setTransactions a txs isSync lc) = Ok () \<and>
    (\<exists>r. snd (getValueIfExist now a lc) = Ok r)"
proof -
  have inv: "local_cache_inv lc" by (rule txs_cache_run_inv [OF assms])
  then have "heap_inv (lc_heap lc)" by (simp add: local_cache_inv_def)
  from heap_inv_addElement(1) [OF this] have "snd (Heap_addElement a now (lc_heap lc)) = Ok ()" .
  then have "\<exists>r. snd (getValueIfExist now a lc) = Ok r"
    by (auto simp: getValueIfExist_def split: option.split prod.split sum.split)
  then show ?thesis using inv setTransactions_ok [OF inv, of a txs isSync] by auto
qed

theorem txs_cache_consistent_witness:
  "local_cache_inv (fst (setTransactions ''a'' [] False (LocalCacheInternal_new 2)))"
proof -
  have "txs_cache_run (fst (setTransactions ''a'' [] False (LocalCacheInternal_new 2)))"
    by (intro txs_cache_run.intros)
  from txs_cache_consistent [OF this] show ?thesis by blast
qed

text \<open>A page of a full history is what it says, as long as its bounds do not wrap: \<open>count\<close> entries
  from position \<open>from\<close> on, fewer at the end, and the whole history for a count of zero.\<close>

lemma getTransactions_page:
  assumes "length res < 2 ^ 64" and "unat from + unat cnt < 2 ^ 64"
  shows "getTransactions (Full res) from cnt =
    Ok (if cnt = 0 then res else take (unat cnt) (drop (unat from) res))"
proof (cases "cnt = 0")
  case True
  then show ?thesis by (simp add: getTransactions_def)
next
  case False
  have sum: "unat (from + cnt) = unat from + unat cnt"
    using assms(2) by (simp add: unat_word_ariths)
  have b: "unat (min from (size_of res)) = min (unat from) (length res)"
    and e: "unat (min (from + cnt) (size_of res)) = min (unat from + unat cnt) (length res)"
    using assms(1) by (simp_all add: min_def word_le_nat_alt sum)
  have "take (min (unat from + unat cnt) (length res) - min (unat from) (length res))
      (drop (min (unat from) (length res)) res) = take (unat cnt) (drop (unat from) res)"
    by (cases "unat from \<le> length res") (auto simp: min_def)
  then show ?thesis using False by (simp add: getTransactions_def b e Let_def)
qed

lemma getTransactions_page_example:
  "getTransactions (Full [TransactionInfo_default, TransactionInfo_default]) 1 5 = Ok [TransactionInfo_default]"
  using getTransactions_page [of "[TransactionInfo_default, TransactionInfo_default]" 1 5] by simp

text \<open>The limit on the number of cached histories counts only addresses that have been looked up: as
  long as no lookup has happened, every stored address stays, however small the limit is.\<close>

lemma unread_elements_not_evicted:
  assumes "local_cache_inv lc" and "keys (lc_heap lc) = fmempty"
    and "maxCountElements lc \<noteq> DISABLED_CACHE" and "maxCountElements lc \<noteq> WITHOUT_LIMITATION"
  shows "fmdom (lc_cache (fst (setTransactions a txs False lc))) = finsert a (fmdom (lc_cache lc)) \<and>
    keys (lc_heap (fst (setTransactions a txs False lc))) = fmempty"
proof -
  have "heap_inv (lc_heap lc)" using assms(1) by (simp add: local_cache_inv_def)
  then have "Heap_reduceToMax (maxCountElements lc) (lc_heap lc) = (lc_heap lc, Ok [])"
    using assms(2,3) by (intro reduceToMax_small) (simp_all add: DISABLED_CACHE_def)
  then show ?thesis
    using assms(2,3,4) by (simp add: setTransactions_def addElement_def Let_def)
      (simp add: addElementInternal_def Let_def)
qed

lemma unread_elements_not_evicted_example:
  "\<exists>lc :: transactionInfo localCache. maxCountElements lc = 1 \<and>
     fmdom (lc_cache (fst (setTransactions ''a'' [] False lc))) = {|''a''|}"
proof -
  let ?lc = "LocalCacheInternal_new 1 :: transactionInfo localCache"
  have "fmdom (lc_cache (fst (setTransactions ''a'' [] False ?lc))) = finsert ''a'' (fmdom (lc_cache ?lc)) \<and>
      keys (lc_heap (fst (setTransactions ''a'' [] False ?lc))) = fmempty"
    by (rule unread_elements_not_evicted) (simp_all add: LocalCacheInternal_new_def Heap_new_def
        DISABLED_CACHE_def WITHOUT_LIMITATION_def local_cache_inv_def heap_inv_def)
  then show ?thesis by (intro exI [of _ ?lc]) (simp add: LocalCacheInternal_new_def)
qed

end
