(* ===== verification/Json.thy ===== *)
theory Json
  imports Prelude
begin

text \<open>
  JSON values as \<open>rapidjson\<close> hands them to the program, and the accesses the sources make. Parsing and
  printing text belong to the library and are parameters of the definitions that use them. An access
  that \<open>rapidjson\<close> guards with an assertion is \<open>Undefined\<close> when the assertion fails. An integer is kept
  as the number in the text.
\<close>

datatype json =
    JNull
  | JBool bool
  | JInt int
  | JDouble string
  | JString string
  | JArray "json list"
  | JObject "(string \<times> json) list"

text \<open>\<open>FindMember\<close> returns the first member of the name.\<close>

definition get_member :: "json \<Rightarrow> string \<Rightarrow> json option res" where
  "get_member doc name = (case doc of JObject ms \<Rightarrow> Ok (map_of ms name) | _ \<Rightarrow> Err Undefined)"

definition is_object :: "json \<Rightarrow> bool" where
  "is_object j = (case j of JObject _ \<Rightarrow> True | _ \<Rightarrow> False)"

text \<open>\<open>std::string(GetString())\<close> ends at the first zero character.\<close>

definition c_string :: "string \<Rightarrow> string" where
  "c_string s = takeWhile (\<lambda>c. c \<noteq> CHR 0x00) s"

text \<open>\<open>doc.HasMember(name) && doc[name].IsString()\<close>, then \<open>GetString\<close>.\<close>

definition string_member :: "json \<Rightarrow> string \<Rightarrow> string option res" where
  "string_member doc name =
     rbind (get_member doc name) (\<lambda>m. Ok (case m of Some (JString s) \<Rightarrow> Some (c_string s) | _ \<Rightarrow> None))"

definition object_member :: "json \<Rightarrow> string \<Rightarrow> json option res" where
  "object_member doc name =
     rbind (get_member doc name) (\<lambda>m. Ok (case m of Some (JObject ms) \<Rightarrow> Some (JObject ms) | _ \<Rightarrow> None))"

text \<open>\<open>std::stoull\<close> in base ten: white space, a sign, digits; \<open>None\<close> when it throws. A minus sign negates
  modulo \<open>2 ^ 64\<close>.\<close>

definition is_space :: "char \<Rightarrow> bool" where
  "is_space c \<longleftrightarrow> c = CHR '' '' \<or> (9 \<le> (of_char c :: nat) \<and> (of_char c :: nat) \<le> 13)"

definition is_digit :: "char \<Rightarrow> bool" where
  "is_digit c \<longleftrightarrow> 48 \<le> (of_char c :: nat) \<and> (of_char c :: nat) \<le> 57"

definition decimal_value :: "string \<Rightarrow> nat" where
  "decimal_value ds = foldl (\<lambda>n c. n * 10 + (of_char c - 48)) 0 ds"

definition stoull :: "string \<Rightarrow> u64 option" where
  "stoull s =
     (let s = dropWhile is_space s;
          neg = (s \<noteq> [] \<and> hd s = CHR ''-'');
          s = (if s \<noteq> [] \<and> (hd s = CHR ''-'' \<or> hd s = CHR ''+'') then tl s else s);
          ds = takeWhile is_digit s
      in if ds = [] \<or> 2 ^ 64 \<le> decimal_value ds then None
         else Some (if neg then - of_nat (decimal_value ds) else of_nat (decimal_value ds)))"

section \<open>Numbers in decimal\<close>

lemma decimal_value_snoc: "decimal_value (ds @ [c]) = decimal_value ds * 10 + (of_char c - 48)"
  by (simp add: decimal_value_def)

lemma is_digit_char: "(n :: nat) < 10 \<Longrightarrow> is_digit (char_of (48 + n))"
  by (simp add: is_digit_def)

lemma to_string_nat_digits: "to_string_nat n \<noteq> [] \<and> list_all is_digit (to_string_nat n)"
proof (induction n rule: to_string_nat.induct)
  case (1 n)
  then show ?case
    using is_digit_char [of n] is_digit_char [of "n mod 10"]
    by (subst (1 2) to_string_nat.simps) simp
qed

lemma decimal_value_to_string: "decimal_value (to_string_nat n) = n"
proof (induction n rule: to_string_nat.induct)
  case (1 n)
  show ?case
  proof (cases "n < 10")
    case True
    then have "to_string_nat n = [] @ [char_of (48 + n)]" by (simp add: to_string_nat.simps [of n])
    then show ?thesis unfolding decimal_value_snoc using True by (simp add: decimal_value_def)
  next
    case False
    then have "to_string_nat n = to_string_nat (n div 10) @ [char_of (48 + n mod 10)]"
      by (simp add: to_string_nat.simps [of n])
    then show ?thesis
      using 1 [OF False] by (simp add: decimal_value_snoc)
  qed
qed

lemma stoull_to_string: "stoull (to_string_u64 w) = Some w"
proof -
  let ?ds = "to_string_nat (unat w)"
  have ds: "?ds \<noteq> []" "list_all is_digit ?ds" using to_string_nat_digits by auto
  then obtain c cs where c: "?ds = c # cs" "is_digit c" by (cases ?ds) auto
  then have ns: "\<not> is_space c" "c \<noteq> CHR ''-''" "c \<noteq> CHR ''+''"
    by (auto simp: is_digit_def is_space_def)
  have "takeWhile is_digit ?ds = ?ds"
    using ds(2) by (simp add: takeWhile_eq_all_conv list_all_iff)
  moreover have "\<not> 2 ^ 64 \<le> unat w" using unat_u64_less [of w] by simp
  ultimately show ?thesis
    using ds(1) c(1) ns unfolding stoull_def to_string_u64_def
    by (simp add: Let_def decimal_value_to_string [of "unat w", unfolded c(1)])
qed

lemma to_string_u64_inj: "to_string_u64 m = to_string_u64 n \<Longrightarrow> m = n"
  by (metis stoull_to_string option.inject)

end
