(* ===== verification/BlockchainUtils.thy ===== *)
theory BlockchainUtils
  imports Prelude
begin

text \<open>
  \<^verbatim>\<open>src/src/BlockchainUtils.cpp\<close>: hashes and addresses. The digests and the signature check of OpenSSL
  are a parameter, a record of functions on byte strings; \<open>isInitialized\<close> is the static flag that
  \<open>initBlockchainUtilsImpl\<close> sets.
\<close>

record crypto =
  crypto_isInitialized :: bool
  sha256 :: "string \<Rightarrow> string"
  ripemd160 :: "string \<Rightarrow> string"
  read_public_key :: "string \<Rightarrow> bool"
  read_signature :: "string \<Rightarrow> bool"
  ecdsa_verify :: "string \<Rightarrow> string \<Rightarrow> string \<Rightarrow> bool"

text \<open>The table \<open>DecLookup\<close>: the value of a hexadecimal digit, zero for every other character.\<close>

definition DecLookup :: "char \<Rightarrow> nat" where
  "DecLookup c =
     (let n = of_char c in
      if 48 \<le> n \<and> n \<le> 57 then n - 48
      else if 65 \<le> n \<and> n \<le> 70 then n - 55
      else if 97 \<le> n \<and> n \<le> 102 then n - 87
      else 0)"

text \<open>The second digit of an odd-length string is the terminating zero.\<close>

fun hex2bin_loop :: "string \<Rightarrow> string" where
  "hex2bin_loop [] = []"
| "hex2bin_loop [a] = [char_of (DecLookup a * 16 + DecLookup (CHR 0x00))]"
| "hex2bin_loop (a # b # src) = char_of (DecLookup a * 16 + DecLookup b) # hex2bin_loop src"

definition hex2bin :: "string \<Rightarrow> string" where
  "hex2bin src =
     hex2bin_loop (if 2 < length src \<and> src ! 0 = CHR ''0'' \<and> src ! 1 = CHR ''x'' then drop 2 src else src)"

definition get_double_sha256 :: "crypto \<Rightarrow> string \<Rightarrow> string res" where
  "get_double_sha256 cr data =
     rbind (CHECK (crypto_isInitialized cr) ''Not initialized'') (\<lambda>_. Ok (sha256 cr (sha256 cr data)))"

text \<open>The network byte and digest of the last 65 bytes of a key, and the checksum digest.\<close>

definition get_address_comp :: "crypto \<Rightarrow> string \<Rightarrow> (string \<times> string) option res" where
  "get_address_comp cr bpubk =
     rbind (CHECK (crypto_isInitialized cr) ''Not initialized'') (\<lambda>_.
     if 65 \<le> length bpubk then
       let point = (drop (length bpubk - 65) bpubk)[0 := CHR 0x04];
           wide_h = CHR 0x00 # ripemd160 cr (sha256 cr point)
       in Ok (Some (wide_h, sha256 cr (sha256 cr wide_h)))
     else Ok None)"

definition HexLookup :: "char \<Rightarrow> string" where
  "HexLookup c =
     (let n = of_char c :: nat; digit = (\<lambda>d. char_of (if d < 10 then 48 + d else 87 + d))
      in [digit (n div 16), digit (n mod 16)])"

definition get_address :: "crypto \<Rightarrow> string \<Rightarrow> string res" where
  "get_address cr bpubk =
     rbind (get_address_comp cr bpubk) (\<lambda>r.
     Ok (case r of
           None \<Rightarrow> ''Invalid''
         | Some (wide_h, hash2) \<Rightarrow>
             ''0x'' @ concat (map HexLookup wide_h) @ concat (map HexLookup (take 4 hash2))))"

definition get_address_hex :: "crypto \<Rightarrow> string \<Rightarrow> string res" where
  "get_address_hex cr pubk = get_address cr (hex2bin pubk)"

definition get_address_bin :: "crypto \<Rightarrow> string \<Rightarrow> string res" where
  "get_address_bin cr bpubk =
     rbind (get_address_comp cr bpubk) (\<lambda>r.
     Ok (case r of None \<Rightarrow> [] | Some (wide_h, hash2) \<Rightarrow> wide_h @ take 4 hash2))"

definition check_sign :: "crypto \<Rightarrow> string \<Rightarrow> string \<Rightarrow> string \<Rightarrow> bool" where
  "check_sign cr data sign pubk =
     (if \<not> read_public_key cr pubk then False
      else if \<not> read_signature cr sign then False
      else ecdsa_verify cr (sha256 cr data) sign pubk)"

definition crypto_check_sign_data :: "crypto \<Rightarrow> string \<Rightarrow> string \<Rightarrow> string \<Rightarrow> bool" where
  "crypto_check_sign_data cr sign public_key data = check_sign cr data sign public_key"

section \<open>Hexadecimal round trips\<close>

lemma DecLookup_digit:
  "d < 16 \<Longrightarrow> DecLookup (char_of (if d < 10 then 48 + d else 87 + d :: nat)) = d"
  by (simp add: DecLookup_def Let_def)

lemma hex2bin_loop_HexLookup: "hex2bin_loop (HexLookup c @ s) = c # hex2bin_loop s"
proof -
  have "(of_char c :: nat) div 16 < 16" by (rule less_mult_imp_div_less) simp
  then show ?thesis by (simp add: HexLookup_def Let_def DecLookup_digit del: of_char_of)
qed

lemma hex2bin_loop_concat: "hex2bin_loop (concat (map HexLookup bs) @ s) = bs @ hex2bin_loop s"
  by (induction bs) (simp_all add: hex2bin_loop_HexLookup)

section \<open>Properties\<close>

text \<open>The printed form of an address and its binary form are the same bytes: decoding the hexadecimal
  text that is shown for a public key of at least 65 bytes yields the binary address of that key.\<close>

lemma address_text_is_binary:
  assumes "crypto_isInitialized cr" and "65 \<le> length pubk"
  shows "\<exists>text. get_address cr pubk = Ok text \<and> get_address_bin cr pubk = Ok (hex2bin text)"
proof -
  let ?w = "CHR 0x00 # ripemd160 cr (sha256 cr ((drop (length pubk - 65) pubk)[0 := CHR 0x04]))"
  let ?h = "take 4 (sha256 cr (sha256 cr ?w))"
  have "hex2bin (''0x'' @ concat (map HexLookup (?w @ ?h))) = hex2bin_loop (concat (map HexLookup (?w @ ?h)))"
    by (simp add: hex2bin_def HexLookup_def Let_def)
  also have "\<dots> = ?w @ ?h" using hex2bin_loop_concat [of "?w @ ?h" "[]"] by (simp del: map_append)
  finally show ?thesis
    using assms by (simp add: get_address_def get_address_bin_def get_address_comp_def Let_def)
qed

lemma address_text_is_binary_example:
  "\<exists>text. get_address \<lparr>crypto_isInitialized = True, sha256 = (\<lambda>s. take 32 (s @ replicate 32 (CHR ''s''))),
       ripemd160 = (\<lambda>s. take 20 (s @ replicate 20 (CHR ''r''))), read_public_key = (\<lambda>_. True),
       read_signature = (\<lambda>_. True), ecdsa_verify = (\<lambda>_ _ _. True)\<rparr> (replicate 65 (CHR ''p'')) = Ok text \<and>
     get_address_bin \<lparr>crypto_isInitialized = True, sha256 = (\<lambda>s. take 32 (s @ replicate 32 (CHR ''s''))),
       ripemd160 = (\<lambda>s. take 20 (s @ replicate 20 (CHR ''r''))), read_public_key = (\<lambda>_. True),
       read_signature = (\<lambda>_. True), ecdsa_verify = (\<lambda>_ _ _. True)\<rparr> (replicate 65 (CHR ''p'')) = Ok (hex2bin text)"
  by (rule address_text_is_binary) simp_all

end
