(* ===== verification/BlockchainRead.thy ===== *)
theory BlockchainRead
  imports FileSystem Json BlockchainUtils
begin

text \<open>
  \<^verbatim>\<open>src/src/BlockchainRead.cpp\<close>: reading and writing blocks. A \<open>const char*\<close> is a 64-bit address into a
  buffer \<open>buf\<close> that stands at the address \<open>base\<close>; the bounds tests are done on addresses as the source
  does them, and an access outside the buffer is \<open>Undefined\<close>. Integers in a block are little-endian,
  as on the machines the node runs on. A file is the string of its bytes; reading past its end leaves
  the zeros the target was filled with. The transaction loop of a block has fuel, since the source
  bounds it only by the data; \<open>None\<close> means that the fuel ran out. \<open>rapidjson\<close>, the hex printer and
  OpenSSL are parameters, collected in a record.
\<close>

record readEnv =
  env_crypto :: crypto
  env_parse :: "string \<Rightarrow> json option"
  env_toHex :: "string \<Rightarrow> string"

definition BLOCK_HEADER_SIZE :: size_t where "BLOCK_HEADER_SIZE = 88"

section \<open>Files\<close>

definition openFile :: "string \<Rightarrow> disk \<Rightarrow> string res" where
  "openFile fileName d =
     rbind (CHECK (fileName \<noteq> []) ''Empty file name'') (\<lambda>_.
     case fmlookup d fileName of
       None \<Rightarrow> Err (Exception (''File '' @ fileName @ '' not opened''))
     | Some content \<Rightarrow> Ok content)"

definition openFile_out :: "string \<Rightarrow> disk \<Rightarrow> disk res" where
  "openFile_out fileName d =
     rbind (CHECK (fileName \<noteq> []) ''Empty file name'') (\<lambda>_.
     Ok (if fileName |\<in>| fmdom d then d else fmupd fileName [] d))"

definition flushFile :: "string \<Rightarrow> disk \<Rightarrow> string res" where
  "flushFile fileName d =
     rbind (CHECK (fileName \<noteq> []) ''Empty file name'') (\<lambda>_. openFile fileName d)"

text \<open>A position is a signed stream offset; a failed seek reports the position \<open>-1\<close>.\<close>

definition seekFile :: "size_t \<Rightarrow> unit res" where
  "seekFile pos = CHECK (unat pos < 2 ^ 63 \<or> pos = - 1) ''Incorrect seek operations''"

definition fileSize :: "string \<Rightarrow> size_t" where
  "fileSize content = size_of content"

definition file_read :: "string \<Rightarrow> size_t \<Rightarrow> size_t \<Rightarrow> string" where
  "file_read content pos n =
     take (unat n) (drop (unat pos) content @ replicate (unat n) (CHR 0x00))"

text \<open>A string or vector of \<open>n\<close> bytes is filled from the file; more than \<open>2 ^ 63 - 1\<close> bytes can not be
  asked for.\<close>

definition read_buffer :: "string \<Rightarrow> size_t \<Rightarrow> size_t \<Rightarrow> string res" where
  "read_buffer content pos n =
     (if 2 ^ 63 \<le> unat n then Err (StdException ''length_error'') else Ok (file_read content pos n))"

definition append_file :: "string \<Rightarrow> string \<Rightarrow> disk \<Rightarrow> disk \<times> size_t" where
  "append_file fileName data d =
     (let old = (case fmlookup d fileName of None \<Rightarrow> [] | Some content \<Rightarrow> content)
      in (fmupd fileName (old @ data) d, fileSize old))"

definition saveBlockToFileBinary :: "string \<Rightarrow> string \<Rightarrow> disk \<Rightarrow> disk \<times> size_t" where
  "saveBlockToFileBinary fileName data d =
     append_file fileName (le_bytes 8 (unat (size_of data)) @ data) d"

definition saveTransactionToFile :: "string \<Rightarrow> string \<Rightarrow> disk \<Rightarrow> disk \<times> size_t" where
  "saveTransactionToFile fileName data d = append_file fileName data d"

section \<open>Reading from a buffer\<close>

definition load :: "size_t \<Rightarrow> string \<Rightarrow> size_t \<Rightarrow> nat \<Rightarrow> string res" where
  "load base buf p n =
     (if base \<le> p \<and> unat (p - base) + n \<le> length buf then Ok (take n (drop (unat (p - base)) buf))
      else Err Undefined)"

text \<open>\<open>readInt<T>\<close>, with the size of \<open>T\<close> as an argument.\<close>

definition readInt :: "size_t \<Rightarrow> string \<Rightarrow> nat \<Rightarrow> size_t \<Rightarrow> size_t \<Rightarrow> (u64 \<times> size_t) res" where
  "readInt base buf n cur_pos end_pos =
     rbind (CHECK (cur_pos + of_nat n \<le> end_pos) ''Out of the array'') (\<lambda>_.
     rbind (load base buf cur_pos n) (\<lambda>bs.
     Ok (of_nat (le_value bs), cur_pos + of_nat n)))"

definition readVarInt :: "size_t \<Rightarrow> string \<Rightarrow> size_t \<Rightarrow> size_t \<Rightarrow> (u64 \<times> size_t) res" where
  "readVarInt base buf cur_pos end_pos =
     rbind (CHECK (cur_pos + 1 \<le> end_pos) ''Out of the array'') (\<lambda>_.
     rbind (load base buf cur_pos 1) (\<lambda>bs.
     let len = le_value bs; cur_pos = cur_pos + 1
     in if len \<le> 249 then Ok (of_nat len, cur_pos)
        else if len = 250 then readInt base buf 2 cur_pos end_pos
        else if len = 251 then readInt base buf 4 cur_pos end_pos
        else if len = 252 then readInt base buf 8 cur_pos end_pos
        else Err (Exception ''Not supported varint value'')))"

definition readHash :: "readEnv \<Rightarrow> size_t \<Rightarrow> string \<Rightarrow> size_t \<Rightarrow> size_t \<Rightarrow> (string \<times> size_t) res" where
  "readHash env base buf cur_pos end_pos =
     rbind (CHECK (cur_pos + 32 \<le> end_pos) ''Out of the array'') (\<lambda>_.
     rbind (load base buf cur_pos 32) (\<lambda>bs.
     Ok (env_toHex env bs, cur_pos + 32)))"

definition readBlockHeaderWithoutSize ::
    "readEnv \<Rightarrow> size_t \<Rightarrow> string \<Rightarrow> size_t \<Rightarrow> size_t \<Rightarrow> blockHeader \<Rightarrow> blockHeader res" where
  "readBlockHeaderWithoutSize env base buf begin_pos end_pos bh =
     rbind (readInt base buf 8 begin_pos end_pos) (\<lambda>(block_type, cur_pos).
     rbind (readInt base buf 8 cur_pos end_pos) (\<lambda>(block_ts, cur_pos).
     rbind (readHash env base buf cur_pos end_pos) (\<lambda>(prevHash, cur_pos).
     rbind (readHash env base buf cur_pos end_pos) (\<lambda>(txsHash, cur_pos).
     Ok (bh\<lparr>bh_blockType := block_type, bh_timestamp := block_ts, bh_prevHash := prevHash,
            bh_txsHash := txsHash\<rparr>)))))"

definition readBlockHeader_buf ::
    "readEnv \<Rightarrow> size_t \<Rightarrow> string \<Rightarrow> size_t \<Rightarrow> size_t \<Rightarrow> blockHeader \<Rightarrow> blockHeader res" where
  "readBlockHeader_buf env base buf begin_pos end_pos bh =
     rbind (readInt base buf 8 begin_pos end_pos) (\<lambda>(block_size, cur_pos).
     readBlockHeaderWithoutSize env base buf cur_pos end_pos (bh\<lparr>bh_blockSize := block_size\<rparr>))"

text \<open>The answer is \<open>None\<close> when there is not a whole header at the position.\<close>

definition readBlockHeader ::
    "readEnv \<Rightarrow> size_t \<Rightarrow> string \<Rightarrow> size_t \<Rightarrow> size_t \<Rightarrow> blockHeader \<Rightarrow> blockHeader option res" where
  "readBlockHeader env base content currPos f_size bh =
     (if f_size \<le> currPos then Ok None
      else if BLOCK_HEADER_SIZE \<le> f_size - currPos then
        rbind (seekFile currPos) (\<lambda>_.
        let fh_buff = file_read content currPos BLOCK_HEADER_SIZE
        in rbind (readBlockHeader_buf env base fh_buff base (base + BLOCK_HEADER_SIZE)
               (bh\<lparr>bh_filePos := (bh_filePos bh)\<lparr>fp_pos := currPos\<rparr>\<rparr>)) (\<lambda>bh.
           Ok (Some bh)))
      else Ok None)"

section \<open>Transactions\<close>

record prevTransactionSignHelper =
  isFirst :: bool
  isPrevSign :: bool
  prevTxData :: string

definition PrevTransactionSignHelper_default :: prevTransactionSignHelper where
  "PrevTransactionSignHelper_default = \<lparr>isFirst = False, isPrevSign = False, prevTxData = []\<rparr>"

definition isSignBlockTx_of :: "transactionInfo \<Rightarrow> prevTransactionSignHelper \<Rightarrow> bool res" where
  "isSignBlockTx_of tx helper =
     (if \<not> isPrevSign helper then Ok False
      else rbind (Address_eq (fromAddress tx) (toAddress tx)) (\<lambda>same.
        Ok (same \<and> ti_value tx = 0 \<and> (isFirst helper \<or> (ti_data tx = prevTxData helper \<and> ti_data tx \<noteq> [])))))"

text \<open>The data of a transaction as a JSON document, when it looks like one.\<close>

definition data_document :: "readEnv \<Rightarrow> string \<Rightarrow> json option" where
  "data_document env data =
     (if hd data = CHR ''{'' \<and> last data = CHR ''}'' then env_parse env data else None)"

definition read_delegate :: "json \<Rightarrow> transactionInfo \<Rightarrow> transactionInfo res" where
  "read_delegate doc tx =
     rbind (string_member doc ''method'') (\<lambda>m.
     case m of
       None \<Rightarrow> Ok tx
     | Some method \<Rightarrow>
         if method = ''delegate'' then
           rbind (object_member doc ''params'') (\<lambda>p.
           case p of
             None \<Rightarrow> Ok tx
           | Some params \<Rightarrow>
               rbind (string_member params ''value'') (\<lambda>v.
               case v of
                 None \<Rightarrow> Ok tx
               | Some s \<Rightarrow>
                   (case stoull s of
                      None \<Rightarrow> Ok tx
                    | Some n \<Rightarrow> Ok (tx\<lparr>ti_delegate := Some \<lparr>di_value = n, isDelegate = True\<rparr>\<rparr>))))
         else if method = ''undelegate'' then
           Ok (tx\<lparr>ti_delegate := Some \<lparr>di_value = 0, isDelegate = False\<rparr>\<rparr>)
         else Ok tx)"

definition read_script :: "json \<Rightarrow> transactionInfo \<Rightarrow> transactionInfo res" where
  "read_script doc tx =
     rbind (string_member doc ''method'') (\<lambda>m.
     case m of
       None \<Rightarrow> Ok tx
     | Some method \<Rightarrow>
         if method = ''compile'' \<or> method = ''run'' then
           Ok (tx\<lparr>ti_scriptInfo := map_option (\<lambda>si. si\<lparr>isInitializeScript := (method = ''compile'')\<rparr>)
                                    (ti_scriptInfo tx)\<rparr>)
         else Ok tx)"

text \<open>The two evaluations of the data.\<close>

definition read_data_json :: "readEnv \<Rightarrow> transactionInfo \<Rightarrow> (transactionInfo \<times> bool) res" where
  "read_data_json env tx =
     (let data = ti_data tx
      in if data = [] then Ok (tx, False)
         else if length data = 9 \<and> hd data = CHR 0x01 then Ok (tx, True)
         else case data_document env data of
                None \<Rightarrow> Ok (tx, False)
              | Some doc \<Rightarrow> rbind (read_delegate doc tx) (\<lambda>tx. Ok (tx, False)))"

definition read_script_json :: "readEnv \<Rightarrow> transactionInfo \<Rightarrow> transactionInfo res" where
  "read_script_json env tx =
     rbind (isScriptAddress (toAddress tx)) (\<lambda>isScript.
     if \<not> isScript then Ok tx
     else
       let tx = tx\<lparr>ti_scriptInfo := Some \<lparr>txRaw = [], isInitializeScript = False\<rparr>, isModuleNotSet := True\<rparr>
       in if ti_data tx = [] then Ok tx
          else case data_document env (ti_data tx) of
                 None \<Rightarrow> Ok tx
               | Some doc \<Rightarrow> read_script doc tx)"

text \<open>A length-prefixed field whose bounds are checked.\<close>

definition readBytes :: "size_t \<Rightarrow> string \<Rightarrow> size_t \<Rightarrow> size_t \<Rightarrow> (string \<times> size_t) res" where
  "readBytes base buf cur_pos end_pos =
     rbind (readVarInt base buf cur_pos end_pos) (\<lambda>(n, cur_pos).
     rbind (CHECK (cur_pos + n \<le> end_pos) ''Out of the array'') (\<lambda>_.
     rbind (load base buf cur_pos (unat n)) (\<lambda>bs.
     Ok (bs, cur_pos + n))))"

text \<open>The fields of a transaction up to its data; the length of the data is not compared with the
  end of the transaction.\<close>

definition readTx_body ::
    "readEnv \<Rightarrow> size_t \<Rightarrow> string \<Rightarrow> size_t \<Rightarrow> size_t \<Rightarrow> transactionInfo \<Rightarrow>
     (transactionInfo \<times> bool \<times> size_t) res" where
  "readTx_body env base buf cur_pos end_pos tx =
     rbind (CHECK (cur_pos + 25 \<le> end_pos) ''Out of the array'') (\<lambda>_.
     rbind (load base buf cur_pos 25) (\<lambda>addr.
     rbind (readVarInt base buf (cur_pos + 25) end_pos) (\<lambda>(value, cur_pos).
     rbind (readVarInt base buf cur_pos end_pos) (\<lambda>(fee, cur_pos).
     rbind (readVarInt base buf cur_pos end_pos) (\<lambda>(nonceVal, cur_pos).
     rbind (readVarInt base buf cur_pos end_pos) (\<lambda>(dataSize, cur_pos).
     rbind (load base buf cur_pos (unat dataSize)) (\<lambda>data.
     rbind (read_data_json env (tx\<lparr>toAddress := Address_range addr, ti_value := value, fees := fee,
              nonce := nonceVal, ti_data := data\<rparr>)) (\<lambda>(tx, isBlockedFrom).
     rbind (read_script_json env tx) (\<lambda>tx.
     Ok (tx, isBlockedFrom, cur_pos + dataSize))))))))))"

text \<open>Signature, public key and the optional status, which is not part of the hash.\<close>

definition readTx_tail ::
    "size_t \<Rightarrow> string \<Rightarrow> size_t \<Rightarrow> size_t \<Rightarrow> u64 \<Rightarrow> transactionInfo \<Rightarrow> (transactionInfo \<times> u64 \<times> size_t) res" where
  "readTx_tail base buf cur_pos end_pos tx_hash_size tx =
     rbind (readBytes base buf cur_pos end_pos) (\<lambda>(sign, cur_pos).
     rbind (readBytes base buf cur_pos end_pos) (\<lambda>(key, cur_pos).
     let tx = tx\<lparr>ti_sign := sign\<rparr>;
         tx = (if key \<noteq> [] then tx\<lparr>pubKey := key\<rparr> else tx\<lparr>fromAddress := setEmpty (fromAddress tx)\<rparr>)
     in if cur_pos < end_pos then
          rbind (readVarInt base buf cur_pos end_pos) (\<lambda>(st, new_pos).
          Ok (tx\<lparr>intStatus := Some st\<rparr>, tx_hash_size - (new_pos - cur_pos), new_pos))
        else Ok (tx, tx_hash_size, cur_pos)))"

definition readTx_finish ::
    "readEnv \<Rightarrow> size_t \<Rightarrow> string \<Rightarrow> bool \<Rightarrow> prevTransactionSignHelper \<Rightarrow> bool \<Rightarrow> bool \<Rightarrow>
     size_t \<Rightarrow> size_t \<Rightarrow> size_t \<Rightarrow> size_t \<Rightarrow> u64 \<Rightarrow> u64 \<Rightarrow> transactionInfo \<Rightarrow> transactionInfo res" where
  "readTx_finish env base buf isSaveAllTx helper isValidate isBlockedFrom
       allTxStart tx_start endClearTx allTxEnd tx_size tx_hash_size tx =
     rbind (if pubKey tx \<noteq> [] then
              rbind (get_address_bin (env_crypto env) (pubKey tx)) (\<lambda>binAddress.
              rbind (CHECK (binAddress \<noteq> []) ''incorrect pubkey script'') (\<lambda>_.
              rbind (Address_binary binAddress isBlockedFrom) (\<lambda>a.
              Ok (tx\<lparr>fromAddress := a\<rparr>))))
            else Ok tx) (\<lambda>tx.
     rbind (load base buf tx_start (unat tx_hash_size)) (\<lambda>hashed.
     rbind (get_double_sha256 (env_crypto env) hashed) (\<lambda>tx_hash.
     rbind (case ti_scriptInfo tx of
              None \<Rightarrow> Ok None
            | Some si \<Rightarrow>
                rbind (load base buf tx_start (unat (endClearTx - tx_start))) (\<lambda>raw.
                Ok (Some (si\<lparr>txRaw := raw\<rparr>)))) (\<lambda>script.
     rbind (if isSaveAllTx then load base buf allTxStart (unat (allTxEnd - allTxStart))
            else Ok (allRawTx tx)) (\<lambda>rawTx.
     let tx = tx\<lparr>ti_hash := tx_hash, ti_scriptInfo := script, sizeRawTx := tx_size, allRawTx := rawTx\<rparr>
     in rbind (isSignBlockTx_of tx helper) (\<lambda>signBlock.
        let tx = tx\<lparr>isSignBlockTx := signBlock\<rparr>
        in rbind (if isValidate then
                    rbind (isInitialWallet (fromAddress tx)) (\<lambda>initial.
                    if \<not> initial then
                      rbind (load base buf tx_start (unat (endClearTx - tx_start))) (\<lambda>clearTx.
                      CHECK (crypto_check_sign_data (env_crypto env) (ti_sign tx) (pubKey tx) clearTx) ''Not validate'')
                    else Ok ())
                  else Ok ()) (\<lambda>_.
           rbind (calcRealFee tx) (\<lambda>tx.
           Ok (tx\<lparr>ti_isInitialized := True\<rparr>)))))))))"

definition readTransactionInfo ::
    "readEnv \<Rightarrow> size_t \<Rightarrow> string \<Rightarrow> size_t \<Rightarrow> size_t \<Rightarrow> transactionInfo \<Rightarrow> bool \<Rightarrow> bool \<Rightarrow>
     prevTransactionSignHelper \<Rightarrow> bool \<Rightarrow> (u64 \<times> size_t \<times> transactionInfo) res" where
  "readTransactionInfo env base buf allTxStart end_pos tx isParseTx isSaveAllTx helper isValidate =
     rbind (readVarInt base buf allTxStart end_pos) (\<lambda>(tx_size, cur_pos).
     if tx_size = 0 then Ok (0, cur_pos, tx)
     else
       rbind (CHECK (cur_pos + tx_size \<le> end_pos) ''Out of the array'') (\<lambda>_.
       let end_pos = cur_pos + tx_size
       in if \<not> isParseTx then Ok (tx_size, end_pos, tx)
          else
            let tx_start = cur_pos
            in rbind (readTx_body env base buf cur_pos end_pos tx) (\<lambda>(tx, isBlockedFrom, endClearTx).
               rbind (readTx_tail base buf endClearTx end_pos tx_size tx) (\<lambda>(tx, tx_hash_size, cur_pos).
               rbind (readTx_finish env base buf isSaveAllTx helper isValidate isBlockedFrom
                        allTxStart tx_start endClearTx cur_pos tx_size tx_hash_size tx) (\<lambda>tx.
               Ok (tx_size, cur_pos, tx))))))"

definition getSizeTransaction :: "size_t \<Rightarrow> string \<Rightarrow> size_t \<Rightarrow> u64 res" where
  "getSizeTransaction base content currPos =
     (let fh_buff = file_read content currPos 9
      in rbind (readVarInt base fh_buff base (base + 9)) (\<lambda>(sizeTx, curPos). Ok sizeTx))"

definition readOneTransactionInfo ::
    "readEnv \<Rightarrow> size_t \<Rightarrow> string \<Rightarrow> size_t \<Rightarrow> transactionInfo \<Rightarrow> bool \<Rightarrow> transactionInfo option res" where
  "readOneTransactionInfo env base content currPos tx isSaveAllTx =
     (let f_size = fileSize content
      in if f_size \<le> currPos then Ok None
         else if 8 \<le> f_size - currPos then
           rbind (seekFile currPos) (\<lambda>_.
           rbind (getSizeTransaction base content currPos) (\<lambda>sizeTx.
           rbind (read_buffer content currPos (sizeTx + 16)) (\<lambda>fh_buff.
           rbind (readTransactionInfo env base fh_buff base (base + size_of fh_buff) tx True isSaveAllTx
                  PrevTransactionSignHelper_default False) (\<lambda>(sz, p, tx).
           Ok (Some tx)))))
         else Ok None)"

section \<open>Blocks\<close>

text \<open>The state of the loop is the position, the index, the helper and the block read so far.\<close>

fun readBlockTxs_loop ::
    "nat \<Rightarrow> readEnv \<Rightarrow> size_t \<Rightarrow> string \<Rightarrow> size_t \<Rightarrow> size_t \<Rightarrow> size_t \<Rightarrow> bool \<Rightarrow> size_t \<Rightarrow> size_t \<Rightarrow> bool \<Rightarrow>
     size_t \<Rightarrow> size_t \<Rightarrow> prevTransactionSignHelper \<Rightarrow> blockInfo \<Rightarrow> blockInfo res option" where
  "readBlockTxs_loop 0 env base buf begin_pos end_pos posInFile isSaveAllTx beginTx countTx isValidate
     cur_pos txIndex helper bi = None"
| "readBlockTxs_loop (Suc fuel) env base buf begin_pos end_pos posInFile isSaveAllTx beginTx countTx isValidate
     cur_pos txIndex helper bi =
     (let pos = cur_pos - begin_pos + posInFile + 8;
          txInfo = TransactionInfo_default\<lparr>ti_filePos := \<lparr>fp_pos = pos, fp_fileName = []\<rparr>\<rparr>;
          isReadTransaction = (beginTx \<le> txIndex)
      in case readTransactionInfo env base buf cur_pos end_pos txInfo isReadTransaction isSaveAllTx helper isValidate of
           Inl e \<Rightarrow> Some (Err e)
         | Inr (tx_size, cur_pos, txInfo) \<Rightarrow>
             let bi = (if ti_isInitialized txInfo \<and> isReadTransaction then bi\<lparr>bi_txs := bi_txs bi @ [txInfo]\<rparr> else bi)
             in if countTx \<noteq> 0 \<and> countTx \<le> size_of (bi_txs bi) then Some (Ok bi)
                else if tx_size = 0 then Some (Ok bi)
                else readBlockTxs_loop fuel env base buf begin_pos end_pos posInFile isSaveAllTx beginTx countTx
                       isValidate cur_pos (txIndex + 1)
                       \<lparr>isFirst = False, isPrevSign = isSignBlockTx txInfo, prevTxData = ti_data txInfo\<rparr> bi)"

definition set_block_signature :: "blockInfo \<Rightarrow> blockInfo res" where
  "set_block_signature bi =
     (case bi_txs bi of
        [] \<Rightarrow> Ok bi
      | tx # _ \<Rightarrow>
          rbind (Address_eq (fromAddress tx) (toAddress tx)) (\<lambda>same.
          if same \<and> ti_value tx = 0 then Ok (bi\<lparr>bi_header := (bi_header bi)\<lparr>bh_signature := ti_data tx\<rparr>\<rparr>)
          else Ok bi))"

definition readBlockTxs ::
    "nat \<Rightarrow> readEnv \<Rightarrow> size_t \<Rightarrow> string \<Rightarrow> size_t \<Rightarrow> size_t \<Rightarrow> size_t \<Rightarrow> blockInfo \<Rightarrow> bool \<Rightarrow> size_t \<Rightarrow> size_t \<Rightarrow> bool \<Rightarrow>
     blockInfo res option" where
  "readBlockTxs fuel env base buf begin_pos end_pos posInFile bi isSaveAllTx beginTx countTx isValidate =
     (case rbind (load base buf begin_pos (unat (end_pos - begin_pos))) (get_double_sha256 (env_crypto env)) of
        Inl e \<Rightarrow> Some (Err e)
      | Inr block_hash \<Rightarrow>
          let bi = bi\<lparr>bi_header := (bi_header bi)\<lparr>bh_hash := env_toHex env block_hash\<rparr>\<rparr>
          in map_option (\<lambda>r. rbind r (\<lambda>bi.
               set_block_signature
                 (if countTx = 0 then bi\<lparr>bi_header := (bi_header bi)\<lparr>bh_countTxs := Some (size_of (bi_txs bi))\<rparr>\<rparr>
                  else bi)))
             (readBlockTxs_loop fuel env base buf begin_pos end_pos posInFile isSaveAllTx beginTx countTx isValidate
                (begin_pos + (BLOCK_HEADER_SIZE - 8)) 0 \<lparr>isFirst = True, isPrevSign = True, prevTxData = []\<rparr> bi))"

text \<open>Reading the next block of a file: the new position, the block and its dump. Without a whole
  block at the position, the position is returned unchanged and the dump is untouched.\<close>

definition readNextBlockInfo_file ::
    "nat \<Rightarrow> readEnv \<Rightarrow> size_t \<Rightarrow> string \<Rightarrow> size_t \<Rightarrow> blockInfo \<Rightarrow> string \<Rightarrow> bool \<Rightarrow> bool \<Rightarrow> size_t \<Rightarrow> size_t \<Rightarrow>
     (size_t \<times> blockInfo \<times> string) res option" where
  "readNextBlockInfo_file fuel env base content currPos bi blockDump isValidate isSaveAllTx beginTx countTx =
     (let f_size = fileSize content
      in case readBlockHeader env base content currPos f_size (bi_header bi) of
           Inl e \<Rightarrow> Some (Err e)
         | Inr None \<Rightarrow> Some (Ok (currPos, bi, blockDump))
         | Inr (Some bh) \<Rightarrow>
             let bi = bi\<lparr>bi_header := bh\<rparr>; b_size = bh_blockSize bh
             in if f_size - currPos < b_size + 8 then Some (Ok (currPos, bi, blockDump))
                else case rbind (seekFile (currPos + 8)) (\<lambda>_. read_buffer content (currPos + 8) b_size) of
                  Inl e \<Rightarrow> Some (Err e)
                | Inr dump \<Rightarrow>
                    map_option (\<lambda>r. rbind r (\<lambda>bi.
                         let newPos = currPos + (b_size + 8)
                         in Ok (newPos, bi\<lparr>bi_header := (bi_header bi)\<lparr>bh_endBlockPos := newPos\<rparr>\<rparr>, dump)))
                       (readBlockTxs fuel env base dump base (base + b_size) currPos bi isSaveAllTx beginTx countTx
                          isValidate))"

text \<open>Reading a block that is in memory.\<close>

definition readNextBlockInfo ::
    "nat \<Rightarrow> readEnv \<Rightarrow> size_t \<Rightarrow> string \<Rightarrow> size_t \<Rightarrow> size_t \<Rightarrow> size_t \<Rightarrow> blockInfo \<Rightarrow> bool \<Rightarrow> bool \<Rightarrow> size_t \<Rightarrow> size_t \<Rightarrow>
     blockInfo res option" where
  "readNextBlockInfo fuel env base buf begin_pos end_pos posInFile bi isValidate isSaveAllTx beginTx countTx =
     (case readBlockHeaderWithoutSize env base buf begin_pos end_pos (bi_header bi) of
        Inl e \<Rightarrow> Some (Err e)
      | Inr bh \<Rightarrow>
          map_option (\<lambda>r. rbind r (\<lambda>bi.
            let size = end_pos - begin_pos;
                bh = bi_header bi
            in Ok (bi\<lparr>bi_header := bh\<lparr>bh_blockSize := size, bh_filePos := (bh_filePos bh)\<lparr>fp_pos := posInFile\<rparr>,
                                      bh_endBlockPos := posInFile + size + 8\<rparr>\<rparr>)))
          (readBlockTxs fuel env base buf begin_pos end_pos posInFile (bi\<lparr>bi_header := bh\<rparr>) isSaveAllTx
             beginTx countTx isValidate))"

definition getBlockDump :: "string \<Rightarrow> size_t \<Rightarrow> size_t \<Rightarrow> size_t \<Rightarrow> (size_t \<times> string) res" where
  "getBlockDump content currPos fromByte toByte =
     (let f_size = fileSize content
      in if f_size \<le> currPos then Ok (0, [])
         else if BLOCK_HEADER_SIZE \<le> f_size - currPos then
           rbind (seekFile currPos) (\<lambda>_.
           let fh_buff = file_read content currPos BLOCK_HEADER_SIZE;
               block_size = of_nat (le_value (take 8 fh_buff)) :: size_t
           in if block_size \<le> fromByte then Ok (0, [])
              else
                let toByte = (if block_size < toByte then block_size else toByte)
                in rbind (seekFile (currPos + 8 + fromByte)) (\<lambda>_.
                   rbind (read_buffer content (currPos + 8 + fromByte) (toByte - fromByte)) (\<lambda>result.
                   Ok (block_size, result))))
         else Ok (0, []))"

section \<open>Readers\<close>

lemma load_append:
  assumes "unat base + length (pre @ e @ post) < 2 ^ 64"
  shows "load base (pre @ e @ post) (base + of_nat (length pre)) (length e) = Ok e"
proof -
  have off: "unat (base + of_nat (length pre) - base) = length pre"
    using assms by (simp add: unat_of_nat_u64)
  have "base \<le> base + of_nat (length pre)"
    using assms by (simp add: word_le_nat_alt unat_word_ariths unat_of_nat_u64)
  then show ?thesis by (simp only: load_def off) simp
qed

text \<open>\<open>reads r e x\<close>: where the bytes \<open>e\<close> stand in a buffer that lies in the address space, the reader \<open>r\<close>
  started on them and bounded behind them returns \<open>x\<close> and the address right behind them.\<close>

definition reads :: "(size_t \<Rightarrow> string \<Rightarrow> size_t \<Rightarrow> size_t \<Rightarrow> ('a \<times> size_t) res) \<Rightarrow> string \<Rightarrow> 'a \<Rightarrow> bool" where
  "reads r e x \<longleftrightarrow>
     (\<forall>base pre post end_pos. unat base + length (pre @ e @ post) < 2 ^ 64 \<longrightarrow>
        unat base + length (pre @ e) \<le> unat end_pos \<longrightarrow>
        r base (pre @ e @ post) (base + of_nat (length pre)) end_pos =
          Ok (x, base + of_nat (length (pre @ e))))"

lemma readsD:
  "reads r e x \<Longrightarrow> unat base + length (pre @ e @ post) < 2 ^ 64 \<Longrightarrow>
   unat base + length (pre @ e) \<le> unat end_pos \<Longrightarrow>
   r base (pre @ e @ post) (base + of_nat (length pre)) end_pos = Ok (x, base + of_nat (length (pre @ e)))"
  by (simp add: reads_def)

lemma address_le:
  "unat base + n < 2 ^ 64 \<Longrightarrow> unat base + n \<le> unat end_pos \<Longrightarrow> base + of_nat n \<le> (end_pos :: size_t)"
  by (simp add: word_le_nat_alt unat_add_of_nat)

lemma reads_readInt:
  assumes "256 ^ n \<le> (2 :: nat) ^ 64" and "v < 256 ^ n"
  shows "reads (\<lambda>base buf. readInt base buf n) (le_bytes n v) (of_nat v)"
  unfolding reads_def
proof (intro allI impI)
  fix base end_pos :: size_t and pre post
  assume len: "unat base + length (pre @ le_bytes n v @ post) < 2 ^ 64"
    and le: "unat base + length (pre @ le_bytes n v) \<le> unat end_pos"
  have "base + of_nat (length pre) + of_nat n \<le> end_pos"
    using address_le [of base "length pre + n" end_pos] len le by (simp add: add.assoc)
  then show "readInt base (pre @ le_bytes n v @ post) n (base + of_nat (length pre)) end_pos =
      Ok (of_nat v, base + of_nat (length (pre @ le_bytes n v)))"
    using load_append [OF len] assms(2)
    by (simp add: readInt_def le_value_le_bytes add.assoc)
qed

text \<open>The encoding of a variable-length integer that the reader inverts.\<close>

definition varint_bytes :: "u64 \<Rightarrow> string" where
  "varint_bytes w =
     (let v = unat w in
      if v \<le> 249 then [char_of v]
      else if v < 2 ^ 16 then char_of (250 :: nat) # le_bytes 2 v
      else if v < 2 ^ 32 then char_of (251 :: nat) # le_bytes 4 v
      else char_of (252 :: nat) # le_bytes 8 v)"

lemma readVarInt_tag:
  assumes len: "unat base + length (pre @ (c # e) @ post) < 2 ^ 64"
    and le: "unat base + length (pre @ c # e) \<le> unat end_pos"
  shows "readVarInt base (pre @ (c # e) @ post) (base + of_nat (length pre)) end_pos =
    (let v = of_char c; cur_pos = base + of_nat (length (pre @ [c]))
     in if v \<le> 249 then Ok (of_nat v, cur_pos)
        else if v = 250 then readInt base ((pre @ [c]) @ e @ post) 2 cur_pos end_pos
        else if v = 251 then readInt base ((pre @ [c]) @ e @ post) 4 cur_pos end_pos
        else if v = 252 then readInt base ((pre @ [c]) @ e @ post) 8 cur_pos end_pos
        else Err (Exception ''Not supported varint value''))"
proof -
  have "base + of_nat (length pre) + 1 \<le> end_pos"
    using address_le [of base "length pre + 1" end_pos] len le by (simp add: add.assoc add.commute [of 1])
  moreover have "load base (pre @ [c] @ (e @ post)) (base + of_nat (length pre)) (length [c]) = Ok [c]"
    by (rule load_append) (use len in simp)
  ultimately show ?thesis
    by (simp add: readVarInt_def le_value_def Let_def ac_simps)
qed

lemma reads_readVarInt: "reads readVarInt (varint_bytes w) w"
  unfolding reads_def
proof (intro allI impI)
  fix base end_pos :: size_t and pre post
  assume len: "unat base + length (pre @ varint_bytes w @ post) < 2 ^ 64"
    and le: "unat base + length (pre @ varint_bytes w) \<le> unat end_pos"
  show "readVarInt base (pre @ varint_bytes w @ post) (base + of_nat (length pre)) end_pos =
      Ok (w, base + of_nat (length (pre @ varint_bytes w)))"
  proof (cases "unat w \<le> 249")
    case True
    then have w: "varint_bytes w = [char_of (unat w)]" by (simp add: varint_bytes_def)
    show ?thesis
      using readVarInt_tag [of base pre "char_of (unat w)" "[]" post end_pos] len le True unfolding w
      by (simp add: Let_def)
  next
    case False
    define n where "n = (if unat w < 2 ^ 16 then 2 else if unat w < 2 ^ 32 then 4 else 8 :: nat)"
    define t where "t = (if n = 2 then 250 else if n = 4 then 251 else 252 :: nat)"
    have w: "varint_bytes w = char_of t # le_bytes n (unat w)"
      using False by (simp add: varint_bytes_def n_def t_def)
    have t: "of_char (char_of t) = t" by (simp add: t_def)
    have "unat w < 256 ^ n" using unat_u64_less [of w] by (simp add: n_def)
    then have r: "reads (\<lambda>base buf. readInt base buf n) (le_bytes n (unat w)) w"
      using reads_readInt [of n "unat w"] by (simp add: n_def split: if_splits)
    have "readInt base ((pre @ [char_of t]) @ le_bytes n (unat w) @ post) n
        (base + of_nat (length (pre @ [char_of t]))) end_pos =
        Ok (w, base + of_nat (length ((pre @ [char_of t]) @ le_bytes n (unat w))))"
      by (rule readsD [OF r]) (use len le in \<open>simp_all add: w\<close>)
    moreover have "n = 2 \<and> t = 250 \<or> n = 4 \<and> t = 251 \<or> n = 8 \<and> t = 252" by (auto simp: n_def t_def)
    ultimately show ?thesis
      using readVarInt_tag [of base pre "char_of t" "le_bytes n (unat w)" post end_pos] len le
      unfolding w by (auto simp: Let_def)
  qed
qed

section \<open>Blocks in files\<close>

lemma file_read_inside:
  assumes "p + n \<le> length content" and "length content < 2 ^ 64"
  shows "file_read content (of_nat p) (of_nat n) = take n (drop p content)"
  using assms by (simp add: file_read_def unat_of_nat_u64)

lemma le_value_size: "length data < 2 ^ 64 \<Longrightarrow> of_nat (le_value (le_bytes 8 (length data))) = size_of data"
  by (simp add: le_value_le_bytes size_of_def)

lemma getBlockDump_at:
  assumes content: "content = old @ le_bytes 8 (length data) @ data @ later"
    and size: "80 \<le> length data" "length content < 2 ^ 63" and f: "unat fromByte < length data" "fromByte \<le> toByte"
  shows "getBlockDump content (size_of old) fromByte toByte =
    Ok (size_of data, take (unat toByte - unat fromByte) (drop (unat fromByte) data))"
proof -
  let ?o = "length old" and ?l = "length data" and ?f = "unat fromByte"
  have len: "length content = ?o + 8 + ?l + length later" by (simp add: content)
  define t where "t = min (unat toByte) ?l"
  have ft: "?f \<le> t" using f by (simp add: t_def word_le_nat_alt)
  have "unat (size_of content - size_of old) = length content - ?o"
  proof -
    have "size_of content - size_of old = of_nat (length content - ?o)"
      using len by (simp add: size_of_def of_nat_diff)
    then show ?thesis using size(2) by (simp add: unat_of_nat_u64)
  qed
  then have hd: "\<not> fileSize content \<le> size_of old" "BLOCK_HEADER_SIZE \<le> fileSize content - size_of old"
    using size len by (simp_all add: fileSize_def word_le_nat_alt BLOCK_HEADER_SIZE_def)
  have "file_read content (of_nat ?o) (of_nat 88) = take 88 (drop ?o content)"
    using size len by (intro file_read_inside) simp_all
  then have "take 8 (file_read content (size_of old) BLOCK_HEADER_SIZE) = le_bytes 8 ?l"
    by (simp add: size_of_def BLOCK_HEADER_SIZE_def content)
  then have bs: "of_nat (le_value (take 8 (file_read content (size_of old) BLOCK_HEADER_SIZE))) = size_of data"
    using size len by (simp add: le_value_size)
  have "\<not> size_of data \<le> fromByte" using f(1) size len by (simp add: word_le_nat_alt)
  moreover have to: "(if size_of data < toByte then size_of data else toByte) = of_nat t"
    using size len by (auto simp: t_def min_def word_less_nat_alt size_of_def)
  have pos: "size_of old + 8 + fromByte = of_nat (?o + 8 + ?f)" by (simp add: size_of_def)
  have n: "of_nat t - fromByte = (of_nat (t - ?f) :: size_t)" using ft by (simp add: of_nat_diff)
  have tl: "t \<le> ?l" by (simp add: t_def)
  have rd: "file_read content (of_nat (?o + 8 + ?f)) (of_nat (t - ?f)) = take (t - ?f) (drop ?f data)"
    using file_read_inside [of "?o + 8 + ?f" "t - ?f" content] size len tl ft by (simp add: content)
  have "seekFile (size_of old) = Ok ()" "seekFile (of_nat (?o + 8 + ?f)) = Ok ()"
    using size len f(1) by (simp_all add: seekFile_def size_of_def unat_of_nat_u64 del: of_nat_add)
  moreover have "read_buffer content (of_nat (?o + 8 + ?f)) (of_nat (t - ?f)) = Ok (take (t - ?f) (drop ?f data))"
    using rd size len tl by (simp add: read_buffer_def unat_of_nat_u64 del: of_nat_add)
  moreover have "take (t - ?f) (drop ?f data) = take (unat toByte - ?f) (drop ?f data)"
    by (simp add: t_def min_def)
  ultimately show ?thesis
    unfolding getBlockDump_def Let_def bs to pos n using hd by (simp del: of_nat_add not_le)
qed

text \<open>Memory that lies in the address space, and the progress of the readers in it.\<close>

definition mem_ok :: "size_t \<Rightarrow> string \<Rightarrow> bool" where
  "mem_ok base buf \<longleftrightarrow> unat base + length buf < 2 ^ 64"

definition inside :: "size_t \<Rightarrow> string \<Rightarrow> size_t \<Rightarrow> bool" where
  "inside base buf p \<longleftrightarrow> unat base \<le> unat p \<and> unat p \<le> unat base + length buf"

lemma load_OkD:
  assumes "load base buf p n = Ok bs" and "mem_ok base buf"
  shows "inside base buf p" and "unat (p + of_nat n) = unat p + n" and "inside base buf (p + of_nat n)"
    and "length bs = n"
proof -
  have le: "base \<le> p" "unat (p - base) + n \<le> length buf" and bs: "bs = take n (drop (unat (p - base)) buf)"
    using assms(1) by (auto simp: load_def split: if_splits)
  have sub: "unat (p - base) = unat p - unat base" "unat base \<le> unat p"
    using le(1) by (simp_all add: unat_sub word_le_nat_alt)
  show "inside base buf p" using le sub by (simp add: inside_def)
  have "unat p + n < 2 ^ 64" using le sub assms(2) by (simp add: mem_ok_def)
  then show *: "unat (p + of_nat n) = unat p + n" by (rule unat_add_of_nat)
  show "inside base buf (p + of_nat n)" using * le sub by (simp add: inside_def)
  show "length bs = n" using le(2) bs by simp
qed

lemma readInt_OkD:
  assumes "readInt base buf n p e = Ok (v, q)" and "mem_ok base buf"
  shows "inside base buf p" and "inside base buf q" and "unat q = unat p + n" and "q \<le> e"
  using assms load_OkD by (auto simp: readInt_def rbind_Ok_iff)

lemma readVarInt_OkD:
  assumes "readVarInt base buf p e = Ok (v, q)" and "mem_ok base buf"
  shows "inside base buf p" and "inside base buf q" and "unat p < unat q" and "q \<le> e"
proof -
  obtain bs where le: "p + 1 \<le> e" and bs: "load base buf p 1 = Ok bs"
    and r: "(le_value bs \<le> 249 \<and> q = p + 1) \<or> (\<exists>n. readInt base buf n (p + 1) e = Ok (v, q))"
    using assms(1) by (auto simp: readVarInt_def rbind_Ok_iff Let_def split: if_splits)
  note ld = load_OkD [OF bs assms(2)]
  show "inside base buf p" by (rule ld(1))
  have s: "unat (p + 1) = unat p + 1" "inside base buf (p + 1)" using ld by simp_all
  have "inside base buf q \<and> unat p < unat q \<and> q \<le> e"
    using r
  proof
    assume "le_value bs \<le> 249 \<and> q = p + 1"
    then show ?thesis using s le by simp
  next
    assume "\<exists>n. readInt base buf n (p + 1) e = Ok (v, q)"
    then obtain n where "readInt base buf n (p + 1) e = Ok (v, q)" ..
    from readInt_OkD [OF this assms(2)] s show ?thesis by simp
  qed
  then show "inside base buf q" "unat p < unat q" "q \<le> e" by auto
qed

lemma readBytes_OkD:
  assumes "readBytes base buf p e = Ok (bs, q)" and "mem_ok base buf"
  shows "inside base buf q" and "unat p < unat q" and "q \<le> e"
proof -
  obtain n p' where v: "readVarInt base buf p e = Ok (n, p')" and le: "p' + n \<le> e"
    and l: "load base buf p' (unat n) = Ok bs" and q: "q = p' + n"
    using assms(1) by (auto simp: readBytes_def rbind_Ok_iff)
  note vd = readVarInt_OkD [OF v assms(2)] and ld = load_OkD [OF l assms(2)]
  show "inside base buf q" using ld(3) by (simp add: q)
  show "unat p < unat q" using ld(2) vd(3) by (simp add: q)
  show "q \<le> e" using le by (simp add: q)
qed

lemma readTransactionInfo_progress:
  assumes ok: "readTransactionInfo env base buf p e tx True isSaveAll helper isValidate = Ok (sz, q, tx')"
    and mem: "mem_ok base buf"
  shows "inside base buf q \<and> unat p < unat q"
proof -
  obtain n p1 where v: "readVarInt base buf p e = Ok (n, p1)"
    and r: "if n = 0 then q = p1
      else \<exists>tx1 bl p2 h tx2. readTx_body env base buf p1 (p1 + n) tx = Ok (tx1, bl, p2) \<and>
        readTx_tail base buf p2 (p1 + n) n tx1 = Ok (tx2, h, q)"
    using ok by (auto simp: readTransactionInfo_def rbind_Ok_iff Let_def split: if_splits)
  note vd = readVarInt_OkD [OF v mem]
  show ?thesis
  proof (cases "n = 0")
    case True
    then show ?thesis using r vd by simp
  next
    case False
    then obtain tx1 bl p2 h tx2 where body: "readTx_body env base buf p1 (p1 + n) tx = Ok (tx1, bl, p2)"
      and tail: "readTx_tail base buf p2 (p1 + n) n tx1 = Ok (tx2, h, q)"
      using r by auto
    obtain v1 a v2 b v3 c v4 d addr dat where st:
      "load base buf p1 25 = Ok addr" "readVarInt base buf (p1 + 25) (p1 + n) = Ok (v1, a)"
      "readVarInt base buf a (p1 + n) = Ok (v2, b)" "readVarInt base buf b (p1 + n) = Ok (v3, c)"
      "readVarInt base buf c (p1 + n) = Ok (v4, d)" "load base buf d (unat v4) = Ok dat" "p2 = d + v4"
      using body by (auto simp: readTx_body_def rbind_Ok_iff)
    have "unat (p1 + 25) = unat p1 + 25" using load_OkD(2) [OF st(1) mem] by simp
    moreover have "unat p2 = unat d + unat v4" using load_OkD(2) [OF st(6) mem] by (simp add: st(7))
    ultimately have p2: "unat p1 < unat p2"
      using readVarInt_OkD(3) [OF st(2) mem] readVarInt_OkD(3) [OF st(3) mem] readVarInt_OkD(3) [OF st(4) mem]
        readVarInt_OkD(3) [OF st(5) mem] by linarith
    obtain s x k y where xy: "readBytes base buf p2 (p1 + n) = Ok (s, x)" "readBytes base buf x (p1 + n) = Ok (k, y)"
      and q: "q = y \<or> (\<exists>st. readVarInt base buf y (p1 + n) = Ok (st, q))"
      using tail by (auto simp: readTx_tail_def rbind_Ok_iff Let_def split: if_splits)
    note x = readBytes_OkD [OF xy(1) mem] and y = readBytes_OkD [OF xy(2) mem]
    have "inside base buf q \<and> unat y \<le> unat q"
      using q y readVarInt_OkD [OF _ mem] by fastforce
    then show ?thesis using x y p2 vd(3) by simp
  qed
qed

text \<open>What is left to read: the transactions to skip, then the bytes up to the end of the buffer.\<close>

definition rest_of :: "size_t \<Rightarrow> string \<Rightarrow> size_t \<Rightarrow> nat" where
  "rest_of base buf p = (if inside base buf p then unat base + length buf - unat p else 0)"

definition loop_measure :: "size_t \<Rightarrow> string \<Rightarrow> size_t \<Rightarrow> size_t \<Rightarrow> size_t \<Rightarrow> nat" where
  "loop_measure base buf beginTx txIndex p =
     (if txIndex < beginTx then unat beginTx - unat txIndex + length buf + 1 else rest_of base buf p)"

lemma rest_of_le: "rest_of base buf p \<le> length buf"
  by (auto simp: rest_of_def inside_def)

lemma loop_measure_step:
  assumes mem: "mem_ok base buf" and room: "unat beginTx + length buf < 2 ^ 64"
    and idx: "beginTx \<le> txIndex \<longrightarrow> unat txIndex + rest_of base buf p < 2 ^ 64"
    and ok: "readTransactionInfo env base buf p e tx (beginTx \<le> txIndex) sa helper v = Ok (sz, q, tx')"
  shows "loop_measure base buf beginTx (txIndex + 1) q < loop_measure base buf beginTx txIndex p"
    and "beginTx \<le> txIndex + 1 \<longrightarrow> unat (txIndex + 1) + rest_of base buf q < 2 ^ 64"
proof -
  have "loop_measure base buf beginTx (txIndex + 1) q < loop_measure base buf beginTx txIndex p \<and>
      (beginTx \<le> txIndex + 1 \<longrightarrow> unat (txIndex + 1) + rest_of base buf q < 2 ^ 64)"
  proof (cases "beginTx \<le> txIndex")
    case True
    then have q: "inside base buf q" "unat p < unat q"
      using readTransactionInfo_progress [OF _ mem] ok by auto
    obtain n p1 where "readVarInt base buf p e = Ok (n, p1)"
      using ok by (auto simp: readTransactionInfo_def rbind_Ok_iff)
    then have p: "inside base buf p" using readVarInt_OkD(1) [OF _ mem] by blast
    have less: "rest_of base buf q < rest_of base buf p"
      using p q by (auto simp: rest_of_def inside_def)
    have "unat txIndex + rest_of base buf p < 2 ^ 64" using idx True by blast
    then have i: "unat (txIndex + 1) = unat txIndex + 1" using less by (simp add: unat_word_ariths)
    then have b: "beginTx \<le> txIndex + 1" using True by (simp add: word_le_nat_alt)
    have n: "(txIndex < beginTx) = False" "(txIndex + 1 < beginTx) = False"
      using True b by (simp_all only: not_less [symmetric])
    show ?thesis
      using less i \<open>unat txIndex + rest_of base buf p < 2 ^ 64\<close> by (simp add: loop_measure_def n)
  next
    case False
    then have l: "unat txIndex < unat beginTx" by (simp add: word_le_nat_alt)
    then have i: "unat (txIndex + 1) = unat txIndex + 1"
      using unat_u64_less [of beginTx] by (simp add: unat_word_ariths)
    have "rest_of base buf q \<le> length buf" by (rule rest_of_le)
    with l i room False show ?thesis
      by (auto simp: loop_measure_def word_le_nat_alt word_less_nat_alt)
  qed
  then show "loop_measure base buf beginTx (txIndex + 1) q < loop_measure base buf beginTx txIndex p"
    and "beginTx \<le> txIndex + 1 \<longrightarrow> unat (txIndex + 1) + rest_of base buf q < 2 ^ 64" by auto
qed

lemma readBlockTxs_loop_total:
  assumes "mem_ok base buf" and "unat beginTx + length buf < 2 ^ 64"
    and "beginTx \<le> txIndex \<longrightarrow> unat txIndex + rest_of base buf cur < 2 ^ 64"
    and "loop_measure base buf beginTx txIndex cur < fuel"
  shows "readBlockTxs_loop fuel env base buf b e pf sa beginTx countTx v cur txIndex helper bi \<noteq> None"
  using assms(3,4)
proof (induction fuel arbitrary: cur txIndex helper bi)
  case (Suc fuel)
  let ?tx = "TransactionInfo_default\<lparr>ti_filePos := \<lparr>fp_pos = cur - b + pf + 8, fp_fileName = []\<rparr>\<rparr>"
  show ?case
  proof (cases "readTransactionInfo env base buf cur e ?tx (beginTx \<le> txIndex) sa helper v")
    case (Inr r)
    obtain sz q tx' where r: "r = (sz, q, tx')" by (cases r)
    note step = loop_measure_step [OF assms(1,2) Suc.prems(1) Inr [unfolded r]]
    have "loop_measure base buf beginTx (txIndex + 1) q < fuel" using step(1) Suc.prems(2) by linarith
    note IH = Suc.IH [OF step(2) this]
    from IH show ?thesis by (cases "countTx = 0") (simp_all add: Inr r Let_def del: not_None_eq)
  qed simp
qed simp

lemma readBlockTxs_total:
  assumes "mem_ok base buf" and "unat beginTx + length buf < 2 ^ 64" and "unat beginTx + length buf + 1 < fuel"
  shows "readBlockTxs fuel env base buf b e pf bi sa beginTx countTx v \<noteq> None"
proof -
  have "loop_measure base buf beginTx 0 p < fuel" for p
    using assms(3) rest_of_le [of base buf p] by (auto simp: loop_measure_def)
  moreover have "beginTx \<le> 0 \<longrightarrow> unat (0 :: size_t) + rest_of base buf p < 2 ^ 64" for p
    using assms(2) rest_of_le [of base buf p] by auto
  ultimately show ?thesis
    unfolding readBlockTxs_def Let_def
    using readBlockTxs_loop_total [OF assms(1,2), of 0 _ fuel]
    by (auto simp del: not_None_eq split: sum.split)
qed

section \<open>A transaction as bytes\<close>

text \<open>\<open>stands buf k e\<close>: the bytes \<open>e\<close> stand in the buffer at the offset \<open>k\<close>.\<close>

definition stands :: "string \<Rightarrow> nat \<Rightarrow> string \<Rightarrow> bool" where
  "stands buf k e \<longleftrightarrow> (\<exists>pre post. buf = pre @ e @ post \<and> length pre = k)"

lemma stands_append: "stands buf k (e @ f) \<Longrightarrow> stands buf k e \<and> stands buf (k + length e) f"
  unfolding stands_def by (metis append.assoc length_append)

lemma stands_le: "stands buf k e \<Longrightarrow> k + length e \<le> length buf"
  by (auto simp: stands_def)

definition adr :: "size_t \<Rightarrow> nat \<Rightarrow> size_t" where
  "adr base k = base + of_nat k"

lemma adr_add: "adr base k + of_nat n = adr base (k + n)"
  by (simp add: adr_def ac_simps)

lemma adr_0: "adr base 0 = base"
  by (simp add: adr_def)

lemma adr_le: "unat base + k < 2 ^ 64 \<Longrightarrow> unat base + k \<le> unat end_pos \<Longrightarrow> adr base k \<le> end_pos"
  unfolding adr_def by (rule address_le)

lemma unat_adr: "unat base + k < 2 ^ 64 \<Longrightarrow> unat (adr base k) = unat base + k"
  unfolding adr_def by (rule unat_add_of_nat)

lemma adr_diff: "m \<le> k \<Longrightarrow> adr base k - adr base m = of_nat (k - m)"
  by (simp add: adr_def of_nat_diff)

lemma stands_load:
  "stands buf k e \<Longrightarrow> mem_ok base buf \<Longrightarrow> load base buf (adr base k) (length e) = Ok e"
  unfolding stands_def mem_ok_def adr_def using load_append by blast

lemma stands_reads:
  "reads r e x \<Longrightarrow> stands buf k e \<Longrightarrow> mem_ok base buf \<Longrightarrow> unat base + (k + length e) \<le> unat end_pos \<Longrightarrow>
   r base buf (adr base k) end_pos = Ok (x, adr base (k + length e))"
  unfolding stands_def mem_ok_def adr_def using readsD [of r e x base] by auto

text \<open>The wire form of a transaction, written independently of the reader.\<close>

record txFields =
  tf_to :: string
  tf_value :: u64
  tf_fee :: u64
  tf_nonce :: u64
  tf_data :: string
  tf_sign :: string
  tf_key :: string
  tf_status :: "u64 option"

definition counted_bytes :: "string \<Rightarrow> string" where
  "counted_bytes bs = varint_bytes (size_of bs) @ bs"

definition tx_clear :: "txFields \<Rightarrow> string" where
  "tx_clear t = tf_to t @ varint_bytes (tf_value t) @ varint_bytes (tf_fee t) @ varint_bytes (tf_nonce t) @
     counted_bytes (tf_data t)"

definition tx_signed :: "txFields \<Rightarrow> string" where
  "tx_signed t = tx_clear t @ counted_bytes (tf_sign t) @ counted_bytes (tf_key t)"

definition tx_status :: "txFields \<Rightarrow> string" where
  "tx_status t = (case tf_status t of None \<Rightarrow> [] | Some st \<Rightarrow> varint_bytes st)"

definition tx_body :: "txFields \<Rightarrow> string" where
  "tx_body t = tx_signed t @ tx_status t"

definition tx_bytes :: "txFields \<Rightarrow> string" where
  "tx_bytes t = counted_bytes (tx_body t)"

text \<open>What a transaction means, as a function of its fields.\<close>

definition tx_author :: "readEnv \<Rightarrow> bool \<Rightarrow> transactionInfo \<Rightarrow> transactionInfo res" where
  "tx_author env isBlockedFrom tx =
     (if pubKey tx \<noteq> [] then
        rbind (get_address_bin (env_crypto env) (pubKey tx)) (\<lambda>a.
        rbind (CHECK (a \<noteq> []) ''incorrect pubkey script'') (\<lambda>_.
        rbind (Address_binary a isBlockedFrom) (\<lambda>a. Ok (tx\<lparr>fromAddress := a\<rparr>))))
      else Ok tx)"

definition tx_check :: "readEnv \<Rightarrow> bool \<Rightarrow> string \<Rightarrow> transactionInfo \<Rightarrow> unit res" where
  "tx_check env isValidate clear tx =
     (if isValidate then
        rbind (isInitialWallet (fromAddress tx)) (\<lambda>initial.
        CHECK (initial \<or> crypto_check_sign_data (env_crypto env) (ti_sign tx) (pubKey tx) clear) ''Not validate'')
      else Ok ())"

definition tx_finish ::
    "readEnv \<Rightarrow> bool \<Rightarrow> prevTransactionSignHelper \<Rightarrow> bool \<Rightarrow> bool \<Rightarrow> txFields \<Rightarrow> transactionInfo \<Rightarrow> transactionInfo res" where
  "tx_finish env isSaveAllTx helper isValidate isBlockedFrom t tx =
     rbind (tx_author env isBlockedFrom tx) (\<lambda>tx.
     rbind (get_double_sha256 (env_crypto env) (tx_signed t)) (\<lambda>h.
     let tx = tx\<lparr>ti_hash := h, ti_scriptInfo := map_option (\<lambda>si. si\<lparr>txRaw := tx_clear t\<rparr>) (ti_scriptInfo tx),
                 sizeRawTx := size_of (tx_body t), allRawTx := (if isSaveAllTx then tx_bytes t else allRawTx tx)\<rparr>
     in rbind (isSignBlockTx_of tx helper) (\<lambda>signBlock.
        let tx = tx\<lparr>isSignBlockTx := signBlock\<rparr>
        in rbind (tx_check env isValidate (tx_clear t) tx) (\<lambda>_.
           rbind (calcRealFee tx) (\<lambda>tx. Ok (tx\<lparr>ti_isInitialized := True\<rparr>))))))"

definition tx_meaning ::
    "readEnv \<Rightarrow> bool \<Rightarrow> prevTransactionSignHelper \<Rightarrow> bool \<Rightarrow> transactionInfo \<Rightarrow> txFields \<Rightarrow> transactionInfo res" where
  "tx_meaning env isSaveAllTx helper isValidate tx t =
     rbind (read_data_json env (tx\<lparr>toAddress := Address_range (tf_to t), ti_value := tf_value t,
              fees := tf_fee t, nonce := tf_nonce t, ti_data := tf_data t\<rparr>)) (\<lambda>(tx, isBlockedFrom).
     rbind (read_script_json env tx) (\<lambda>tx.
     let tx = tx\<lparr>ti_sign := tf_sign t\<rparr>;
         tx = (if tf_key t \<noteq> [] then tx\<lparr>pubKey := tf_key t\<rparr> else tx\<lparr>fromAddress := setEmpty (fromAddress tx)\<rparr>);
         tx = (case tf_status t of None \<Rightarrow> tx | Some st \<Rightarrow> tx\<lparr>intStatus := Some st\<rparr>)
     in tx_finish env isSaveAllTx helper isValidate isBlockedFrom t tx))"

lemma rbind_cong_fun: "m = m' \<Longrightarrow> (\<And>x. m' = Ok x \<Longrightarrow> f x = g x) \<Longrightarrow> rbind m f = rbind m' g"
  by (cases m') auto

lemma readTx_finish_loads:
  assumes signed: "load base buf s (unat hs) = Ok (tx_signed t)"
    and clear: "load base buf s (unat (c - s)) = Ok (tx_clear t)"
    and raw: "load base buf a (unat (e - a)) = Ok (tx_bytes t)" and sz: "sz = size_of (tx_body t)"
  shows "readTx_finish env base buf isSaveAllTx helper isValidate blocked a s c e sz hs tx =
    tx_finish env isSaveAllTx helper isValidate blocked t tx"
proof -
  have script: "(case ti_scriptInfo tx1 of None \<Rightarrow> Ok None
      | Some si \<Rightarrow> rbind (load base buf s (unat (c - s))) (\<lambda>raw. Ok (Some (si\<lparr>txRaw := raw\<rparr>)))) =
      Ok (map_option (\<lambda>si. si\<lparr>txRaw := tx_clear t\<rparr>) (ti_scriptInfo tx1))" for tx1 :: transactionInfo
    by (simp add: clear split: option.split)
  have all: "(if isSaveAllTx then load base buf a (unat (e - a)) else Ok (allRawTx tx1)) =
      Ok (if isSaveAllTx then tx_bytes t else allRawTx tx1)" for tx1 :: transactionInfo
    by (simp add: raw)
  have check: "(if isValidate then
        rbind (isInitialWallet (fromAddress tx2)) (\<lambda>initial.
        if \<not> initial then
          rbind (load base buf s (unat (c - s))) (\<lambda>clearTx.
          CHECK (crypto_check_sign_data (env_crypto env) (ti_sign tx2) (pubKey tx2) clearTx) ''Not validate'')
        else Ok ())
      else Ok ()) = tx_check env isValidate (tx_clear t) tx2" for tx2 :: transactionInfo
    by (auto simp: tx_check_def clear CHECK_def intro!: rbind_cong_fun)
  show ?thesis
    unfolding readTx_finish_def tx_finish_def tx_author_def script all check signed sz rbind_simps Let_def ..
qed

lemma reads_readBytes: "length bs < 2 ^ 64 \<Longrightarrow> reads readBytes (counted_bytes bs) bs"
  unfolding reads_def
proof (intro allI impI)
  fix base end_pos :: size_t and pre post
  assume bs: "length bs < 2 ^ 64" and len: "unat base + length (pre @ counted_bytes bs @ post) < 2 ^ 64"
    and le: "unat base + length (pre @ counted_bytes bs) \<le> unat end_pos"
  let ?buf = "pre @ counted_bytes bs @ post" and ?v = "varint_bytes (size_of bs)"
  have mem: "mem_ok base ?buf" using len by (simp add: mem_ok_def)
  have "stands ?buf (length pre) (?v @ bs)" by (auto simp: stands_def counted_bytes_def)
  note st = stands_append [OF this]
  have v: "readVarInt base ?buf (adr base (length pre)) end_pos = Ok (size_of bs, adr base (length pre + length ?v))"
    by (rule stands_reads [OF reads_readVarInt _ mem]) (use st le in \<open>auto simp: counted_bytes_def\<close>)
  have l: "load base ?buf (adr base (length pre + length ?v)) (unat (size_of bs)) = Ok bs"
    using stands_load [OF conjunct2 [OF st] mem] bs by simp
  have "adr base (length pre + length ?v + length bs) \<le> end_pos"
    by (rule adr_le) (use len le in \<open>simp_all add: counted_bytes_def\<close>)
  then have "readBytes base ?buf (adr base (length pre)) end_pos =
      Ok (bs, adr base (length pre + length ?v + length bs))"
    by (simp add: readBytes_def v l adr_add size_of_def [of bs, symmetric]) (simp add: size_of_def adr_add)
  then show "readBytes base ?buf (base + of_nat (length pre)) end_pos =
      Ok (bs, base + of_nat (length (pre @ counted_bytes bs)))"
    by (simp add: adr_def counted_bytes_def add.assoc)
qed

lemma readTx_body_stands:
  assumes mem: "mem_ok base buf" and st: "stands buf k (tx_clear t)" and len: "length (tf_to t) = 25"
    and le: "unat base + (k + length (tx_clear t)) \<le> unat end_pos"
  shows "readTx_body env base buf (adr base k) end_pos tx =
    rbind (read_data_json env (tx\<lparr>toAddress := Address_range (tf_to t), ti_value := tf_value t,
             fees := tf_fee t, nonce := tf_nonce t, ti_data := tf_data t\<rparr>)) (\<lambda>(tx, isBlockedFrom).
    rbind (read_script_json env tx) (\<lambda>tx.
    Ok (tx, isBlockedFrom, adr base (k + length (tx_clear t)))))"
proof -
  let ?v = "varint_bytes (tf_value t)" and ?f = "varint_bytes (tf_fee t)" and ?n = "varint_bytes (tf_nonce t)"
    and ?s = "varint_bytes (size_of (tf_data t))"
  let ?k1 = "k + 25" let ?k2 = "?k1 + length ?v" let ?k3 = "?k2 + length ?f" let ?k4 = "?k3 + length ?n"
  let ?k5 = "?k4 + length ?s"
  have total: "k + length (tx_clear t) = ?k5 + length (tf_data t)"
    by (simp add: tx_clear_def counted_bytes_def len)
  have s0: "stands buf k (tf_to t)" and s1: "stands buf ?k1 ?v" and s2: "stands buf ?k2 ?f"
    and s3: "stands buf ?k3 ?n" and s4: "stands buf ?k4 ?s" and s5: "stands buf ?k5 (tf_data t)"
    using st unfolding tx_clear_def counted_bytes_def by (auto dest!: stands_append simp: len add.assoc)
  have d: "length (tf_data t) < 2 ^ 64" using stands_le [OF s5] mem by (simp add: mem_ok_def)
  note rd = stands_reads [OF reads_readVarInt _ mem, where end_pos = end_pos]
  have c0: "adr base k + 25 \<le> end_pos"
    using adr_le [of base ?k1 end_pos] stands_le [OF st] mem le total by (simp add: mem_ok_def adr_def ac_simps)
  have l0: "load base buf (adr base k) 25 = Ok (tf_to t)" using stands_load [OF s0 mem] by (simp add: len)
  have a1: "adr base k + 25 = adr base ?k1" by (simp add: adr_def ac_simps)
  have r1: "readVarInt base buf (adr base ?k1) end_pos = Ok (tf_value t, adr base ?k2)"
    by (rule rd [OF s1]) (use le total in simp)
  have r2: "readVarInt base buf (adr base ?k2) end_pos = Ok (tf_fee t, adr base ?k3)"
    by (rule rd [OF s2]) (use le total in simp)
  have r3: "readVarInt base buf (adr base ?k3) end_pos = Ok (tf_nonce t, adr base ?k4)"
    by (rule rd [OF s3]) (use le total in simp)
  have r4: "readVarInt base buf (adr base ?k4) end_pos = Ok (size_of (tf_data t), adr base ?k5)"
    by (rule rd [OF s4]) (use le total in simp)
  have l5: "load base buf (adr base ?k5) (unat (size_of (tf_data t))) = Ok (tf_data t)"
    using stands_load [OF s5 mem] d by simp
  have a5: "adr base ?k5 + size_of (tf_data t) = adr base (k + length (tx_clear t))"
    by (simp add: total size_of_def adr_add)
  show ?thesis
    unfolding readTx_body_def using c0 by (simp add: l0 a1 r1 r2 r3 r4 l5 a5)
qed

lemma readTx_tail_stands:
  assumes mem: "mem_ok base buf"
    and st: "stands buf k (counted_bytes (tf_sign t) @ counted_bytes (tf_key t) @ tx_status t)"
    and e: "end_pos = adr base (k + length (counted_bytes (tf_sign t)) + length (counted_bytes (tf_key t)) +
              length (tx_status t))"
  shows "readTx_tail base buf (adr base k) end_pos sz tx =
    Ok (let tx = tx\<lparr>ti_sign := tf_sign t\<rparr>;
            tx = (if tf_key t \<noteq> [] then tx\<lparr>pubKey := tf_key t\<rparr> else tx\<lparr>fromAddress := setEmpty (fromAddress tx)\<rparr>)
        in (case tf_status t of None \<Rightarrow> tx | Some st \<Rightarrow> tx\<lparr>intStatus := Some st\<rparr>),
        sz - of_nat (length (tx_status t)), end_pos)"
proof -
  let ?S = "counted_bytes (tf_sign t)" and ?K = "counted_bytes (tf_key t)" and ?T = "tx_status t"
  let ?k1 = "k + length ?S" let ?k2 = "?k1 + length ?K" let ?k3 = "?k2 + length ?T"
  have s1: "stands buf k ?S" and s2: "stands buf ?k1 ?K" and s3: "stands buf ?k2 ?T"
    using st by (auto dest!: stands_append simp: add.assoc)
  have room: "unat base + ?k3 < 2 ^ 64" using stands_le [OF s3] mem by (simp add: mem_ok_def)
  have ue: "unat end_pos = unat base + ?k3" unfolding e by (rule unat_adr [OF room])
  have r1: "readBytes base buf (adr base k) end_pos = Ok (tf_sign t, adr base ?k1)"
    by (rule stands_reads [OF reads_readBytes s1 mem]) (use room ue in \<open>simp_all add: counted_bytes_def\<close>)
  have r2: "readBytes base buf (adr base ?k1) end_pos = Ok (tf_key t, adr base ?k2)"
    by (rule stands_reads [OF reads_readBytes s2 mem]) (use room ue in \<open>simp_all add: counted_bytes_def\<close>)
  have u2: "unat (adr base ?k2) = unat base + ?k2" using room by (intro unat_adr) simp
  show ?thesis
  proof (cases "tf_status t")
    case None
    then have "end_pos = adr base ?k2" using e by (simp add: tx_status_def)
    then show ?thesis unfolding readTx_tail_def r1 r2 rbind_simps split Let_def
      using None by (simp add: tx_status_def)
  next
    case (Some x)
    have "varint_bytes x \<noteq> []" by (simp add: varint_bytes_def Let_def)
    then have "adr base ?k2 < end_pos" using Some u2 ue by (simp add: word_less_nat_alt tx_status_def)
    moreover have "readVarInt base buf (adr base ?k2) end_pos = Ok (x, end_pos)"
      using stands_reads [OF reads_readVarInt _ mem, of ?k2 x end_pos] s3 ue Some e by (simp add: tx_status_def)
    moreover have "end_pos - adr base ?k2 = of_nat (length ?T)" unfolding e by (simp add: adr_diff)
    ultimately show ?thesis unfolding readTx_tail_def r1 r2 rbind_simps split Let_def
      using Some by simp
  qed
qed

lemma readTransactionInfo_stands:
  assumes mem: "mem_ok base buf" and st: "stands buf k (tx_bytes t)" and len: "length (tf_to t) = 25"
    and le: "unat base + (k + length (tx_bytes t)) \<le> unat end_pos"
  shows "readTransactionInfo env base buf (adr base k) end_pos tx True isSaveAllTx helper isValidate =
    rbind (tx_meaning env isSaveAllTx helper isValidate tx t) (\<lambda>tx.
    Ok (size_of (tx_body t), adr base (k + length (tx_bytes t)), tx))"
proof -
  let ?B = "tx_body t" and ?V = "varint_bytes (size_of (tx_body t))" and ?C = "tx_clear t"
  let ?k1 = "k + length ?V" let ?k2 = "?k1 + length ?C" let ?e = "adr base (k + length (tx_bytes t))"
  have total: "k + length (tx_bytes t) = ?k1 + length ?B" by (simp add: tx_bytes_def counted_bytes_def)
  have body: "?B = ?C @ counted_bytes (tf_sign t) @ counted_bytes (tf_key t) @ tx_status t"
    by (simp add: tx_body_def tx_signed_def)
  have lb: "length ?B = length ?C + length (counted_bytes (tf_sign t)) + length (counted_bytes (tf_key t)) +
      length (tx_status t)"
    by (simp add: body)
  have sv: "stands buf k ?V" and sb: "stands buf ?k1 ?B"
    using st unfolding tx_bytes_def counted_bytes_def by (auto dest!: stands_append)
  have sc: "stands buf ?k1 ?C" and s2: "stands buf ?k2 (counted_bytes (tf_sign t) @ counted_bytes (tf_key t) @ tx_status t)"
    using sb unfolding body by (auto dest!: stands_append simp del: append_assoc)
  have ss: "stands buf ?k1 (tx_signed t)" using sb unfolding tx_body_def by (auto dest!: stands_append)
  have room: "unat base + (k + length (tx_bytes t)) < 2 ^ 64" using stands_le [OF st] mem by (simp add: mem_ok_def)
  have ue: "unat ?e = unat base + (k + length (tx_bytes t))" by (rule unat_adr [OF room])
  have B: "length ?B < 2 ^ 64" "25 \<le> length ?B" using room total by (simp_all add: lb tx_clear_def len)
  have B0: "size_of ?B \<noteq> 0" using B by (intro size_of_nonzero) auto
  have r0: "readVarInt base buf (adr base k) end_pos = Ok (size_of ?B, adr base ?k1)"
    by (rule stands_reads [OF reads_readVarInt sv mem]) (use le total in simp)
  have a1: "adr base ?k1 + size_of ?B = ?e" by (simp add: size_of_def adr_add total)
  have c1: "?e \<le> end_pos" by (rule adr_le [OF room le])
  have "adr base (k + length (tx_bytes t)) = adr base (?k2 + length (counted_bytes (tf_sign t)) +
      length (counted_bytes (tf_key t)) + length (tx_status t))"
    by (simp add: total lb add.assoc)
  note tl = readTx_tail_stands [OF mem s2 this]
  have "unat base + (?k1 + length ?C) \<le> unat ?e" unfolding ue using total lb by linarith
  note rb = readTx_body_stands [OF mem sc len this]
  have "unat (size_of ?B - of_nat (length (tx_status t))) = length (tx_signed t)"
  proof -
    have "size_of ?B - of_nat (length (tx_status t)) = of_nat (length (tx_signed t))"
      by (simp add: size_of_def tx_body_def)
    then show ?thesis using B by (simp add: unat_of_nat_u64 tx_body_def)
  qed
  then have l1: "load base buf (adr base ?k1) (unat (size_of ?B - of_nat (length (tx_status t)))) = Ok (tx_signed t)"
    using stands_load [OF ss mem] by simp
  have l2: "load base buf (adr base ?k1) (unat (adr base ?k2 - adr base ?k1)) = Ok ?C"
    using stands_load [OF sc mem] B by (simp add: adr_diff unat_of_nat_u64 lb)
  have l3: "load base buf (adr base k) (unat (?e - adr base k)) = Ok (tx_bytes t)"
    using stands_load [OF st mem] room by (simp add: adr_diff unat_of_nat_u64)
  note fin = readTx_finish_loads [OF l1 l2 l3 refl]
  show ?thesis
    unfolding readTransactionInfo_def r0 rbind_simps split a1 Let_def tx_meaning_def rb rbind_rbind using B0 c1
    by (simp add: split_def tl fin Let_def rbind_rbind)
qed

section \<open>A block as bytes\<close>

definition block_bytes :: "u64 \<Rightarrow> u64 \<Rightarrow> string \<Rightarrow> string \<Rightarrow> txFields list \<Rightarrow> string" where
  "block_bytes block_type block_ts prevHash txsHash ts =
     le_bytes 8 (unat block_type) @ le_bytes 8 (unat block_ts) @ prevHash @ txsHash @
     concat (map tx_bytes ts) @ varint_bytes 0"

text \<open>The transactions of a block from a file position on: each is judged with what came before it.\<close>

fun txs_meaning ::
    "readEnv \<Rightarrow> bool \<Rightarrow> bool \<Rightarrow> size_t \<Rightarrow> prevTransactionSignHelper \<Rightarrow> txFields list \<Rightarrow> transactionInfo list res" where
  "txs_meaning env isSaveAllTx isValidate pos helper [] = Ok []"
| "txs_meaning env isSaveAllTx isValidate pos helper (t # ts) =
     rbind (tx_meaning env isSaveAllTx helper isValidate
              (TransactionInfo_default\<lparr>ti_filePos := \<lparr>fp_pos = pos, fp_fileName = []\<rparr>\<rparr>) t) (\<lambda>tx.
     rbind (txs_meaning env isSaveAllTx isValidate (pos + of_nat (length (tx_bytes t)))
              \<lparr>isFirst = False, isPrevSign = isSignBlockTx tx, prevTxData = ti_data tx\<rparr> ts) (\<lambda>txs.
     Ok (tx # txs)))"

lemma tx_meaning_initialized: "tx_meaning env sa helper v tx t = Ok tx' \<Longrightarrow> ti_isInitialized tx'"
  by (auto simp: tx_meaning_def tx_finish_def rbind_Ok_iff Let_def)

lemma readTransactionInfo_end:
  assumes "mem_ok base buf" and "stands buf k (varint_bytes 0)" and "unat base + length buf \<le> unat end_pos"
  shows "\<exists>p. readTransactionInfo env base buf (adr base k) end_pos tx parse sa helper v = Ok (0, p, tx)"
  using stands_reads [OF reads_readVarInt assms(2,1), of end_pos] assms(3) stands_le [OF assms(2)]
  by (simp add: readTransactionInfo_def)

lemma readBlockTxs_loop_stands:
  assumes mem: "mem_ok base buf" and e: "unat base + length buf \<le> unat end_pos"
  shows "stands buf k (concat (map tx_bytes ts) @ varint_bytes 0) \<Longrightarrow>
    \<forall>t\<in>set ts. length (tf_to t) = 25 \<Longrightarrow> length ts < fuel \<Longrightarrow>
    readBlockTxs_loop fuel env base buf base end_pos posInFile sa 0 0 v (adr base k) i helper bi =
      Some (rbind (txs_meaning env sa v (of_nat k + posInFile + 8) helper ts) (\<lambda>txs.
            Ok (bi\<lparr>bi_txs := bi_txs bi @ txs\<rparr>)))"
proof (induction ts arbitrary: fuel k i helper bi)
  case Nil
  then obtain f where f: "fuel = Suc f" by (cases fuel) auto
  let ?tx = "TransactionInfo_default\<lparr>ti_filePos := \<lparr>fp_pos = adr base k - base + posInFile + 8, fp_fileName = []\<rparr>\<rparr>"
  obtain p where "readTransactionInfo env base buf (adr base k) end_pos ?tx True sa helper v = Ok (0, p, ?tx)"
    using readTransactionInfo_end [OF mem _ e] Nil.prems(1) by fastforce
  moreover have "\<not> ti_isInitialized ?tx" by (simp add: TransactionInfo_default_def)
  ultimately show ?case by (simp add: f Let_def)
next
  case (Cons t ts)
  then obtain f where f: "fuel = Suc f" by (cases fuel) auto
  have st: "stands buf k (tx_bytes t)" and rest: "stands buf (k + length (tx_bytes t)) (concat (map tx_bytes ts) @ varint_bytes 0)"
    using stands_append [of buf k "tx_bytes t" "concat (map tx_bytes ts) @ varint_bytes 0"] Cons.prems(1) by simp_all
  let ?p = "of_nat k + posInFile + 8 :: size_t"
  let ?tx = "TransactionInfo_default\<lparr>ti_filePos := \<lparr>fp_pos = ?p, fp_fileName = []\<rparr>\<rparr>"
  have r: "readTransactionInfo env base buf (adr base k) end_pos ?tx True sa helper v =
      rbind (tx_meaning env sa helper v ?tx t) (\<lambda>tx. Ok (size_of (tx_body t), adr base (k + length (tx_bytes t)), tx))"
    by (rule readTransactionInfo_stands [OF mem st]) (use Cons.prems(2) stands_le [OF st] e in auto)
  have pos: "adr base k - base + posInFile + 8 = ?p" by (simp add: adr_def)
  have len: "25 \<le> length (tx_body t)" "length (tx_body t) < 2 ^ 64"
    using Cons.prems(2) stands_le [OF st] mem
    by (simp_all add: tx_body_def tx_signed_def tx_clear_def tx_bytes_def counted_bytes_def mem_ok_def)
  then have nz: "size_of (tx_body t) \<noteq> 0" by (intro size_of_nonzero) auto
  show ?case
  proof (cases "tx_meaning env sa helper v ?tx t")
    case (Inr tx')
    have "readBlockTxs_loop f env base buf base end_pos posInFile sa 0 0 v (adr base (k + length (tx_bytes t))) (i + 1)
        \<lparr>isFirst = False, isPrevSign = isSignBlockTx tx', prevTxData = ti_data tx'\<rparr> (bi\<lparr>bi_txs := bi_txs bi @ [tx']\<rparr>) =
      Some (rbind (txs_meaning env sa v (?p + of_nat (length (tx_bytes t)))
        \<lparr>isFirst = False, isPrevSign = isSignBlockTx tx', prevTxData = ti_data tx'\<rparr> ts) (\<lambda>txs.
        Ok (bi\<lparr>bi_txs := bi_txs bi @ [tx'] @ txs\<rparr>)))"
      using Cons.IH [OF rest, of f] Cons.prems(2,3) f by (simp add: ac_simps)
    then show ?thesis
      using nz tx_meaning_initialized [OF Inr] by (simp add: f Let_def pos r Inr rbind_rbind)
  qed (simp add: f Let_def pos r)
qed

lemma reads_readHash: "length h = 32 \<Longrightarrow> reads (readHash env) h (env_toHex env h)"
  unfolding reads_def
proof (intro allI impI)
  fix base end_pos :: size_t and pre post
  assume h: "length h = 32" and len: "unat base + length (pre @ h @ post) < 2 ^ 64"
    and le: "unat base + length (pre @ h) \<le> unat end_pos"
  have "base + of_nat (length pre) + 32 \<le> end_pos"
    using address_le [of base "length pre + 32" end_pos] len le h by (simp add: add.assoc)
  then show "readHash env base (pre @ h @ post) (base + of_nat (length pre)) end_pos =
      Ok (env_toHex env h, base + of_nat (length (pre @ h)))"
    using load_append [OF len] h by (simp add: readHash_def add.assoc)
qed

lemma readBlockHeaderWithoutSize_stands:
  assumes mem: "mem_ok base buf" and st: "stands buf k (le_bytes 8 (unat ty) @ le_bytes 8 (unat ts) @ ph @ th)"
    and len: "length ph = 32" "length th = 32" and e: "unat base + length buf \<le> unat end_pos"
  shows "readBlockHeaderWithoutSize env base buf (adr base k) end_pos bh =
    Ok (bh\<lparr>bh_blockType := ty, bh_timestamp := ts, bh_prevHash := env_toHex env ph, bh_txsHash := env_toHex env th\<rparr>)"
proof -
  have s: "stands buf k (le_bytes 8 (unat ty))" "stands buf (k + 8) (le_bytes 8 (unat ts))"
    "stands buf (k + 16) ph" "stands buf (k + 48) th"
    using st len by (auto dest!: stands_append simp: add.commute [of k])
  have i: "reads (\<lambda>base buf. readInt base buf 8) (le_bytes 8 (unat w)) w" for w :: u64
    using reads_readInt [of 8 "unat w"] unat_u64_less [of w] by simp
  have bound: "stands buf j x \<Longrightarrow> unat base + (j + length x) \<le> unat end_pos" for j x
    using stands_le [of buf j x] e by linarith
  have r: "readInt base buf 8 (adr base k) end_pos = Ok (ty, adr base (k + 8))"
    "readInt base buf 8 (adr base (k + 8)) end_pos = Ok (ts, adr base (k + 16))"
    "readHash env base buf (adr base (k + 16)) end_pos = Ok (env_toHex env ph, adr base (k + 48))"
    "readHash env base buf (adr base (k + 48)) end_pos = Ok (env_toHex env th, adr base (k + 80))"
    using stands_reads [OF i s(1) mem bound [OF s(1)]] stands_reads [OF i s(2) mem bound [OF s(2)]]
      stands_reads [OF reads_readHash [OF len(1)] s(3) mem bound [OF s(3)], of env]
      stands_reads [OF reads_readHash [OF len(2)] s(4) mem bound [OF s(4)], of env] len
    by (simp_all add: add.assoc)
  show ?thesis by (simp add: readBlockHeaderWithoutSize_def r)
qed

text \<open>What reading a block yields, as a function of its fields.\<close>

definition block_meaning ::
    "readEnv \<Rightarrow> bool \<Rightarrow> bool \<Rightarrow> size_t \<Rightarrow> blockHeader \<Rightarrow> string \<Rightarrow> txFields list \<Rightarrow> blockInfo \<Rightarrow> blockInfo res" where
  "block_meaning env isSaveAllTx isValidate posInFile bh bytes ts bi =
     rbind (get_double_sha256 (env_crypto env) bytes) (\<lambda>h.
     rbind (txs_meaning env isSaveAllTx isValidate (posInFile + 88) \<lparr>isFirst = True, isPrevSign = True, prevTxData = []\<rparr> ts) (\<lambda>txs.
     rbind (set_block_signature (bi\<lparr>bi_txs := bi_txs bi @ txs,
              bi_header := bh\<lparr>bh_hash := env_toHex env h, bh_countTxs := Some (size_of (bi_txs bi @ txs))\<rparr>\<rparr>)) (\<lambda>bi.
     Ok (bi\<lparr>bi_header := (bi_header bi)\<lparr>bh_blockSize := size_of bytes,
           bh_filePos := (bh_filePos (bi_header bi))\<lparr>fp_pos := posInFile\<rparr>,
           bh_endBlockPos := posInFile + size_of bytes + 8\<rparr>\<rparr>))))"

lemma readNextBlockInfo_block_bytes:
  fixes bi :: blockInfo
  assumes buf: "buf = block_bytes ty ts ph th txs" and mem: "unat base + length buf < 2 ^ 64"
    and len: "length ph = 32" "length th = 32" and to: "\<forall>t\<in>set txs. length (tf_to t) = 25" and fuel: "length txs < fuel"
  shows "readNextBlockInfo fuel env base buf base (base + size_of buf) posInFile bi isValidate isSaveAllTx 0 0 =
    Some (block_meaning env isSaveAllTx isValidate posInFile ((bi_header bi)\<lparr>bh_blockType := ty, bh_timestamp := ts,
      bh_prevHash := env_toHex env ph, bh_txsHash := env_toHex env th\<rparr>) buf txs bi)"
proof -
  let ?e = "base + size_of buf"
  have m: "mem_ok base buf" using mem by (simp add: mem_ok_def)
  have ue: "unat ?e = unat base + length buf" unfolding size_of_def by (rule unat_add_of_nat [OF mem])
  have "stands buf 0 ((le_bytes 8 (unat ty) @ le_bytes 8 (unat ts) @ ph @ th) @ concat (map tx_bytes txs) @ varint_bytes 0)"
    by (auto simp: stands_def buf block_bytes_def)
  note st = stands_append [OF this]
  have st2: "stands buf 80 (concat (map tx_bytes txs) @ varint_bytes 0)" using st len by simp
  have whole: "load base buf base (unat (size_of buf)) = Ok buf"
    using stands_load [OF _ m, of 0 buf] mem by (simp add: adr_0 stands_def)
  have hdr: "readBlockHeaderWithoutSize env base buf base ?e (bi_header bi) = Ok ((bi_header bi)\<lparr>bh_blockType := ty,
      bh_timestamp := ts, bh_prevHash := env_toHex env ph, bh_txsHash := env_toHex env th\<rparr>)"
    using readBlockHeaderWithoutSize_stands [OF m conjunct1 [OF st] len, of ?e] ue by (simp add: adr_0)
  have start: "base + (BLOCK_HEADER_SIZE - 8) = adr base 80" by (simp add: BLOCK_HEADER_SIZE_def adr_def)
  have loop: "readBlockTxs_loop fuel env base buf base ?e posInFile isSaveAllTx 0 0 isValidate (adr base 80) 0 h b =
      Some (rbind (txs_meaning env isSaveAllTx isValidate (posInFile + 88) h txs) (\<lambda>txs.
            Ok (b\<lparr>bi_txs := bi_txs b @ txs\<rparr>)))" for h b
    using readBlockTxs_loop_stands [OF m _ st2 to fuel, of ?e] ue by (simp add: ac_simps)
  show ?thesis
    by (cases "get_double_sha256 (env_crypto env) buf")
      (simp_all add: readNextBlockInfo_def readBlockTxs_def block_meaning_def hdr whole start loop rbind_rbind Let_def)
qed

section \<open>Properties\<close>

text \<open>C4: Reading a block is the inverse of its wire form. On the bytes of a block (type, time, two
  hashes, the transactions and the closing zero) the node returns exactly the block that the fields mean:
  the header fields, the double SHA-256 of all bytes as the hash, every transaction in order with its
  position in the file, sender, hash and signature check, and the number of transactions; an error only
  where one of those conversions has one. Fuel above the number of transactions is enough.\<close>
theorem block_decoded:
  assumes "unat base + length (block_bytes ty ts ph th txs) < 2 ^ 64" and "length ph = 32" and "length th = 32"
    and "\<forall>t\<in>set txs. length (tf_to t) = 25" and "length txs < fuel"
  shows "readNextBlockInfo fuel env base (block_bytes ty ts ph th txs) base (base + size_of (block_bytes ty ts ph th txs))
      posInFile bi isValidate isSaveAllTx 0 0 =
    Some (block_meaning env isSaveAllTx isValidate posInFile ((bi_header bi)\<lparr>bh_blockType := ty, bh_timestamp := ts,
      bh_prevHash := env_toHex env ph, bh_txsHash := env_toHex env th\<rparr>) (block_bytes ty ts ph th txs) txs bi)"
  by (rule readNextBlockInfo_block_bytes [OF refl assms])

definition sample_tx :: txFields where
  "sample_tx = \<lparr>tf_to = replicate 25 (CHR 0x07), tf_value = 5, tf_fee = 0, tf_nonce = 300, tf_data = ''hi'',
     tf_sign = [], tf_key = [], tf_status = Some 20\<rparr>"

theorem block_decoded_witness:
  "\<forall>env bi v sa. readNextBlockInfo 2 env 4096 (block_bytes 1 2 (replicate 32 (CHR 0x05)) (replicate 32 (CHR 0x06)) [sample_tx])
      4096 (4096 + size_of (block_bytes 1 2 (replicate 32 (CHR 0x05)) (replicate 32 (CHR 0x06)) [sample_tx])) 0 bi v sa 0 0 =
    Some (block_meaning env sa v 0 ((bi_header bi)\<lparr>bh_blockType := 1, bh_timestamp := 2,
      bh_prevHash := env_toHex env (replicate 32 (CHR 0x05)), bh_txsHash := env_toHex env (replicate 32 (CHR 0x06))\<rparr>)
      (block_bytes 1 2 (replicate 32 (CHR 0x05)) (replicate 32 (CHR 0x06)) [sample_tx]) [sample_tx] bi)"
proof -
  have "unat (4096 :: size_t) + length (block_bytes 1 2 (replicate 32 (CHR 0x05)) (replicate 32 (CHR 0x06)) [sample_tx]) < 2 ^ 64"
    by (simp add: block_bytes_def sample_tx_def tx_bytes_def tx_body_def tx_signed_def tx_clear_def tx_status_def
        counted_bytes_def varint_bytes_def)
  then show ?thesis
    using block_decoded [of 4096 1 2 "replicate 32 (CHR 0x05)" "replicate 32 (CHR 0x06)" "[sample_tx]" 2]
    by (simp add: sample_tx_def)
qed

text \<open>C26: Reading a block from memory always ends. The transaction loop of the source is bounded only by the
  data, which comes from other nodes; every transaction that is parsed moves the position on inside the
  buffer, and those before \<open>beginTx\<close> are counted, so that fuel above \<open>beginTx\<close> plus the length of the
  buffer plus one is enough whatever the bytes are.\<close>
theorem block_reading_terminates:
  assumes "unat base + length buf < 2 ^ 64" and "unat beginTx + length buf < 2 ^ 64"
    and "unat beginTx + length buf + 1 < fuel"
  shows "readNextBlockInfo fuel env base buf begin_pos end_pos posInFile bi isValidate isSaveAllTx beginTx countTx \<noteq> None"
proof -
  have "mem_ok base buf" using assms(1) by (simp add: mem_ok_def)
  from readBlockTxs_total [OF this assms(2,3)] show ?thesis
    by (auto simp: readNextBlockInfo_def split: sum.split)
qed

theorem block_reading_terminates_witness:
  "\<forall>env bi v sa. readNextBlockInfo 100 env 4096 (replicate 90 (CHR 0xFF)) 4096 4186 0 bi v sa 3 1 \<noteq> None"
  using block_reading_terminates [of 4096 "replicate 90 (CHR 0xFF)" 3 100] by simp

text \<open>C21: A stored block is found again. A block appended to a block file is read back from the position
  that was returned, whole or any range of its bytes (a range that reaches behind the block is cut at its
  end), and blocks appended later do not change it.\<close>
theorem stored_block_read_back:
  assumes "saveBlockToFileBinary fileName data d = (d', pos)" and "fmlookup d' fileName = Some content"
    and "80 \<le> length data" and "length (content @ later) < 2 ^ 63"
    and "unat fromByte < length data" and "fromByte \<le> toByte"
  shows "getBlockDump (content @ later) pos fromByte toByte =
    Ok (size_of data, take (unat toByte - unat fromByte) (drop (unat fromByte) data))"
proof -
  define old where "old = (case fmlookup d fileName of None \<Rightarrow> [] | Some c \<Rightarrow> c)"
  have c: "content = old @ le_bytes 8 (unat (size_of data)) @ data" and p: "pos = size_of old"
    using assms(1,2) by (auto simp: saveBlockToFileBinary_def append_file_def fileSize_def old_def Let_def)
  have "length data < 2 ^ 64" using assms(4) by (simp add: c)
  then have "content @ later = old @ le_bytes 8 (length data) @ data @ later" by (simp add: c)
  then show ?thesis unfolding p using assms(3-6) by (intro getBlockDump_at)
qed

theorem stored_block_read_back_witness:
  "getBlockDump ((le_bytes 8 100 @ replicate 100 (CHR 0x07)) @ ''next'') 0 90 200 = Ok (100, replicate 10 (CHR 0x07))"
  using stored_block_read_back [of "''f''" "replicate 100 (CHR 0x07)" fmempty _ _ _ "''next''" 90 200, OF prod.collapse [symmetric]]
  by (simp add: saveBlockToFileBinary_def append_file_def fileSize_def size_of_def)


end
