(* ===== verification/PrivateKey.thy ===== *)
theory PrivateKey
  imports Serialize BlockchainUtils
begin

text \<open>
  \<^verbatim>\<open>src/src/PrivateKey.cpp\<close>: the key a node signs its blocks with, and the signed form of a block dump.
  secp256k1, the OpenSSL wrappers \<open>CRYPTO_\<close>* and the string conversions of the common library are
  parameters; a call that reports failure is \<open>None\<close>.
\<close>

record keyOps =
  secp_pubkey_create :: "string \<Rightarrow> string option"
  secp_pubkey_parse :: "string \<Rightarrow> string option"
  secp_ecdsa_sign :: "string \<Rightarrow> string \<Rightarrow> string option"
  crypto_generate_public :: "string \<Rightarrow> string"
  crypto_generate_address :: "string \<Rightarrow> string"
  crypto_sign_text :: "string \<Rightarrow> string \<Rightarrow> string"
  ko_toHex :: "string \<Rightarrow> string"
  ko_fromHex :: "string \<Rightarrow> string"
  ko_toLower :: "string \<Rightarrow> string"

text \<open>\<open>try\<close> with a handler for the exceptions of \<open>CHECK\<close>; others pass through.\<close>

definition catch_exception :: "'a res \<Rightarrow> 'a res \<Rightarrow> 'a res" where
  "catch_exception m handler = (case m of Inl (Exception e) \<Rightarrow> handler | _ \<Rightarrow> m)"

definition require :: "'a option \<Rightarrow> string \<Rightarrow> 'a res" where
  "require m msg = (case m of None \<Rightarrow> Err (Exception msg) | Some x \<Rightarrow> Ok x)"

definition makeAddressFromSecpKey :: "crypto \<Rightarrow> keyOps \<Rightarrow> string \<Rightarrow> string res" where
  "makeAddressFromSecpKey cr ko pubkey =
     rbind (require (secp_pubkey_parse ko pubkey) ''Incorrect pubkey'') (\<lambda>pubkeyData.
     get_address cr pubkeyData)"

record privateKey =
  pk_privateKey :: string
  pk_pubk :: string
  pk_address :: string
  pk_isSecp :: bool

text \<open>The 32 secret bytes start at offset 7 of the key.\<close>

definition secret_bytes :: "string \<Rightarrow> string res" where
  "secret_bytes key = (if length key < 39 then Err Undefined else Ok (take 32 (drop 7 key)))"

definition PrivateKey_new :: "crypto \<Rightarrow> keyOps \<Rightarrow> string \<Rightarrow> string \<Rightarrow> privateKey res" where
  "PrivateKey_new cr ko key address =
     catch_exception
       (rbind (secret_bytes key) (\<lambda>secret.
        rbind (require (secp_pubkey_create ko secret) ''Incorrect private key'') (\<lambda>pubk.
        rbind (get_address cr pubk) (\<lambda>calculatedAddress.
        rbind (CHECK (calculatedAddress = ko_toLower ko address) ''Incorrect private key or address'') (\<lambda>_.
        Ok \<lparr>pk_privateKey = key, pk_pubk = pubk, pk_address = address, pk_isSecp = True\<rparr>)))))
       (let pubkey = crypto_generate_public ko (ko_toHex ko key);
            calculatedAddress = ''0x'' @ crypto_generate_address ko pubkey
        in rbind (CHECK (calculatedAddress = ko_toLower ko address) ''Incorrect private key or address'') (\<lambda>_.
           Ok \<lparr>pk_privateKey = key, pk_pubk = ko_fromHex ko pubkey, pk_address = address, pk_isSecp = False\<rparr>))"

definition PrivateKey_sign_secp :: "crypto \<Rightarrow> keyOps \<Rightarrow> privateKey \<Rightarrow> string \<Rightarrow> string res" where
  "PrivateKey_sign_secp cr ko pk data =
     rbind (secret_bytes (pk_privateKey pk)) (\<lambda>secret.
     require (secp_ecdsa_sign ko (sha256 cr data) secret) ''Dont create signature'')"

definition PrivateKey_sign :: "crypto \<Rightarrow> keyOps \<Rightarrow> privateKey \<Rightarrow> string \<Rightarrow> string res" where
  "PrivateKey_sign cr ko pk data =
     (if pk_isSecp pk then PrivateKey_sign_secp cr ko pk data
      else Ok (crypto_sign_text ko (ko_toHex ko (pk_privateKey pk)) data))"

definition makeFirstPartBlockSign :: "size_t \<Rightarrow> string" where
  "makeFirstPartBlockSign blockSize = serializeIntBigEndian blockSize"

definition makeBlockSign :: "crypto \<Rightarrow> keyOps \<Rightarrow> string \<Rightarrow> privateKey \<Rightarrow> string res" where
  "makeBlockSign cr ko blockDump pk =
     rbind (PrivateKey_sign cr ko pk blockDump) (\<lambda>sign.
     Ok (serializeStringBigEndian sign @ serializeStringBigEndian (pk_pubk pk) @
         serializeStringBigEndian (pk_address pk)))"

record blockSignatureCheckResult =
  sr_block :: string
  sr_sign :: string
  sr_pubkey :: string
  sr_address :: string

definition checkSignatureBlock :: "crypto \<Rightarrow> keyOps \<Rightarrow> string \<Rightarrow> blockSignatureCheckResult res" where
  "checkSignatureBlock cr ko blockDump =
     rbind (deserializeStringBigEndian blockDump 0) (\<lambda>(block, fromPos).
     rbind (deserializeStringBigEndian blockDump fromPos) (\<lambda>(sign, fromPos).
     rbind (deserializeStringBigEndian blockDump fromPos) (\<lambda>(pubkey, fromPos).
     rbind (deserializeStringBigEndian blockDump fromPos) (\<lambda>(address, fromPos).
     rbind (CHECK (crypto_check_sign_data cr sign pubkey block) ''Not validate'') (\<lambda>_.
     let result = \<lparr>sr_block = block, sr_sign = sign, sr_pubkey = pubkey, sr_address = address\<rparr>
     in catch_exception
          (rbind (makeAddressFromSecpKey cr ko pubkey) (\<lambda>calculatedAddress.
           rbind (CHECK (calculatedAddress = address) ''Not validate'') (\<lambda>_. Ok result)))
          (rbind (get_address cr pubkey) (\<lambda>calculatedAddress.
           rbind (CHECK (calculatedAddress = address) ''Not validate'') (\<lambda>_. Ok result))))))))"

definition getAddress_of :: "crypto \<Rightarrow> string \<Rightarrow> string res" where
  "getAddress_of cr pubkey = get_address cr pubkey"

definition makeTestResultSign :: "crypto \<Rightarrow> keyOps \<Rightarrow> string \<Rightarrow> privateKey \<Rightarrow> string res" where
  "makeTestResultSign cr ko str pk = rbind (PrivateKey_sign cr ko pk str) (\<lambda>sign. Ok (ko_toHex ko sign))"

definition checkSignatureTest :: "crypto \<Rightarrow> keyOps \<Rightarrow> string \<Rightarrow> string \<Rightarrow> unit res" where
  "checkSignatureTest cr ko text str =
     rbind (deserializeStringBigEndian str 0) (\<lambda>(sign, fromPos).
     rbind (deserializeStringBigEndian str fromPos) (\<lambda>(pubkey, fromPos).
     rbind (deserializeStringBigEndian str fromPos) (\<lambda>(address, fromPos).
     rbind (CHECK (crypto_check_sign_data cr sign pubkey text) ''Not validate'') (\<lambda>_.
     rbind (makeAddressFromSecpKey cr ko pubkey) (\<lambda>calculatedAddress.
     CHECK (calculatedAddress = address) ''Not validate'')))))"

definition verifySignature :: "crypto \<Rightarrow> string \<Rightarrow> string \<Rightarrow> string \<Rightarrow> bool" where
  "verifySignature cr text sign pubkey = crypto_check_sign_data cr sign pubkey text"

definition signed_dump :: "crypto \<Rightarrow> keyOps \<Rightarrow> privateKey \<Rightarrow> string \<Rightarrow> string res" where
  "signed_dump cr ko pk dump =
     rbind (makeBlockSign cr ko dump pk) (\<lambda>sign. Ok (makeFirstPartBlockSign (size_of dump) @ dump @ sign))"

section \<open>Reading a signed dump\<close>

lemma signed_dump_bytes:
  assumes "signed_dump cr ko pk dump = Ok r"
  obtains sign where "PrivateKey_sign cr ko pk dump = Ok sign"
    and "r = serializeString dump @ serializeString sign @ serializeString (pk_pubk pk) @ serializeString (pk_address pk)"
  using assms
  by (auto simp: signed_dump_def makeBlockSign_def makeFirstPartBlockSign_def rbind_Ok_iff serialize_alias
      serializeStringBigEndian_def)

lemma checkSignatureBlock_fields:
  assumes "length (serializeString block @ serializeString sign @ serializeString pubkey @ serializeString address @ rest) < 2 ^ 64"
  shows "checkSignatureBlock cr ko
      (serializeString block @ serializeString sign @ serializeString pubkey @ serializeString address @ rest) =
    rbind (CHECK (crypto_check_sign_data cr sign pubkey block) ''Not validate'') (\<lambda>_.
    let result = \<lparr>sr_block = block, sr_sign = sign, sr_pubkey = pubkey, sr_address = address\<rparr>
    in catch_exception
         (rbind (makeAddressFromSecpKey cr ko pubkey) (\<lambda>a. rbind (CHECK (a = address) ''Not validate'') (\<lambda>_. Ok result)))
         (rbind (get_address cr pubkey) (\<lambda>a. rbind (CHECK (a = address) ''Not validate'') (\<lambda>_. Ok result))))"
proof -
  let ?b = "serializeString block" and ?s = "serializeString sign" and ?p = "serializeString pubkey"
    and ?a = "serializeString address"
  have d: "deserializeStringBigEndian (pre @ serializeString x @ post) (of_nat (length pre)) =
      Ok (x, of_nat (length (pre @ serializeString x)))" if "length (pre @ serializeString x @ post) < 2 ^ 64" for pre x post
    using encodesD [OF encodes_deserializeString that] by (simp only: deserializeString_def)
  have r: "deserializeStringBigEndian (?b @ ?s @ ?p @ ?a @ rest) 0 = Ok (block, of_nat (length ?b))"
    "deserializeStringBigEndian (?b @ ?s @ ?p @ ?a @ rest) (of_nat (length ?b)) = Ok (sign, of_nat (length (?b @ ?s)))"
    "deserializeStringBigEndian (?b @ ?s @ ?p @ ?a @ rest) (of_nat (length (?b @ ?s))) =
      Ok (pubkey, of_nat (length (?b @ ?s @ ?p)))"
    "deserializeStringBigEndian (?b @ ?s @ ?p @ ?a @ rest) (of_nat (length (?b @ ?s @ ?p))) =
      Ok (address, of_nat (length (?b @ ?s @ ?p @ ?a)))"
    using assms d [of "[]" block "?s @ ?p @ ?a @ rest"] d [of ?b sign "?p @ ?a @ rest"]
      d [of "?b @ ?s" pubkey "?a @ rest"] d [of "?b @ ?s @ ?p" address rest]
    by (simp_all del: length_append length_serializeString)
  show ?thesis unfolding checkSignatureBlock_def r rbind_simps split ..
qed

lemma PrivateKey_new_secp:
  assumes "PrivateKey_new cr ko key address = Ok pk" and "pk_isSecp pk"
  obtains secret where "secret_bytes key = Ok secret" and "secp_pubkey_create ko secret = Some (pk_pubk pk)"
    and "get_address cr (pk_pubk pk) = Ok (ko_toLower ko address)" and "pk_address pk = address" and "pk_privateKey pk = key"
  using assms
  by (auto simp: PrivateKey_new_def catch_exception_def rbind_Ok_iff require_def Let_def
      split: sum.splits error.splits option.splits)

text \<open>The promise of ECDSA: a signature made with a secret is accepted for the public key of that secret.\<close>

definition ecdsa_correct :: "crypto \<Rightarrow> keyOps \<Rightarrow> bool" where
  "ecdsa_correct cr ko \<longleftrightarrow>
     (\<forall>secret pub data sign. secp_pubkey_create ko secret = Some pub \<longrightarrow>
        secp_ecdsa_sign ko (sha256 cr data) secret = Some sign \<longrightarrow>
        read_public_key cr pub \<and> read_signature cr sign \<and> ecdsa_verify cr (sha256 cr data) sign pub)"

lemma sign_verifies:
  assumes "ecdsa_correct cr ko" and "PrivateKey_new cr ko key address = Ok pk" and "pk_isSecp pk"
    and "PrivateKey_sign cr ko pk data = Ok sign"
  shows "crypto_check_sign_data cr sign (pk_pubk pk) data"
proof -
  obtain secret where s: "secret_bytes key = Ok secret" "secp_pubkey_create ko secret = Some (pk_pubk pk)"
    "pk_privateKey pk = key"
    by (rule PrivateKey_new_secp [OF assms(2,3)])
  then have "secp_ecdsa_sign ko (sha256 cr data) secret = Some sign"
    using assms(3,4)
    by (auto simp: PrivateKey_sign_def PrivateKey_sign_secp_def require_def split: option.splits)
  with s assms(1) show ?thesis
    unfolding crypto_check_sign_data_def check_sign_def ecdsa_correct_def by auto
qed

lemma address_error: "get_address cr pub = Err e \<Longrightarrow> \<exists>msg. e = Exception msg"
  by (auto simp: get_address_def get_address_comp_def rbind_Err_iff CHECK_def Let_def split: if_splits)

lemma catch_address_check:
  assumes "makeAddressFromSecpKey cr ko pub = m"
  shows "catch_exception (rbind m (\<lambda>a. rbind (CHECK (a = addr) ''Not validate'') (\<lambda>_. Ok r))) h =
    (if m = Ok addr then Ok r else h)"
proof (cases m)
  case (Inl e)
  then obtain msg where "e = Exception msg"
    using assms address_error by (auto simp: makeAddressFromSecpKey_def rbind_Err_iff require_def split: option.splits)
  then show ?thesis using Inl by (simp add: catch_exception_def)
qed (simp add: catch_exception_def CHECK_def)

text \<open>What a node signs, its peers accept.\<close>

lemma signed_dump_checked:
  assumes "ecdsa_correct cr ko" and "PrivateKey_new cr ko key address = Ok pk" and "pk_isSecp pk"
    and "ko_toLower ko address = address" and "signed_dump cr ko pk dump = Ok r" and "length (r @ rest) < 2 ^ 64"
  shows "\<exists>sign. PrivateKey_sign cr ko pk dump = Ok sign \<and> checkSignatureBlock cr ko (r @ rest) =
    Ok \<lparr>sr_block = dump, sr_sign = sign, sr_pubkey = pk_pubk pk, sr_address = address\<rparr>"
proof -
  obtain sign where sign: "PrivateKey_sign cr ko pk dump = Ok sign" and r: "r = serializeString dump @ serializeString sign @
      serializeString (pk_pubk pk) @ serializeString (pk_address pk)"
    by (rule signed_dump_bytes [OF assms(5)])
  have a: "pk_address pk = address" "get_address cr (pk_pubk pk) = Ok address"
    using PrivateKey_new_secp [OF assms(2,3)] assms(4) by auto
  have "checkSignatureBlock cr ko (r @ rest) = Ok \<lparr>sr_block = dump, sr_sign = sign, sr_pubkey = pk_pubk pk, sr_address = address\<rparr>"
    using checkSignatureBlock_fields [of dump sign "pk_pubk pk" address rest cr ko] assms(6)
      sign_verifies [OF assms(1-3) sign] by (simp add: r a catch_address_check [OF refl] Let_def)
  then show ?thesis using sign by blast
qed

section \<open>Properties\<close>

definition sample_crypto :: crypto where
  "sample_crypto = \<lparr>crypto_isInitialized = True, sha256 = (\<lambda>s. take 4 (s @ ''0000'')), ripemd160 = (\<lambda>s. take 2 (s @ ''00'')),
     read_public_key = (\<lambda>_. True), read_signature = (\<lambda>_. True), ecdsa_verify = (\<lambda>h sign pub. sign = h)\<rparr>"

definition sample_keyOps :: keyOps where
  "sample_keyOps = \<lparr>secp_pubkey_create = (\<lambda>_. Some (replicate 65 (CHR ''k''))), secp_pubkey_parse = (\<lambda>p. Some p),
     secp_ecdsa_sign = (\<lambda>h _. Some h), crypto_generate_public = (\<lambda>_. []), crypto_generate_address = (\<lambda>_. []),
     crypto_sign_text = (\<lambda>_ _. []), ko_toHex = (\<lambda>s. s), ko_fromHex = (\<lambda>s. s),
     ko_toLower = map (\<lambda>c. if c = CHR ''X'' then CHR ''x'' else c)\<rparr>"

lemmas sample_defs = sample_crypto_def sample_keyOps_def

lemma sample_address: "get_address sample_crypto (replicate 65 (CHR ''k'')) = Ok ''0x00046b00046b30''"
  by code_simp

lemma sample_key:
  "ko_toLower sample_keyOps address = ''0x00046b00046b30'' \<Longrightarrow>
   PrivateKey_new sample_crypto sample_keyOps (replicate 39 (CHR ''s'')) address =
     Ok \<lparr>pk_privateKey = replicate 39 (CHR ''s''), pk_pubk = replicate 65 (CHR ''k''), pk_address = address, pk_isSecp = True\<rparr>"
  using sample_address
  by (simp add: PrivateKey_new_def secret_bytes_def require_def catch_exception_def) (simp add: sample_keyOps_def)

lemma sample_ecdsa: "ecdsa_correct sample_crypto sample_keyOps"
  by (simp add: ecdsa_correct_def sample_defs)

lemma sample_dump:
  "signed_dump sample_crypto sample_keyOps \<lparr>pk_privateKey = replicate 39 (CHR ''s''), pk_pubk = pub, pk_address = a, pk_isSecp = True\<rparr>
     ''block'' = Ok (serializeString ''block'' @ serializeString ''bloc'' @ serializeString pub @ serializeString a)"
  by (simp add: signed_dump_def makeBlockSign_def makeFirstPartBlockSign_def PrivateKey_sign_def PrivateKey_sign_secp_def
      secret_bytes_def require_def sample_defs serialize_alias serializeStringBigEndian_def)

lemma signed_dump_checked_example:
  "\<exists>sign. checkSignatureBlock sample_crypto sample_keyOps (serializeString ''block'' @ serializeString ''bloc'' @
     serializeString (replicate 65 (CHR ''k'')) @ serializeString ''0x00046b00046b30'' @ ''rest'') =
    Ok \<lparr>sr_block = ''block'', sr_sign = sign, sr_pubkey = replicate 65 (CHR ''k''), sr_address = ''0x00046b00046b30''\<rparr>"
proof -
  have low: "ko_toLower sample_keyOps ''0x00046b00046b30'' = ''0x00046b00046b30''" by (simp add: sample_keyOps_def)
  show ?thesis
    using signed_dump_checked [OF sample_ecdsa sample_key [OF low] _ low sample_dump, of "''rest''"] by simp blast
qed



end
