(* ===== verification/Modules.thy ===== *)
theory Modules
  imports Prelude
begin

unbundle bit_operations_syntax

text \<open>
  \<^verbatim>\<open>src/src/Modules.cpp\<close>: which parts of the node are switched on, a \<open>std::bitset<8>\<close>. Its text form, most
  significant bit first, is kept in the database.
\<close>

type_synonym modules = u8

definition MODULE_BLOCK :: nat where "MODULE_BLOCK = 0"
definition MODULE_BLOCK_RAW :: nat where "MODULE_BLOCK_RAW = 4"
definition MODULE_USERS :: nat where "MODULE_USERS = 6"
definition MODULE_NODE_TEST :: nat where "MODULE_NODE_TEST = 7"

definition MODULE_BLOCK_STR :: string where "MODULE_BLOCK_STR = ''block''"
definition MODULE_BLOCK_RAW_STR :: string where "MODULE_BLOCK_RAW_STR = ''block_raw''"
definition MODULE_USERS_STR :: string where "MODULE_USERS_STR = ''users''"
definition MODULE_NODE_TEST_STR :: string where "MODULE_NODE_TEST_STR = ''node_tests''"

lemmas module_bits = MODULE_BLOCK_def MODULE_BLOCK_RAW_def MODULE_USERS_def MODULE_NODE_TEST_def

lemmas module_names = MODULE_BLOCK_STR_def MODULE_BLOCK_RAW_STR_def MODULE_USERS_STR_def MODULE_NODE_TEST_STR_def

definition module_on :: "modules \<Rightarrow> nat \<Rightarrow> bool" where
  "module_on m i = bit m i"

text \<open>The names are read in the order of the set; the bits set before a wrong name stay set.\<close>

fun parseModules_loop :: "string list \<Rightarrow> modules \<Rightarrow> modules \<times> unit res" where
  "parseModules_loop [] m = (m, Ok ())"
| "parseModules_loop (str # strs) m =
     (if str = MODULE_BLOCK_STR then parseModules_loop strs (set_bit MODULE_BLOCK m)
      else if str = MODULE_BLOCK_RAW_STR then parseModules_loop strs (set_bit MODULE_BLOCK_RAW m)
      else if str = MODULE_USERS_STR then parseModules_loop strs (set_bit MODULE_USERS m)
      else if str = MODULE_NODE_TEST_STR then parseModules_loop strs (set_bit MODULE_NODE_TEST m)
      else (m, Err (Exception (''Incorrect module '' @ str))))"

definition parseModules :: "string fset \<Rightarrow> modules \<times> unit res" where
  "parseModules modulesStrs = parseModules_loop (sorted_list_of_fset modulesStrs) 0"

definition modules_to_string :: "modules \<Rightarrow> string" where
  "modules_to_string m = map (\<lambda>i. if bit m i then CHR ''1'' else CHR ''0'') (rev [0..<8])"

text \<open>The constructor of the bitset from a string reads at most eight characters.\<close>

definition modules_of_string :: "string \<Rightarrow> modules res" where
  "modules_of_string s =
     (if list_all (\<lambda>c. c = CHR ''0'' \<or> c = CHR ''1'') (take 8 s) then
        Ok (foldl (\<lambda>m c. push_bit 1 m OR (if c = CHR ''1'' then 1 else 0)) 0 (take 8 s))
      else Err (StdException ''invalid_argument''))"

lemma foldl_bits:
  "foldl (\<lambda>m c. push_bit 1 m OR (if c = CHR ''1'' then 1 else 0)) acc
     (map (\<lambda>i. if bit m i then CHR ''1'' else CHR ''0'') (rev [0..<n])) = push_bit n acc OR take_bit n (m :: modules)"
proof (induction n arbitrary: acc)
  case (Suc n)
  let ?b = "if bit m n then 1 else 0 :: modules"
  have "push_bit n (push_bit 1 acc OR ?b) OR take_bit n m = push_bit (Suc n) acc OR take_bit (Suc n) m"
    by (rule bit_word_eqI) (auto simp: bit_simps less_Suc_eq)
  then show ?case using Suc.IH [of "push_bit 1 acc OR ?b"] by (cases "bit m n") simp_all
qed simp

lemma modules_roundtrip: "modules_of_string (modules_to_string m) = Ok m"
proof -
  have "take_bit 8 m = m" by (rule bit_word_eqI) (simp add: bit_simps)
  then have "foldl (\<lambda>m c. push_bit 1 m OR (if c = CHR ''1'' then 1 else 0)) 0 (modules_to_string m) = m"
    unfolding modules_to_string_def foldl_bits by simp
  then show ?thesis by (auto simp: modules_of_string_def modules_to_string_def list_all_iff)
qed

end
