(* ===== verification/Sync.thy ===== *)
theory Sync
  imports BlockChain LevelDb Cache BlockchainRead PrivateKey Modules
begin

text \<open>
  \<^verbatim>\<open>src/src/SyncImpl.cpp\<close>: the synchronisation thread. A node is its database, the chain in memory, the disk
  and what was handed to the workers so far. A call that changes the node and then throws returns the changed
  node beside the error. The set of users is the set of the binary forms of their addresses. The options of
  the node are a record.
\<close>

definition VERSION_DB_value :: string where "VERSION_DB_value = ''v3.5''"

record syncOptions =
  so_modules :: modules
  so_isSaveBlockToFiles :: bool
  so_isValidate :: bool
  so_fromHex :: "string \<Rightarrow> string"

record 's node =
  nd_db :: 's
  nd_chain :: blockChain
  nd_disk :: disk
  nd_sent :: "blockInfo list"

text \<open>Running on after a step that may have failed.\<close>

definition sbind :: "'s \<times> 'a res \<Rightarrow> ('a \<Rightarrow> 's \<Rightarrow> 's \<times> 'b res) \<Rightarrow> 's \<times> 'b res" where
  "sbind m f = (case m of (s, Inl e) \<Rightarrow> (s, Err e) | (s, Inr x) \<Rightarrow> f x s)"

section \<open>Users\<close>

definition addUsers :: "modules \<Rightarrow> string fset \<Rightarrow> string fset \<Rightarrow> string fset res" where
  "addUsers modules users addresses =
     rbind (CHECK (module_on modules MODULE_USERS) ''saveOnlyUsers not set'') (\<lambda>_. Ok (users |\<union>| addresses))"

text \<open>\<open>std::set::find\<close> compares, which throws on an address that is not set, unless the set is empty.\<close>

definition users_find :: "string fset \<Rightarrow> address \<Rightarrow> bool res" where
  "users_find users a =
     (if users = {||} then Ok False
      else rbind (CHECK (isSet a) ''Address not set'') (\<lambda>_. Ok (addr_bytes a |\<in>| users)))"

definition isSaveToBd_of :: "modules \<Rightarrow> string fset \<Rightarrow> transactionInfo \<Rightarrow> bool res" where
  "isSaveToBd_of modules users tx =
     (if \<not> module_on modules MODULE_USERS then Ok True
      else
        rbind (users_find users (fromAddress tx)) (\<lambda>isFrom.
        if isFrom then Ok True
        else
          rbind (users_find users (toAddress tx)) (\<lambda>isTo.
          Ok (isTo \<or> isSignBlockTx tx))))"

fun filterTransactions_loop :: "modules \<Rightarrow> string fset \<Rightarrow> transactionInfo list \<Rightarrow> transactionInfo list res" where
  "filterTransactions_loop modules users [] = Ok []"
| "filterTransactions_loop modules users (tx # txs) =
     rbind (isSaveToBd_of modules users tx) (\<lambda>b.
     rbind (filterTransactions_loop modules users txs) (\<lambda>txs.
     Ok (tx\<lparr>isSaveToBd := b\<rparr> # txs)))"

definition filterTransactionsToSave :: "modules \<Rightarrow> string fset \<Rightarrow> blockInfo \<Rightarrow> blockInfo res" where
  "filterTransactionsToSave modules users bi =
     rbind (filterTransactions_loop modules users (bi_txs bi)) (\<lambda>txs. Ok (bi\<lparr>bi_txs := txs\<rparr>))"

section \<open>Writing\<close>

fun saveUserTransactions_loop :: "string \<Rightarrow> transactionInfo list \<Rightarrow> disk \<Rightarrow> disk \<times> transactionInfo list" where
  "saveUserTransactions_loop fileName [] d = (d, [])"
| "saveUserTransactions_loop fileName (tx # txs) d =
     (let (d, tx) =
            (if isSaveToBd tx then
               let (d, filePos) = saveTransactionToFile fileName (allRawTx tx) d
               in (d, tx\<lparr>ti_filePos := \<lparr>fp_pos = filePos, fp_fileName = fileName\<rparr>\<rparr>)
             else (d, tx));
          (d, txs) = saveUserTransactions_loop fileName txs d
      in (d, tx\<lparr>allRawTx := []\<rparr> # txs))"

definition saveTransactions :: "modules \<Rightarrow> blockInfo \<Rightarrow> string \<Rightarrow> bool \<Rightarrow> disk \<Rightarrow> disk \<times> blockInfo res" where
  "saveTransactions modules bi binaryDump saveBlockToFile d =
     (if \<not> saveBlockToFile then (d, Ok bi)
      else
        let fileName = fp_fileName (bh_filePos (bi_header bi))
        in if fileName = [] then (d, Err (Exception ''File name not set''))
           else if \<not> module_on modules MODULE_USERS then
             let (d, currPos) = saveBlockToFileBinary fileName binaryDump d
             in (d, Ok (bi\<lparr>bi_header := (bi_header bi)\<lparr>bh_filePos := (bh_filePos (bi_header bi))\<lparr>fp_pos := currPos\<rparr>\<rparr>,
                  bi_txs := map (\<lambda>tx. tx\<lparr>ti_filePos := \<lparr>fp_pos = fp_pos (ti_filePos tx) + currPos, fp_fileName = fileName\<rparr>\<rparr>)
                              (bi_txs bi)\<rparr>))
           else
             (case openFile_out fileName d of
                Inl e \<Rightarrow> (d, Err e)
              | Inr d \<Rightarrow>
                  let (d, txs) = saveUserTransactions_loop fileName (bi_txs bi) d
                  in (d, Ok (bi\<lparr>bi_txs := txs\<rparr>))))"

text \<open>The progress record names the block; of two blocks with the same parent, the one with the smaller hash.\<close>

definition new_metadata :: "blocksMetadata \<Rightarrow> blockHeader \<Rightarrow> blocksMetadata" where
  "new_metadata metadata bh =
     BlocksMetadata_default\<lparr>bm_prevBlockHash := bh_prevHash bh,
       bm_blockHash := (if bm_prevBlockHash metadata = bh_prevHash bh \<and> bm_blockHash metadata < bh_hash bh
                        then bm_blockHash metadata else bh_hash bh)\<rparr>"

definition block_batch :: "modules \<Rightarrow> blocksMetadata \<Rightarrow> blockHeader \<Rightarrow> batch res" where
  "block_batch modules metadata bh =
     rbind (if module_on modules MODULE_BLOCK then
              rbind (BlockHeader_serialize bh) (\<lambda>v. addBlockHeader (bh_hash bh) v (Batch_new False))
            else Ok (Batch_new False)) (\<lambda>batch.
     rbind (BlocksMetadata_serialize (new_metadata metadata bh)) (\<lambda>meta.
     let fi = \<lparr>fi_filePos = \<lparr>fp_pos = bh_endBlockPos bh, fp_fileName = fp_fileName (bh_filePos bh)\<rparr>\<rparr>
     in addFileMetadata (CroppedFileName (fp_fileName (bh_filePos bh))) (FileInfo_serialize fi)
          (addBlockMetadata meta batch)))"

definition saveBlockToLeveldb :: "modules \<Rightarrow> 's leveldb_ops \<Rightarrow> blockHeader \<Rightarrow> 's \<Rightarrow> 's \<times> unit res" where
  "saveBlockToLeveldb modules ops bh db =
     (case rbind (findBlockMetadata ops db) BlocksMetadata_deserialize of
        Inl e \<Rightarrow> (db, Err e)
      | Inr metadata \<Rightarrow>
          (case block_batch modules metadata bh of
             Inl e \<Rightarrow> (db, Err e)
           | Inr batch \<Rightarrow> addBatch ops batch db))"

section \<open>Start\<close>

definition check_modules :: "modules \<Rightarrow> 's leveldb_ops \<Rightarrow> 's \<Rightarrow> 's \<times> unit res" where
  "check_modules modules ops db =
     (case findModules ops db of
        Inl e \<Rightarrow> (db, Err e)
      | Inr modulesStr \<Rightarrow>
          if modulesStr \<noteq> [] then
            (db, rbind (modules_of_string modulesStr) (\<lambda>oldModules.
                 CHECK (modules = oldModules) ''Modules changed in this database''))
          else saveModules ops (modules_to_string modules) db)"

definition check_version :: "'s leveldb_ops \<Rightarrow> 's \<Rightarrow> 's \<times> unit res" where
  "check_version ops db =
     (case findVersionDb ops db of
        Inl e \<Rightarrow> (db, Err e)
      | Inr versionDb \<Rightarrow>
          if versionDb \<noteq> [] then (db, CHECK (versionDb = VERSION_DB_value) ''Version database not matches'')
          else saveVersionDb ops VERSION_DB_value db)"

fun load_blocks :: "string list \<Rightarrow> blockChain \<Rightarrow> blockChain res" where
  "load_blocks [] bc = Ok bc"
| "load_blocks (blockRaw # blocksRaw) bc =
     rbind (BlockHeader_deserialize blockRaw) (\<lambda>bh.
     rbind (addWithoutCalc bc bh) (\<lambda>(bc, exist).
     load_blocks blocksRaw bc))"

definition load_chain :: "'s leveldb_ops \<Rightarrow> 's \<Rightarrow> blocksMetadata \<Rightarrow> blockChain \<Rightarrow> blockChain res" where
  "load_chain ops db metadata bc =
     rbind (load_blocks (sorted_list_of_set (getAllBlocks ops db)) (BlockChain_clear bc)) (\<lambda>bc.
     if bm_blockHash metadata \<noteq> [] then
       (case calcBlockchain bc (bm_blockHash metadata) of (bc, Inl e) \<Rightarrow> Err e | (bc, Inr total_blocks) \<Rightarrow> Ok bc)
     else Ok bc)"

definition sync_start :: "modules \<Rightarrow> 's leveldb_ops \<Rightarrow> blockChain \<Rightarrow> 's \<Rightarrow> 's \<times> blockChain res" where
  "sync_start modules ops bc db =
     (if \<not> module_on modules MODULE_BLOCK then (db, Err (Exception (''module '' @ MODULE_BLOCK_STR @ '' not set'')))
      else
        sbind (check_modules modules ops db) (\<lambda>_ db.
        sbind (check_version ops db) (\<lambda>_ db.
        (db, rbind (findBlockMetadata ops db) (\<lambda>blockMetadata.
             rbind (BlocksMetadata_deserialize blockMetadata) (\<lambda>metadata.
             load_chain ops db metadata bc))))))"

section \<open>The main loop\<close>

text \<open>One block goes through the node.\<close>

definition accept_block ::
    "syncOptions \<Rightarrow> 's leveldb_ops \<Rightarrow> string fset \<Rightarrow> blockInfo \<Rightarrow> string \<Rightarrow> 's node \<Rightarrow> 's node \<times> unit res" where
  "accept_block opt ops users bi dump nd =
     (case filterTransactionsToSave (so_modules opt) users bi of
        Inl e \<Rightarrow> (nd, Err e)
      | Inr bi \<Rightarrow>
          (case saveTransactions (so_modules opt) bi dump (so_isSaveBlockToFiles opt) (nd_disk nd) of
             (d, Inl e) \<Rightarrow> (nd\<lparr>nd_disk := d\<rparr>, Err e)
           | (d, Inr bi) \<Rightarrow>
               (case addBlock (nd_chain nd) (bi_header bi) of
                  (bc, Inl e) \<Rightarrow> (nd\<lparr>nd_disk := d, nd_chain := bc\<rparr>, Err e)
                | (bc, Inr currentBlockNum) \<Rightarrow>
                    let nd = nd\<lparr>nd_disk := d, nd_chain := bc\<rparr>
                    in if currentBlockNum = 0 then (nd, Err (Exception ''Incorrect block number''))
                       else
                         let bi = bi\<lparr>bi_header := (bi_header bi)\<lparr>bh_blockNumber := Some currentBlockNum\<rparr>,
                                     bi_txs := map (\<lambda>tx. tx\<lparr>ti_blockNumber := currentBlockNum\<rparr>) (bi_txs bi)\<rparr>;
                             nd = nd\<lparr>nd_sent := nd_sent nd @ [bi]\<rparr>;
                             (db, r) = saveBlockToLeveldb (so_modules opt) ops (bi_header bi) (nd_db nd)
                         in (nd\<lparr>nd_db := db\<rparr>, r))))"

text \<open>With validation, a block waits until the next one confirms its hash.\<close>

definition confirms :: "syncOptions \<Rightarrow> blockInfo \<Rightarrow> blockInfo \<Rightarrow> unit res" where
  "confirms opt prevBi nextBi =
     CHECK (list_all (\<lambda>tx. isSignBlockTx tx \<longrightarrow> so_fromHex opt (bh_hash (bi_header prevBi)) = ti_data tx) (bi_txs nextBi))
       ''Block signatures not confirmed''"

definition process_next ::
    "syncOptions \<Rightarrow> 's leveldb_ops \<Rightarrow> string fset \<Rightarrow> (blockInfo \<times> string) option \<Rightarrow> blockInfo \<times> string \<Rightarrow> 's node \<Rightarrow>
     's node \<times> (blockInfo \<times> string) option res" where
  "process_next opt ops users prev nextb nd =
     (if so_isValidate opt then
        (case prev of
           None \<Rightarrow> (nd, Ok (Some nextb))
         | Some (bi, dump) \<Rightarrow>
             (case confirms opt bi (fst nextb) of
                Inl e \<Rightarrow> (nd, Err e)
              | Inr _ \<Rightarrow> sbind (accept_block opt ops users bi dump nd) (\<lambda>_ nd. (nd, Ok (Some nextb)))))
      else sbind (accept_block opt ops users (fst nextb) (snd nextb) nd) (\<lambda>_ nd. (nd, Ok (Some nextb))))"

text \<open>The inner loop over the blocks that the source delivers, until one fails.\<close>

fun process_blocks ::
    "syncOptions \<Rightarrow> 's leveldb_ops \<Rightarrow> string fset \<Rightarrow> (blockInfo \<times> string) option \<Rightarrow> (blockInfo \<times> string) list \<Rightarrow> 's node \<Rightarrow>
     's node \<times> unit res" where
  "process_blocks opt ops users prev [] nd = (nd, Ok ())"
| "process_blocks opt ops users prev (b # bs) nd =
     sbind (process_next opt ops users prev b nd) (\<lambda>prev nd. process_blocks opt ops users prev bs nd)"

section \<open>Serving a block\<close>

record dumpEnv =
  de_crypto :: crypto
  de_keyOps :: keyOps
  de_key :: "privateKey option"

text \<open>The dump of a block: from the cache or from its file, the part that was asked for; a signed dump has the
  size in front and the signature behind.\<close>

definition unsigned_part ::
    "string option \<Rightarrow> disk \<Rightarrow> blockHeader \<Rightarrow> size_t \<Rightarrow> size_t \<Rightarrow> bool \<Rightarrow> (string \<times> size_t \<times> string) res" where
  "unsigned_part cached d bh fromByte toByte isSign =
     (case cached of
        None \<Rightarrow>
          rbind (CHECK (fp_fileName (bh_filePos bh) \<noteq> []) ''Empty file name in block header'') (\<lambda>_.
          rbind (openFile (fp_fileName (bh_filePos bh)) d) (\<lambda>file.
          rbind (getBlockDump file (fp_pos (bh_filePos bh)) fromByte toByte) (\<lambda>(realSizeBlock, res).
          if isSign \<and> realSizeBlock \<le> toByte then
            (if fromByte = 0 then Ok (res, realSizeBlock, res)
             else rbind (getBlockDump file (fp_pos (bh_filePos bh)) 0 toByte) (\<lambda>(size_block, fullBlockDump).
                  Ok (res, realSizeBlock, fullBlockDump)))
          else Ok (res, realSizeBlock, []))))
      | Some element \<Rightarrow>
          rbind (substr element fromByte (toByte - fromByte)) (\<lambda>res.
          Ok (res, size_of element, if isSign \<and> size_of element \<le> toByte then element else [])))"

definition Sync_getBlockDump ::
    "modules \<Rightarrow> dumpEnv \<Rightarrow> string cache \<Rightarrow> disk \<Rightarrow> blockHeader \<Rightarrow> size_t \<Rightarrow> size_t \<Rightarrow> bool \<Rightarrow> bool \<Rightarrow> string res" where
  "Sync_getBlockDump modules env blockDumpCache d bh fromByte toByte isHex isSign =
     rbind (CHECK (module_on modules MODULE_BLOCK \<and> module_on modules MODULE_BLOCK_RAW \<and> \<not> module_on modules MODULE_USERS)
              (''modules '' @ MODULE_BLOCK_STR @ '' '' @ MODULE_BLOCK_RAW_STR @ '' not set'')) (\<lambda>_.
     rbind (unsigned_part (Cache_getValue (bh_hash bh) blockDumpCache) d bh fromByte toByte isSign)
       (\<lambda>(res, realSizeBlock, fullBlockDump).
     rbind (if isSign then
              (case de_key env of
                 None \<Rightarrow> Err (Exception ''Private key not set'')
               | Some key \<Rightarrow>
                   let res = (if fromByte = 0 then makeFirstPartBlockSign realSizeBlock @ res else res)
                   in if realSizeBlock \<le> toByte then
                        rbind (makeBlockSign (de_crypto env) (de_keyOps env) fullBlockDump key) (\<lambda>sign. Ok (res @ sign))
                      else Ok res)
            else Ok res) (\<lambda>res.
     Ok (if isHex then ko_toHex (de_keyOps env) res else res))))"

definition verifyTechnicalAddressSign :: "crypto \<Rightarrow> string \<Rightarrow> string \<Rightarrow> string \<Rightarrow> string \<Rightarrow> bool res" where
  "verifyTechnicalAddressSign cr technicalAddress binary signature pubkey =
     (if \<not> verifySignature cr binary signature pubkey then Ok False
      else rbind (getAddress_of cr pubkey) (\<lambda>a. Ok (technicalAddress = a)))"

section \<open>What an accepted block leaves behind\<close>

lemma sbind_Ok_iff: "sbind m f = (s', Inr y) \<longleftrightarrow> (\<exists>s x. m = (s, Inr x) \<and> f x s = (s', Inr y))"
  by (auto simp: sbind_def split: prod.splits sum.splits)

text \<open>Filtering and writing touch the transactions and the file position of a block, not its place in the chain.\<close>

definition same_place :: "blockHeader \<Rightarrow> blockHeader \<Rightarrow> bool" where
  "same_place b b' \<longleftrightarrow> bh_hash b' = bh_hash b \<and> bh_prevHash b' = bh_prevHash b \<and> bh_blockNumber b' = bh_blockNumber b"

lemma saveTransactions_place:
  "saveTransactions modules bi dump toFile d = (d', Ok bi') \<Longrightarrow> same_place (bi_header bi) (bi_header bi')"
  by (auto simp: saveTransactions_def same_place_def Let_def split: if_splits prod.splits sum.splits)

lemma accept_block_OkD:
  assumes "accept_block opt ops users bi dump nd = (nd', Ok ())"
  obtains b n where "same_place (bi_header bi) b" and "addBlock (nd_chain nd) b = (nd_chain nd', Ok n)"
    and "saveBlockToLeveldb (so_modules opt) ops (b\<lparr>bh_blockNumber := Some n\<rparr>) (nd_db nd) = (nd_db nd', Ok ())"
proof -
  obtain bi1 where f: "filterTransactionsToSave (so_modules opt) users bi = Ok bi1"
    using assms by (auto simp: accept_block_def split: sum.splits)
  then have h: "bi_header bi1 = bi_header bi" by (auto simp: filterTransactionsToSave_def rbind_Ok_iff)
  obtain d bi2 where s: "saveTransactions (so_modules opt) bi1 dump (so_isSaveBlockToFiles opt) (nd_disk nd) = (d, Ok bi2)"
    using assms f by (auto simp: accept_block_def split: sum.splits prod.splits)
  obtain bc n where a: "addBlock (nd_chain nd) (bi_header bi2) = (bc, Ok n)"
    using assms f s by (auto simp: accept_block_def split: sum.splits prod.splits)
  have "nd_chain nd' = bc \<and>
      saveBlockToLeveldb (so_modules opt) ops ((bi_header bi2)\<lparr>bh_blockNumber := Some n\<rparr>) (nd_db nd) = (nd_db nd', Ok ())"
    using assms f s a by (auto simp: accept_block_def Let_def split: if_splits prod.splits)
  then show ?thesis using that [of "bi_header bi2" n] saveTransactions_place [OF s] a h by simp
qed

text \<open>The keys of the database are different.\<close>

lemma key_distinct [simp]:
  "makeKeyPrefix h BLOCK_PREFIX \<noteq> makeKeyPrefix f FILE_PREFIX"
  "makeKeyPrefix h BLOCK_PREFIX \<noteq> KEY_BLOCK_METADATA" "KEY_BLOCK_METADATA \<noteq> makeKeyPrefix h BLOCK_PREFIX"
  "makeKeyPrefix f FILE_PREFIX \<noteq> KEY_BLOCK_METADATA" "KEY_BLOCK_METADATA \<noteq> makeKeyPrefix f FILE_PREFIX"
  "makeKeyPrefix f FILE_PREFIX \<noteq> makeKeyPrefix h BLOCK_PREFIX"
  "makeKeyPrefix h p = makeKeyPrefix h' p \<longleftrightarrow> h = h'"
  by (simp_all add: makeKeyPrefix_def db_keys)

lemma setting_keys [simp]:
  "MODULES_KEY \<noteq> makeKeyPrefix h BLOCK_PREFIX" "MODULES_KEY \<noteq> makeKeyPrefix h FILE_PREFIX" "MODULES_KEY \<noteq> KEY_BLOCK_METADATA"
  "VERSION_DB \<noteq> makeKeyPrefix h BLOCK_PREFIX" "VERSION_DB \<noteq> makeKeyPrefix h FILE_PREFIX" "VERSION_DB \<noteq> KEY_BLOCK_METADATA"
  "MODULES_KEY \<noteq> VERSION_DB" "VERSION_DB \<noteq> MODULES_KEY"
  "makeKeyPrefix h BLOCK_PREFIX \<noteq> MODULES_KEY" "makeKeyPrefix h BLOCK_PREFIX \<noteq> VERSION_DB"
  "KEY_BLOCK_METADATA \<noteq> MODULES_KEY" "KEY_BLOCK_METADATA \<noteq> VERSION_DB"
  "makeKeyPrefix h FILE_PREFIX \<noteq> MODULES_KEY" "makeKeyPrefix h FILE_PREFIX \<noteq> VERSION_DB"
  by (simp_all add: makeKeyPrefix_def db_keys)

lemma saveBlockToLeveldb_OkD:
  assumes spec: "leveldb_spec ops view" and on: "module_on modules MODULE_BLOCK"
    and ok: "saveBlockToLeveldb modules ops bh db = (db', Ok ())"
  obtains metadata e m f v where "rbind (findBlockMetadata ops db) BlocksMetadata_deserialize = Ok metadata"
    and "BlockHeader_serialize bh = Ok e" and "BlocksMetadata_serialize (new_metadata metadata bh) = Ok m"
    and "view db' = fmupd (makeKeyPrefix f FILE_PREFIX) v (fmupd KEY_BLOCK_METADATA m
      (fmupd (makeKeyPrefix (bh_hash bh) BLOCK_PREFIX) e (view db)))"
proof -
  obtain metadata batch where md: "rbind (findBlockMetadata ops db) BlocksMetadata_deserialize = Ok metadata"
    and batch: "block_batch modules metadata bh = Ok batch" and w: "addBatch ops batch db = (db', Ok ())"
    using ok by (auto simp: saveBlockToLeveldb_def split: sum.splits)
  obtain e m f v where "BlockHeader_serialize bh = Ok e" "BlocksMetadata_serialize (new_metadata metadata bh) = Ok m"
    and "batch_ops batch = [Put (makeKeyPrefix (bh_hash bh) BLOCK_PREFIX) e, Put KEY_BLOCK_METADATA m,
      Put (makeKeyPrefix f FILE_PREFIX) v]"
    using batch on
    by (auto simp: block_batch_def rbind_Ok_iff addBlockHeader_def makeBlockKey_def addFileMetadata_def makeFileKey_def
        addBlockMetadata_def Batch_new_def Let_def)
  moreover have "view db' = fold apply_op (batch_ops batch) (view db)" by (rule addBatch_ok [OF spec w])
  ultimately show ?thesis using that [OF md, of e m f v] by (simp add: apply_op_def)
qed

section \<open>The database mirrors the chain\<close>

text \<open>\<open>mirrors\<close>: the chain in memory is the branch \<open>hs\<close> behind the genesis block, the database holds exactly its
  headers, the progress record names the last of them, and the settings of the node are there.\<close>

definition settings_saved :: "modules \<Rightarrow> (string, string) fmap \<Rightarrow> bool" where
  "settings_saved modules m \<longleftrightarrow>
     fmlookup m MODULES_KEY = Some (modules_to_string modules) \<and> fmlookup m VERSION_DB = Some VERSION_DB_value"

definition progress_of :: "blockHeader list \<Rightarrow> blocksMetadata" where
  "progress_of hs =
     (if hs = [] then BlocksMetadata_default
      else \<lparr>bm_blockHash = bh_hash (last hs), bm_prevBlockHash = bh_prevHash (last hs), bm_blockNumber = 0\<rparr>)"

definition mirrors :: "('s \<Rightarrow> (string, string) fmap) \<Rightarrow> modules \<Rightarrow> blockHeader list \<Rightarrow> blockChain \<Rightarrow> 's \<Rightarrow> bool" where
  "mirrors view modules hs bc db \<longleftrightarrow>
     settled bc \<and> hashes bc = GENESIS_BLOCK_HASH # map bh_hash hs \<and> chained GENESIS_BLOCK_HASH hs \<and>
     (\<forall>h v. fmlookup (view db) (makeKeyPrefix h BLOCK_PREFIX) = Some v \<longleftrightarrow>
        (\<exists>b\<in>set hs. bh_hash b = h \<and> BlockHeader_serialize b = Ok v)) \<and>
     (\<forall>b\<in>set hs. \<exists>v. BlockHeader_serialize b = Ok v) \<and>
     (if hs = [] then fmlookup (view db) KEY_BLOCK_METADATA = None
      else \<exists>m. fmlookup (view db) KEY_BLOCK_METADATA = Some m \<and> BlocksMetadata_serialize (progress_of hs) = Ok m) \<and>
     settings_saved modules (view db)"

definition hash_small :: "blockHeader \<Rightarrow> bool" where
  "hash_small b \<longleftrightarrow> length (bh_hash b) + length (bh_prevHash b) < 2 ^ 63"

lemma metadata_small:
  "BlocksMetadata_serialize bm = Ok m \<Longrightarrow> length (bm_blockHash bm) + length (bm_prevBlockHash bm) < 2 ^ 63 \<Longrightarrow>
   length m < 2 ^ 64"
  by (auto simp: BlocksMetadata_serialize_def rbind_Ok_iff)

lemma mirrors_progress:
  assumes spec: "leveldb_spec ops view" and m: "mirrors view modules hs bc db" and small: "list_all hash_small hs"
  shows "rbind (findBlockMetadata ops db) BlocksMetadata_deserialize = Ok (progress_of hs)"
proof (cases "hs = []")
  case True
  then show ?thesis
    using m by (simp add: mirrors_def findBlockMetadata_def findOneValueWithoutCheck_eq [OF spec] BlocksMetadata_deserialize_def
        progress_of_def)
next
  case False
  then obtain e where e: "fmlookup (view db) KEY_BLOCK_METADATA = Some e" "BlocksMetadata_serialize (progress_of hs) = Ok e"
    using m by (auto simp: mirrors_def)
  have "hash_small (last hs)" using small False by (simp add: list_all_iff)
  then have "length e < 2 ^ 64" using metadata_small [OF e(2)] False by (simp add: hash_small_def progress_of_def)
  then show ?thesis
    using e BlocksMetadata_deserialize_serialize [OF e(2)]
    by (simp add: findBlockMetadata_def findOneValueWithoutCheck_eq [OF spec])
qed

text \<open>The progress record follows the chain: the parent of a new block is never the parent of the block before.\<close>

lemma new_metadata_follows:
  assumes "settled bc" and "hashes bc = GENESIS_BLOCK_HASH # map bh_hash hs" and "chained GENESIS_BLOCK_HASH hs"
    and "bh_prevHash b = last (hashes bc)"
  shows "new_metadata (progress_of hs) b = progress_of (hs @ [b])"
proof (cases hs rule: rev_cases)
  case Nil
  then show ?thesis
    using assms(2,4) genesisBlock_simps(3)
    by (auto simp: new_metadata_def progress_of_def BlocksMetadata_default_def simp del: genesisBlock_simps(3))
next
  case (snoc hs' b')
  have "distinct (GENESIS_BLOCK_HASH # map bh_hash hs)" using assms(1,2) by (simp add: settled_def chain_ok_def)
  moreover have "bh_prevHash b' = last (GENESIS_BLOCK_HASH # map bh_hash hs')"
    using assms(3) by (simp add: snoc chained_snoc)
  ultimately have "bh_prevHash b' \<noteq> bh_hash b'"
    by (cases hs' rule: rev_cases) (auto simp: snoc)
  then show ?thesis
    using assms(2,4) by (simp add: new_metadata_def progress_of_def snoc BlocksMetadata_default_def)
qed

lemma mirrors_accept:
  assumes spec: "leveldb_spec ops view" and on: "module_on (so_modules opt) MODULE_BLOCK"
    and m: "mirrors view (so_modules opt) hs (nd_chain nd) (nd_db nd)" and small: "list_all hash_small hs"
    and bi: "bh_blockNumber (bi_header bi) = None" "hs = [] \<Longrightarrow> bh_prevHash (bi_header bi) = GENESIS_BLOCK_HASH"
    and room: "length hs + 2 < 2 ^ 64" and ok: "accept_block opt ops users bi dump nd = (nd', Ok ())"
  shows "\<exists>b. same_place (bi_header bi) (b\<lparr>bh_blockNumber := None\<rparr>) \<and>
    mirrors view (so_modules opt) (hs @ [b]) (nd_chain nd') (nd_db nd')"
proof -
  let ?bc = "nd_chain nd" and ?bc' = "nd_chain nd'"
  obtain b n where b: "same_place (bi_header bi) b" and add: "addBlock ?bc b = (?bc', Ok n)"
    and save: "saveBlockToLeveldb (so_modules opt) ops (b\<lparr>bh_blockNumber := Some n\<rparr>) (nd_db nd) = (nd_db nd', Ok ())"
    by (rule accept_block_OkD [OF ok])
  have s: "settled ?bc" and h: "hashes ?bc = GENESIS_BLOCK_HASH # map bh_hash hs" and c: "chained GENESIS_BLOCK_HASH hs"
    and st: "settings_saved (so_modules opt) (view (nd_db nd))"
    using m by (simp_all add: mirrors_def)
  have bn: "bh_blockNumber b = None" using b bi(1) by (simp add: same_place_def)
  have spc: "addBlock_spec ?bc b = (?bc', Ok n)" using addBlock_eq_spec [OF s bn] add by simp
  then have bc': "?bc' = push_block ?bc b" and new: "bh_hash b \<noteq> []" "bh_hash b \<notin> set (hashes ?bc)" and acc: "accepts ?bc b"
    by (auto simp: addBlock_spec_def split: if_splits)
  have prev: "bh_prevHash b = last (hashes ?bc)"
    using acc h bi(2) b by (auto simp: accepts_def same_place_def split: if_splits)
  let ?b = "b\<lparr>bh_blockNumber := Some n\<rparr>"
  obtain metadata e me f v where md: "rbind (findBlockMetadata ops (nd_db nd)) BlocksMetadata_deserialize = Ok metadata"
    and e: "BlockHeader_serialize ?b = Ok e" and me: "BlocksMetadata_serialize (new_metadata metadata ?b) = Ok me"
    and db: "view (nd_db nd') = fmupd (makeKeyPrefix f FILE_PREFIX) v (fmupd KEY_BLOCK_METADATA me
      (fmupd (makeKeyPrefix (bh_hash ?b) BLOCK_PREFIX) e (view (nd_db nd))))"
    by (rule saveBlockToLeveldb_OkD [OF spec on save])
  have "metadata = progress_of hs" using md mirrors_progress [OF spec m small] by simp
  then have pr: "new_metadata metadata ?b = progress_of (hs @ [?b])"
    using new_metadata_follows [OF s h c, of ?b] prev by simp
  have "settled ?bc'" unfolding bc' by (rule settled_push_block [OF s new bn]) (use room h in simp)
  moreover have "hashes ?bc' = GENESIS_BLOCK_HASH # map bh_hash (hs @ [?b])" by (simp add: bc' push_block_def h)
  moreover have "chained GENESIS_BLOCK_HASH (hs @ [?b])" using c prev h by (simp add: chained_snoc)
  moreover have fresh: "\<forall>b'\<in>set hs. bh_hash b' \<noteq> bh_hash b" using new(2) h by (metis imageI list.set_intros(2) list.set_map)
  moreover have "fmlookup (view (nd_db nd')) (makeKeyPrefix k BLOCK_PREFIX) = Some w \<longleftrightarrow>
      (\<exists>b\<in>set (hs @ [?b]). bh_hash b = k \<and> BlockHeader_serialize b = Ok w)" for k w
    using m fresh e unfolding db mirrors_def by auto
  moreover have "settings_saved (so_modules opt) (view (nd_db nd'))" using st by (simp add: db settings_saved_def)
  ultimately have "mirrors view (so_modules opt) (hs @ [?b]) ?bc' (nd_db nd')"
    using me pr e m by (simp add: mirrors_def db)
  moreover have "same_place (bi_header bi) (?b\<lparr>bh_blockNumber := None\<rparr>)" using b bn by (simp add: same_place_def)
  ultimately show ?thesis by blast
qed

text \<open>A block as the sources deliver it.\<close>

definition fresh_block :: "blockInfo \<times> string \<Rightarrow> bool" where
  "fresh_block b \<longleftrightarrow> bh_blockNumber (bi_header (fst b)) = None \<and> hash_small (bi_header (fst b))"

lemma hash_small_place: "same_place b (b'\<lparr>bh_blockNumber := None\<rparr>) \<Longrightarrow> hash_small b \<Longrightarrow> hash_small b'"
  by (simp add: hash_small_def same_place_def)

text \<open>The blocks that are still to be accepted.\<close>

definition pending :: "syncOptions \<Rightarrow> (blockInfo \<times> string) option \<Rightarrow> (blockInfo \<times> string) list \<Rightarrow> (blockInfo \<times> string) list" where
  "pending opt prev bs = (if so_isValidate opt then (case prev of None \<Rightarrow> bs | Some b \<Rightarrow> b # bs) else bs)"

lemma mirrors_process:
  assumes spec: "leveldb_spec ops view" and on: "module_on (so_modules opt) MODULE_BLOCK"
    and ok: "process_blocks opt ops users prev bs nd = (nd', Ok ())"
    and m: "mirrors view (so_modules opt) hs (nd_chain nd) (nd_db nd)" and small: "list_all hash_small hs"
    and blocks: "list_all fresh_block (pending opt prev bs)"
    and first: "hs = [] \<Longrightarrow> (pending opt prev bs) \<noteq> [] \<Longrightarrow>
      bh_prevHash (bi_header (fst (hd (pending opt prev bs)))) = GENESIS_BLOCK_HASH"
    and room: "length hs + length bs + 2 < 2 ^ 64"
  shows "\<exists>hs'. mirrors view (so_modules opt) hs' (nd_chain nd') (nd_db nd') \<and> list_all hash_small hs' \<and>
    length hs' \<le> length hs + length bs"
  using ok m small blocks first room
proof (induction bs arbitrary: prev nd hs)
  case Nil
  then show ?case by auto
next
  case (Cons b bs)
  obtain prev1 nd1 where step: "process_next opt ops users prev b nd = (nd1, Ok prev1)"
    and rest: "process_blocks opt ops users prev1 bs nd1 = (nd', Ok ())"
    using Cons.prems(1) by (auto simp: sbind_Ok_iff)
  show ?case
  proof (cases "so_isValidate opt \<and> prev = None")
    case True
    then have "nd1 = nd" "prev1 = Some b" using step by (simp_all add: process_next_def)
    then show ?thesis using Cons.IH [of prev1 nd1 hs] Cons.prems rest True by (auto simp: pending_def)
  next
    case False
    define a where "a = hd (pending opt prev (b # bs))"
    have p: "pending opt prev (b # bs) \<noteq> []" "pending opt (Some b) bs = tl (pending opt prev (b # bs))"
      using False by (auto simp: pending_def split: option.splits)
    have acc: "accept_block opt ops users (fst a) (snd a) nd = (nd1, Ok ())" and p1: "prev1 = Some b"
      using step False by (auto simp: process_next_def a_def pending_def sbind_Ok_iff split: option.splits sum.splits if_splits)
    have fa: "fresh_block a" "list_all fresh_block (pending opt (Some b) bs)"
      using Cons.prems(4) p by (cases "pending opt prev (b # bs)"; simp add: a_def)+
    have "hs = [] \<Longrightarrow> bh_prevHash (bi_header (fst a)) = GENESIS_BLOCK_HASH"
      using Cons.prems(5) p(1) by (simp add: a_def)
    then obtain h where h: "same_place (bi_header (fst a)) (h\<lparr>bh_blockNumber := None\<rparr>)"
      and m1: "mirrors view (so_modules opt) (hs @ [h]) (nd_chain nd1) (nd_db nd1)"
      using mirrors_accept [OF spec on Cons.prems(2,3) _ _ _ acc] fa(1) Cons.prems(6) by (auto simp: fresh_block_def)
    have "hash_small h" using hash_small_place [OF h] fa(1) by (simp add: fresh_block_def)
    then have "\<exists>hs'. mirrors view (so_modules opt) hs' (nd_chain nd') (nd_db nd') \<and> list_all hash_small hs' \<and>
        length hs' \<le> length (hs @ [h]) + length bs"
      using Cons.prems(3,6) fa by (intro Cons.IH [OF rest m1]) (simp_all add: p1)
    then show ?thesis by fastforce
  qed
qed

text \<open>Starting on a database that mirrors a chain restores the chain.\<close>

lemma load_blocks_store_all:
  "list_all2 (\<lambda>raw b. BlockHeader_deserialize raw = Ok b) raws bs \<Longrightarrow> load_blocks raws bc = store_all bs bc"
proof (induction raws bs arbitrary: bc rule: list_all2_induct)
  case Nil
  show ?case by (simp add: store_all_def)
next
  case (Cons raw raws b bs)
  have err: "fold (\<lambda>b r. rbind r (\<lambda>bc. rbind (addWithoutCalc bc b) (\<lambda>(bc, exist). Ok bc))) bs (Err e) = Err e" for bs e
    by (induction bs) simp_all
  show ?case
    using Cons by (cases "addWithoutCalc bc b") (auto simp: store_all_def err split: prod.splits)
qed

definition db_small :: "(string, string) fmap \<Rightarrow> bool" where
  "db_small m \<longleftrightarrow> size (fmdom m) < 2 ^ 64 \<and> fmpred (\<lambda>k v. length v < 2 ^ 64) m"

definition bare :: "blockHeader \<Rightarrow> blockHeader" where
  "bare b = b\<lparr>bh_endBlockPos := 0, bh_blockNumber := None\<rparr>"

lemma bare_simps [simp]: "bh_hash (bare b) = bh_hash b" "bh_prevHash (bare b) = bh_prevHash b" "bh_blockNumber (bare b) = None"
  by (simp_all add: bare_def)

lemma stored_headers:
  assumes spec: "leveldb_spec ops view" and m: "mirrors view modules hs bc db" and small: "db_small (view db)"
  obtains bs where "list_all2 (\<lambda>raw b. BlockHeader_deserialize raw = Ok b) (sorted_list_of_set (getAllBlocks ops db)) bs"
    and "set bs = bare ` set hs"
proof -
  let ?raws = "sorted_list_of_set (getAllBlocks ops db)" and ?des = "\<lambda>raw. projr (BlockHeader_deserialize raw)"
  have all: "getAllBlocks ops db = {v. \<exists>h. fmlookup (view db) (makeKeyPrefix h BLOCK_PREFIX) = Some v}"
    by (rule getAllBlocks_eq [OF spec]) (use small in \<open>simp add: db_small_def\<close>)
  have fin: "set ?raws = getAllBlocks ops db" by (simp add: getAllBlocks_def)
  have ser: "BlockHeader_serialize b = Ok v \<Longrightarrow> length v < 2 ^ 64 \<Longrightarrow> BlockHeader_deserialize v = Ok (bare b)" for b v
    using encodes_whole [OF encodes_BlockHeader] by (auto simp: BlockHeader_deserialize_def bare_def)
  have val: "v \<in> getAllBlocks ops db \<longleftrightarrow> (\<exists>b\<in>set hs. BlockHeader_serialize b = Ok v)" for v
    using m unfolding all mirrors_def by blast
  have len: "v \<in> getAllBlocks ops db \<Longrightarrow> length v < 2 ^ 64" for v
    using small unfolding all db_small_def by (auto simp: fmpred_iff)
  have stored: "\<exists>v. BlockHeader_serialize b = Ok v \<and> v \<in> getAllBlocks ops db" if "b \<in> set hs" for b
    using m val that unfolding mirrors_def by blast
  have des: "\<exists>b\<in>set hs. BlockHeader_deserialize v = Ok (bare b)" if "v \<in> getAllBlocks ops db" for v
    using val [of v] ser len that by blast
  have "list_all2 (\<lambda>raw b. BlockHeader_deserialize raw = Ok b) ?raws (map ?des ?raws)"
    unfolding list_all2_map2 list_all2_same fin by (metis des sum.sel(2))
  moreover have "set (map ?des ?raws) = bare ` set hs"
  proof (intro equalityI subsetI)
    fix x assume "x \<in> set (map ?des ?raws)"
    then obtain v where "v \<in> getAllBlocks ops db" "x = ?des v" using fin by auto
    then show "x \<in> bare ` set hs" using des [of v] by auto
  next
    fix x assume "x \<in> bare ` set hs"
    then obtain b where b: "b \<in> set hs" "x = bare b" by auto
    obtain v where v: "BlockHeader_serialize b = Ok v" "v \<in> getAllBlocks ops db" using stored [OF b(1)] by blast
    then have "?des v = x" using ser [OF v(1) len [OF v(2)]] b by simp
    then show "x \<in> set (map ?des ?raws)" using v(2) fin by force
  qed
  ultimately show ?thesis by (rule that)
qed

lemma settings_checked:
  assumes spec: "leveldb_spec ops view" and "settings_saved modules (view db)"
  shows "check_modules modules ops db = (db, Ok ())" and "check_version ops db = (db, Ok ())"
proof -
  have "modules_to_string modules \<noteq> []" by (simp add: modules_to_string_def)
  then show "check_modules modules ops db = (db, Ok ())"
    using assms(2) by (simp add: check_modules_def findModules_def findOneValueWithoutCheck_eq [OF spec] settings_saved_def
        modules_roundtrip)
  show "check_version ops db = (db, Ok ())"
    using assms(2) by (simp add: check_version_def findVersionDb_def findOneValueWithoutCheck_eq [OF spec] settings_saved_def
        VERSION_DB_value_def)
qed

lemma mirrors_restart:
  assumes spec: "leveldb_spec ops view" and on: "module_on modules MODULE_BLOCK"
    and m: "mirrors view modules hs bc db" and small: "list_all hash_small hs" "db_small (view db)" "length hs + 1 < 2 ^ 64"
  shows "\<exists>bc'. sync_start modules ops bc0 db = (db, Ok bc') \<and> hashes bc' = hashes bc \<and> settled bc'"
proof -
  obtain bs where bs: "list_all2 (\<lambda>raw b. BlockHeader_deserialize raw = Ok b) (sorted_list_of_set (getAllBlocks ops db)) bs"
    "set bs = bare ` set hs"
    by (rule stored_headers [OF spec m small(2)])
  have s: "settled bc" "hashes bc = GENESIS_BLOCK_HASH # map bh_hash hs" "chained GENESIS_BLOCK_HASH hs"
    using m by (simp_all add: mirrors_def)
  have st: "settings_saved modules (view db)" using m by (simp add: mirrors_def)
  have "rbind (findBlockMetadata ops db) (\<lambda>r. rbind (BlocksMetadata_deserialize r) f) = f (progress_of hs)" for f
    using mirrors_progress [OF spec m small(1)] by (simp flip: rbind_rbind)
  then have start: "sync_start modules ops bc0 db = (db, load_chain ops db (progress_of hs) bc0)"
    using on by (simp add: sync_start_def sbind_def settings_checked [OF spec st])
  have load: "load_blocks (sorted_list_of_set (getAllBlocks ops db)) (BlockChain_clear bc0) = store_all bs BlockChain_new"
    by (simp add: load_blocks_store_all [OF bs(1)] BlockChain_clear_new)
  show ?thesis
  proof (cases "hs = []")
    case True
    then have "load_chain ops db (progress_of hs) bc0 = Ok BlockChain_new"
      using bs(2) load by (simp add: load_chain_def progress_of_def BlocksMetadata_default_def store_all_def)
    moreover have "hashes BlockChain_new = hashes bc" using s(2) True by (simp add: BlockChain_new_def BlockChain_initialize_def)
    ultimately show ?thesis using start by simp
  next
    case False
    have d: "distinct (GENESIS_BLOCK_HASH # map bh_hash hs)" using s(1,2) by (simp add: settled_def chain_ok_def)
    have ne: "\<forall>b\<in>set hs. bh_hash b \<noteq> []"
      using m by (auto simp: mirrors_def BlockHeader_serialize_def rbind_Ok_iff)
    have "\<exists>bc1 bc. store_all bs BlockChain_new = Ok bc1 \<and>
      calcBlockchain bc1 (last (GENESIS_BLOCK_HASH # map bh_hash (map bare hs))) = (bc, Ok (of_nat (length (map bare hs)))) \<and>
      hashes bc = GENESIS_BLOCK_HASH # map bh_hash (map bare hs) \<and> settled bc"
      by (rule startup_settled) (use d ne s(3) bs(2) small(3) in \<open>auto simp: chained_def comp_def\<close>)
    then obtain bc1 bc2 where "store_all bs BlockChain_new = Ok bc1"
      and "calcBlockchain bc1 (bh_hash (last hs)) = (bc2, Ok (of_nat (length hs)))"
      and "hashes bc2 = hashes bc" "settled bc2"
      using False s(2) by (auto simp: comp_def last_map)
    moreover have "bh_hash (last hs) \<noteq> []" using ne False by simp
    ultimately show ?thesis using start load False by (simp add: load_chain_def progress_of_def)
  qed
qed

text \<open>The first start writes the settings and has the genesis block only.\<close>

lemma saveValue_view:
  assumes "leveldb_spec ops view" and "saveValue ops db k v = (db', Ok ())"
  shows "view db' = fmupd k v (view db)"
  using leveldb_specD(3) [OF assms(1), of db k v] assms(2)
  by (auto simp: saveValue_def check_status_def split: option.splits prod.splits)

lemma start_empty:
  assumes spec: "leveldb_spec ops view" and empty: "view db = fmempty" and ok: "sync_start modules ops bc db = (db0, Ok bc0)"
  shows "module_on modules MODULE_BLOCK" and "mirrors view modules [] bc0 db0"
proof -
  show on: "module_on modules MODULE_BLOCK" using ok by (auto simp: sync_start_def split: if_splits)
  have look: "findModules ops db = Ok []" by (simp add: findModules_def findOneValueWithoutCheck_eq [OF spec] empty)
  obtain db1 where db1: "saveModules ops (modules_to_string modules) db = (db1, Ok ())" and rest: "sbind (check_version ops db1) (\<lambda>_ db.
        (db, rbind (findBlockMetadata ops db) (\<lambda>blockMetadata.
             rbind (BlocksMetadata_deserialize blockMetadata) (\<lambda>metadata. load_chain ops db metadata bc)))) = (db0, Ok bc0)"
    using ok on by (auto simp: sync_start_def sbind_Ok_iff check_modules_def look)
  have v1: "view db1 = fmupd MODULES_KEY (modules_to_string modules) fmempty"
    using saveValue_view [OF spec] db1 empty by (simp add: saveModules_def)
  have "findVersionDb ops db1 = Ok []" by (simp add: findVersionDb_def findOneValueWithoutCheck_eq [OF spec] v1)
  then have db0: "saveVersionDb ops VERSION_DB_value db1 = (db0, Ok ())"
    and load: "rbind (findBlockMetadata ops db0) (\<lambda>blockMetadata.
             rbind (BlocksMetadata_deserialize blockMetadata) (\<lambda>metadata. load_chain ops db0 metadata bc)) = Ok bc0"
    using rest by (auto simp: sbind_Ok_iff check_version_def)
  have v0: "view db0 = fmupd VERSION_DB VERSION_DB_value (view db1)"
    using saveValue_view [OF spec] db0 by (simp add: saveVersionDb_def)
  have "getAllBlocks ops db0 = {}" by (subst getAllBlocks_eq [OF spec]) (simp_all add: v0 v1 fmdom_fmupd)
  then have "bc0 = BlockChain_new"
    using load by (simp add: findBlockMetadata_def findOneValueWithoutCheck_eq [OF spec] v0 v1 BlocksMetadata_deserialize_def
        load_chain_def BlocksMetadata_default_def BlockChain_clear_new)
  then show "mirrors view modules [] bc0 db0"
    by (simp add: mirrors_def settings_saved_def v0 v1 chained_def)
qed

section \<open>Properties\<close>

text \<open>A node that stops and starts again has its chain back. On an empty database the node starts and takes
  any sequence of blocks, of which the first follows the genesis block; the database it leaves behind lets the
  next start succeed without a write, with the same branch in memory.\<close>

lemma restart_restores_chain:
  assumes "leveldb_spec ops view" and "view db = fmempty"
    and "sync_start (so_modules opt) ops bc db = (db0, Ok bc0)"
    and "process_blocks opt ops users None bs \<lparr>nd_db = db0, nd_chain = bc0, nd_disk = d, nd_sent = []\<rparr> = (nd, Ok ())"
    and "list_all fresh_block bs" and "bs \<noteq> [] \<Longrightarrow> bh_prevHash (bi_header (fst (hd bs))) = GENESIS_BLOCK_HASH"
    and "db_small (view (nd_db nd))" and "length bs + 2 < 2 ^ 64"
  shows "\<exists>bc'. sync_start (so_modules opt) ops bc1 (nd_db nd) = (nd_db nd, Ok bc') \<and>
    hashes bc' = hashes (nd_chain nd) \<and> settled bc'"
proof -
  note on = start_empty(1) [OF assms(1-3)] and m0 = start_empty(2) [OF assms(1-3)]
  have p: "pending opt None bs = bs" by (simp add: pending_def)
  obtain hs where "mirrors view (so_modules opt) hs (nd_chain nd) (nd_db nd)" "list_all hash_small hs" "length hs \<le> length bs"
    using mirrors_process [OF assms(1) on assms(4), of "[]"] m0 assms(5,6,8) by (auto simp: p)
  then show ?thesis using assms(1,7,8) on by (intro mirrors_restart) auto
qed

text \<open>A node with the block module only, and a first block of the chain.\<close>

definition plain_node :: syncOptions where
  "plain_node = \<lparr>so_modules = 1, so_isSaveBlockToFiles = False, so_isValidate = False, so_fromHex = (\<lambda>s. s)\<rparr>"

definition first_block :: blockInfo where
  "first_block = \<lparr>bi_header = BlockHeader_default\<lparr>bh_hash := ''a'', bh_prevHash := GENESIS_BLOCK_HASH,
     bh_countTxs := Some 0, bh_filePos := \<lparr>fp_pos = 0, fp_fileName = ''1.blk''\<rparr>\<rparr>, bi_txs = []\<rparr>"

lemma db_small_of: "fcard (fmdom m) \<le> 10 \<Longrightarrow> fmpred (\<lambda>k v. length v \<le> 300) m \<Longrightarrow> db_small m"
  unfolding db_small_def by (fastforce simp: fmpred_iff fcard.rep_eq)

lemma restart_restores_chain_example:
  "let nd0 = \<lparr>nd_db = fst (sync_start 1 map_leveldb BlockChain_new fmempty), nd_chain = BlockChain_new, nd_disk = fmempty,
       nd_sent = []\<rparr>;
     db = nd_db (fst (process_blocks plain_node map_leveldb {||} None [(first_block, [])] nd0))
   in \<exists>bc'. sync_start 1 map_leveldb BlockChain_new db = (db, Ok bc') \<and> hashes bc' = [GENESIS_BLOCK_HASH, ''a'']"
proof -
  define s where "s = sync_start 1 map_leveldb BlockChain_new fmempty"
  define p where "p = process_blocks plain_node map_leveldb {||} None [(first_block, [])]
      \<lparr>nd_db = fst s, nd_chain = BlockChain_new, nd_disk = fmempty, nd_sent = []\<rparr>"
  have s: "sync_start 1 map_leveldb BlockChain_new fmempty = (fst s, Ok BlockChain_new)"
    unfolding s_def by code_simp
  have p: "snd p = Ok ()" "hashes (nd_chain (fst p)) = [GENESIS_BLOCK_HASH, ''a'']"
    unfolding p_def s_def by code_simp+
  have "fcard (fmdom (nd_db (fst p))) \<le> 10" "fmpred (\<lambda>k v. length v \<le> 300) (nd_db (fst p))"
    unfolding p_def s_def by code_simp+
  then have small: "db_small (nd_db (fst p))" by (simp add: db_small_of)
  have "\<exists>bc'. sync_start (so_modules plain_node) map_leveldb BlockChain_new (nd_db (fst p)) = (nd_db (fst p), Ok bc') \<and>
    hashes bc' = hashes (nd_chain (fst p)) \<and> settled bc'"
  proof (rule restart_restores_chain [OF map_leveldb_spec refl, where bs = "[(first_block, [])]"])
    show "sync_start (so_modules plain_node) map_leveldb BlockChain_new fmempty = (fst s, Ok BlockChain_new)"
      using s by (simp add: plain_node_def)
    show "process_blocks plain_node map_leveldb {||} None [(first_block, [])]
        \<lparr>nd_db = fst s, nd_chain = BlockChain_new, nd_disk = fmempty, nd_sent = []\<rparr> = (fst p, Ok ())"
      using p(1) by (simp add: p_def prod_eq_iff)
    show "list_all fresh_block [(first_block, [])]"
      by (simp add: fresh_block_def first_block_def BlockHeader_default_def hash_small_def GENESIS_BLOCK_HASH_def)
  qed (simp_all add: small first_block_def)
  then show ?thesis using p(2) unfolding p_def s_def by (auto simp: Let_def plain_node_def)
qed

end
