(* ===== verification/P2P.thy ===== *)
theory P2P
  imports Prelude
begin

text \<open>
  \<^verbatim>\<open>src/src/P2P/P2P.cpp\<close>, with the request functions of \<^verbatim>\<open>P2P_Graph.cpp\<close> and \<^verbatim>\<open>P2P_Ips.cpp\<close>: a large answer
  is fetched in segments by a pool of threads, one per connection. \<open>P2P::process\<close> is a step relation on the
  shared queue, the threads, the success counter and the array of answers, one step for each critical
  section; the queue of the common library hands out a queued segment, in any order. The network is a
  relation: \<open>net url post header r\<close> says that the request may have the outcome \<open>r\<close>.
\<close>

record segment =
  fromByte :: size_t
  toByte :: size_t
  posInArray :: size_t

primrec makeSegments_loop :: "nat \<Rightarrow> size_t \<Rightarrow> size_t \<Rightarrow> size_t \<Rightarrow> size_t \<Rightarrow> segment list \<times> size_t" where
  "makeSegments_loop 0 i step sz prevByte = ([], prevByte)"
| "makeSegments_loop (Suc n) i step sz prevByte =
     (let nextByte = min (prevByte + step) sz;
          (segments, lastByte) = makeSegments_loop n (i + 1) step sz nextByte
      in (\<lparr>fromByte = prevByte, toByte = nextByte, posInArray = i\<rparr> # segments, lastByte))"

definition makeSegments :: "size_t \<Rightarrow> size_t \<Rightarrow> size_t \<Rightarrow> segment list res" where
  "makeSegments countSegments sz minSize =
     (if countSegments = 0 then Err Undefined
      else
        let step = min sz (max (sz div countSegments) minSize)
        in rbind (CHECK (step \<noteq> 0) ''step == 0'') (\<lambda>_.
           let (segments, prevByte) = makeSegments_loop (unat (countSegments - 1)) 0 step sz 0
           in Ok (segments @ [\<lparr>fromByte = prevByte, toByte = sz, posInArray = countSegments - 1\<rparr>])))"

section \<open>The pool of threads\<close>

datatype thread = Waiting | Working segment | Exited

record pool =
  pl_queue :: "segment list"
  pl_threads :: "thread list"
  pl_success :: nat
  pl_answers :: "string list"

definition pool_start :: "nat \<Rightarrow> nat \<Rightarrow> segment list \<Rightarrow> pool" where
  "pool_start countThreads countAnswers segments =
     \<lparr>pl_queue = segments, pl_threads = replicate countThreads Waiting, pl_success = 0,
      pl_answers = replicate countAnswers []\<rparr>"

text \<open>\<open>build\<close> is the request builder, \<open>ask i qs post segment r\<close> the possible outcomes of the request function on
  thread \<open>i\<close>. A thread takes a segment; it stores the answer and counts it; on an exception of \<open>CHECK\<close> it
  puts the segment back and ends; on any other error, and on an error of the builder, it ends without.\<close>

inductive pool_step ::
    "(segment \<Rightarrow> (string \<times> string) res) \<Rightarrow> (nat \<Rightarrow> string \<Rightarrow> string \<Rightarrow> segment \<Rightarrow> string res \<Rightarrow> bool) \<Rightarrow>
     pool \<Rightarrow> pool \<Rightarrow> bool"
  for build ask where
  pop: "i < length (pl_threads p) \<Longrightarrow> pl_threads p ! i = Waiting \<Longrightarrow> pl_queue p = q @ sg # q' \<Longrightarrow>
    pool_step build ask p (p\<lparr>pl_queue := q @ q', pl_threads := (pl_threads p)[i := Working sg]\<rparr>)"
| success: "i < length (pl_threads p) \<Longrightarrow> pl_threads p ! i = Working sg \<Longrightarrow> build sg = Ok (qs, post) \<Longrightarrow>
    ask i qs post sg (Ok r) \<Longrightarrow> unat (posInArray sg) < length (pl_answers p) \<Longrightarrow>
    pool_step build ask p (p\<lparr>pl_threads := (pl_threads p)[i := Waiting], pl_success := pl_success p + 1,
      pl_answers := (pl_answers p)[unat (posInArray sg) := r]\<rparr>)"
| retry: "i < length (pl_threads p) \<Longrightarrow> pl_threads p ! i = Working sg \<Longrightarrow> build sg = Ok (qs, post) \<Longrightarrow>
    ask i qs post sg (Err (Exception e)) \<Longrightarrow>
    pool_step build ask p (p\<lparr>pl_queue := pl_queue p @ [sg], pl_threads := (pl_threads p)[i := Exited]\<rparr>)"
| lost_make: "i < length (pl_threads p) \<Longrightarrow> pl_threads p ! i = Working sg \<Longrightarrow> build sg = Err e \<Longrightarrow>
    pool_step build ask p (p\<lparr>pl_threads := (pl_threads p)[i := Exited]\<rparr>)"
| lost_request: "i < length (pl_threads p) \<Longrightarrow> pl_threads p ! i = Working sg \<Longrightarrow> build sg = Ok (qs, post) \<Longrightarrow>
    ask i qs post sg (Err (StdException e)) \<Longrightarrow>
    pool_step build ask p (p\<lparr>pl_threads := (pl_threads p)[i := Exited]\<rparr>)"

text \<open>The condition the caller waits for, and what \<open>process\<close> then returns.\<close>

definition pool_finished :: "segment list \<Rightarrow> pool \<Rightarrow> bool" where
  "pool_finished segments p \<longleftrightarrow> pl_success p = length segments \<or> (\<forall>t\<in>set (pl_threads p). t = Exited)"

definition pool_result :: "segment list \<Rightarrow> pool \<Rightarrow> bool" where
  "pool_result segments p \<longleftrightarrow> pl_success p = length segments"

section \<open>Requests\<close>

record responseParse =
  rp_response :: string
  rp_error :: "string option"

definition request_url :: "string \<Rightarrow> string \<Rightarrow> string res" where
  "request_url server qs =
     rbind (CHECK (server \<noteq> []) ''server empty'') (\<lambda>_.
     Ok ((if last server \<noteq> CHR ''/'' then server @ ''/'' else server) @ qs))"

definition curl_request ::
    "(string \<Rightarrow> string \<Rightarrow> string \<Rightarrow> string res \<Rightarrow> bool) \<Rightarrow> string \<Rightarrow> string \<Rightarrow> string \<Rightarrow> string \<Rightarrow> string res \<Rightarrow> bool" where
  "curl_request net qs post header server r =
     (case request_url server qs of Inl e \<Rightarrow> r = Err e | Inr url \<Rightarrow> net url post header r)"

text \<open>What is done with a response.\<close>

definition take_response :: "(string \<Rightarrow> responseParse) \<Rightarrow> bool \<Rightarrow> segment \<Rightarrow> string \<Rightarrow> string res" where
  "take_response responseParse isPrecisionSize sg response =
     (let parsed = responseParse response
      in case rp_error parsed of
           Some e \<Rightarrow> Err (Exception e)
         | None \<Rightarrow>
             rbind (if isPrecisionSize then CHECK (size_of (rp_response parsed) = toByte sg - fromByte sg) ''Incorrect response size''
                    else Ok ()) (\<lambda>_. Ok (rp_response parsed)))"

definition requestFunction ::
    "(string \<Rightarrow> string \<Rightarrow> string \<Rightarrow> string res \<Rightarrow> bool) \<Rightarrow> size_t \<Rightarrow> string \<Rightarrow> (string \<Rightarrow> responseParse) \<Rightarrow> bool \<Rightarrow> string \<Rightarrow>
     nat \<Rightarrow> string \<Rightarrow> string \<Rightarrow> segment \<Rightarrow> string res \<Rightarrow> bool" where
  "requestFunction net countCurls header responseParse isPrecisionSize server threadNumber qs post sg r =
     (if unat countCurls \<le> threadNumber then r = Err (Exception ''Curls empty'')
      else \<exists>response. curl_request net qs post header server response \<and>
             r = rbind response (take_response responseParse isPrecisionSize sg))"

definition countSegments_of :: "size_t \<Rightarrow> size_t \<Rightarrow> size_t \<Rightarrow> size_t" where
  "countSegments_of responseSize minResponseSize countServers =
     (if minResponseSize = 1 then responseSize
      else min ((responseSize + minResponseSize - 1) div minResponseSize) countServers)"

text \<open>\<open>requestImpl\<close> of the graph: \<open>requestImpl_outcome \<dots> r\<close> says that the call may return \<open>r\<close>. One connection
  per thread, all to the one server.\<close>

definition requestImpl ::
    "(string \<Rightarrow> string \<Rightarrow> string \<Rightarrow> string res \<Rightarrow> bool) \<Rightarrow> size_t \<Rightarrow> size_t \<Rightarrow> size_t \<Rightarrow> bool \<Rightarrow>
     (size_t \<Rightarrow> size_t \<Rightarrow> (string \<times> string) res) \<Rightarrow> string \<Rightarrow> (string \<Rightarrow> responseParse) \<Rightarrow> string list \<Rightarrow> string list res \<Rightarrow> bool" where
  "requestImpl net countConnections responseSize minResponseSize isPrecisionSize makeQsAndPost header responseParse hintsServers r =
     (if responseSize = 0 then r = Err (Exception ''response size 0'')
      else if length hintsServers \<noteq> 1 then r = Err (Exception ''Incorrect hint servers'')
      else
        let countSegments = countSegments_of responseSize minResponseSize countConnections
        in case makeSegments countSegments responseSize minResponseSize of
             Inl e \<Rightarrow> r = Err e
           | Inr segments \<Rightarrow>
               \<exists>p. (pool_step (\<lambda>sg. makeQsAndPost (fromByte sg) (toByte sg))
                       (requestFunction net countConnections header responseParse isPrecisionSize (hd hintsServers)))\<^sup>*\<^sup>*
                      (pool_start (unat countConnections) (unat countSegments) segments) p \<and>
                   pool_finished segments p \<and>
                   r = (if pool_result segments p then Ok (pl_answers p) else Err (Exception ''dont run request'')))"

definition MIN_RESPONSE_SIZE :: size_t where "MIN_RESPONSE_SIZE = 1000"

definition join_answers :: "size_t \<Rightarrow> bool \<Rightarrow> string list \<Rightarrow> string res" where
  "join_answers responseSize isPrecisionSize answers =
     (let response = concat answers
      in rbind (if isPrecisionSize then CHECK (size_of response = responseSize)
                  (''response size != getted response. Getted response size: '' @ to_string_u64 (size_of response) @
                   ''. Expected response size: '' @ to_string_u64 responseSize)
                else Ok ()) (\<lambda>_. Ok response))"

definition P2P_request ::
    "(string \<Rightarrow> string \<Rightarrow> string \<Rightarrow> string res \<Rightarrow> bool) \<Rightarrow> size_t \<Rightarrow> size_t \<Rightarrow> bool \<Rightarrow>
     (size_t \<Rightarrow> size_t \<Rightarrow> (string \<times> string) res) \<Rightarrow> string \<Rightarrow> (string \<Rightarrow> responseParse) \<Rightarrow> string list \<Rightarrow> string res \<Rightarrow> bool" where
  "P2P_request net countConnections responseSize isPrecisionSize makeQsAndPost header responseParse hintsServers r =
     (\<exists>answers. requestImpl net countConnections responseSize MIN_RESPONSE_SIZE isPrecisionSize makeQsAndPost header
          responseParse hintsServers answers \<and>
        r = rbind answers (join_answers responseSize isPrecisionSize))"

definition P2P_requests ::
    "(string \<Rightarrow> string \<Rightarrow> string \<Rightarrow> string res \<Rightarrow> bool) \<Rightarrow> size_t \<Rightarrow> size_t \<Rightarrow>
     (size_t \<Rightarrow> (string \<times> string) res) \<Rightarrow> string \<Rightarrow> (string \<Rightarrow> responseParse) \<Rightarrow> string list \<Rightarrow> string list res \<Rightarrow> bool" where
  "P2P_requests net countConnections countRequests makeQsAndPost header responseParse hintsServers r =
     (\<exists>answers. requestImpl net countConnections countRequests 1 False
          (\<lambda>from to. rbind (CHECK (to = from + 1) ''Incorrect call makeQsAndPortFunc'') (\<lambda>_. makeQsAndPost from))
          header responseParse hintsServers answers \<and>
        r = rbind answers (\<lambda>answers.
              rbind (CHECK (size_of answers = countRequests) ''Incorrect count answers'') (\<lambda>_. Ok answers)))"

section \<open>Segments\<close>

text \<open>Segments that follow each other without gap or overlap.\<close>

fun tiles :: "size_t \<Rightarrow> segment list \<Rightarrow> size_t \<Rightarrow> bool" where
  "tiles a [] b \<longleftrightarrow> a = b"
| "tiles a (sg # sgs) b \<longleftrightarrow> fromByte sg = a \<and> a \<le> toByte sg \<and> tiles (toByte sg) sgs b"

definition numbered :: "nat \<Rightarrow> segment list \<Rightarrow> bool" where
  "numbered i sgs \<longleftrightarrow> (\<forall>k<length sgs. posInArray (sgs ! k) = of_nat (i + k))"

lemma tiles_le: "tiles a sgs b \<Longrightarrow> a \<le> b"
  by (induction sgs arbitrary: a) (auto intro: order.trans)

lemma tiles_snoc: "tiles a (sgs @ [sg]) b \<longleftrightarrow> tiles a sgs (fromByte sg) \<and> fromByte sg \<le> toByte sg \<and> toByte sg = b"
  by (induction sgs arbitrary: a) auto

lemma tiles_nth:
  "tiles a sgs b \<Longrightarrow> i < length sgs \<Longrightarrow> fromByte (sgs ! i) = (if i = 0 then a else toByte (sgs ! (i - 1))) \<and>
     fromByte (sgs ! i) \<le> toByte (sgs ! i) \<and> toByte (sgs ! i) \<le> b"
proof (induction sgs arbitrary: a i)
  case (Cons sg sgs)
  then show ?case
    by (cases i) (auto dest: tiles_le split: if_splits simp: nth_Cons')
qed simp

lemma tiles_last: "tiles a sgs b \<Longrightarrow> sgs \<noteq> [] \<Longrightarrow> toByte (last sgs) = b"
  by (induction sgs arbitrary: a) (auto split: if_splits)

lemma numbered_Cons: "numbered i (sg # sgs) \<longleftrightarrow> posInArray sg = of_nat i \<and> numbered (Suc i) sgs"
  by (auto simp: numbered_def nth_Cons split: nat.splits)

lemma makeSegments_loop_tiles:
  assumes "makeSegments_loop n (of_nat i) step sz prev = (sgs, lastByte)" and "prev \<le> sz"
    and "unat sz < 2 ^ 63" and "step \<le> sz"
  shows "tiles prev sgs lastByte \<and> lastByte \<le> sz \<and> length sgs = n \<and> numbered i sgs"
  using assms(1,2)
proof (induction n arbitrary: i prev sgs)
  case 0
  then show ?case by (simp add: numbered_def)
next
  case (Suc n)
  define nextByte where "nextByte = min (prev + step) sz"
  obtain rest where rest: "makeSegments_loop n (of_nat (Suc i)) step sz nextByte = (rest, lastByte)"
    and sgs: "sgs = \<lparr>fromByte = prev, toByte = nextByte, posInArray = of_nat i\<rparr> # rest"
    using Suc.prems(1) by (auto simp: Let_def nextByte_def split: prod.splits) (metis add.commute prod.inject)
  have "unat (prev + step) = unat prev + unat step"
    using assms(3,4) Suc.prems(2) by (simp add: unat_word_ariths word_le_nat_alt)
  then have "prev \<le> nextByte" using Suc.prems(2) by (simp add: nextByte_def min_def word_le_nat_alt)
  moreover have "nextByte \<le> sz" by (simp add: nextByte_def)
  ultimately show ?case using Suc.IH [OF rest] by (simp add: sgs numbered_Cons)
qed

lemma makeSegments_tiles:
  assumes "makeSegments count sz minSize = Ok sgs" and "unat sz < 2 ^ 63"
  shows "tiles 0 sgs sz" and "length sgs = unat count" and "numbered 0 sgs"
proof -
  define step where "step = min sz (max (sz div count) minSize)"
  obtain rest lastByte where loop: "makeSegments_loop (unat (count - 1)) 0 step sz 0 = (rest, lastByte)"
    by fastforce
  have c: "count \<noteq> 0" and sgs: "sgs = rest @ [\<lparr>fromByte = lastByte, toByte = sz, posInArray = count - 1\<rparr>]"
    using assms(1) loop by (auto simp: makeSegments_def step_def Let_def rbind_Ok_iff split: if_splits)
  have t: "tiles 0 rest lastByte \<and> lastByte \<le> sz \<and> length rest = unat (count - 1) \<and> numbered 0 rest"
    by (rule makeSegments_loop_tiles [of _ 0 step sz]) (use loop assms(2) in \<open>simp_all add: step_def\<close>)
  have u: "unat (count - 1) = unat count - 1" "0 < unat count"
    using c by (simp_all add: unat_minus_one unat_gt_0)
  show "tiles 0 sgs sz" using t by (simp add: sgs tiles_snoc)
  show "length sgs = unat count" using t u by (simp add: sgs)
  have last: "(of_nat (unat count - 1) :: size_t) = count - 1" unfolding u(1) [symmetric] by simp
  have "posInArray (sgs ! k) = of_nat k" if "k < length sgs" for k
  proof (cases "k < length rest")
    case True
    then show ?thesis using t by (simp add: sgs numbered_def nth_append)
  next
    case False
    then have "k = unat count - 1" using that t u by (simp add: sgs)
    then show ?thesis using False t u last by (simp add: sgs nth_append)
  qed
  then show "numbered 0 sgs" by (simp add: numbered_def)
qed

text \<open>The bytes of the segments, put together, are the bytes they tile.\<close>

definition segment_bytes :: "string \<Rightarrow> segment \<Rightarrow> string" where
  "segment_bytes bs sg = take (unat (toByte sg - fromByte sg)) (drop (unat (fromByte sg)) bs)"

lemma tiles_bytes:
  "tiles a sgs b \<Longrightarrow> concat (map (segment_bytes bs) sgs) = take (unat b - unat a) (drop (unat a) bs)"
proof (induction sgs arbitrary: a)
  case (Cons sg sgs)
  then have le: "a \<le> toByte sg" "toByte sg \<le> b" and f: "fromByte sg = a" using tiles_le by auto
  have "unat (toByte sg - a) = unat (toByte sg) - unat a" by (rule unat_sub [OF le(1)])
  then have "concat (map (segment_bytes bs) (sg # sgs)) =
      take (unat (toByte sg) - unat a) (drop (unat a) bs) @ take (unat b - unat (toByte sg)) (drop (unat (toByte sg)) bs)"
    using Cons by (simp add: segment_bytes_def [of bs sg] f)
  also have "\<dots> = take ((unat (toByte sg) - unat a) + (unat b - unat (toByte sg))) (drop (unat a) bs)"
    unfolding take_add using le by (simp add: word_le_nat_alt)
  finally show ?case using le by (simp add: word_le_nat_alt)
qed simp

section \<open>Invariants of the pool\<close>

definition working :: "thread list \<Rightarrow> segment list" where
  "working ts = concat (map (\<lambda>t. case t of Working sg \<Rightarrow> [sg] | _ \<Rightarrow> []) ts)"

lemma working_update:
  assumes "i < length ts"
  obtains l r where "working ts = l @ working [ts ! i] @ r" and "working (ts[i := t]) = l @ working [t] @ r"
proof -
  have "ts = take i ts @ [ts ! i] @ drop (Suc i) ts" using assms by (simp add: id_take_nth_drop)
  then have "working ts = working (take i ts) @ working [ts ! i] @ working (drop (Suc i) ts)"
    unfolding working_def by (metis concat_append map_append)
  moreover have "working (ts[i := t]) = working (take i ts) @ working [t] @ working (drop (Suc i) ts)"
    using assms by (simp add: upd_conv_take_nth_drop working_def)
  ultimately show ?thesis using that by blast
qed

lemma working_simps [simp]: "working [Waiting] = []" "working [Exited] = []" "working [Working sg] = [sg]"
  by (simp_all add: working_def)

text \<open>Every segment is queued, in work, or answered, and only once; an answered segment has its answer in the array.\<close>

definition answered ::
    "(segment \<Rightarrow> (string \<times> string) res) \<Rightarrow> (nat \<Rightarrow> string \<Rightarrow> string \<Rightarrow> segment \<Rightarrow> string res \<Rightarrow> bool) \<Rightarrow> segment \<Rightarrow> string \<Rightarrow> bool" where
  "answered build ask sg r \<longleftrightarrow> (\<exists>i qs post. build sg = Ok (qs, post) \<and> ask i qs post sg (Ok r))"

definition pool_inv ::
    "(segment \<Rightarrow> (string \<times> string) res) \<Rightarrow> (nat \<Rightarrow> string \<Rightarrow> string \<Rightarrow> segment \<Rightarrow> string res \<Rightarrow> bool) \<Rightarrow>
     segment list \<Rightarrow> nat \<Rightarrow> pool \<Rightarrow> segment list \<Rightarrow> bool" where
  "pool_inv build ask segments n p finished \<longleftrightarrow>
     distinct (pl_queue p @ working (pl_threads p) @ finished) \<and>
     set (pl_queue p @ working (pl_threads p) @ finished) \<subseteq> set segments \<and>
     pl_success p = length finished \<and> length (pl_answers p) = n \<and>
     (\<forall>sg\<in>set finished. answered build ask sg (pl_answers p ! unat (posInArray sg)))"

definition pool_complete :: "segment list \<Rightarrow> pool \<Rightarrow> segment list \<Rightarrow> bool" where
  "pool_complete segments p finished \<longleftrightarrow>
     set segments \<subseteq> set (pl_queue p @ working (pl_threads p) @ finished)"

definition positions_ok :: "segment list \<Rightarrow> nat \<Rightarrow> bool" where
  "positions_ok segments n \<longleftrightarrow> distinct segments \<and>
     inj_on (\<lambda>sg. unat (posInArray sg)) (set segments) \<and> (\<forall>sg\<in>set segments. unat (posInArray sg) < n)"

text \<open>No error but an exception of \<open>CHECK\<close>, and an outcome for every request.\<close>

definition only_exceptions ::
    "(segment \<Rightarrow> (string \<times> string) res) \<Rightarrow> (nat \<Rightarrow> string \<Rightarrow> string \<Rightarrow> segment \<Rightarrow> string res \<Rightarrow> bool) \<Rightarrow> segment list \<Rightarrow> bool" where
  "only_exceptions build ask segments \<longleftrightarrow>
     (\<forall>sg\<in>set segments. \<exists>qs post. build sg = Ok (qs, post) \<and>
        (\<forall>i. (\<exists>r. ask i qs post sg r) \<and> (\<forall>r. ask i qs post sg r \<longrightarrow> (\<exists>x e. r = Ok x \<or> r = Err (Exception e)))))"

lemma pool_inv_step:
  assumes "pool_step build ask p p'" and "pool_inv build ask segments n p finished" and pos: "positions_ok segments n"
  shows "\<exists>finished'. pool_inv build ask segments n p' finished' \<and>
    (only_exceptions build ask segments \<longrightarrow> pool_complete segments p finished \<longrightarrow> pool_complete segments p' finished')"
  using assms(1,2)
proof (cases rule: pool_step.cases)
  case (pop i q sg q')
  obtain l r where "working (pl_threads p) = l @ r" "working ((pl_threads p)[i := Working sg]) = l @ [sg] @ r"
    using working_update [OF pop(2), of "Working sg"] pop(3) by auto
  then have "pool_inv build ask segments n p' finished \<and> (pool_complete segments p finished \<longrightarrow> pool_complete segments p' finished)"
    using assms(2) pop(1,4) by (auto simp: pool_inv_def pool_complete_def)
  then show ?thesis by blast
next
  case (success i sg qs post r)
  obtain l t where w: "working (pl_threads p) = l @ [sg] @ t" "working ((pl_threads p)[i := Waiting]) = l @ t"
    using working_update [OF success(2), of Waiting] success(3) by auto
  have sg: "sg \<in> set segments" "sg \<notin> set finished" "set finished \<subseteq> set segments"
    using assms(2) w by (auto simp: pool_inv_def)
  have "unat (posInArray sg) \<noteq> unat (posInArray sg')" if "sg' \<in> set finished" for sg'
    using pos sg that unfolding positions_ok_def inj_on_def by blast
  then have "pool_inv build ask segments n p' (finished @ [sg]) \<and>
      (pool_complete segments p finished \<longrightarrow> pool_complete segments p' (finished @ [sg]))"
    using assms(2) success w by (auto simp: pool_inv_def pool_complete_def answered_def)
  then show ?thesis by blast
next
  case (retry i sg qs post e)
  obtain l t where w: "working (pl_threads p) = l @ [sg] @ t" "working ((pl_threads p)[i := Exited]) = l @ t"
    using working_update [OF retry(2), of Exited] retry(3) by auto
  then have "pool_inv build ask segments n p' finished \<and> (pool_complete segments p finished \<longrightarrow> pool_complete segments p' finished)"
    using assms(2) retry(1) by (auto simp: pool_inv_def pool_complete_def)
  then show ?thesis by blast
next
  case (lost_make i sg e)
  obtain l t where w: "working (pl_threads p) = l @ [sg] @ t" "working ((pl_threads p)[i := Exited]) = l @ t"
    using working_update [OF lost_make(2), of Exited] lost_make(3) by auto
  then have "pool_inv build ask segments n p' finished" "sg \<in> set segments"
    using assms(2) lost_make(1) by (auto simp: pool_inv_def)
  moreover have "\<not> only_exceptions build ask segments"
    using lost_make(4) \<open>sg \<in> set segments\<close> by (fastforce simp: only_exceptions_def)
  ultimately show ?thesis by blast
next
  case (lost_request i sg qs post e)
  obtain l t where w: "working (pl_threads p) = l @ [sg] @ t" "working ((pl_threads p)[i := Exited]) = l @ t"
    using working_update [OF lost_request(2), of Exited] lost_request(3) by auto
  then have "pool_inv build ask segments n p' finished" "sg \<in> set segments"
    using assms(2) lost_request(1) by (auto simp: pool_inv_def)
  moreover have "\<not> only_exceptions build ask segments"
    using lost_request(4,5) \<open>sg \<in> set segments\<close> by (fastforce simp: only_exceptions_def)
  ultimately show ?thesis by blast
qed

lemma pool_inv_start:
  "positions_ok segments n \<Longrightarrow> pool_inv build ask segments n (pool_start k n segments) [] \<and>
     pool_complete segments (pool_start k n segments) []"
proof -
  have "working (replicate k Waiting) = []" by (induction k) (simp_all add: working_def)
  then show "positions_ok segments n \<Longrightarrow> ?thesis"
    by (simp add: pool_inv_def pool_complete_def pool_start_def positions_ok_def)
qed

lemma pool_inv_reachable:
  assumes "(pool_step build ask)\<^sup>*\<^sup>* (pool_start k n segments) p" and "positions_ok segments n"
  shows "\<exists>finished. pool_inv build ask segments n p finished \<and>
    (only_exceptions build ask segments \<longrightarrow> pool_complete segments p finished)"
  using assms(1)
proof (induction rule: rtranclp_induct)
  case base
  show ?case using pool_inv_start [OF assms(2)] by blast
next
  case (step p p')
  then obtain finished where "pool_inv build ask segments n p finished"
    "only_exceptions build ask segments \<longrightarrow> pool_complete segments p finished" by blast
  then show ?case using pool_inv_step [OF step(2) _ assms(2)] by blast
qed

text \<open>A full counter means that every segment is answered.\<close>

lemma pool_success_all:
  assumes "pool_inv build ask segments n p finished" and "distinct segments" and "pl_success p = length segments"
  shows "set finished = set segments"
proof (rule card_subset_eq)
  show "set finished \<subseteq> set segments" using assms(1) by (simp add: pool_inv_def)
  have "distinct finished" using assms(1) by (simp add: pool_inv_def)
  then show "card (set finished) = card (set segments)"
    using assms by (simp add: distinct_card pool_inv_def)
qed simp

text \<open>Each step lowers a measure: two for each queued segment, one for each in work, two for each live thread.\<close>

definition pool_measure :: "pool \<Rightarrow> nat" where
  "pool_measure p = 2 * length (pl_queue p) + length (working (pl_threads p)) +
     2 * length (filter (\<lambda>t. t \<noteq> Exited) (pl_threads p))"

lemma live_update:
  assumes "i < length ts" and "ts ! i \<noteq> Exited"
  shows "length (filter (\<lambda>t. t \<noteq> Exited) (ts[i := t])) + (if t = Exited then 1 else 0) =
    length (filter (\<lambda>t. t \<noteq> Exited) ts)"
proof -
  have ts: "ts = take i ts @ ts ! i # drop (Suc i) ts" using assms(1) by (rule id_take_nth_drop)
  have "length (filter (\<lambda>t. t \<noteq> Exited) ts) =
      length (filter (\<lambda>t. t \<noteq> Exited) (take i ts)) + 1 + length (filter (\<lambda>t. t \<noteq> Exited) (drop (Suc i) ts))"
    by (subst (1) ts) (simp add: assms(2))
  then show ?thesis using assms(1) by (simp add: upd_conv_take_nth_drop)
qed

lemma pool_measure_step:
  assumes "pool_step build ask p p'"
  shows "pool_measure p' < pool_measure p"
  using assms
proof (cases rule: pool_step.cases)
  case (pop i q sg q')
  obtain l r where "working (pl_threads p) = l @ r" "working ((pl_threads p)[i := Working sg]) = l @ [sg] @ r"
    using working_update [OF pop(2), of "Working sg"] pop(3) by auto
  with pop live_update [OF pop(2), of "Working sg"] show ?thesis by (simp add: pool_measure_def)
next
  case (success i sg qs post r)
  obtain l t where "working (pl_threads p) = l @ [sg] @ t" "working ((pl_threads p)[i := Waiting]) = l @ t"
    using working_update [OF success(2), of Waiting] success(3) by auto
  with success live_update [OF success(2), of Waiting] show ?thesis by (simp add: pool_measure_def)
next
  case (retry i sg qs post e)
  obtain l t where "working (pl_threads p) = l @ [sg] @ t" "working ((pl_threads p)[i := Exited]) = l @ t"
    using working_update [OF retry(2), of Exited] retry(3) by auto
  with retry live_update [OF retry(2), of Exited] show ?thesis by (simp add: pool_measure_def)
next
  case (lost_make i sg e)
  obtain l t where "working (pl_threads p) = l @ [sg] @ t" "working ((pl_threads p)[i := Exited]) = l @ t"
    using working_update [OF lost_make(2), of Exited] lost_make(3) by auto
  with lost_make live_update [OF lost_make(2), of Exited] show ?thesis by (simp add: pool_measure_def)
next
  case (lost_request i sg qs post e)
  obtain l t where "working (pl_threads p) = l @ [sg] @ t" "working ((pl_threads p)[i := Exited]) = l @ t"
    using working_update [OF lost_request(2), of Exited] lost_request(3) by auto
  with lost_request live_update [OF lost_request(2), of Exited] show ?thesis by (simp add: pool_measure_def)
qed

lemma pool_progress:
  assumes inv: "pool_inv build ask segments n p finished" "pool_complete segments p finished"
    and ok: "positions_ok segments n" "only_exceptions build ask segments" and live: "\<not> pool_finished segments p"
  shows "\<exists>p'. pool_step build ask p p'"
proof -
  obtain i where i: "i < length (pl_threads p)" "pl_threads p ! i \<noteq> Exited"
    using live by (auto simp: pool_finished_def in_set_conv_nth)
  show ?thesis
  proof (cases "working (pl_threads p)")
    case Nil
    then have w: "pl_threads p ! i = Waiting"
      using working_update [OF i(1), of Waiting] i(2) by (cases "pl_threads p ! i") auto
    have "pl_queue p \<noteq> []"
    proof
      assume "pl_queue p = []"
      then have "set finished = set segments" "distinct finished" "pl_success p = length finished"
        using inv Nil by (auto simp: pool_inv_def pool_complete_def)
      then show False using live ok(1) by (auto simp: pool_finished_def positions_ok_def distinct_card [symmetric])
    qed
    then obtain sg q where "pl_queue p = [] @ sg # q" by (cases "pl_queue p") auto
    then show ?thesis using pool_step.pop [OF i(1) w] by blast
  next
    case (Cons sg rest)
    then have "sg \<in> set (working (pl_threads p))" by simp
    then obtain j where j: "j < length (pl_threads p)" "pl_threads p ! j = Working sg"
      by (auto simp: working_def in_set_conv_nth split: thread.splits)
    have sg: "sg \<in> set segments" using inv(1) Cons by (auto simp: pool_inv_def)
    then obtain qs post r where b: "build sg = Ok (qs, post)" and r: "ask j qs post sg r"
      and "\<exists>x e. r = Ok x \<or> r = Err (Exception e)"
      using ok(2) unfolding only_exceptions_def by blast
    moreover have "unat (posInArray sg) < length (pl_answers p)"
      using ok(1) sg inv(1) by (simp add: positions_ok_def pool_inv_def)
    ultimately show ?thesis using pool_step.success [where build = build and ask = ask, OF j]
        pool_step.retry [where build = build and ask = ask, OF j] by blast
  qed
qed

lemma numbered_positions:
  assumes "numbered 0 sgs" and "length sgs < 2 ^ 64"
  shows "positions_ok sgs (length sgs)" and "k < length sgs \<Longrightarrow> unat (posInArray (sgs ! k)) = k"
proof -
  show pos: "k < length sgs \<Longrightarrow> unat (posInArray (sgs ! k)) = k" for k
    using assms by (simp add: numbered_def unat_of_nat_u64)
  have eq: "i = j" if "i < length sgs" "j < length sgs" "posInArray (sgs ! i) = posInArray (sgs ! j)" for i j
    using pos [OF that(1)] pos [OF that(2)] that(3) by metis
  have "distinct sgs" unfolding distinct_conv_nth using eq by metis
  moreover have "inj_on (\<lambda>sg. unat (posInArray sg)) (set sgs)"
  proof (rule inj_onI)
    fix x y assume "x \<in> set sgs" "y \<in> set sgs" and u: "unat (posInArray x) = unat (posInArray y)"
    then obtain i j where ij: "i < length sgs" "x = sgs ! i" "j < length sgs" "y = sgs ! j"
      by (metis in_set_conv_nth)
    then show "x = y" using pos [OF ij(1)] pos [OF ij(3)] u by simp
  qed
  ultimately show "positions_ok sgs (length sgs)" by (auto simp: positions_ok_def in_set_conv_nth pos)
qed

lemma pool_answers_each:
  assumes run: "(pool_step build ask)\<^sup>*\<^sup>* (pool_start k (length sgs) sgs) p" and num: "numbered 0 sgs" "length sgs < 2 ^ 64"
    and full: "pool_result sgs p"
  shows "length (pl_answers p) = length sgs" and "j < length sgs \<Longrightarrow> answered build ask (sgs ! j) (pl_answers p ! j)"
proof -
  obtain finished where inv: "pool_inv build ask sgs (length sgs) p finished"
    using pool_inv_reachable [OF run numbered_positions(1) [OF num]] by blast
  then show "length (pl_answers p) = length sgs" by (simp add: pool_inv_def)
  have all: "set finished = set sgs"
    by (rule pool_success_all [OF inv]) (use full numbered_positions(1) [OF num] in \<open>simp_all add: pool_result_def positions_ok_def\<close>)
  assume j: "j < length sgs"
  then have "answered build ask (sgs ! j) (pl_answers p ! unat (posInArray (sgs ! j)))" using inv all by (auto simp: pool_inv_def)
  then show "answered build ask (sgs ! j) (pl_answers p ! j)" by (simp only: numbered_positions(2) [OF num j])
qed

lemma pool_answers_concat:
  assumes run: "(pool_step build ask)\<^sup>*\<^sup>* (pool_start k (length sgs) sgs) p" and num: "numbered 0 sgs" "length sgs < 2 ^ 64"
    and full: "pool_result sgs p" and ans: "\<And>sg r. sg \<in> set sgs \<Longrightarrow> answered build ask sg r \<Longrightarrow> r = f sg"
  shows "pl_answers p = map f sgs"
  by (rule nth_equalityI) (simp_all add: pool_answers_each [OF run num full] ans [OF nth_mem pool_answers_each(2) [OF run num full]])

text \<open>A server that answers a request for a range with those bytes of the block, when it answers at all.\<close>

definition faithful_server ::
    "(string \<Rightarrow> string \<Rightarrow> string \<Rightarrow> string res \<Rightarrow> bool) \<Rightarrow> (size_t \<Rightarrow> size_t \<Rightarrow> (string \<times> string) res) \<Rightarrow> string \<Rightarrow>
     (string \<Rightarrow> responseParse) \<Rightarrow> string \<Rightarrow> string \<Rightarrow> bool" where
  "faithful_server net makeQsAndPost header responseParse server block \<longleftrightarrow>
     (\<forall>a b qs post url response. makeQsAndPost a b = Ok (qs, post) \<longrightarrow> request_url server qs = Ok url \<longrightarrow>
        net url post header (Ok response) \<longrightarrow> rp_error (responseParse response) = None \<longrightarrow>
        rp_response (responseParse response) = take (unat (b - a)) (drop (unat a) block))"

lemma requestFunction_answer:
  assumes faithful: "faithful_server net mk header responseParse server block"
    and "answered (\<lambda>sg. mk (fromByte sg) (toByte sg)) (requestFunction net c header responseParse prec server) sg r"
  shows "r = segment_bytes block sg"
proof -
  obtain i qs post where mk: "mk (fromByte sg) (toByte sg) = Ok (qs, post)"
    and req: "requestFunction net c header responseParse prec server i qs post sg (Ok r)"
    using assms(2) by (auto simp: answered_def)
  obtain response where c: "curl_request net qs post header server (Ok response)"
    and t: "take_response responseParse prec sg response = Ok r"
    using req by (auto simp: requestFunction_def rbind_Ok_iff split: if_splits) (metis rbind_Ok_iff)
  have "rp_error (responseParse response) = None" "r = rp_response (responseParse response)"
    using t by (auto simp: take_response_def Let_def rbind_Ok_iff split: option.splits)
  moreover obtain url where "request_url server qs = Ok url" "net url post header (Ok response)"
    using c by (auto simp: curl_request_def split: sum.splits)
  ultimately show ?thesis
    using faithful mk unfolding faithful_server_def segment_bytes_def by blast
qed

lemma countSegments_positive:
  assumes "0 < s" "s < 2 ^ 63" "conns \<noteq> 0" "1 \<le> minSize" "unat minSize < 2 ^ 63"
  shows "countSegments_of (of_nat s) minSize conns \<noteq> 0"
proof -
  have s: "unat (of_nat s :: size_t) = s" using assms(2) by (simp add: unat_of_nat_u64)
  have m: "1 \<le> unat minSize" using assms(4) by (simp add: word_le_nat_alt)
  have "unat (of_nat s + minSize - 1) = s + unat minSize - 1"
    using s m assms by (simp add: unat_word_ariths unat_sub word_le_nat_alt)
  then have "1 \<le> unat ((of_nat s + minSize - 1) div minSize)"
    using assms(1) m by (simp add: unat_div div_greater_zero_iff Suc_le_eq)
  then show ?thesis
    using assms(1,3) s by (auto simp: countSegments_of_def min_def unat_eq_zero [symmetric])
qed

lemma requestImpl_block:
  assumes req: "requestImpl net conns (size_of block) minSize prec mk header responseParse [server] r"
    and len: "0 < length block" "length block < 2 ^ 63" and conns: "conns \<noteq> 0" "1 \<le> minSize" "unat minSize < 2 ^ 63"
    and faithful: "faithful_server net mk header responseParse server block"
  shows "(\<exists>answers. r = Ok answers \<and> concat answers = block) \<or> r = Err (Exception ''dont run request'')"
proof -
  let ?n = "countSegments_of (size_of block) minSize conns"
  let ?build = "\<lambda>sg. mk (fromByte sg) (toByte sg)" and ?ask = "requestFunction net conns header responseParse prec server"
  have nz: "size_of block \<noteq> 0" by (rule size_of_nonzero) (use len in auto)
  have n: "?n \<noteq> 0" using countSegments_positive [OF len conns] by (simp add: size_of_def)
  have "min (size_of block) (max (size_of block div ?n) minSize) \<noteq> 0"
    using nz conns(2) by (auto simp: min_def max_def)
  then obtain sgs where sgs: "makeSegments ?n (size_of block) minSize = Ok sgs"
    using n by (simp add: makeSegments_def Let_def split_beta)
  have sz: "unat (size_of block) < 2 ^ 63" using len by simp
  note tl = makeSegments_tiles [OF sgs sz]
  obtain p where run: "(pool_step ?build ?ask)\<^sup>*\<^sup>* (pool_start (unat conns) (unat ?n) sgs) p"
    and r: "r = (if pool_result sgs p then Ok (pl_answers p) else Err (Exception ''dont run request''))"
    using req nz sgs by (auto simp: requestImpl_def Let_def)
  have small: "length sgs < 2 ^ 64" unfolding tl(2) by (rule unat_u64_less)
  show ?thesis
  proof (cases "pool_result sgs p")
    case True
    have "pl_answers p = map (segment_bytes block) sgs"
      using requestFunction_answer [OF faithful] by (intro pool_answers_concat [OF run [folded tl(2)] tl(3) small True]) blast
    then show ?thesis using r True tiles_bytes [OF tl(1), of block] len by simp
  qed (use r in simp)
qed

section \<open>Properties\<close>

text \<open>C7: A block that is fetched in pieces is put together right. Whatever order the threads work in, whichever of
  them fail and hand their piece to another, and however the sizes divide: when the server answers a range
  with those bytes of the block, the download returns exactly the block, or reports that it could not run.\<close>
theorem download_is_block:
  assumes "P2P_request net conns (size_of block) prec mk header responseParse [server] r" and "0 < length block"
    and "length block < 2 ^ 63" and "conns \<noteq> 0" and "faithful_server net mk header responseParse server block"
  shows "r = Ok block \<or> r = Err (Exception ''dont run request'')"
proof -
  obtain answers where a: "requestImpl net conns (size_of block) MIN_RESPONSE_SIZE prec mk header responseParse [server] answers"
    and r: "r = rbind answers (join_answers (size_of block) prec)"
    using assms(1) by (auto simp: P2P_request_def)
  have "1 \<le> MIN_RESPONSE_SIZE" "unat MIN_RESPONSE_SIZE < 2 ^ 63" by (simp_all add: MIN_RESPONSE_SIZE_def)
  from requestImpl_block [OF a assms(2-4) this assms(5)] show ?thesis
    by (auto simp: r join_answers_def Let_def)
qed

text \<open>A server with a block of three bytes, asked over one connection.\<close>

definition sample_net :: "string \<Rightarrow> string \<Rightarrow> string \<Rightarrow> string res \<Rightarrow> bool" where
  "sample_net url post header r \<longleftrightarrow> r = Ok ''abc''"

definition sample_mk :: "size_t \<Rightarrow> size_t \<Rightarrow> (string \<times> string) res" where
  "sample_mk a b = (if a = 0 \<and> b = 3 then Ok (''q'', ''p'') else Err Undefined)"

definition sample_parse :: "string \<Rightarrow> responseParse" where
  "sample_parse s = \<lparr>rp_response = s, rp_error = None\<rparr>"

lemmas sample_net_defs = sample_net_def sample_mk_def sample_parse_def

lemma sample_faithful: "faithful_server sample_net sample_mk [] sample_parse ''srv'' ''abc''"
  by (auto simp: faithful_server_def sample_net_defs split: if_splits)

lemma sample_download: "P2P_request sample_net 1 3 True sample_mk [] sample_parse [''srv''] (Ok ''abc'')"
proof -
  let ?sg = "\<lparr>fromByte = 0, toByte = 3, posInArray = 0\<rparr>"
  let ?build = "\<lambda>sg. sample_mk (fromByte sg) (toByte sg)"
    and ?ask = "requestFunction sample_net 1 [] sample_parse True ''srv''"
  let ?p0 = "pool_start 1 1 [?sg]" and ?p1 = "\<lparr>pl_queue = [], pl_threads = [Working ?sg], pl_success = 0, pl_answers = [[]]\<rparr>"
  let ?p2 = "\<lparr>pl_queue = [], pl_threads = [Waiting], pl_success = 1, pl_answers = [''abc'']\<rparr>"
  have "pool_step ?build ?ask ?p0 ?p1"
    using pool_step.pop [of 0 ?p0 "[]" ?sg "[]" ?build ?ask] by (simp add: pool_start_def)
  moreover have "pool_step ?build ?ask ?p1 ?p2"
    using pool_step.success [of 0 ?p1 ?sg ?build "''q''" "''p''" ?ask "''abc''"]
    by (simp add: sample_net_defs requestFunction_def curl_request_def request_url_def take_response_def size_of_def)
  ultimately have run: "(pool_step ?build ?ask)\<^sup>*\<^sup>* ?p0 ?p2" by simp
  have "makeSegments 1 3 1000 = Ok [?sg]" by (simp add: makeSegments_def)
  then have "requestImpl sample_net 1 3 MIN_RESPONSE_SIZE True sample_mk [] sample_parse [''srv''] (Ok [''abc''])"
    using run by (auto simp: requestImpl_def countSegments_of_def MIN_RESPONSE_SIZE_def pool_finished_def pool_result_def
        intro!: exI [of _ ?p2])
  then show ?thesis unfolding P2P_request_def
    by (intro exI [of _ "Ok [''abc'']"]) (simp add: join_answers_def size_of_def)
qed

theorem download_is_block_witness:
  "\<exists>r. P2P_request sample_net 1 3 True sample_mk [] sample_parse [''srv''] r \<and>
     (r = Ok ''abc'' \<or> r = Err (Exception ''dont run request''))"
proof (intro exI conjI)
  show "P2P_request sample_net 1 3 True sample_mk [] sample_parse [''srv''] (Ok ''abc'')" by (rule sample_download)
  show "(Ok ''abc'' :: string res) = Ok ''abc'' \<or> (Ok ''abc'' :: string res) = Err (Exception ''dont run request'')"
    by (rule download_is_block [of sample_net 1 "''abc''" True sample_mk "[]" sample_parse "''srv''"])
      (use sample_download sample_faithful in \<open>simp_all add: size_of_def\<close>)
qed


definition sample_ask :: "nat \<Rightarrow> string \<Rightarrow> string \<Rightarrow> segment \<Rightarrow> string res \<Rightarrow> bool" where
  "sample_ask i qs post sg r \<longleftrightarrow> r = Ok ''x'' \<or> r = Err (Exception ''down'')"


text \<open>The segments of a download partition it. For a download of fewer than $2^{63}$ bytes the requested number of segments
  is made, numbered in order; the first begins at byte 0, each next one where the one before ends, none reaches behind the
  end and the last ends there, so no byte is asked for twice and none is left out. (A segment may be empty.)\<close>
lemma segments_partition:
  assumes "countSegments \<noteq> 0" and "minSize \<noteq> 0" and "sz \<noteq> 0" and "unat sz < 2 ^ 63"
  shows "\<exists>sgs. makeSegments countSegments sz minSize = Ok sgs \<and> length sgs = unat countSegments \<and> toByte (last sgs) = sz \<and>
    (\<forall>i<length sgs. posInArray (sgs ! i) = of_nat i \<and> fromByte (sgs ! i) = (if i = 0 then 0 else toByte (sgs ! (i - 1))) \<and>
       fromByte (sgs ! i) \<le> toByte (sgs ! i) \<and> toByte (sgs ! i) \<le> sz)"
proof -
  have "min sz (max (sz div countSegments) minSize) \<noteq> 0" using assms(2,3) by (auto simp: min_def max_def)
  then have "\<exists>sgs. makeSegments countSegments sz minSize = Ok sgs"
    using assms(1) by (simp add: makeSegments_def Let_def CHECK_def split: prod.split)
  then obtain sgs where sgs: "makeSegments countSegments sz minSize = Ok sgs" by blast
  note t = makeSegments_tiles [OF sgs assms(4)]
  have "sgs \<noteq> []" using t(2) assms(1) by (auto simp: unat_eq_0)
  then have "toByte (last sgs) = sz" by (rule tiles_last [OF t(1)])
  moreover have "\<forall>i<length sgs. posInArray (sgs ! i) = of_nat i" using t(3) by (simp add: numbered_def)
  ultimately show ?thesis using sgs t(2) tiles_nth [OF t(1)] by blast
qed

lemma segments_partition_example:
  "\<exists>sgs. makeSegments 3 2500 1000 = Ok sgs \<and> length sgs = 3 \<and> toByte (last sgs) = 2500"
  using segments_partition [of 3 1000 2500] by auto

text \<open>C37: A segment can get lost. An error other than the exception of \<open>CHECK\<close> in a request ends the thread without
  putting its segment back; if another thread is waiting on the empty queue then, nothing can happen any more, and
  the caller waits for ever: neither is every segment answered nor has every thread ended.\<close>
theorem lost_segment_blocks:
  assumes "build sg = Ok (qs, post)" and "ask 0 qs post sg (Err (StdException e))"
  shows "\<exists>p. (pool_step build ask)\<^sup>*\<^sup>* (pool_start 2 1 [sg]) p \<and> \<not> pool_finished [sg] p \<and> (\<nexists>p'. pool_step build ask p p')"
proof -
  let ?p0 = "pool_start 2 1 [sg]" and ?p1 = "\<lparr>pl_queue = [], pl_threads = [Working sg, Waiting], pl_success = 0, pl_answers = [[]]\<rparr>"
  let ?p2 = "\<lparr>pl_queue = [], pl_threads = [Exited, Waiting], pl_success = 0, pl_answers = [[]]\<rparr>"
  have "pool_step build ask ?p0 ?p1"
    using pool_step.pop [of 0 ?p0 "[]" sg "[]" build ask] by (simp add: pool_start_def numeral_2_eq_2)
  moreover have "pool_step build ask ?p1 ?p2"
    using pool_step.lost_request [of 0 ?p1 sg build qs post ask e] assms by simp
  ultimately have "(pool_step build ask)\<^sup>*\<^sup>* ?p0 ?p2" by simp
  moreover have "\<not> pool_step build ask ?p2 p'" for p'
    by (auto elim!: pool_step.cases simp: less_Suc_eq)
  ultimately show ?thesis by (intro exI [of _ ?p2]) (simp add: pool_finished_def)
qed

theorem lost_segment_blocks_witness:
  "\<exists>p. (pool_step (\<lambda>_. Ok (''q'', ''p'')) (\<lambda>_ _ _ _ r. r = Err (StdException ''bad_alloc'')))\<^sup>*\<^sup>*
      (pool_start 2 1 [\<lparr>fromByte = 0, toByte = 3, posInArray = 0\<rparr>]) p \<and>
    \<not> pool_finished [\<lparr>fromByte = 0, toByte = 3, posInArray = 0\<rparr>] p \<and>
    (\<nexists>p'. pool_step (\<lambda>_. Ok (''q'', ''p'')) (\<lambda>_ _ _ _ r. r = Err (StdException ''bad_alloc'')) p p')"
  by (rule lost_segment_blocks) simp_all

end
