(* ===== verification/PeerRequests.thy ===== *)
theory PeerRequests
  imports P2P
begin

text \<open>
  What the clients of \<^verbatim>\<open>P2P::requests\<close> rely on, as a locale: a list of answers holds, at every number, a response of the
  server to the request with that number. The interpretation shows it for \<open>requests\<close> of \<^verbatim>\<open>P2P_Graph.cpp\<close> with any
  network and any number of connections; the facts on a network that always answers show that answers come.
\<close>

section \<open>Segments of one request each\<close>

definition unit_segment :: "nat \<Rightarrow> segment" where
  "unit_segment k = \<lparr>fromByte = of_nat k, toByte = of_nat k + 1, posInArray = of_nat k\<rparr>"

definition unit_segments :: "nat \<Rightarrow> nat \<Rightarrow> segment list" where
  "unit_segments i n = map unit_segment [i..<i + n]"

lemma unit_segments_simps [simp]:
  "unit_segments i 0 = []" "unit_segments i (Suc n) = unit_segment i # unit_segments (Suc i) n" "length (unit_segments i n) = n"
  by (simp_all add: unit_segments_def upt_conv_Cons del: upt_Suc)

lemma unit_segments_snoc: "unit_segments i (Suc n) = unit_segments i n @ [unit_segment (i + n)]"
  by (simp add: unit_segments_def)

lemma makeSegments_loop_units:
  "i + n \<le> unat sz \<Longrightarrow> makeSegments_loop n (of_nat i) 1 sz (of_nat i) = (unit_segments i n, of_nat (i + n))"
proof (induction n arbitrary: i)
  case (Suc n)
  have "unat (of_nat i + 1 :: size_t) = i + 1"
    using Suc.prems unat_u64_less [of sz] unat_of_nat_u64 [of "i + 1"] by (simp add: add.commute)
  then have m: "min (of_nat i + 1) sz = of_nat i + 1" using Suc.prems by (simp add: min_def word_le_nat_alt)
  have "makeSegments_loop n (of_nat i + 1) 1 sz (of_nat i + 1) = (unit_segments (Suc i) n, of_nat (i + Suc n))"
    using Suc.IH [of "Suc i"] Suc.prems by (simp add: add.commute)
  then show ?case by (simp add: m unit_segment_def del: of_nat_add)
qed simp

lemma makeSegments_units:
  assumes "n \<noteq> 0"
  shows "makeSegments n n 1 = Ok (unit_segments 0 (unat n))"
proof -
  obtain k where k: "unat n = Suc k" using assms by (metis not0_implies_Suc unat_eq_zero)
  have "n = of_nat (unat n)" by simp
  then have n: "n = of_nat k + 1" unfolding k by (simp add: add.commute)
  have d: "unat (n - 1) = k" using k assms by (simp add: unat_minus_one)
  have "1 \<le> n" "n div n = 1" using k assms by (simp_all add: word_le_nat_alt word_arith_nat_div)
  then have "min n (max (n div n) 1) = 1" by (simp add: min_def)
  moreover have "makeSegments_loop k 0 1 n 0 = (unit_segments 0 k, of_nat k)" using makeSegments_loop_units [of 0 k n] k by simp
  moreover have "n - 1 = of_nat k" "of_nat k + 1 = n" using n by simp_all
  ultimately show ?thesis
    using assms d by (simp add: makeSegments_def k unit_segments_snoc unit_segment_def Let_def del: unit_segments_simps(2))
qed

lemma numbered_units: "numbered 0 (unit_segments 0 n)"
  by (simp add: numbered_def unit_segments_def unit_segment_def)

text \<open>The requests of \<open>P2P_Graph::requests\<close>: one for each number.\<close>

abbreviation one_request :: "(size_t \<Rightarrow> (string \<times> string) res) \<Rightarrow> size_t \<Rightarrow> size_t \<Rightarrow> (string \<times> string) res" where
  "one_request mk \<equiv> (\<lambda>from to. rbind (CHECK (to = from + 1) ''Incorrect call makeQsAndPortFunc'') (\<lambda>_. mk from))"

text \<open>A response of the server to a request that is acceptable for the client.\<close>

definition responds ::
    "(string \<Rightarrow> string \<Rightarrow> string \<Rightarrow> string \<Rightarrow> string res \<Rightarrow> bool) \<Rightarrow> (string \<times> string) res \<Rightarrow> string \<Rightarrow> (string \<Rightarrow> responseParse) \<Rightarrow>
     string \<Rightarrow> string \<Rightarrow> bool" where
  "responds curl request header parse server answer \<longleftrightarrow>
     (\<exists>qs post response. request = Ok (qs, post) \<and> curl qs post header server (Ok response) \<and>
        rp_error (parse response) = None \<and> answer = rp_response (parse response))"

lemma answered_responds:
  assumes "answered (\<lambda>sg. one_request mk (fromByte sg) (toByte sg)) (requestFunction net c header parse False server) (unit_segment k) r"
  shows "responds (curl_request net) (mk (of_nat k)) header parse server r"
proof -
  obtain i qs post where mk: "mk (of_nat k) = Ok (qs, post)"
    and req: "requestFunction net c header parse False server i qs post (unit_segment k) (Ok r)"
    using assms by (auto simp: answered_def unit_segment_def)
  obtain response where "curl_request net qs post header server (Ok response)"
    and "take_response parse False (unit_segment k) response = Ok r"
    using req by (auto simp: requestFunction_def rbind_Ok_iff split: if_splits) (metis rbind_Ok_iff)
  then show ?thesis
    using mk by (auto simp: responds_def take_response_def Let_def split: option.splits)
qed

lemma P2P_requests_answers:
  assumes "P2P_requests net conns n mk header parse [server] (Ok answers)"
  shows "length answers = unat n \<and> (\<forall>k<length answers. responds (curl_request net) (mk (of_nat k)) header parse server (answers ! k))"
proof -
  let ?build = "\<lambda>sg. one_request mk (fromByte sg) (toByte sg)" and ?ask = "requestFunction net conns header parse False server"
  let ?sgs = "unit_segments 0 (unat n)"
  have n: "n \<noteq> 0" using assms by (auto simp: P2P_requests_def requestImpl_def rbind_Ok_iff)
  have cs: "countSegments_of n 1 conns = n" by (simp add: countSegments_of_def)
  obtain p where run: "(pool_step ?build ?ask)\<^sup>*\<^sup>* (pool_start (unat conns) (length ?sgs) ?sgs) p"
    and full: "pool_result ?sgs p" and a: "answers = pl_answers p"
    using assms n by (auto simp: P2P_requests_def requestImpl_def rbind_Ok_iff cs makeSegments_units CHECK_def Let_def split: if_splits)
  note num = numbered_units [of "unat n"]
  have small: "length ?sgs < 2 ^ 64" using unat_u64_less [of n] by simp
  note each = pool_answers_each [OF run num small full]
  have "responds (curl_request net) (mk (of_nat k)) header parse server (pl_answers p ! k)" if "k < unat n" for k
    using each(2) [of k] that by (intro answered_responds [of mk net conns]) (simp add: unit_segments_def)
  then show ?thesis using each(1) by (simp add: a)
qed

section \<open>The interface\<close>

locale peer_requests =
  fixes requests :: "size_t \<Rightarrow> (size_t \<Rightarrow> (string \<times> string) res) \<Rightarrow> string \<Rightarrow> (string \<Rightarrow> responseParse) \<Rightarrow> string list \<Rightarrow>
      string list res \<Rightarrow> bool"
    and curl :: "string \<Rightarrow> string \<Rightarrow> string \<Rightarrow> string \<Rightarrow> string res \<Rightarrow> bool"
  assumes requests_answers: "requests n mk header parse [server] (Ok answers) \<Longrightarrow>
      length answers = unat n \<and> (\<forall>k<length answers. responds curl (mk (of_nat k)) header parse server (answers ! k))"
begin

lemma answers_are:
  assumes "requests n mk header parse [server] (Ok answers)"
    and "\<And>k a. k < unat n \<Longrightarrow> responds curl (mk (of_nat k)) header parse server a \<Longrightarrow> a = f k"
  shows "answers = map f [0..<unat n]"
  using requests_answers [OF assms(1)] assms(2) by (intro nth_equalityI) auto

lemma answers_satisfy:
  assumes "requests n mk header parse [server] (Ok answers)"
    and "\<And>k a. k < unat n \<Longrightarrow> responds curl (mk (of_nat k)) header parse server a \<Longrightarrow> P k a" and "k < unat n"
  shows "P k (answers ! k)"
  using requests_answers [OF assms(1)] assms(2,3) by auto

lemma request_made:
  assumes "requests n mk header parse [server] (Ok answers)" and "k < unat n"
  shows "\<exists>qs post. mk (of_nat k) = Ok (qs, post)"
  using requests_answers [OF assms(1)] assms(2) by (auto simp: responds_def)

end

interpretation graph_peers: peer_requests "P2P_requests net conns" "curl_request net" for net conns
  by unfold_locales (rule P2P_requests_answers)

section \<open>Answers come\<close>

text \<open>Every run of the pool can be carried on to its end.\<close>

lemma pool_run_ends: "\<exists>p'. (pool_step build ask)\<^sup>*\<^sup>* p p' \<and> (\<nexists>q. pool_step build ask p' q)"
proof (induction "pool_measure p" arbitrary: p rule: less_induct)
  case less
  show ?case
  proof (cases "\<exists>q. pool_step build ask p q")
    case True
    then obtain q where "pool_step build ask p q" by blast
    then show ?thesis using less [OF pool_measure_step] converse_rtranclp_into_rtranclp by metis
  qed blast
qed

text \<open>Requests that never fail.\<close>

definition always_answered ::
    "(segment \<Rightarrow> (string \<times> string) res) \<Rightarrow> (nat \<Rightarrow> string \<Rightarrow> string \<Rightarrow> segment \<Rightarrow> string res \<Rightarrow> bool) \<Rightarrow> nat \<Rightarrow> segment list \<Rightarrow> bool" where
  "always_answered build ask k segments \<longleftrightarrow>
     (\<forall>sg\<in>set segments. \<exists>qs post. build sg = Ok (qs, post) \<and>
        (\<forall>i<k. \<exists>r. ask i qs post sg (Ok r)) \<and> (\<forall>i<k. \<forall>e. \<not> ask i qs post sg (Err e)))"

lemma working_member: "i < length ts \<Longrightarrow> ts ! i = Working sg \<Longrightarrow> sg \<in> set (working ts)"
  by (auto simp: working_def intro!: bexI [of _ "Working sg"] dest: nth_mem)

lemma no_thread_exits:
  assumes "(pool_step build ask)\<^sup>*\<^sup>* (pool_start k n sgs) p" and "positions_ok sgs n" and "always_answered build ask k sgs"
  shows "length (pl_threads p) = k \<and> Exited \<notin> set (pl_threads p)"
  using assms(1)
proof (induction rule: rtranclp_induct)
  case base
  show ?case by (simp add: pool_start_def)
next
  case (step p q)
  obtain finished where inv: "pool_inv build ask sgs n p finished" using pool_inv_reachable [OF step.hyps(1) assms(2)] by blast
  have fail: "False" if "i < length (pl_threads p)" "pl_threads p ! i = Working sg"
    "build sg = Err e \<or> (\<exists>qs post. build sg = Ok (qs, post) \<and> ask i qs post sg (Err e))" for i sg e
  proof -
    have "sg \<in> set sgs" using working_member [OF that(1,2)] inv by (auto simp: pool_inv_def)
    then show False using assms(3) that step.IH unfolding always_answered_def by fastforce
  qed
  show ?case
    using step.hyps(2)
  proof (cases rule: pool_step.cases)
    case (pop i q sg q')
    then show ?thesis using step.IH by (auto dest: set_update_subset_insert [THEN subsetD])
  next
    case (success i sg qs post r)
    then show ?thesis using step.IH by (auto dest: set_update_subset_insert [THEN subsetD])
  qed (use fail in blast)+
qed

lemma always_answered_exceptions:
  assumes "always_answered build (requestFunction net conns header parse prec server) (unat conns) sgs"
  shows "only_exceptions build (requestFunction net conns header parse prec server) sgs"
  unfolding only_exceptions_def
proof
  fix sg assume "sg \<in> set sgs"
  then obtain qs post where b: "build sg = Ok (qs, post)"
    and ok: "\<forall>i<unat conns. (\<exists>r. requestFunction net conns header parse prec server i qs post sg (Ok r)) \<and>
      (\<forall>e. \<not> requestFunction net conns header parse prec server i qs post sg (Err e))"
    using assms unfolding always_answered_def by blast
  have "(\<exists>r. requestFunction net conns header parse prec server i qs post sg r) \<and>
      (\<forall>r. requestFunction net conns header parse prec server i qs post sg r \<longrightarrow> (\<exists>x e. r = Ok x \<or> r = Err (Exception e)))" for i
  proof (cases "i < unat conns")
    case True
    have "r = Ok (projr r)" if "requestFunction net conns header parse prec server i qs post sg r" for r
      using ok True that by (cases r) auto
    then show ?thesis using ok True by metis
  next
    case False
    then show ?thesis by (auto simp: requestFunction_def)
  qed
  then show "\<exists>qs post. build sg = Ok (qs, post) \<and> (\<forall>i. (\<exists>r. requestFunction net conns header parse prec server i qs post sg r) \<and>
      (\<forall>r. requestFunction net conns header parse prec server i qs post sg r \<longrightarrow> (\<exists>x e. r = Ok x \<or> r = Err (Exception e))))"
    using b by blast
qed

lemma served:
  assumes "always_answered (\<lambda>sg. one_request mk (fromByte sg) (toByte sg)) (requestFunction net conns header parse False server)
      (unat conns) (unit_segments 0 (unat n))" and "conns \<noteq> 0" and "n \<noteq> 0"
  shows "\<exists>answers. P2P_requests net conns n mk header parse [server] (Ok answers)"
proof -
  let ?build = "\<lambda>sg. one_request mk (fromByte sg) (toByte sg)" and ?ask = "requestFunction net conns header parse False server"
  let ?sgs = "unit_segments 0 (unat n)"
  have small: "length ?sgs < 2 ^ 64" using unat_u64_less [of n] by simp
  have pos: "positions_ok ?sgs (unat n)" using numbered_positions(1) [OF numbered_units small] by simp
  obtain p where run: "(pool_step ?build ?ask)\<^sup>*\<^sup>* (pool_start (unat conns) (unat n) ?sgs) p" and stop: "\<nexists>q. pool_step ?build ?ask p q"
    using pool_run_ends by blast
  obtain finished where "pool_inv ?build ?ask ?sgs (unat n) p finished" "pool_complete ?sgs p finished"
    using pool_inv_reachable [OF run pos] always_answered_exceptions [OF assms(1)] by blast
  then have fin: "pool_finished ?sgs p" and len: "length (pl_answers p) = unat n"
    using pool_progress [OF _ _ pos always_answered_exceptions [OF assms(1)]] stop by (auto simp: pool_inv_def)
  have "length (pl_threads p) = unat conns" "Exited \<notin> set (pl_threads p)" using no_thread_exits [OF run pos assms(1)] by simp_all
  then have "pool_result ?sgs p"
    using fin assms(2) by (cases "pl_threads p") (auto simp: pool_finished_def pool_result_def unat_eq_zero)
  then have "requestImpl net conns n 1 False (one_request mk) header parse [server] (Ok (pl_answers p))"
    using run fin assms(3) by (auto simp: requestImpl_def makeSegments_units countSegments_of_def Let_def)
  moreover have "size_of (pl_answers p) = n" by (simp add: size_of_def len)
  ultimately show ?thesis
    unfolding P2P_requests_def by (intro exI [of _ "pl_answers p"] exI [of _ "Ok (pl_answers p)"]) simp
qed

section \<open>Properties\<close>

text \<open>The text that a server which always answers, with \<open>srv\<close>, gives to a request.\<close>

definition reply :: "(string \<Rightarrow> string \<Rightarrow> string) \<Rightarrow> string \<Rightarrow> (string \<times> string) res \<Rightarrow> string" where
  "reply srv server request =
     (case request of Inl e \<Rightarrow> [] | Inr (qs, post) \<Rightarrow> (case request_url server qs of Inl e \<Rightarrow> [] | Inr url \<Rightarrow> srv url post))"

lemma responds_reply:
  assumes "server \<noteq> []" and "\<forall>url post r. net url post header r \<longleftrightarrow> r = Ok (srv url post)"
    and "responds (curl_request net) request header parse server a"
  shows "a = rp_response (parse (reply srv server request))"
  using assms by (auto simp: responds_def curl_request_def reply_def request_url_def)

lemma reply_always_answered:
  assumes "server \<noteq> []" and "\<forall>url post r. net url post header r \<longleftrightarrow> r = Ok (srv url post)" and "\<forall>s. rp_error (parse s) = None"
    and "\<forall>k<n. \<exists>qs post. mk (of_nat k) = Ok (qs, post)"
  shows "always_answered (\<lambda>sg. one_request mk (fromByte sg) (toByte sg)) (requestFunction net conns header parse False server)
    (unat conns) (unit_segments 0 n)"
  unfolding always_answered_def
proof
  fix sg assume "sg \<in> set (unit_segments 0 n)"
  then obtain k where k: "k < n" "sg = unit_segment k" by (auto simp: unit_segments_def)
  then obtain qs post where "mk (of_nat k) = Ok (qs, post)" using assms(4) by blast
  then show "\<exists>qs post. one_request mk (fromByte sg) (toByte sg) = Ok (qs, post) \<and>
      (\<forall>i<unat conns. \<exists>r. requestFunction net conns header parse False server i qs post sg (Ok r)) \<and>
      (\<forall>i<unat conns. \<forall>e. \<not> requestFunction net conns header parse False server i qs post sg (Err e))"
    using assms(1-3) by (intro exI [of _ qs] exI [of _ post])
      (auto simp: k(2) unit_segment_def requestFunction_def curl_request_def request_url_def take_response_def Let_def)
qed

lemma requests_exact:
  assumes "server \<noteq> []" and "\<forall>url post r. net url post header r \<longleftrightarrow> r = Ok (srv url post)" and "\<forall>s. rp_error (parse s) = None"
    and "\<forall>k<unat n. \<exists>qs post. mk (of_nat k) = Ok (qs, post)" and "conns \<noteq> 0" and "n \<noteq> 0"
  shows "P2P_requests net conns n mk header parse [server] r \<longleftrightarrow>
    r = Ok (map (\<lambda>k. rp_response (parse (reply srv server (mk (of_nat k))))) [0..<unat n])"
proof -
  let ?build = "\<lambda>sg. one_request mk (fromByte sg) (toByte sg)" and ?ask = "requestFunction net conns header parse False server"
  let ?sgs = "unit_segments 0 (unat n)" and ?answers = "map (\<lambda>k. rp_response (parse (reply srv server (mk (of_nat k))))) [0..<unat n]"
  note all = reply_always_answered [where srv = srv and net = net and header = header and mk = mk and parse = parse and conns = conns, OF assms(1-4)]
  have only: "answers = ?answers" if "P2P_requests net conns n mk header parse [server] (Ok answers)" for answers
    by (rule graph_peers.answers_are [OF that]) (rule responds_reply [where srv = srv and net = net and header = header, OF assms(1,2)])
  have "\<exists>answers. r = Ok answers" if req: "P2P_requests net conns n mk header parse [server] r"
  proof -
    have small: "length ?sgs < 2 ^ 64" using unat_u64_less [of n] by simp
    have pos: "positions_ok ?sgs (unat n)" using numbered_positions(1) [OF numbered_units small] by simp
    obtain p where run: "(pool_step ?build ?ask)\<^sup>*\<^sup>* (pool_start (unat conns) (unat n) ?sgs) p" and fin: "pool_finished ?sgs p"
      and r: "r = rbind (if pool_result ?sgs p then Ok (pl_answers p) else Err (Exception ''dont run request''))
        (\<lambda>answers. rbind (CHECK (size_of answers = n) ''Incorrect count answers'') (\<lambda>_. Ok answers))"
      using req assms(6) by (auto simp: P2P_requests_def requestImpl_def makeSegments_units countSegments_of_def Let_def)
    have "length (pl_threads p) = unat conns" "Exited \<notin> set (pl_threads p)" using no_thread_exits [OF run pos all] by simp_all
    then have full: "pool_result ?sgs p"
      using fin assms(5) by (cases "pl_threads p") (auto simp: pool_finished_def pool_result_def unat_eq_zero)
    obtain finished where "pool_inv ?build ?ask ?sgs (unat n) p finished" using pool_inv_reachable [OF run pos] by blast
    then have "size_of (pl_answers p) = n" by (simp add: pool_inv_def size_of_def)
    then show ?thesis using full by (simp add: r)
  qed
  then show ?thesis using only served [OF all assms(5,6)] by blast
qed



end
