(* ===== verification/Graph.thy ===== *)
theory Graph
  imports P2P
begin

text \<open>
  \<^verbatim>\<open>src/src/utils/Graph.cpp\<close> and the rest of \<^verbatim>\<open>src/src/P2P/P2P_Graph.cpp\<close>: the tree of servers and the broadcast that
  walks it upwards. The elements live in a deque and never move; a pointer to one is its index. The network is
  an argument: the outcome of a request in a state of the world, and the next state of the world.
\<close>

section \<open>The graph\<close>

record graphElement =
  ge_element :: string
  ge_parent :: "nat option"

type_synonym graph = "graphElement list"

definition find_index :: "string \<Rightarrow> graph \<Rightarrow> nat option" where
  "find_index x g = (case filter (\<lambda>i. ge_element (g ! i) = x) [0..<length g] of [] \<Rightarrow> None | i # _ \<Rightarrow> Some i)"

definition findOrAdd :: "string \<Rightarrow> graph \<Rightarrow> graph \<times> nat" where
  "findOrAdd x g =
     (case find_index x g of
        Some i \<Rightarrow> (g, i)
      | None \<Rightarrow> (g @ [\<lparr>ge_element = x, ge_parent = None\<rparr>], length g))"

definition addEdge :: "string \<Rightarrow> string \<Rightarrow> graph \<Rightarrow> graph \<times> unit res" where
  "addEdge parent child g =
     (let (g, first) = findOrAdd parent g;
          (g, second) = findOrAdd child g
      in if ge_parent (g ! second) \<noteq> None then (g, Err (Exception (''Child '' @ child @ '' already has a parent'')))
         else (g[second := (g ! second)\<lparr>ge_parent := Some first\<rparr>], Ok ()))"

definition findElement :: "string \<Rightarrow> graph \<Rightarrow> nat res" where
  "findElement x g =
     (case find_index x g of
        None \<Rightarrow> Err (Exception (''Element '' @ x @ '' not found in graph''))
      | Some i \<Rightarrow> Ok i)"

definition isParent :: "graphElement \<Rightarrow> bool" where
  "isParent e \<longleftrightarrow> ge_parent e \<noteq> None"

definition getParent :: "graphElement \<Rightarrow> nat res" where
  "getParent e =
     (case ge_parent e of
        None \<Rightarrow> Err (Exception (''Not parent in element '' @ ge_element e))
      | Some i \<Rightarrow> Ok i)"

definition getAllElements :: "graph \<Rightarrow> string list" where
  "getAllElements g = map ge_element g"

section \<open>The client of a graph\<close>

record p2pGraph =
  pg_graph :: graph
  pg_parent :: nat
  pg_countConnections :: size_t

fun addEdges :: "(string \<times> string) list \<Rightarrow> graph \<Rightarrow> graph res" where
  "addEdges [] g = Ok g"
| "addEdges ((parent, child) # edges) g =
     (case addEdge parent child g of (g, Inl e) \<Rightarrow> Err e | (g, Inr _) \<Rightarrow> addEdges edges g)"

definition P2P_Graph_new :: "(string \<times> string) list \<Rightarrow> string \<Rightarrow> size_t \<Rightarrow> p2pGraph res" where
  "P2P_Graph_new graphVec thisIp countConnections =
     rbind (CHECK (countConnections \<noteq> 0) ''Incorrect count connections: 0'') (\<lambda>_.
     rbind (addEdges graphVec []) (\<lambda>g.
     rbind (findElement thisIp g) (\<lambda>this.
     rbind (getParent (g ! this)) (\<lambda>parent.
     Ok \<lparr>pg_graph = g, pg_parent = parent, pg_countConnections = countConnections\<rparr>))))"

text \<open>A call of the broadcast callback: the server, the response, and the error when there was none.\<close>

type_synonym broadcastCall = "string \<times> string \<times> string option"

text \<open>The broadcast: from the parent upwards until a server answers. It returns the calls it made. The loop is
  not bounded by the source; with no fuel left the value is \<open>None\<close>.\<close>

fun broadcast_loop ::
    "nat \<Rightarrow> (string \<Rightarrow> 'w \<Rightarrow> 'w \<times> string res) \<Rightarrow> graph \<Rightarrow> nat \<Rightarrow> 'w \<Rightarrow> broadcastCall list \<Rightarrow>
     ('w \<times> broadcastCall list \<times> unit res) option" where
  "broadcast_loop 0 ask g curServ w calls = None"
| "broadcast_loop (Suc fuel) ask g curServ w calls =
     (let server = ge_element (g ! curServ)
      in case ask server w of
           (w, Inr response) \<Rightarrow> Some (w, calls @ [(server, response, None)], Ok ())
         | (w, Inl (Exception e)) \<Rightarrow>
             let calls = calls @ [(server, [], Some e)]
             in if \<not> isParent (g ! curServ) then Some (w, calls, Err (Exception ''Servers end''))
                else (case getParent (g ! curServ) of
                        Inl e \<Rightarrow> Some (w, calls, Err e)
                      | Inr next_server \<Rightarrow> broadcast_loop fuel ask g next_server w calls)
         | (w, Inl e) \<Rightarrow> Some (w, calls, Err e))"

definition Graph_broadcast ::
    "nat \<Rightarrow> (string \<Rightarrow> 'w \<Rightarrow> 'w \<times> string res) \<Rightarrow> p2pGraph \<Rightarrow> 'w \<Rightarrow> ('w \<times> broadcastCall list \<times> unit res) option" where
  "Graph_broadcast fuel ask pg w =
     (if pg_countConnections pg = 0 then Some (w, [], Err (Exception ''Curls empty''))
      else broadcast_loop fuel ask (pg_graph pg) (pg_parent pg) w [])"

section \<open>The graph of a list of edges\<close>

text \<open>Every name stands in the graph once, and every parent is in the graph.\<close>

definition graph_ok :: "graph \<Rightarrow> bool" where
  "graph_ok g \<longleftrightarrow> distinct (map ge_element g) \<and> (\<forall>e\<in>set g. \<forall>j. ge_parent e = Some j \<longrightarrow> j < length g)"

text \<open>The edges of a graph, as pairs of names.\<close>

definition graph_edges :: "graph \<Rightarrow> (string \<times> string) set" where
  "graph_edges g = {(ge_element (g ! j), ge_element e) | e j. e \<in> set g \<and> ge_parent e = Some j}"

lemma find_index_Some: "find_index x g = Some i \<Longrightarrow> i < length g \<and> ge_element (g ! i) = x"
proof -
  assume "find_index x g = Some i"
  then obtain js where "filter (\<lambda>i. ge_element (g ! i) = x) [0..<length g] = i # js"
    by (auto simp: find_index_def split: list.splits)
  then have "i \<in> set (filter (\<lambda>i. ge_element (g ! i) = x) [0..<length g])" by simp
  then show ?thesis by simp
qed

lemma find_index_None: "find_index x g = None \<Longrightarrow> x \<notin> ge_element ` set g"
  by (force simp: find_index_def in_set_conv_nth filter_empty_conv split: list.splits)

lemma graph_edges_at:
  "graph_edges g = {(ge_element (g ! k), ge_element (g ! m)) | m k. m < length g \<and> ge_parent (g ! m) = Some k}"
  by (auto simp: graph_edges_def in_set_conv_nth)

lemma graph_okD: "graph_ok g \<Longrightarrow> m < length g \<Longrightarrow> ge_parent (g ! m) = Some k \<Longrightarrow> k < length g"
  by (auto simp: graph_ok_def)

lemma findOrAdd_props:
  assumes "findOrAdd x g = (g', i)" and "graph_ok g"
  shows "graph_ok g' \<and> i < length g' \<and> ge_element (g' ! i) = x \<and> graph_edges g' = graph_edges g \<and>
    (\<exists>new. g' = g @ new)"
proof (cases "find_index x g")
  case (Some j)
  then show ?thesis using assms find_index_Some [OF Some] by (simp add: findOrAdd_def)
next
  case None
  then have g': "g' = g @ [\<lparr>ge_element = x, ge_parent = None\<rparr>]" "i = length g" using assms(1) by (auto simp: findOrAdd_def)
  have "graph_ok g'" using assms(2) find_index_None [OF None] by (auto simp: g' graph_ok_def less_SucI)
  moreover have "graph_edges g' = graph_edges g"
    unfolding graph_edges_at using graph_okD [OF assms(2)]
    by (auto simp: g' nth_append less_Suc_eq)
  ultimately show ?thesis by (simp add: g')
qed

text \<open>An edge that is accepted joins the edges of the graph.\<close>

lemma graph_edges_set_parent:
  assumes "graph_ok g" and "j < length g" and "i < length g" and "ge_parent (g ! j) = None"
  shows "graph_edges (g[j := (g ! j)\<lparr>ge_parent := Some i\<rparr>]) = insert (ge_element (g ! i), ge_element (g ! j)) (graph_edges g)"
    (is "graph_edges ?g = _")
proof -
  have name: "ge_element (?g ! k) = ge_element (g ! k)" for k by (cases "k = j") (simp_all add: assms(2))
  have par: "m < length g \<and> ge_parent (?g ! m) = Some k \<longleftrightarrow> m = j \<and> k = i \<or> m < length g \<and> ge_parent (g ! m) = Some k" for m k
    using assms(2,4) by (auto simp: nth_list_update)
  show ?thesis unfolding graph_edges_at [of ?g] graph_edges_at [of g] name length_list_update par by auto
qed

lemma addEdge_Ok:
  assumes "addEdge parent child g = (g', Ok ())" and "graph_ok g"
  shows "graph_ok g' \<and> graph_edges g' = insert (parent, child) (graph_edges g)"
proof -
  obtain g1 i where f: "findOrAdd parent g = (g1, i)" by fastforce
  obtain g2 j where s: "findOrAdd child g1 = (g2, j)" by fastforce
  note p1 = findOrAdd_props [OF f assms(2)]
  then have p2: "graph_ok g2" "j < length g2" "ge_element (g2 ! j) = child" "graph_edges g2 = graph_edges g1" "\<exists>new. g2 = g1 @ new"
    using findOrAdd_props [OF s] by auto
  have i: "i < length g2" "ge_element (g2 ! i) = parent" using p1 p2(5) by (auto simp: nth_append)
  have g': "g' = g2[j := (g2 ! j)\<lparr>ge_parent := Some i\<rparr>]" and none: "ge_parent (g2 ! j) = None"
    using assms(1) by (auto simp: addEdge_def f s split: if_splits)
  have "map ge_element g' = map ge_element g2" by (rule nth_equalityI) (simp_all add: g' nth_list_update p2(2))
  moreover have "\<forall>e\<in>set g'. \<forall>k. ge_parent e = Some k \<longrightarrow> k < length g'"
    using p2(1) i(1) by (auto simp: g' graph_ok_def dest!: set_update_subset_insert [THEN subsetD])
  ultimately have "graph_ok g'" using p2(1) by (simp add: graph_ok_def)
  then show ?thesis using graph_edges_set_parent [OF p2(1,2) i(1) none] p1 p2(3,4) i(2) by (simp add: g')
qed

lemma addEdges_Ok:
  "addEdges edges g = Ok g' \<Longrightarrow> graph_ok g \<Longrightarrow> graph_ok g' \<and> graph_edges g' = graph_edges g \<union> set edges"
proof (induction edges arbitrary: g)
  case (Cons e edges)
  obtain parent child where e: "e = (parent, child)" by fastforce
  obtain g1 where "addEdge parent child g = (g1, Ok ())" "addEdges edges g1 = Ok g'"
    using Cons.prems(1) by (auto simp: e split: prod.splits sum.splits)
  then show ?case using Cons.IH [of g1] addEdge_Ok [of parent child g g1] Cons.prems(2) by (auto simp: e)
qed simp

lemma P2P_Graph_new_Ok:
  assumes "P2P_Graph_new graphVec thisIp n = Ok pg"
  shows "graph_ok (pg_graph pg)" and "graph_edges (pg_graph pg) = set graphVec"
    and "pg_parent pg < length (pg_graph pg)" and "(ge_element (pg_graph pg ! pg_parent pg), thisIp) \<in> set graphVec"
    and "pg_countConnections pg \<noteq> 0"
proof -
  obtain g i j where g: "addEdges graphVec [] = Ok g" and i: "find_index thisIp g = Some i" and j: "ge_parent (g ! i) = Some j"
    and pg: "pg = \<lparr>pg_graph = g, pg_parent = j, pg_countConnections = n\<rparr>" "n \<noteq> 0"
    using assms by (auto simp: P2P_Graph_new_def rbind_Ok_iff findElement_def getParent_def split: option.splits)
  have ok: "graph_ok g" "graph_edges g = set graphVec"
    using addEdges_Ok [OF g] by (simp_all add: graph_ok_def) (simp add: graph_edges_def)
  have mem: "g ! i \<in> set g" "ge_element (g ! i) = thisIp" using find_index_Some [OF i] by auto
  show "graph_ok (pg_graph pg)" "graph_edges (pg_graph pg) = set graphVec" "pg_countConnections pg \<noteq> 0"
    using ok pg by simp_all
  show "pg_parent pg < length (pg_graph pg)" using ok(1) mem j by (simp add: pg graph_ok_def)
  show "(ge_element (pg_graph pg ! pg_parent pg), thisIp) \<in> set graphVec"
    using mem j by (auto simp: pg simp flip: ok(2)) (force simp: graph_edges_def)
qed

section \<open>The broadcast\<close>

definition up :: "graph \<Rightarrow> (nat \<times> nat) set" where
  "up g = {(i, j). i < length g \<and> ge_parent (g ! i) = Some j}"

lemma up_names: "(i, j) \<in> (up g)\<^sup>+ \<Longrightarrow> (ge_element (g ! j), ge_element (g ! i)) \<in> (graph_edges g)\<^sup>+"
proof (induction rule: trancl_induct)
  case (base j)
  then show ?case by (auto simp: up_def graph_edges_at)
next
  case (step j k)
  then have "(ge_element (g ! k), ge_element (g ! j)) \<in> graph_edges g" by (auto simp: up_def graph_edges_at)
  then show ?case using step.IH by simp
qed

text \<open>In a graph without cycles the number of servers above an element bounds the walk.\<close>

definition above :: "graph \<Rightarrow> nat \<Rightarrow> nat set" where
  "above g i = {j. (i, j) \<in> (up g)\<^sup>+}"

lemma above_subset:
  assumes "graph_ok g"
  shows "above g i \<subseteq> {..<length g}"
proof -
  have "(i, j) \<in> (up g)\<^sup>+ \<Longrightarrow> j < length g" for j
    by (erule tranclE) (auto simp: up_def dest: graph_okD [OF assms])
  then show ?thesis by (auto simp: above_def)
qed

lemma above_parent:
  assumes ok: "graph_ok g" and acyc: "acyclic (graph_edges g)" and "i < length g" and "ge_parent (g ! i) = Some j"
  shows "card (above g j) < card (above g i)"
proof -
  have ij: "(i, j) \<in> up g" using assms(3,4) by (simp add: up_def)
  have "j \<notin> above g j" using up_names [of j j g] acyc by (auto simp: above_def acyclic_def)
  moreover have "j \<in> above g i" "above g j \<subseteq> above g i"
    using ij by (auto simp: above_def)
  ultimately have "above g j \<subset> above g i" by blast
  then show ?thesis using above_subset [OF ok] finite_subset by (intro psubset_card_mono) blast+
qed

text \<open>The calls of a walk: every server is the parent of the one before, all but the last failed, and the last
  one failed only when the walk ended at the root or by an error of another kind.\<close>

fun walk_calls :: "(string \<times> string) set \<Rightarrow> string \<Rightarrow> broadcastCall list \<Rightarrow> bool" where
  "walk_calls E server [] \<longleftrightarrow> True"
| "walk_calls E server [c] \<longleftrightarrow> fst c = server"
| "walk_calls E server (c # d # cs) \<longleftrightarrow>
     fst c = server \<and> snd (snd c) \<noteq> None \<and> (fst d, server) \<in> E \<and> walk_calls E (fst d) (d # cs)"

lemma walk_calls_first: "walk_calls E server (c # cs) \<Longrightarrow> fst c = server"
  by (cases cs) simp_all

lemma broadcast_loop_total:
  assumes ok: "graph_ok g" and acyc: "acyclic (graph_edges g)"
  shows "i < length g \<Longrightarrow> card (above g i) < fuel \<Longrightarrow>
    \<exists>w' new r. broadcast_loop fuel ask g i w calls = Some (w', calls @ new, r) \<and>
      walk_calls (graph_edges g) (ge_element (g ! i)) new \<and>
      (r = Ok () \<longleftrightarrow> new \<noteq> [] \<and> snd (snd (last new)) = None)"
proof (induction fuel arbitrary: i w calls)
  case (Suc fuel)
  obtain w1 a where a: "ask (ge_element (g ! i)) w = (w1, a)" by fastforce
  consider response where "a = Ok response" | e where "a = Err (Exception e)" | e where "a = Err e" "\<forall>x. e \<noteq> Exception x"
    by (cases a) auto
  then show ?case
  proof cases
    case 1
    then show ?thesis using a by simp
  next
    case (2 e)
    show ?thesis
    proof (cases "ge_parent (g ! i)")
      case None
      then show ?thesis using a 2 by (simp add: isParent_def)
    next
      case (Some j)
      have j: "j < length g" "card (above g j) < fuel"
        using graph_okD [OF ok Suc.prems(1) Some] above_parent [OF ok acyc Suc.prems(1) Some] Suc.prems(2) by auto
      have edge: "(ge_element (g ! j), ge_element (g ! i)) \<in> graph_edges g"
        using Suc.prems(1) Some by (auto simp: graph_edges_at)
      obtain w' new r where n: "broadcast_loop fuel ask g j w1 (calls @ [(ge_element (g ! i), [], Some e)]) =
          Some (w', (calls @ [(ge_element (g ! i), [], Some e)]) @ new, r)"
        "walk_calls (graph_edges g) (ge_element (g ! j)) new" "r = Ok () \<longleftrightarrow> new \<noteq> [] \<and> snd (snd (last new)) = None"
        using Suc.IH [OF j] by blast
      have "walk_calls (graph_edges g) (ge_element (g ! i)) ((ge_element (g ! i), [], Some e) # new)"
        using n(2) edge walk_calls_first by (cases new) fastforce+
      moreover have "r = Ok () \<longleftrightarrow> snd (snd (last ((ge_element (g ! i), [], Some e) # new))) = None"
        using n(3) by (cases new) auto
      ultimately show ?thesis using a 2 Some n(1) by (simp add: isParent_def getParent_def)
    qed
  next
    case (3 e)
    then show ?thesis using a by (cases e) auto
  qed
qed simp

section \<open>Properties\<close>

text \<open>C24: The servers of a configured tree. When the edges are accepted, the graph holds exactly the given edges, every
  name once, no child has two parents, and the walk starts at the parent that the edges give to this node. If the
  edges have no cycle, a broadcast always returns, after asking at most as many servers as the graph has: each
  server asked is the parent of the one before, all but the last failed, and it succeeds exactly when the last one
  answered.\<close>

theorem broadcast_walks_up:
  assumes "P2P_Graph_new graphVec thisIp n = Ok pg" and "acyclic (set graphVec)"
  shows "graph_ok (pg_graph pg) \<and> graph_edges (pg_graph pg) = set graphVec \<and>
    (\<exists>w' calls r. Graph_broadcast (length (pg_graph pg)) ask pg w = Some (w', calls, r) \<and>
      (\<exists>parent. (parent, thisIp) \<in> set graphVec \<and> walk_calls (set graphVec) parent calls) \<and>
      (r = Ok () \<longleftrightarrow> calls \<noteq> [] \<and> snd (snd (last calls)) = None))"
proof -
  note pg = P2P_Graph_new_Ok [OF assms(1)]
  let ?g = "pg_graph pg" and ?i = "pg_parent pg"
  have acyc: "acyclic (graph_edges ?g)" using assms(2) pg(2) by simp
  have "?i \<notin> above ?g ?i" using up_names [of ?i ?i ?g] acyc by (auto simp: above_def acyclic_def)
  then have "above ?g ?i \<subset> {..<length ?g}" using above_subset [OF pg(1)] pg(3) by blast
  then have "card (above ?g ?i) < length ?g" using psubset_card_mono [of "{..<length ?g}"] by simp
  then show ?thesis
    using broadcast_loop_total [OF pg(1) acyc pg(3), of _ ask w "[]"] pg by (fastforce simp: Graph_broadcast_def)
qed

theorem broadcast_walks_up_witness:
  "\<exists>pg. P2P_Graph_new [(''a'', ''b''), (''b'', ''c'')] ''c'' 1 = Ok pg \<and> graph_edges (pg_graph pg) = {(''a'', ''b''), (''b'', ''c'')} \<and>
     (\<exists>w' calls r. Graph_broadcast (length (pg_graph pg)) (\<lambda>s w. (w, Err (Exception ''down''))) pg () = Some (w', calls, r))"
proof -
  have "P2P_Graph_new [(''a'', ''b''), (''b'', ''c'')] ''c'' 1 = Ok \<lparr>pg_graph = [\<lparr>ge_element = ''a'', ge_parent = None\<rparr>,
      \<lparr>ge_element = ''b'', ge_parent = Some 0\<rparr>, \<lparr>ge_element = ''c'', ge_parent = Some 1\<rparr>], pg_parent = 1, pg_countConnections = 1\<rparr>"
    by code_simp
  then obtain pg where pg: "P2P_Graph_new [(''a'', ''b''), (''b'', ''c'')] ''c'' 1 = Ok pg" by blast
  have "acyclic (set [(''a'', ''b''), (''b'', ''c'')])"
    by (auto simp: acyclic_insert acyclic_def [of "{}"] elim: rtranclE converse_rtranclE)
  from broadcast_walks_up [OF pg this, of "\<lambda>s w. (w, Err (Exception ''down''))" "()"] pg show ?thesis by auto
qed

text \<open>C38: A cycle is not noticed. Two servers that are configured as each other's parent are accepted, and a broadcast from
  a node below them while they do not answer never returns: no fuel is enough.\<close>

theorem cyclic_graph_accepted:
  "\<exists>pg. P2P_Graph_new [(''a'', ''b''), (''b'', ''a''), (''b'', ''c'')] ''c'' 1 = Ok pg \<and>
     (\<forall>fuel (w :: 'w). Graph_broadcast fuel (\<lambda>s w. (w, Err (Exception ''down''))) pg w = None)"
proof -
  let ?g = "[\<lparr>ge_element = ''a'', ge_parent = Some 1\<rparr>, \<lparr>ge_element = ''b'', ge_parent = Some 0\<rparr>, \<lparr>ge_element = ''c'', ge_parent = Some 1\<rparr>]"
  have "P2P_Graph_new [(''a'', ''b''), (''b'', ''a''), (''b'', ''c'')] ''c'' 1 =
      Ok \<lparr>pg_graph = ?g, pg_parent = 1, pg_countConnections = 1\<rparr>"
    by code_simp
  moreover have "i < 2 \<Longrightarrow> broadcast_loop fuel (\<lambda>s w. (w, Err (Exception ''down''))) ?g i w calls = None" for fuel i calls and w :: 'w
  proof (induction fuel arbitrary: i calls)
    case (Suc fuel)
    then consider "i = 0" | "i = 1" by linarith
    then show ?case by cases (use Suc.IH in \<open>simp_all add: isParent_def getParent_def\<close>)
  qed simp
  ultimately show ?thesis by (auto simp: Graph_broadcast_def)
qed

end
