(* ===== verification/PeerAddresses.thy ===== *)
theory PeerAddresses
  imports PeerRequests Graph "HOL-Library.Multiset"
begin

text \<open>
  \<^verbatim>\<open>src/src/P2P/P2P_Ips.cpp\<close> and \<^verbatim>\<open>src/src/P2P/P2P_Simple.cpp\<close>: the client of a flat list of servers, which the program
  uses, and the client of one server; and the second form of \<open>P2P::process\<close>, one request to each of a set of servers. A
  download runs on the pool of \<open>P2P\<close>, \<open>countConnections\<close> threads for each hint server. A thread draws the number of its
  connection to its server when it first sends: this is a critical section of its own, and a step of its own in the step
  relation below. \<open>parallelFor\<close> of the common library is an argument.
\<close>

section \<open>The client of a list of servers\<close>

text \<open>Of a connection only its number matters: \<open>pi_curls\<close> holds how many each server has.\<close>

record p2pIps =
  pi_servers :: "string list"
  pi_countConnections :: size_t
  pi_curls :: "(string, nat) fmap"

text \<open>\<open>operator[]\<close> of a map of numbers: an absent entry is created as \<open>0\<close>.\<close>

definition curls_of :: "(string, nat) fmap \<Rightarrow> string \<Rightarrow> nat" where
  "curls_of curls server = (case fmlookup curls server of None \<Rightarrow> 0 | Some n \<Rightarrow> n)"

primrec add_curls :: "nat \<Rightarrow> string \<Rightarrow> (string, nat) fmap \<Rightarrow> (string, nat) fmap" where
  "add_curls 0 server curls = curls"
| "add_curls (Suc n) server curls = add_curls n server (fmupd server (curls_of curls server + 1) curls)"

definition P2P_Ips_new :: "string list \<Rightarrow> size_t \<Rightarrow> p2pIps res" where
  "P2P_Ips_new servers countConnections =
     rbind (CHECK (countConnections \<noteq> 0) ''Incorrect count connections: 0'') (\<lambda>_.
     Ok \<lparr>pi_servers = servers, pi_countConnections = countConnections,
         pi_curls = fold (add_curls (unat countConnections)) servers fmempty\<rparr>)"

text \<open>One request: the code of the graph's client, word for word.\<close>

definition Ips_curl_request ::
    "(string \<Rightarrow> string \<Rightarrow> string \<Rightarrow> string res \<Rightarrow> bool) \<Rightarrow> string \<Rightarrow> string \<Rightarrow> string \<Rightarrow> string \<Rightarrow> string res \<Rightarrow> bool" where
  "Ips_curl_request net qs post header server r =
     (case rbind (CHECK (server \<noteq> []) ''server empty'') (\<lambda>_.
             Ok ((if last server \<noteq> CHR ''/'' then server @ ''/'' else server) @ qs)) of
        Inl e \<Rightarrow> r = Err e
      | Inr url \<Rightarrow> net url post header r)"

definition Ips_runOneRequest ::
    "(string \<Rightarrow> string \<Rightarrow> string \<Rightarrow> string res \<Rightarrow> bool) \<Rightarrow> string \<Rightarrow> string \<Rightarrow> string \<Rightarrow> string \<Rightarrow> string res \<Rightarrow> bool" where
  "Ips_runOneRequest net server qs post header r = Ips_curl_request net qs post header server r"

definition Ips_getServersList :: "p2pIps \<Rightarrow> string list \<Rightarrow> string list" where
  "Ips_getServersList ips srves = concat (replicate (unat (pi_countConnections ips)) srves)"

section \<open>The download from several servers\<close>

text \<open>\<open>curlsDistribution\<close>: for each server the numbers its threads have drawn.\<close>

type_synonym curlsDistribution = "(string, (nat, nat) fmap) fmap"

definition dist_of :: "curlsDistribution \<Rightarrow> string \<Rightarrow> (nat, nat) fmap" where
  "dist_of dist server = (case fmlookup dist server of None \<Rightarrow> fmempty | Some m \<Rightarrow> m)"

text \<open>The critical section: the right-hand side of \<open>curlDist[threadNumber] = curlDist.size()\<close> is evaluated first.\<close>

definition draw_curl :: "string \<Rightarrow> nat \<Rightarrow> curlsDistribution \<Rightarrow> curlsDistribution" where
  "draw_curl server threadNumber dist =
     (let curlDist = dist_of dist server
      in fmupd server
           (if fmlookup curlDist threadNumber = None then fmupd threadNumber (fcard (fmdom curlDist)) curlDist else curlDist) dist)"

text \<open>The request function of a thread that has passed the critical section, and of one whose server has no connection.\<close>

definition Ips_requestFunction ::
    "(string \<Rightarrow> string \<Rightarrow> string \<Rightarrow> string res \<Rightarrow> bool) \<Rightarrow> p2pIps \<Rightarrow> string \<Rightarrow> (string \<Rightarrow> responseParse) \<Rightarrow> bool \<Rightarrow> string list \<Rightarrow>
     curlsDistribution \<Rightarrow> nat \<Rightarrow> string \<Rightarrow> string \<Rightarrow> segment \<Rightarrow> string res \<Rightarrow> bool" where
  "Ips_requestFunction net ips header responseParse isPrecisionSize requestServers dist threadNumber qs post sg r =
     (let server = requestServers ! threadNumber
      in case fmlookup (pi_curls ips) server of
           None \<Rightarrow> r = Err (Exception ''curl instance not found'')
         | Some countCurls \<Rightarrow>
             (case fmlookup (dist_of dist server) threadNumber of
                None \<Rightarrow> False
              | Some indexInCurls \<Rightarrow>
                  if countCurls \<le> indexInCurls then r = Err (Exception ''curl instance not found'')
                  else \<exists>response. Ips_curl_request net qs post header server response \<and>
                         r = rbind response (take_response responseParse isPrecisionSize sg)))"

inductive ips_step ::
    "(string \<Rightarrow> string \<Rightarrow> string \<Rightarrow> string res \<Rightarrow> bool) \<Rightarrow> p2pIps \<Rightarrow> string \<Rightarrow> (string \<Rightarrow> responseParse) \<Rightarrow> bool \<Rightarrow> string list \<Rightarrow>
     (segment \<Rightarrow> (string \<times> string) res) \<Rightarrow> pool \<times> curlsDistribution \<Rightarrow> pool \<times> curlsDistribution \<Rightarrow> bool"
  for net ips header responseParse isPrecisionSize requestServers build where
  pool: "pool_step build (Ips_requestFunction net ips header responseParse isPrecisionSize requestServers dist) p p' \<Longrightarrow>
    ips_step net ips header responseParse isPrecisionSize requestServers build (p, dist) (p', dist)"
| draw: "i < length (pl_threads p) \<Longrightarrow> pl_threads p ! i = Working sg \<Longrightarrow> build sg = Ok (qs, post) \<Longrightarrow>
    fmlookup (pi_curls ips) (requestServers ! i) \<noteq> None \<Longrightarrow> fmlookup (dist_of dist (requestServers ! i)) i = None \<Longrightarrow>
    ips_step net ips header responseParse isPrecisionSize requestServers build (p, dist) (p, draw_curl (requestServers ! i) i dist)"

definition Ips_requestImpl ::
    "(string \<Rightarrow> string \<Rightarrow> string \<Rightarrow> string res \<Rightarrow> bool) \<Rightarrow> p2pIps \<Rightarrow> size_t \<Rightarrow> size_t \<Rightarrow> bool \<Rightarrow>
     (size_t \<Rightarrow> size_t \<Rightarrow> (string \<times> string) res) \<Rightarrow> string \<Rightarrow> (string \<Rightarrow> responseParse) \<Rightarrow> string list \<Rightarrow> string list res \<Rightarrow> bool" where
  "Ips_requestImpl net ips responseSize minResponseSize isPrecisionSize makeQsAndPost header responseParse hintsServers r =
     (if responseSize = 0 then r = Err (Exception ''response size 0'')
      else
        let requestServers = Ips_getServersList ips hintsServers;
            countSegments = countSegments_of responseSize minResponseSize (size_of requestServers)
        in case makeSegments countSegments responseSize minResponseSize of
             Inl e \<Rightarrow> r = Err e
           | Inr segments \<Rightarrow>
               \<exists>p dist. (ips_step net ips header responseParse isPrecisionSize requestServers (\<lambda>sg. makeQsAndPost (fromByte sg) (toByte sg)))\<^sup>*\<^sup>*
                      (pool_start (length requestServers) (unat countSegments) segments, fmempty) (p, dist) \<and>
                   pool_finished segments p \<and>
                   r = (if pool_result segments p then Ok (pl_answers p) else Err (Exception ''dont run request'')))"

definition Ips_request ::
    "(string \<Rightarrow> string \<Rightarrow> string \<Rightarrow> string res \<Rightarrow> bool) \<Rightarrow> p2pIps \<Rightarrow> size_t \<Rightarrow> bool \<Rightarrow>
     (size_t \<Rightarrow> size_t \<Rightarrow> (string \<times> string) res) \<Rightarrow> string \<Rightarrow> (string \<Rightarrow> responseParse) \<Rightarrow> string list \<Rightarrow> string res \<Rightarrow> bool" where
  "Ips_request net ips responseSize isPrecisionSize makeQsAndPost header responseParse hintsServers r =
     (\<exists>answers. Ips_requestImpl net ips responseSize 1000 isPrecisionSize makeQsAndPost header responseParse hintsServers answers \<and>
        r = rbind answers (join_answers responseSize isPrecisionSize))"

definition Ips_requests ::
    "(string \<Rightarrow> string \<Rightarrow> string \<Rightarrow> string res \<Rightarrow> bool) \<Rightarrow> p2pIps \<Rightarrow> size_t \<Rightarrow>
     (size_t \<Rightarrow> (string \<times> string) res) \<Rightarrow> string \<Rightarrow> (string \<Rightarrow> responseParse) \<Rightarrow> string list \<Rightarrow> string list res \<Rightarrow> bool" where
  "Ips_requests net ips countRequests makeQsAndPost header responseParse hintsServers r =
     (\<exists>answers. Ips_requestImpl net ips countRequests 1 False
          (\<lambda>from to. rbind (CHECK (to = from + 1) ''Incorrect call makeQsAndPortFunc'') (\<lambda>_. makeQsAndPost from))
          header responseParse hintsServers answers \<and>
        r = rbind answers (\<lambda>answers.
              rbind (CHECK (size_of answers = countRequests) ''Incorrect count answers'') (\<lambda>_. Ok answers)))"

section \<open>One request to each of many servers\<close>

text \<open>\<open>parallelFor n xs f\<close> of the common library runs \<open>f\<close> on every element, on \<open>n\<close> threads. Here \<open>f x r\<close> says what the call on \<open>x\<close>
  may hand to the shared result, and \<open>parallelFor n xs f (Ok rs)\<close> that all calls returned and handed over \<open>rs\<close>, in this order.\<close>

type_synonym 'a parallelFor = "nat \<Rightarrow> string list \<Rightarrow> (string \<Rightarrow> 'a res \<Rightarrow> bool) \<Rightarrow> 'a list res \<Rightarrow> bool"

definition parallelFor_spec :: "'a parallelFor \<Rightarrow> bool" where
  "parallelFor_spec pf \<longleftrightarrow>
     (\<forall>n xs f rs. pf n xs f (Ok rs) \<longrightarrow> (\<exists>ys. list_all2 (\<lambda>x y. f x (Ok y)) xs ys \<and> mset ys = mset rs))"

text \<open>The call of the broadcast callback for one server: an exception of the request is handed to it, another error escapes.\<close>

definition broadcast_call ::
    "(string \<Rightarrow> string \<Rightarrow> string \<Rightarrow> string res \<Rightarrow> bool) \<Rightarrow> string \<Rightarrow> string \<Rightarrow> string \<Rightarrow> string \<Rightarrow> broadcastCall res \<Rightarrow> bool" where
  "broadcast_call net qs post header server call \<longleftrightarrow>
     (\<exists>r. Ips_curl_request net qs post header server r \<and>
        call = (case r of
                  Inr response \<Rightarrow> Ok (server, response, None)
                | Inl (Exception e) \<Rightarrow> Ok (server, [], Some e)
                | Inl e \<Rightarrow> Err e))"

definition Ips_broadcast ::
    "broadcastCall parallelFor \<Rightarrow> (string \<Rightarrow> string \<Rightarrow> string \<Rightarrow> string res \<Rightarrow> bool) \<Rightarrow> p2pIps \<Rightarrow> string \<Rightarrow> string \<Rightarrow> string \<Rightarrow>
     broadcastCall list res \<Rightarrow> bool" where
  "Ips_broadcast parallelFor net ips qs post header calls = parallelFor 8 (pi_servers ips) (broadcast_call net qs post header) calls"

record sendOneResult =
  so_server :: string
  so_response :: responseParse
  so_time :: int

text \<open>The second form of \<open>P2P::process\<close>; the time a request took is whatever the clock says.\<close>

definition send_one ::
    "(string \<Rightarrow> string \<Rightarrow> string \<Rightarrow> string \<Rightarrow> string res \<Rightarrow> bool) \<Rightarrow> string \<Rightarrow> string \<Rightarrow> string \<Rightarrow> string \<Rightarrow> sendOneResult res \<Rightarrow> bool" where
  "send_one ask qs post header server result \<longleftrightarrow>
     (\<exists>r time. ask qs post header server r \<and>
        result = (case r of
                    Inr response \<Rightarrow> Ok \<lparr>so_server = server, so_response = \<lparr>rp_response = response, rp_error = None\<rparr>, so_time = time\<rparr>
                  | Inl (Exception e) \<Rightarrow> Ok \<lparr>so_server = server, so_response = \<lparr>rp_response = [], rp_error = Some e\<rparr>, so_time = time\<rparr>
                  | Inl e \<Rightarrow> Err e))"

definition process_simple ::
    "sendOneResult parallelFor \<Rightarrow> string list \<Rightarrow> string \<Rightarrow> string \<Rightarrow> string \<Rightarrow>
     (string \<Rightarrow> string \<Rightarrow> string \<Rightarrow> string \<Rightarrow> string res \<Rightarrow> bool) \<Rightarrow> sendOneResult list res \<Rightarrow> bool" where
  "process_simple parallelFor requestServers qs post header ask results =
     parallelFor 8 requestServers (send_one ask qs post header) results"

text \<open>A \<open>std::set\<close> of strings is the sorted list of its elements; the configured servers are not asked.\<close>

definition Ips_requestAll ::
    "sendOneResult parallelFor \<Rightarrow> (string \<Rightarrow> string \<Rightarrow> string \<Rightarrow> string res \<Rightarrow> bool) \<Rightarrow> p2pIps \<Rightarrow> string \<Rightarrow> string \<Rightarrow> string \<Rightarrow>
     string list \<Rightarrow> sendOneResult list res \<Rightarrow> bool" where
  "Ips_requestAll parallelFor net ips qs postData header additionalServers results =
     process_simple parallelFor additionalServers qs postData header (Ips_curl_request net) results"

text \<open>The same for the client of the graph, with its single request, which takes the first of its connections.\<close>

definition Graph_runOneRequest ::
    "(string \<Rightarrow> string \<Rightarrow> string \<Rightarrow> string res \<Rightarrow> bool) \<Rightarrow> p2pGraph \<Rightarrow> string \<Rightarrow> string \<Rightarrow> string \<Rightarrow> string \<Rightarrow> string res \<Rightarrow> bool" where
  "Graph_runOneRequest net pg server qs post header r =
     (if pg_countConnections pg = 0 then r = Err (Exception ''Curls empty'') else curl_request net qs post header server r)"

definition Graph_requestAll ::
    "sendOneResult parallelFor \<Rightarrow> (string \<Rightarrow> string \<Rightarrow> string \<Rightarrow> string res \<Rightarrow> bool) \<Rightarrow> p2pGraph \<Rightarrow> string \<Rightarrow> string \<Rightarrow> string \<Rightarrow>
     string list \<Rightarrow> sendOneResult list res \<Rightarrow> bool" where
  "Graph_requestAll parallelFor net pg qs postData header additionalServers results =
     process_simple parallelFor additionalServers qs postData header (curl_request net) results"

section \<open>The client of one server\<close>

record p2pSimple =
  ps_ips :: "string list"

definition P2P_Simple_new :: "string list \<Rightarrow> p2pSimple res" where
  "P2P_Simple_new ips = rbind (CHECK (ips \<noteq> []) ''ips empty'') (\<lambda>_. Ok \<lparr>ps_ips = ips\<rparr>)"

definition Simple_curl_request ::
    "(string \<Rightarrow> string \<Rightarrow> string \<Rightarrow> string res \<Rightarrow> bool) \<Rightarrow> string \<Rightarrow> string \<Rightarrow> string \<Rightarrow> string \<Rightarrow> string res \<Rightarrow> bool" where
  "Simple_curl_request net qs post header server r =
     (case rbind (CHECK (server \<noteq> []) ''server empty'') (\<lambda>_.
             Ok ((if last server \<noteq> CHR ''/'' then server @ ''/'' else server) @ qs)) of
        Inl e \<Rightarrow> r = Err e
      | Inr url \<Rightarrow> net url post header r)"

definition Simple_broadcast ::
    "broadcastCall parallelFor \<Rightarrow> (string \<Rightarrow> string \<Rightarrow> string \<Rightarrow> string res \<Rightarrow> bool) \<Rightarrow> p2pSimple \<Rightarrow> string \<Rightarrow> string \<Rightarrow> string \<Rightarrow>
     broadcastCall list res \<Rightarrow> bool" where
  "Simple_broadcast parallelFor net simple qs post header calls = parallelFor 8 (ps_ips simple) (broadcast_call net qs post header) calls"

definition Simple_runOneRequest ::
    "(string \<Rightarrow> string \<Rightarrow> string \<Rightarrow> string res \<Rightarrow> bool) \<Rightarrow> string \<Rightarrow> string \<Rightarrow> string \<Rightarrow> string \<Rightarrow> string res \<Rightarrow> bool" where
  "Simple_runOneRequest net server qs post header r = Simple_curl_request net qs post header server r"

definition Simple_request ::
    "(string \<Rightarrow> string \<Rightarrow> string \<Rightarrow> string res \<Rightarrow> bool) \<Rightarrow> size_t \<Rightarrow> bool \<Rightarrow>
     (size_t \<Rightarrow> size_t \<Rightarrow> (string \<times> string) res) \<Rightarrow> string \<Rightarrow> (string \<Rightarrow> responseParse) \<Rightarrow> string list \<Rightarrow> string res \<Rightarrow> bool" where
  "Simple_request net responseSize isPrecisionSize makeQsAndPost header responseParse hintsServers r =
     (if hintsServers = [] then r = Err (Exception ''Incorrect hint servers'')
      else case makeQsAndPost 0 responseSize of
             Inl e \<Rightarrow> r = Err e
           | Inr (qs, post) \<Rightarrow>
               \<exists>response. Simple_curl_request net qs post header (hintsServers ! 0) response \<and>
                 r = rbind response (\<lambda>response.
                       let parsed = responseParse response
                       in case rp_error parsed of Some e \<Rightarrow> Err (Exception e) | None \<Rightarrow> Ok (rp_response parsed)))"

definition Simple_requestAll ::
    "sendOneResult parallelFor \<Rightarrow> (string \<Rightarrow> string \<Rightarrow> string \<Rightarrow> string res \<Rightarrow> bool) \<Rightarrow> p2pSimple \<Rightarrow> string \<Rightarrow> string \<Rightarrow> string \<Rightarrow>
     string list \<Rightarrow> sendOneResult list res \<Rightarrow> bool" where
  "Simple_requestAll parallelFor net simple qs postData header additionalServers results =
     process_simple parallelFor additionalServers qs postData header (Simple_curl_request net) results"

lemma curl_requests_same [simp]: "Ips_curl_request = curl_request" "Simple_curl_request = curl_request"
  by (auto simp: fun_eq_iff Ips_curl_request_def Simple_curl_request_def curl_request_def request_url_def)

section \<open>The connections\<close>

lemma curls_of_add_curls [simp]: "curls_of (add_curls n s curls) t = curls_of curls t + (if t = s then n else 0)"
  by (induction n arbitrary: curls) (simp_all add: curls_of_def)

lemma fmdom_add_curls: "n \<noteq> 0 \<Longrightarrow> fset (fmdom (add_curls n s curls)) = insert s (fset (fmdom curls))"
proof (induction n arbitrary: curls)
  case (Suc n)
  then show ?case by (cases "n = 0") auto
qed simp

lemma curls_of_fold: "curls_of (fold (add_curls n) servers curls) s = curls_of curls s + n * count_list servers s"
  by (induction servers arbitrary: curls) simp_all

lemma fmdom_fold_add_curls: "n \<noteq> 0 \<Longrightarrow> fset (fmdom (fold (add_curls n) servers curls)) = set servers \<union> fset (fmdom curls)"
  by (induction servers arbitrary: curls) (simp_all add: fmdom_add_curls)

lemma P2P_Ips_new_OkD:
  assumes "P2P_Ips_new servers conns = Ok ips"
  shows "conns \<noteq> 0" and "pi_countConnections ips = conns" and "pi_servers ips = servers"
    and "fmlookup (pi_curls ips) s = (if s \<in> set servers then Some (unat conns * count_list servers s) else None)"
proof -
  have ips: "conns \<noteq> 0" "ips = \<lparr>pi_servers = servers, pi_countConnections = conns, pi_curls = fold (add_curls (unat conns)) servers fmempty\<rparr>"
    using assms by (auto simp: P2P_Ips_new_def rbind_Ok_iff)
  then show "conns \<noteq> 0" "pi_countConnections ips = conns" "pi_servers ips = servers" by simp_all
  have n: "unat conns \<noteq> 0" using ips(1) by (simp add: unat_eq_zero)
  have "s \<in> fset (fmdom (pi_curls ips)) \<longleftrightarrow> s \<in> set servers" using fmdom_fold_add_curls [OF n, of servers fmempty] by (simp add: ips(2))
  moreover have "curls_of (pi_curls ips) s = unat conns * count_list servers s" by (simp add: ips(2) curls_of_fold curls_of_def [of fmempty])
  ultimately show "fmlookup (pi_curls ips) s = (if s \<in> set servers then Some (unat conns * count_list servers s) else None)"
    by (auto simp: curls_of_def fmdom_notI split: option.splits dest: fmdomI)
qed

text \<open>The numbers drawn at a server are numbers of threads of that server, and smaller than the number of draws.\<close>

definition dist_ok :: "string list \<Rightarrow> curlsDistribution \<Rightarrow> bool" where
  "dist_ok srvs dist \<longleftrightarrow>
     (\<forall>s i n. fmlookup (dist_of dist s) i = Some n \<longrightarrow> i < length srvs \<and> srvs ! i = s \<and> n < fcard (fmdom (dist_of dist s)))"

lemma dist_ok_empty [simp]: "dist_ok srvs fmempty"
  by (simp add: dist_ok_def dist_of_def)

lemma dist_of_draw [simp]:
  "fmlookup (dist_of dist s) i = None \<Longrightarrow>
     dist_of (draw_curl s i dist) t = (if t = s then fmupd i (fcard (fmdom (dist_of dist s))) (dist_of dist s) else dist_of dist t)"
  by (simp add: draw_curl_def Let_def dist_of_def)

lemma dist_ok_draw:
  assumes "dist_ok srvs dist" and "i < length srvs" and "fmlookup (dist_of dist (srvs ! i)) i = None"
  shows "dist_ok srvs (draw_curl (srvs ! i) i dist)"
proof -
  have "i |\<notin>| fmdom (dist_of dist (srvs ! i))" using assms(3) by (simp add: fmlookup_dom_iff)
  then have "fcard (finsert i (fmdom (dist_of dist (srvs ! i)))) = Suc (fcard (fmdom (dist_of dist (srvs ! i))))"
    by (rule fcard_finsert_disjoint)
  then show ?thesis using assms unfolding dist_ok_def by (auto simp: less_SucI)
qed

lemma dist_ok_bound:
  assumes "dist_ok srvs dist" and "fmlookup (dist_of dist s) i = Some n"
  shows "n < count_list srvs s"
proof -
  let ?D = "fmdom (dist_of dist s)"
  have sub: "fset ?D \<subseteq> {i. i < length srvs \<and> srvs ! i = s}"
  proof
    fix j assume "j \<in> fset ?D"
    then obtain m where "fmlookup (dist_of dist s) j = Some m" by (auto simp: fmlookup_dom_iff)
    then show "j \<in> {i. i < length srvs \<and> srvs ! i = s}" using assms(1) by (auto simp: dist_ok_def)
  qed
  have "n < card (fset ?D)" using assms by (auto simp: dist_ok_def fcard.rep_eq)
  also have "\<dots> \<le> card {i. i < length srvs \<and> srvs ! i = s}" by (rule card_mono [OF _ sub]) simp
  also have "\<dots> = count_list srvs s"
    by (simp add: count_list_eq_length_filter length_filter_conv_card eq_commute)
  finally show ?thesis .
qed

section \<open>The download as a run of the pool\<close>

lemma pool_step_mono:
  assumes "pool_step build ask p p'" and "\<And>i qs post sg r. i < length (pl_threads p) \<Longrightarrow> ask i qs post sg r \<Longrightarrow> ask' i qs post sg r"
  shows "pool_step build ask' p p'"
  using assms(1) by (cases rule: pool_step.cases) (simp only:, blast intro: pool_step.intros assms(2))+

lemma pool_step_threads: "pool_step build ask p p' \<Longrightarrow> length (pl_threads p') = length (pl_threads p)"
  by (auto elim: pool_step.cases)

text \<open>The requests of the threads without the bookkeeping of the connections; \<open>known\<close> when a thread never lacks one.\<close>

definition servers_ask ::
    "(string \<Rightarrow> string \<Rightarrow> string \<Rightarrow> string res \<Rightarrow> bool) \<Rightarrow> string \<Rightarrow> (string \<Rightarrow> responseParse) \<Rightarrow> bool \<Rightarrow> string list \<Rightarrow> bool \<Rightarrow>
     nat \<Rightarrow> string \<Rightarrow> string \<Rightarrow> segment \<Rightarrow> string res \<Rightarrow> bool" where
  "servers_ask net header parse prec srvs known i qs post sg r \<longleftrightarrow>
     (if i < length srvs then
        (\<not> known \<and> r = Err (Exception ''curl instance not found'')) \<or>
        (\<exists>response. curl_request net qs post header (srvs ! i) response \<and> r = rbind response (take_response parse prec sg))
      else r = Err (Exception ''curl instance not found''))"

text \<open>Enough connections: no server is named more often as a hint than it is configured.\<close>

definition enough_curls :: "p2pIps \<Rightarrow> string list \<Rightarrow> bool" where
  "enough_curls ips srvs \<longleftrightarrow> (\<forall>s\<in>set srvs. \<exists>n. fmlookup (pi_curls ips) s = Some n \<and> count_list srvs s \<le> n)"

lemma count_list_replicate_concat: "count_list (concat (replicate k xs)) x = k * count_list xs x"
  by (induction k) simp_all

lemma enough_curls_hints:
  assumes "P2P_Ips_new servers conns = Ok ips" and "mset hints \<subseteq># mset servers"
  shows "enough_curls ips (Ips_getServersList ips hints)"
proof -
  have "set hints \<subseteq> set servers" using assms(2) by (metis set_mset_mono set_mset_mset)
  moreover have "count_list hints s \<le> count_list servers s" for s
    using assms(2) by (metis count_mset mset_subset_eq_count)
  ultimately show ?thesis
    by (auto simp: enough_curls_def Ips_getServersList_def P2P_Ips_new_OkD [OF assms(1)] count_list_replicate_concat)
qed

lemma requestFunction_servers_ask:
  assumes "Ips_requestFunction net ips header parse prec srvs dist i qs post sg r" and "dist_ok srvs dist" and "i < length srvs"
    and "known \<longrightarrow> enough_curls ips srvs"
  shows "servers_ask net header parse prec srvs known i qs post sg r"
proof (cases known)
  case True
  then obtain n where n: "fmlookup (pi_curls ips) (srvs ! i) = Some n" "count_list srvs (srvs ! i) \<le> n"
    using True assms(3,4) nth_mem [OF assms(3)] unfolding enough_curls_def by blast
  obtain m where m: "fmlookup (dist_of dist (srvs ! i)) i = Some m"
    using assms(1) n(1) by (auto simp: Ips_requestFunction_def Let_def split: option.splits)
  then have "m < n" using dist_ok_bound [OF assms(2) m] n(2) by simp
  then show ?thesis using assms(1,3) n(1) m by (simp add: Ips_requestFunction_def servers_ask_def)
next
  case False
  then show ?thesis
    using assms(1,3) by (auto simp: Ips_requestFunction_def servers_ask_def Let_def split: option.splits if_splits)
qed

lemma ips_run_projects:
  assumes "(ips_step net ips header parse prec srvs build)\<^sup>*\<^sup>* (pool_start (length srvs) n sgs, fmempty) (p, dist)"
    and "known \<longrightarrow> enough_curls ips srvs"
  shows "(pool_step build (servers_ask net header parse prec srvs known))\<^sup>*\<^sup>* (pool_start (length srvs) n sgs) p \<and>
    dist_ok srvs dist \<and> length (pl_threads p) = length srvs"
  using assms(1)
proof (induction "(p, dist)" arbitrary: p dist rule: rtranclp_induct)
  case base
  then show ?case by (simp add: pool_start_def)
next
  case (step y)
  obtain p0 dist0 where y: "y = (p0, dist0)" by (cases y)
  note IH = step.hyps(3) [OF y]
  from step.hyps(2) [unfolded y] show ?case
  proof (cases rule: ips_step.cases)
    case pool
    have "pool_step build (servers_ask net header parse prec srvs known) p0 p"
      by (rule pool_step_mono [OF pool(2)])
        (rule requestFunction_servers_ask [OF _ _ _ assms(2)], assumption, use IH in simp_all)
    then show ?thesis using IH pool_step_threads [OF pool(2)] pool(1) by (auto intro: rtranclp.rtrancl_into_rtrancl)
  next
    case (draw i sg qs post)
    then show ?thesis using IH dist_ok_draw [of srvs dist0 i] by simp
  qed
qed

lemma servers_ask_only_exceptions:
  assumes "always_answered build (servers_ask net header parse prec srvs True) (length srvs) sgs"
  shows "only_exceptions build (servers_ask net header parse prec srvs True) sgs"
  unfolding only_exceptions_def
proof
  fix sg assume "sg \<in> set sgs"
  then obtain qs post where b: "build sg = Ok (qs, post)"
    and ok: "\<forall>i<length srvs. (\<exists>r. servers_ask net header parse prec srvs True i qs post sg (Ok r)) \<and>
      (\<forall>e. \<not> servers_ask net header parse prec srvs True i qs post sg (Err e))"
    using assms unfolding always_answered_def by blast
  have "(\<exists>r. servers_ask net header parse prec srvs True i qs post sg r) \<and>
      (\<forall>r. servers_ask net header parse prec srvs True i qs post sg r \<longrightarrow> (\<exists>x e. r = Ok x \<or> r = Err (Exception e)))" for i
  proof (cases "i < length srvs")
    case True
    have "r = Ok (projr r)" if "servers_ask net header parse prec srvs True i qs post sg r" for r
      using ok True that by (cases r) auto
    then show ?thesis using ok True by metis
  next
    case False
    then show ?thesis by (simp add: servers_ask_def)
  qed
  then show "\<exists>qs post. build sg = Ok (qs, post) \<and> (\<forall>i. (\<exists>r. servers_ask net header parse prec srvs True i qs post sg r) \<and>
      (\<forall>r. servers_ask net header parse prec srvs True i qs post sg r \<longrightarrow> (\<exists>x e. r = Ok x \<or> r = Err (Exception e))))"
    using b by blast
qed

text \<open>A step of the pool can be made with the connections too: by the same step, or by a draw first.\<close>

lemma ips_step_possible:
  assumes "pool_step build (servers_ask net header parse prec srvs True) p p'" and "dist_ok srvs dist"
    and "enough_curls ips srvs" and "length (pl_threads p) = length srvs"
  shows "\<exists>q. ips_step net ips header parse prec srvs build (p, dist) q"
proof (cases "\<exists>i sg qs post. i < length srvs \<and> pl_threads p ! i = Working sg \<and> build sg = Ok (qs, post) \<and> fmlookup (dist_of dist (srvs ! i)) i = None")
  case True
  then obtain i sg qs post where i: "i < length srvs" "pl_threads p ! i = Working sg" "build sg = Ok (qs, post)"
    "fmlookup (dist_of dist (srvs ! i)) i = None" by blast
  have "fmlookup (pi_curls ips) (srvs ! i) \<noteq> None" using assms(3) nth_mem [OF i(1)] unfolding enough_curls_def by fastforce
  then show ?thesis using ips_step.draw [of i p sg build qs post ips srvs dist net header parse prec] i assms(4) by auto
next
  case False
  let ?ask = "Ips_requestFunction net ips header parse prec srvs dist"
  have same: "?ask i qs post sg r" if "i < length (pl_threads p)" "pl_threads p ! i = Working sg" "build sg = Ok (qs, post)"
    "servers_ask net header parse prec srvs True i qs post sg r" for i qs post sg r
  proof -
    have i: "i < length srvs" using that(1) assms(4) by simp
    have "fmlookup (dist_of dist (srvs ! i)) i \<noteq> None" using False i that(2,3) by auto
    then obtain m where m: "fmlookup (dist_of dist (srvs ! i)) i = Some m" by blast
    obtain n where n: "fmlookup (pi_curls ips) (srvs ! i) = Some n" "count_list srvs (srvs ! i) \<le> n"
      using assms(3) nth_mem [OF i] unfolding enough_curls_def by blast
    have "m < n" using dist_ok_bound [OF assms(2) m] n(2) by simp
    then show ?thesis using that(4) i by (simp add: Ips_requestFunction_def servers_ask_def n(1) m)
  qed
  have "\<exists>p'. pool_step build ?ask p p'"
    using assms(1)
  proof (cases rule: pool_step.cases)
    case (pop i q sg q')
    then show ?thesis using pool_step.pop [of i p q sg q' build ?ask] by blast
  next
    case (success i sg qs post r)
    then show ?thesis using pool_step.success [where build = build and ask = ?ask, OF success(2-4) same [OF success(2-5)] success(6)] by blast
  next
    case (retry i sg qs post e)
    then show ?thesis using pool_step.retry [where build = build and ask = ?ask, OF retry(2-4) same [OF retry(2-5)]] by blast
  next
    case (lost_make i sg e)
    then show ?thesis using pool_step.lost_make [of i p sg build e ?ask] by blast
  next
    case (lost_request i sg qs post e)
    then show ?thesis using pool_step.lost_request [where build = build and ask = ?ask, OF lost_request(2-4) same [OF lost_request(2-5)]] by blast
  qed
  then show ?thesis using ips_step.pool [of build net ips header parse prec srvs dist p] by blast
qed

text \<open>Every run ends: a draw lowers the number of threads that have not drawn.\<close>

definition undrawn :: "string list \<Rightarrow> curlsDistribution \<Rightarrow> nat set" where
  "undrawn srvs dist = {i. i < length srvs \<and> fmlookup (dist_of dist (srvs ! i)) i = None}"

lemma undrawn_draw:
  assumes "i < length srvs" and "fmlookup (dist_of dist (srvs ! i)) i = None"
  shows "undrawn srvs (draw_curl (srvs ! i) i dist) \<subset> undrawn srvs dist"
  using assms by (auto simp: undrawn_def)

lemma ips_step_measure:
  assumes "ips_step net ips header parse prec srvs build (p, dist) (p', dist')" and "length (pl_threads p) = length srvs"
  shows "pool_measure p' + card (undrawn srvs dist') < pool_measure p + card (undrawn srvs dist)"
  using assms(1)
proof (cases rule: ips_step.cases)
  case pool
  then show ?thesis using pool_measure_step [OF pool(2)] by simp
next
  case (draw i sg qs post)
  have "finite (undrawn srvs dist)" by (simp add: undrawn_def)
  then have "card (undrawn srvs dist') < card (undrawn srvs dist)"
    using undrawn_draw [of i srvs dist] draw assms(2) by (metis psubset_card_mono)
  then show ?thesis using draw by simp
qed

lemma ips_run_ends:
  assumes "length (pl_threads p) = length srvs"
  shows "\<exists>q. (ips_step net ips header parse prec srvs build)\<^sup>*\<^sup>* (p, dist) q \<and> (\<nexists>q'. ips_step net ips header parse prec srvs build q q')"
  using assms
proof (induction "pool_measure p + card (undrawn srvs dist)" arbitrary: p dist rule: less_induct)
  case less
  show ?case
  proof (cases "\<exists>q. ips_step net ips header parse prec srvs build (p, dist) q")
    case True
    then obtain p' dist' where s: "ips_step net ips header parse prec srvs build (p, dist) (p', dist')" by (metis surj_pair)
    then have "length (pl_threads p') = length srvs" using less.prems by (auto elim!: ips_step.cases dest: pool_step_threads)
    from less.hyps [OF ips_step_measure [OF s less.prems] this] s show ?thesis by (meson converse_rtranclp_into_rtranclp)
  qed blast
qed

section \<open>The answers\<close>

text \<open>The segments of a download from these hints, as the code makes them.\<close>

definition segments_for :: "p2pIps \<Rightarrow> size_t \<Rightarrow> size_t \<Rightarrow> string list \<Rightarrow> segment list \<Rightarrow> bool" where
  "segments_for ips responseSize minSize hints sgs \<longleftrightarrow> responseSize \<noteq> 0 \<and> numbered 0 sgs \<and> length sgs < 2 ^ 64 \<and>
     (let n = countSegments_of responseSize minSize (size_of (Ips_getServersList ips hints))
      in makeSegments n responseSize minSize = Ok sgs \<and> length sgs = unat n)"

lemma Ips_requestImpl_partial:
  assumes "Ips_requestImpl net ips responseSize minSize prec mk header parse hints r" and "segments_for ips responseSize minSize hints sgs"
    and "\<And>sg r. sg \<in> set sgs \<Longrightarrow> answered (\<lambda>sg. mk (fromByte sg) (toByte sg))
      (servers_ask net header parse prec (Ips_getServersList ips hints) False) sg r \<Longrightarrow> r = f sg"
  shows "r = Ok (map f sgs) \<or> r = Err (Exception ''dont run request'')"
proof -
  let ?srvs = "Ips_getServersList ips hints" and ?build = "\<lambda>sg. mk (fromByte sg) (toByte sg)"
  obtain p dist where run: "(ips_step net ips header parse prec ?srvs ?build)\<^sup>*\<^sup>* (pool_start (length ?srvs) (length sgs) sgs, fmempty) (p, dist)"
    and r: "r = (if pool_result sgs p then Ok (pl_answers p) else Err (Exception ''dont run request''))"
    using assms(1,2) by (auto simp: Ips_requestImpl_def segments_for_def Let_def)
  have proj: "(pool_step ?build (servers_ask net header parse prec ?srvs False))\<^sup>*\<^sup>* (pool_start (length ?srvs) (length sgs) sgs) p"
    using ips_run_projects [OF run, of False] by simp
  have "pl_answers p = map f sgs" if "pool_result sgs p"
    using assms(2) by (intro pool_answers_concat [OF proj _ _ that] assms(3)) (simp_all add: segments_for_def)
  then show ?thesis by (simp add: r)
qed

text \<open>With connections for all threads and answers to all requests, a run comes to its end, and every run that is at its end
  has all answers.\<close>

lemma ips_run_finishes:
  assumes enough: "enough_curls ips srvs" and pos: "positions_ok sgs n"
    and all: "always_answered build (servers_ask net header parse prec srvs True) (length srvs) sgs"
  shows "\<exists>p dist. (ips_step net ips header parse prec srvs build)\<^sup>*\<^sup>* (pool_start (length srvs) n sgs, fmempty) (p, dist) \<and> pool_finished sgs p"
proof -
  let ?start = "pool_start (length srvs) n sgs" and ?ask = "servers_ask net header parse prec srvs True"
  have "length (pl_threads ?start) = length srvs" by (simp add: pool_start_def)
  from ips_run_ends [OF this, where dist = fmempty and net = net and ips = ips and header = header and parse = parse and prec = prec and build = build]
  obtain q where q: "(ips_step net ips header parse prec srvs build)\<^sup>*\<^sup>* (?start, fmempty) q" "\<nexists>q'. ips_step net ips header parse prec srvs build q q'"
    by blast
  obtain p dist where pd: "q = (p, dist)" by (cases q)
  note run = q(1) [unfolded pd] and stop = q(2) [unfolded pd] and only = servers_ask_only_exceptions [OF all]
  have proj: "(pool_step build ?ask)\<^sup>*\<^sup>* ?start p" "dist_ok srvs dist" "length (pl_threads p) = length srvs"
    using ips_run_projects [OF run, of True] enough by simp_all
  obtain finished where inv: "pool_inv build ?ask sgs n p finished" "pool_complete sgs p finished"
    using pool_inv_reachable [OF proj(1) pos] only by blast
  have "pool_finished sgs p"
  proof (rule ccontr)
    assume "\<not> pool_finished sgs p"
    then obtain p' where "pool_step build ?ask p p'" using pool_progress [OF inv pos only] by blast
    then show False using ips_step_possible [OF _ proj(2) enough proj(3)] stop by blast
  qed
  then show ?thesis using run by blast
qed

lemma ips_finished_full:
  assumes run: "(ips_step net ips header parse prec srvs build)\<^sup>*\<^sup>* (pool_start (length srvs) (length sgs) sgs, fmempty) (p, dist)"
    and fin: "pool_finished sgs p" and enough: "enough_curls ips srvs" "srvs \<noteq> []" and num: "numbered 0 sgs" "length sgs < 2 ^ 64"
    and all: "always_answered build (servers_ask net header parse prec srvs True) (length srvs) sgs"
    and ans: "\<And>sg r. sg \<in> set sgs \<Longrightarrow> answered build (servers_ask net header parse prec srvs True) sg r \<Longrightarrow> r = f sg"
  shows "pool_result sgs p \<and> pl_answers p = map f sgs"
proof -
  have proj: "(pool_step build (servers_ask net header parse prec srvs True))\<^sup>*\<^sup>* (pool_start (length srvs) (length sgs) sgs) p"
    using ips_run_projects [OF run, of True] enough by simp
  have "length (pl_threads p) = length srvs" "Exited \<notin> set (pl_threads p)"
    using no_thread_exits [OF proj numbered_positions(1) [OF num] all] by simp_all
  then have res: "pool_result sgs p"
    using fin enough(2) by (cases "pl_threads p") (auto simp: pool_finished_def pool_result_def)
  then show ?thesis using pool_answers_concat [OF proj num res ans] by simp
qed

lemma Ips_requestImpl_exact:
  assumes new: "P2P_Ips_new servers conns = Ok ips" and hints: "hints \<noteq> []" "mset hints \<subseteq># mset servers"
    and seg: "segments_for ips responseSize minSize hints sgs"
    and all: "always_answered (\<lambda>sg. mk (fromByte sg) (toByte sg)) (servers_ask net header parse prec (Ips_getServersList ips hints) True)
      (length (Ips_getServersList ips hints)) sgs"
    and ans: "\<And>sg r. sg \<in> set sgs \<Longrightarrow> answered (\<lambda>sg. mk (fromByte sg) (toByte sg))
      (servers_ask net header parse prec (Ips_getServersList ips hints) True) sg r \<Longrightarrow> r = f sg"
  shows "Ips_requestImpl net ips responseSize minSize prec mk header parse hints r \<longleftrightarrow> r = Ok (map f sgs)"
proof -
  let ?srvs = "Ips_getServersList ips hints" and ?build = "\<lambda>sg. mk (fromByte sg) (toByte sg)"
  let ?run = "\<lambda>p dist. (ips_step net ips header parse prec ?srvs ?build)\<^sup>*\<^sup>* (pool_start (length ?srvs) (length sgs) sgs, fmempty) (p, dist)"
  note enough = enough_curls_hints [OF new hints(2)]
  have num: "numbered 0 sgs" "length sgs < 2 ^ 64" using seg by (simp_all add: segments_for_def)
  have ne: "?srvs \<noteq> []" using hints(1) P2P_Ips_new_OkD(1,2) [OF new] by (simp add: Ips_getServersList_def unat_eq_zero)
  have impl: "Ips_requestImpl net ips responseSize minSize prec mk header parse hints r \<longleftrightarrow>
      (\<exists>p dist. ?run p dist \<and> pool_finished sgs p \<and> r = (if pool_result sgs p then Ok (pl_answers p) else Err (Exception ''dont run request'')))"
    using seg by (auto simp: Ips_requestImpl_def segments_for_def Let_def)
  note full = ips_finished_full [OF _ _ enough ne num all ans]
  obtain p dist where run: "?run p dist" and fin: "pool_finished sgs p"
    using ips_run_finishes [OF enough numbered_positions(1) [OF num] all] by blast
  show ?thesis
  proof
    assume "Ips_requestImpl net ips responseSize minSize prec mk header parse hints r"
    then obtain p dist where "?run p dist" "pool_finished sgs p"
      and r: "r = (if pool_result sgs p then Ok (pl_answers p) else Err (Exception ''dont run request''))" unfolding impl by blast
    from full [OF this(1,2)] show "r = Ok (map f sgs)" by (simp add: r)
  next
    assume "r = Ok (map f sgs)"
    then show "Ips_requestImpl net ips responseSize minSize prec mk header parse hints r"
      unfolding impl using full [OF run fin] run fin by (intro exI [of _ p] exI [of _ dist]) simp
  qed
qed

lemma set_getServersList: "pi_countConnections ips \<noteq> 0 \<Longrightarrow> set (Ips_getServersList ips hints) = set hints"
  by (simp add: Ips_getServersList_def unat_eq_zero)

lemma length_getServersList: "length (Ips_getServersList ips hints) = unat (pi_countConnections ips) * length hints"
  by (simp add: Ips_getServersList_def length_concat sum_list_replicate)

lemma segments_for_block:
  assumes new: "P2P_Ips_new servers conns = Ok ips" and hints: "hints \<noteq> []" "unat conns * length hints < 2 ^ 64"
    and len: "0 < length block" "length block < 2 ^ 63"
  obtains sgs where "segments_for ips (size_of block) 1000 hints sgs" and "tiles 0 sgs (size_of block)"
proof -
  let ?k = "size_of (Ips_getServersList ips hints)" and ?n = "countSegments_of (size_of block) 1000 (size_of (Ips_getServersList ips hints))"
  note ips = P2P_Ips_new_OkD [OF new]
  have "unat ?k = unat conns * length hints" using hints(2) by (simp add: size_of_def length_getServersList ips unat_of_nat_u64 del: of_nat_mult)
  then have k: "?k \<noteq> 0" using hints(1) ips(1) by (metis length_0_conv mult_eq_0_iff unat_0 unat_eq_zero)
  have nz: "size_of block \<noteq> 0" by (rule size_of_nonzero) (use len in auto)
  have n: "?n \<noteq> 0" using countSegments_positive [OF len k, of 1000] by (simp add: size_of_def)
  have "min (size_of block) (max (size_of block div ?n) 1000) \<noteq> 0" using nz by (auto simp: min_def max_def)
  then obtain sgs where sgs: "makeSegments ?n (size_of block) 1000 = Ok sgs"
    using n by (simp add: makeSegments_def Let_def split_beta)
  have "unat (size_of block) < 2 ^ 63" using len by simp
  note tl = makeSegments_tiles [OF sgs this]
  have "length sgs < 2 ^ 64" unfolding tl(2) by (rule unat_u64_less)
  then show ?thesis using that [of sgs] nz sgs tl by (simp add: segments_for_def)
qed

lemma servers_ask_faithful:
  assumes "answered (\<lambda>sg. mk (fromByte sg) (toByte sg)) (servers_ask net header parse prec srvs known) sg r"
    and "\<forall>s\<in>set srvs. faithful_server net mk header parse s block"
  shows "r = segment_bytes block sg"
proof -
  obtain i qs post response where i: "i < length srvs" and mk: "mk (fromByte sg) (toByte sg) = Ok (qs, post)"
    and c: "curl_request net qs post header (srvs ! i) (Ok response)" and t: "take_response parse prec sg response = Ok r"
    using assms(1) by (auto simp: answered_def servers_ask_def rbind_Ok_iff split: if_splits) (metis rbind_Ok_iff)
  have "rp_error (parse response) = None" "r = rp_response (parse response)"
    using t by (auto simp: take_response_def Let_def rbind_Ok_iff split: option.splits)
  moreover obtain url where "request_url (srvs ! i) qs = Ok url" "net url post header (Ok response)"
    using c by (auto simp: curl_request_def split: sum.splits)
  moreover have "faithful_server net mk header parse (srvs ! i) block" using assms(2) i by simp
  ultimately show ?thesis using mk unfolding faithful_server_def segment_bytes_def by blast
qed

text \<open>A server that answers every request for a range of the block, with a response that can be read.\<close>

definition always_serves ::
    "(string \<Rightarrow> string \<Rightarrow> string \<Rightarrow> string res \<Rightarrow> bool) \<Rightarrow> (size_t \<Rightarrow> size_t \<Rightarrow> (string \<times> string) res) \<Rightarrow> string \<Rightarrow>
     (string \<Rightarrow> responseParse) \<Rightarrow> string \<Rightarrow> string \<Rightarrow> bool" where
  "always_serves net mk header parse server block \<longleftrightarrow>
     (\<forall>a b. a \<le> b \<and> b \<le> size_of block \<longrightarrow>
        (\<exists>qs post url. mk a b = Ok (qs, post) \<and> request_url server qs = Ok url \<and> (\<exists>r. net url post header r) \<and>
           (\<forall>r. net url post header r \<longrightarrow> (\<exists>response. r = Ok response \<and> rp_error (parse response) = None))))"

lemma always_serves_outcome:
  assumes "always_serves net mk header parse server block" and "faithful_server net mk header parse server block"
    and "fromByte sg \<le> toByte sg" "toByte sg \<le> size_of block" "length block < 2 ^ 63"
  shows "\<exists>qs post. mk (fromByte sg) (toByte sg) = Ok (qs, post) \<and> (\<exists>response. curl_request net qs post header server response) \<and>
    (\<forall>response. curl_request net qs post header server response \<longrightarrow>
       rbind response (take_response parse prec sg) = Ok (segment_bytes block sg))"
proof -
  obtain qs post url where mk: "mk (fromByte sg) (toByte sg) = Ok (qs, post)" and url: "request_url server qs = Ok url"
    and net: "\<exists>r. net url post header r" "\<And>r. net url post header r \<Longrightarrow> \<exists>response. r = Ok response \<and> rp_error (parse response) = None"
    using assms(1,3,4) unfolding always_serves_def by blast
  have "unat (toByte sg - fromByte sg) = unat (toByte sg) - unat (fromByte sg)" using assms(3) by (rule unat_sub)
  moreover have "unat (toByte sg) \<le> length block" using assms(4,5) by (simp add: word_le_nat_alt)
  ultimately have "length (segment_bytes block sg) = unat (toByte sg - fromByte sg)" by (simp add: segment_bytes_def)
  then have len: "size_of (segment_bytes block sg) = toByte sg - fromByte sg" by (simp add: size_of_def)
  have "rbind r (take_response parse prec sg) = Ok (segment_bytes block sg)" if "net url post header r" for r
  proof -
    obtain response where r: "r = Ok response" "rp_error (parse response) = None" using net(2) \<open>net url post header r\<close> by blast
    then have "rp_response (parse response) = segment_bytes block sg"
      using assms(2) mk url that unfolding faithful_server_def segment_bytes_def by blast
    then show ?thesis using r len by (simp add: take_response_def)
  qed
  then show ?thesis using mk url net(1) by (intro exI [of _ qs] exI [of _ post]) (simp add: curl_request_def)
qed

lemma always_serves_answered:
  assumes "tiles 0 sgs (size_of block)" and "length block < 2 ^ 63" and "srvs \<noteq> []"
    and "\<forall>s\<in>set srvs. faithful_server net mk header parse s block \<and> always_serves net mk header parse s block"
  shows "always_answered (\<lambda>sg. mk (fromByte sg) (toByte sg)) (servers_ask net header parse prec srvs True) (length srvs) sgs"
  unfolding always_answered_def
proof
  fix sg assume "sg \<in> set sgs"
  then have sg: "fromByte sg \<le> toByte sg" "toByte sg \<le> size_of block" using tiles_nth [OF assms(1)] by (auto simp: in_set_conv_nth)
  note one = always_serves_outcome [OF _ _ sg assms(2)]
  obtain qs post where mk: "mk (fromByte sg) (toByte sg) = Ok (qs, post)"
    using one [of net mk header parse "hd srvs" prec] assms(3,4) by auto
  have "(\<exists>response. curl_request net qs post header (srvs ! i) response) \<and>
      (\<forall>response. curl_request net qs post header (srvs ! i) response \<longrightarrow> rbind response (take_response parse prec sg) = Ok (segment_bytes block sg))"
    if "i < length srvs" for i
    using one [of net mk header parse "srvs ! i" prec] assms(4) that mk by auto
  then show "\<exists>qs post. mk (fromByte sg) (toByte sg) = Ok (qs, post) \<and>
      (\<forall>i<length srvs. \<exists>r. servers_ask net header parse prec srvs True i qs post sg (Ok r)) \<and>
      (\<forall>i<length srvs. \<forall>e. \<not> servers_ask net header parse prec srvs True i qs post sg (Err e))"
    using mk by (intro exI [of _ qs] exI [of _ post]) (fastforce simp: servers_ask_def)
qed

section \<open>The contract of the clients\<close>

lemma answered_by_server:
  assumes "answered (\<lambda>sg. one_request mk (fromByte sg) (toByte sg)) (servers_ask net header parse False (replicate c server) known) (unit_segment k) r"
  shows "responds (curl_request net) (mk (of_nat k)) header parse server r"
proof -
  obtain i qs post where mk: "mk (of_nat k) = Ok (qs, post)"
    and req: "servers_ask net header parse False (replicate c server) known i qs post (unit_segment k) (Ok r)"
    using assms by (auto simp: answered_def unit_segment_def)
  then obtain response where res: "curl_request net qs post header server response"
    "Ok r = rbind response (take_response parse False (unit_segment k))"
    by (auto simp: servers_ask_def split: if_splits)
  then obtain body where "response = Ok body" "take_response parse False (unit_segment k) body = Ok r"
    by (cases response) simp_all
  then show ?thesis using mk res(1) by (auto simp: responds_def take_response_def Let_def split: option.splits)
qed

lemma concat_replicate_single: "concat (replicate n [x]) = replicate n x"
  by (induction n) simp_all

lemma Ips_requests_answers:
  assumes "Ips_requests net ips n mk header parse [server] (Ok answers)"
  shows "length answers = unat n \<and> (\<forall>k<length answers. responds (curl_request net) (mk (of_nat k)) header parse server (answers ! k))"
proof -
  let ?c = "unat (pi_countConnections ips)" and ?sgs = "unit_segments 0 (unat n)" and ?build = "\<lambda>sg. one_request mk (fromByte sg) (toByte sg)"
  let ?srvs = "replicate ?c server"
  have srvs: "Ips_getServersList ips [server] = ?srvs" by (simp add: Ips_getServersList_def concat_replicate_single)
  have n: "n \<noteq> 0" using assms by (auto simp: Ips_requests_def Ips_requestImpl_def rbind_Ok_iff)
  obtain p dist where run: "(ips_step net ips header parse False ?srvs ?build)\<^sup>*\<^sup>* (pool_start (length ?srvs) (length ?sgs) ?sgs, fmempty) (p, dist)"
    and full: "pool_result ?sgs p" and a: "answers = pl_answers p"
    using assms n by (auto simp: Ips_requests_def Ips_requestImpl_def rbind_Ok_iff srvs countSegments_of_def makeSegments_units CHECK_def Let_def
        split: if_splits)
  have small: "length ?sgs < 2 ^ 64" using unat_u64_less [of n] by simp
  have proj: "(pool_step ?build (servers_ask net header parse False ?srvs False))\<^sup>*\<^sup>* (pool_start (length ?srvs) (length ?sgs) ?sgs) p"
    using ips_run_projects [OF run, of False] by simp
  note each = pool_answers_each [OF proj numbered_units small full]
  have "responds (curl_request net) (mk (of_nat k)) header parse server (pl_answers p ! k)" if "k < unat n" for k
    using each(2) [of k] that by (intro answered_by_server) (simp add: unit_segments_def)
  then show ?thesis using each(1) by (simp add: a)
qed

interpretation address_peers: peer_requests "Ips_requests net ips" "curl_request net" for net ips
  by unfold_locales (rule Ips_requests_answers)

lemma broadcast_asks_each:
  assumes "parallelFor_spec pf" and "Ips_broadcast pf net ips qs post header (Ok calls)"
  shows "mset (map fst calls) = mset (pi_servers ips)"
    and "call \<in> set calls \<Longrightarrow> broadcast_call net qs post header (fst call) (Ok call)"
proof -
  obtain ys where ys: "list_all2 (\<lambda>x y. broadcast_call net qs post header x (Ok y)) (pi_servers ips) ys" "mset ys = mset calls"
    using assms unfolding parallelFor_spec_def Ips_broadcast_def by blast
  have fst: "fst y = x" if call: "broadcast_call net qs post header x (Ok y)" for x y
  proof -
    obtain r where "Ok y = (case r of Inr response \<Rightarrow> Ok (x, response, None) | Inl (Exception e) \<Rightarrow> Ok (x, [], Some e) | Inl e \<Rightarrow> Err e)"
      using call unfolding broadcast_call_def by blast
    then show ?thesis by (auto split: sum.split_asm error.split_asm)
  qed
  have "map fst ys = pi_servers ips" using ys(1) by (induction rule: list_all2_induct) (simp_all add: fst)
  then show "mset (map fst calls) = mset (pi_servers ips)" using ys(2) by (metis mset_map)
  assume "call \<in> set calls"
  then have "call \<in> set ys" using ys(2) by (metis set_mset_mset)
  then obtain i where "i < length ys" "ys ! i = call" by (auto simp: in_set_conv_nth)
  then have "broadcast_call net qs post header (pi_servers ips ! i) (Ok call)" using ys(1) by (auto simp: list_all2_conv_all_nth)
  then show "broadcast_call net qs post header (fst call) (Ok call)" using fst by simp
qed

section \<open>Properties\<close>


text \<open>Two servers with a block of three bytes; a request carries the bounds of the range as lengths.\<close>

definition range_mk :: "size_t \<Rightarrow> size_t \<Rightarrow> (string \<times> string) res" where
  "range_mk a b = (if a \<le> b \<and> b \<le> 3 then Ok (replicate (unat a) CHR ''a'', replicate (unat b) CHR ''b'') else Err Undefined)"

definition range_net :: "string \<Rightarrow> string \<Rightarrow> string \<Rightarrow> string res \<Rightarrow> bool" where
  "range_net url post header r \<longleftrightarrow> r = Ok (take (length post - (length url - 3)) (drop (length url - 3) ''abc''))"

lemma range_faithful:
  assumes "length server = 2" and "last server \<noteq> CHR ''/''"
  shows "faithful_server range_net range_mk [] sample_parse server ''abc''" and "always_serves range_net range_mk [] sample_parse server ''abc''"
proof -
  have "server \<noteq> []" using assms(1) by auto
  then have url: "request_url server qs = Ok (server @ ''/'' @ qs)" for qs using assms(2) by (simp add: request_url_def)
  show "faithful_server range_net range_mk [] sample_parse server ''abc''"
    using assms(1) by (auto simp: faithful_server_def url range_net_def range_mk_def sample_parse_def unat_sub split: if_splits)
  show "always_serves range_net range_mk [] sample_parse server ''abc''"
    by (auto simp: always_serves_def url range_net_def range_mk_def sample_parse_def size_of_def)
qed


end
