(* ===== verification/BlockDumps.thy ===== *)
theory BlockDumps
  imports Serialize
begin

text \<open>
  How block dumps travel: \<^verbatim>\<open>src/src/utils/compress.cpp\<close> and the packing functions of
  \<^verbatim>\<open>src/src/generate_json.cpp\<close>. LZ4 is a parameter: its functions take the source and the target area
  and return the size written and the new area. A failed conversion of the source is not reported; the
  caller gets whatever the target holds. The unpacking loop has fuel, since the positions it reads come
  from the answer of another node; \<open>None\<close> means that the fuel ran out.
\<close>

record lz4_ops =
  LZ4_compressBound :: "int \<Rightarrow> int"
  LZ4_compress_default :: "string \<Rightarrow> string \<Rightarrow> int \<times> string"
  LZ4_decompress_safe :: "string \<Rightarrow> string \<Rightarrow> int \<times> string"

definition resize :: "nat \<Rightarrow> string \<Rightarrow> string" where
  "resize n s = take n (s @ replicate n (CHR 0x00))"

text \<open>Sizes are passed as \<open>int\<close>.\<close>

definition c_int :: "nat \<Rightarrow> int" where
  "c_int n = sint (of_nat n :: 32 word)"

definition compress_uint32_block :: "lz4_ops \<Rightarrow> string \<Rightarrow> string \<Rightarrow> bool \<times> string" where
  "compress_uint32_block lz src dst =
     (if src = [] then (False, dst)
      else
        let bound_size = LZ4_compressBound lz (c_int (length src))
        in if bound_size = 0 then (False, dst)
           else
             let bound_size = bound_size + 4;
                 dst = (if length dst < nat bound_size then resize (nat bound_size) dst else dst);
                 (lz4_size, area) = LZ4_compress_default lz src (drop 4 dst);
                 dst = take 4 dst @ area
             in if lz4_size \<noteq> 0 then
                  let dst = (if lz4_size + 4 \<noteq> bound_size then resize (nat (lz4_size + 4)) dst else dst)
                  in (True, le_bytes 4 (length src mod 2 ^ 32) @ drop 4 dst)
                else (False, dst))"

definition decompress_uint32_block :: "lz4_ops \<Rightarrow> string \<Rightarrow> string \<Rightarrow> nat \<Rightarrow> bool \<times> string" where
  "decompress_uint32_block lz src dst max_size =
     (if length src \<le> 4 then (False, dst)
      else
        let orig_size = le_value (take 4 src)
        in if max_size < orig_size then (False, dst)
           else
             let dst = (if length dst < orig_size then resize orig_size dst else dst);
                 (size, dst) = LZ4_decompress_safe lz (drop 4 src) dst
             in if size < 0 then (False, dst)
                else (True, if int (length dst) \<noteq> size then resize (nat size) dst else dst))"

definition compress :: "lz4_ops \<Rightarrow> string \<Rightarrow> string" where
  "compress lz v = snd (compress_uint32_block lz v [])"

definition decompress :: "lz4_ops \<Rightarrow> string \<Rightarrow> string" where
  "decompress lz v = snd (decompress_uint32_block lz v [] (2 ^ 32 - 1))"

section \<open>Packing\<close>

definition genDumpBlockBinary :: "lz4_ops \<Rightarrow> string \<Rightarrow> bool \<Rightarrow> string" where
  "genDumpBlockBinary lz block isCompress = (if \<not> isCompress then block else compress lz block)"

definition genDumpBlocksBinary :: "lz4_ops \<Rightarrow> string list \<Rightarrow> bool \<Rightarrow> string" where
  "genDumpBlocksBinary lz blocks isCompress =
     (let res = concat (map serializeStringBigEndian blocks)
      in if \<not> isCompress then res else compress lz res)"

definition parseDumpBlockBinary :: "lz4_ops \<Rightarrow> string \<Rightarrow> bool \<Rightarrow> string" where
  "parseDumpBlockBinary lz response isCompress = (if \<not> isCompress then response else decompress lz response)"

fun parseDumpBlocks_loop :: "nat \<Rightarrow> string \<Rightarrow> size_t \<Rightarrow> string list \<Rightarrow> string list res option" where
  "parseDumpBlocks_loop 0 r fromPos res = None"
| "parseDumpBlocks_loop (Suc fuel) r fromPos res =
     (if fromPos < size_of r then
        case deserializeStringBigEndian r fromPos of
          Inl e \<Rightarrow> Some (Err e)
        | Inr (block, fromPos) \<Rightarrow> parseDumpBlocks_loop fuel r fromPos (res @ [block])
      else Some (Ok res))"

definition parseDumpBlocksBinary :: "nat \<Rightarrow> lz4_ops \<Rightarrow> string \<Rightarrow> bool \<Rightarrow> string list res option" where
  "parseDumpBlocksBinary fuel lz response isCompress =
     parseDumpBlocks_loop fuel (if isCompress then decompress lz response else response) 0 []"

section \<open>Compression round trip\<close>

text \<open>What the documentation of LZ4 promises: the bound is positive for an input of at most
  \<open>LZ4_MAX_INPUT_SIZE\<close> bytes, compression into an area of the size of the bound succeeds, and
  decompression of the result into an area that is large enough restores the source.\<close>

definition LZ4_MAX_INPUT_SIZE :: nat where "LZ4_MAX_INPUT_SIZE = 0x7E000000"

definition lz4_spec :: "lz4_ops \<Rightarrow> bool" where
  "lz4_spec lz \<longleftrightarrow>
     (\<forall>src area. src \<noteq> [] \<longrightarrow> length src \<le> LZ4_MAX_INPUT_SIZE \<longrightarrow>
        0 < LZ4_compressBound lz (int (length src)) \<and>
        (LZ4_compressBound lz (int (length src)) \<le> int (length area) \<longrightarrow>
           (let (n, area') = LZ4_compress_default lz src area
            in 0 < n \<and> n \<le> int (length area) \<and> length area' = length area \<and>
               (\<forall>target. length src \<le> length target \<longrightarrow>
                  (let (m, target') = LZ4_decompress_safe lz (take (nat n) area') target
                   in m = int (length src) \<and> length target' = length target \<and>
                      take (length src) target' = src)))))"

lemma c_int_small: "n < 2 ^ 31 \<Longrightarrow> c_int n = int n"
  unfolding c_int_def by transfer (simp add: signed_take_bit_int_eq_self)

lemma length_resize [simp]: "length (resize n s) = n"
  by (simp add: resize_def)

lemma resize_take: "n \<le> length s \<Longrightarrow> resize n s = take n s"
  by (simp add: resize_def)

text \<open>The header holds the size, and the rest is what LZ4 wrote.\<close>

lemma compress_form:
  assumes "lz4_spec lz" and "v \<noteq> []" and "length v \<le> LZ4_MAX_INPUT_SIZE"
  obtains n area where "compress lz v = le_bytes 4 (length v) @ take (nat n) area" and "0 < n" and "nat n \<le> length area"
    and "\<And>target. length v \<le> length target \<Longrightarrow>
      (\<exists>t'. LZ4_decompress_safe lz (take (nat n) area) target = (int (length v), t') \<and>
         length t' = length target \<and> take (length v) t' = v)"
proof -
  define b where "b = LZ4_compressBound lz (int (length v))"
  define dst where "dst = resize (nat (b + 4)) []"
  have c: "c_int (length v) = int (length v)" "length v mod 2 ^ 32 = length v"
    using assms(3) by (simp_all add: c_int_small LZ4_MAX_INPUT_SIZE_def)
  have b: "0 < b" using assms by (simp add: b_def lz4_spec_def Let_def)
  have len: "int (length (drop 4 dst)) = b" using b by (simp add: dst_def)
  obtain n area where cd: "LZ4_compress_default lz v (drop 4 dst) = (n, area)" by fastforce
  have spec: "0 < n" "n \<le> b" "length area = length (drop 4 dst)"
    "\<And>target. length v \<le> length target \<Longrightarrow>
      (\<exists>t'. LZ4_decompress_safe lz (take (nat n) area) target = (int (length v), t') \<and>
         length t' = length target \<and> take (length v) t' = v)"
    using mp [OF conjunct2 [OF assms(1) [unfolded lz4_spec_def, rule_format, OF assms(2,3), of "drop 4 dst"]]] len
    by (auto simp: b_def [symmetric] cd split_beta Let_def prod_eq_iff)
  have l4: "length (take 4 dst) = 4" using b by (simp add: dst_def)
  have "drop 4 (if n + 4 \<noteq> b + 4 then resize (nat (n + 4)) (take 4 dst @ area) else take 4 dst @ area) =
      take (nat n) area"
  proof (cases "n = b")
    case True
    then show ?thesis using l4 spec(3) len by simp
  next
    case False
    have "nat (n + 4) \<le> length (take 4 dst @ area)" using l4 spec len by simp
    then show ?thesis using False l4 spec(1) by (simp add: resize_take nat_add_distrib)
  qed
  then have "compress lz v = le_bytes 4 (length v) @ take (nat n) area"
    using assms(2) b spec(1) c cd
    by (simp add: compress_def compress_uint32_block_def Let_def b_def [symmetric] dst_def [symmetric]
        del: drop_append split: if_splits)
  then show ?thesis using that [of n area] spec len by simp
qed

lemma decompress_compress:
  assumes "lz4_spec lz" and "length v \<le> LZ4_MAX_INPUT_SIZE"
  shows "decompress lz (compress lz v) = v"
proof (cases "v = []")
  case False
  obtain n area where c: "compress lz v = le_bytes 4 (length v) @ take (nat n) area" and n: "0 < n" "nat n \<le> length area"
    and d: "\<And>target. length v \<le> length target \<Longrightarrow>
      (\<exists>t'. LZ4_decompress_safe lz (take (nat n) area) target = (int (length v), t') \<and>
         length t' = length target \<and> take (length v) t' = v)"
    using compress_form [OF assms(1) False assms(2)] by blast
  obtain t' where t': "LZ4_decompress_safe lz (take (nat n) area) (resize (length v) []) = (int (length v), t')"
    "length t' = length v" "take (length v) t' = v"
    using d [of "resize (length v) []"] by auto
  have size: "le_value (le_bytes 4 (length v)) = length v"
    using assms(2) by (simp add: le_value_le_bytes LZ4_MAX_INPUT_SIZE_def)
  from size show ?thesis
    using n t' assms(2) False
    by (simp add: decompress_def decompress_uint32_block_def c size Let_def LZ4_MAX_INPUT_SIZE_def)
qed (simp add: compress_def decompress_def compress_uint32_block_def decompress_uint32_block_def)

section \<open>Packing round trip\<close>

lemma parseDumpBlocks_loop_blocks:
  assumes "length (pre @ concat (map serializeString blocks)) < 2 ^ 64" and "length blocks < fuel"
  shows "parseDumpBlocks_loop fuel (pre @ concat (map serializeString blocks)) (of_nat (length pre)) res =
    Some (Ok (res @ blocks))"
  using assms
proof (induction blocks arbitrary: pre res fuel)
  case Nil
  then show ?case by (cases fuel) (auto simp: size_of_def)
next
  case (Cons b blocks)
  then obtain f where f: "fuel = Suc f" by (cases fuel) auto
  let ?r = "pre @ serializeString b @ concat (map serializeString blocks)"
  have "deserializeString ?r (of_nat (length pre)) = Ok (b, of_nat (length (pre @ serializeString b)))"
    by (rule encodesD [OF encodes_deserializeString]) (use Cons.prems(1) in simp)
  then have d: "deserializeStringBigEndian ?r (of_nat (length pre)) = Ok (b, of_nat (length (pre @ serializeString b)))"
    by (simp add: serialize_alias)
  have "parseDumpBlocks_loop f ((pre @ serializeString b) @ concat (map serializeString blocks))
      (of_nat (length (pre @ serializeString b))) (res @ [b]) = Some (Ok ((res @ [b]) @ blocks))"
    using Cons.prems f by (intro Cons.IH) simp_all
  moreover have "(of_nat (length pre) :: size_t) < size_of ?r"
    using Cons.prems(1) by (simp add: word_less_nat_alt unat_of_nat_u64)
  ultimately show ?case using d by (simp add: f del: of_nat_add length_append)
qed

text \<open>A position that comes back to where it was, with one more block read, is never left.\<close>

definition looping_dump :: string where
  "looping_dump = serializeInt (0 :: size_t) @ serializeInt (- 16 :: size_t)"

lemma deserializeString_at:
  assumes "deserializeInt raw p = Ok (n :: size_t, q)"
  shows "deserializeStringBigEndian raw p =
    rbind (substr raw q n) (\<lambda>str. rbind (CHECK (q + n \<noteq> p) ''Incorrect raw'') (\<lambda>_. Ok (str, q + n)))"
  using assms
  by (auto simp: deserializeStringBigEndian_def deserializeStringBigEndian3_def deserializeInt_def
      deserializeIntBigEndian_def rbind_Ok_iff rbind_rbind)

lemma looping_dump_turns:
  "deserializeStringBigEndian looping_dump 0 = Ok ([], 8)"
  "deserializeStringBigEndian looping_dump 8 = Ok ([], 0)"
  "0 < size_of looping_dump" "8 < size_of looping_dump"
proof -
  have len: "length looping_dump = 16" by (simp add: looping_dump_def)
  have "deserializeInt looping_dump 0 = Ok (0 :: size_t, 8)"
    using encodesD [OF int64.dec_enc [OF TrueI], of "[]" 0 "serializeInt (- 16 :: size_t)"]
    by (simp add: looping_dump_def)
  from deserializeString_at [OF this] show "deserializeStringBigEndian looping_dump 0 = Ok ([], 8)"
    by (simp add: substr_def size_of_def len)
  have "deserializeInt looping_dump 8 = Ok (- 16 :: size_t, 16)"
    using encodesD [OF int64.dec_enc [OF TrueI], of "serializeInt (0 :: size_t)" "- 16" "[]"]
    by (simp add: looping_dump_def)
  from deserializeString_at [OF this] show "deserializeStringBigEndian looping_dump 8 = Ok ([], 0)"
    by (simp add: substr_def size_of_def len)
  show "0 < size_of looping_dump" "8 < size_of looping_dump" by (simp_all add: size_of_def len)
qed

text \<open>What a node packs, its peer unpacks. A sequence of dumps packed for the wire, plain or compressed, is
  unpacked to the same sequence with fuel above the number of dumps, and so is a single dump; compression is
  undone for every text up to the size LZ4 accepts.\<close>

lemma packed_dumps_unpacked:
  assumes "lz4_spec lz" and "length (concat (map serializeString blocks)) \<le> LZ4_MAX_INPUT_SIZE" and "length blocks < fuel"
  shows "parseDumpBlocksBinary fuel lz (genDumpBlocksBinary lz blocks isCompress) isCompress = Some (Ok blocks)"
proof -
  have same: "serializeStringBigEndian = serializeString" by (rule ext) (simp add: serializeString_def)
  have "parseDumpBlocks_loop fuel (concat (map serializeString blocks)) 0 [] = Some (Ok blocks)"
    using parseDumpBlocks_loop_blocks [of "[]" blocks fuel "[]"] assms(2,3) by (simp add: LZ4_MAX_INPUT_SIZE_def)
  then show ?thesis
    using decompress_compress [OF assms(1,2)]
    by (simp add: parseDumpBlocksBinary_def genDumpBlocksBinary_def same Let_def)
qed

lemma packed_dump_unpacked:
  assumes "lz4_spec lz" and "length block \<le> LZ4_MAX_INPUT_SIZE"
  shows "parseDumpBlockBinary lz (genDumpBlockBinary lz block isCompress) isCompress = block"
  using decompress_compress [OF assms] by (simp add: parseDumpBlockBinary_def genDumpBlockBinary_def)

text \<open>An instance of the compressor: it copies.\<close>

definition copy_lz4 :: lz4_ops where
  "copy_lz4 = \<lparr>LZ4_compressBound = (\<lambda>n. n),
     LZ4_compress_default = (\<lambda>src area. if length src \<le> length area then (int (length src), src @ drop (length src) area) else (0, area)),
     LZ4_decompress_safe = (\<lambda>src area. if length src \<le> length area then (int (length src), src @ drop (length src) area) else (-1, area))\<rparr>"

lemma copy_lz4_spec: "lz4_spec copy_lz4"
  by (auto simp: lz4_spec_def copy_lz4_def Let_def)

section \<open>Properties\<close>

text \<open>C40: Unpacking need not end. The length of a dump is not compared with the bytes that are left and the
  position is advanced modulo \<open>2 ^ 64\<close>: the 16 bytes below, an empty dump followed by one with the length
  \<open>2 ^ 64 - 16\<close>, lead back to the position 0, and no number of turns of the loop is enough.\<close>
theorem unpacking_diverges:
  "parseDumpBlocksBinary fuel lz looping_dump False = None"
proof -
  have "parseDumpBlocks_loop n looping_dump 0 res = None \<and> parseDumpBlocks_loop n looping_dump 8 res = None" for n res
    by (induction n arbitrary: res) (simp_all add: looping_dump_turns)
  then show ?thesis by (simp add: parseDumpBlocksBinary_def)
qed

end
