(* ===== verification/BlockGetter.thy ===== *)
theory BlockGetter
  imports PeerAddresses BlockDumps PrivateKey Json BlockInfo
begin

text \<open>
  \<^verbatim>\<open>src/src/BlockSource/GetNewBlocksFromServers.cpp\<close> with the parsers of block headers of \<^verbatim>\<open>generate_json.cpp\<close>: how a
  node asks its peers for the number of blocks, for headers and for dumps. The peers are an interface with the
  four calls that the class uses; each takes the state of the world and returns the next one. Parsing and
  printing of JSON text are parameters.
\<close>

record getEnv =
  gv_parse :: "string \<Rightarrow> json option"
  gv_print :: "json \<Rightarrow> string"
  gv_lz :: lz4_ops

record 'w p2p =
  p2p_broadcast :: "string \<Rightarrow> string \<Rightarrow> string \<Rightarrow> 'w \<Rightarrow> 'w \<times> broadcastCall list \<times> unit res"
  p2p_request :: "size_t \<Rightarrow> bool \<Rightarrow> (size_t \<Rightarrow> size_t \<Rightarrow> (string \<times> string) res) \<Rightarrow> string \<Rightarrow> (string \<Rightarrow> responseParse) \<Rightarrow>
    string list \<Rightarrow> 'w \<Rightarrow> 'w \<times> string res"
  p2p_requests :: "size_t \<Rightarrow> (size_t \<Rightarrow> (string \<times> string) res) \<Rightarrow> string \<Rightarrow> (string \<Rightarrow> responseParse) \<Rightarrow>
    string list \<Rightarrow> 'w \<Rightarrow> 'w \<times> string list res"
  p2p_runOneRequest :: "string \<Rightarrow> string \<Rightarrow> string \<Rightarrow> string \<Rightarrow> 'w \<Rightarrow> 'w \<times> string res"

definition ESTIMATE_SIZE_SIGNATURE :: size_t where "ESTIMATE_SIZE_SIGNATURE = 250"
definition MAX_BLOCK_SIZE_WITHOUT_ADVANCE :: size_t where "MAX_BLOCK_SIZE_WITHOUT_ADVANCE = 100 * 1000"

section \<open>Answers in JSON\<close>

definition parse_document :: "getEnv \<Rightarrow> string \<Rightarrow> json res" where
  "parse_document gv text =
     (case gv_parse gv (c_string text) of
        None \<Rightarrow> Err (Exception (''rapidjson parse error. Data: '' @ text))
      | Some doc \<Rightarrow> Ok doc)"

definition check_error :: "getEnv \<Rightarrow> json \<Rightarrow> unit res" where
  "check_error gv doc =
     rbind (get_member doc ''error'') (\<lambda>m.
     case m of None \<Rightarrow> Ok () | Some JNull \<Rightarrow> Ok () | Some e \<Rightarrow> Err (Exception (gv_print gv e)))"

text \<open>\<open>HasMember(name) && IsInt64()\<close> and \<open>IsInt()\<close>: the number in the range of the type.\<close>

definition int_member :: "nat \<Rightarrow> json \<Rightarrow> string \<Rightarrow> int option res" where
  "int_member bits doc name =
     rbind (get_member doc name) (\<lambda>m.
     Ok (case m of Some (JInt i) \<Rightarrow> if - (2 ^ (bits - 1)) \<le> i \<and> i < 2 ^ (bits - 1) then Some i else None | _ \<Rightarrow> None))"

definition parseBlockHeader_json :: "json \<Rightarrow> minimumBlockHeader res" where
  "parseBlockHeader_json resultJson =
     rbind (rbind (int_member 64 resultJson ''number'') (\<lambda>m. require m ''number field not found'')) (\<lambda>number.
     rbind (rbind (string_member resultJson ''hash'') (\<lambda>m. require m ''hash field not found'')) (\<lambda>hash.
     rbind (rbind (string_member resultJson ''prev_hash'') (\<lambda>m. require m ''prev_hash field not found'')) (\<lambda>prev_hash.
     rbind (rbind (int_member 64 resultJson ''size'') (\<lambda>m. require m ''size field not found'')) (\<lambda>sz.
     rbind (rbind (string_member resultJson ''fileName'') (\<lambda>m. require m ''fileName field not found'')) (\<lambda>fileName.
     Ok \<lparr>mb_number = word_of_int number, mb_blockSize = word_of_int sz, mb_hash = hash, mb_parentHash = prev_hash,
         mb_fileName = fileName\<rparr>)))))"

definition parseBlockHeader :: "getEnv \<Rightarrow> string \<Rightarrow> minimumBlockHeader res" where
  "parseBlockHeader gv response =
     rbind (parse_document gv response) (\<lambda>doc.
     rbind (check_error gv doc) (\<lambda>_.
     rbind (rbind (object_member doc ''result'') (\<lambda>m. require m ''result field not found'')) parseBlockHeader_json))"

fun parseBlocksHeader_loop :: "json list \<Rightarrow> minimumBlockHeader list res" where
  "parseBlocksHeader_loop [] = Ok []"
| "parseBlocksHeader_loop (rJson # rest) =
     rbind (CHECK (is_object rJson) ''result field not found'') (\<lambda>_.
     rbind (parseBlockHeader_json rJson) (\<lambda>bh.
     rbind (parseBlocksHeader_loop rest) (\<lambda>bhs. Ok (bh # bhs))))"

definition parseBlocksHeader :: "getEnv \<Rightarrow> string \<Rightarrow> minimumBlockHeader list res" where
  "parseBlocksHeader gv response =
     rbind (parse_document gv response) (\<lambda>doc.
     rbind (check_error gv doc) (\<lambda>_.
     rbind (get_member doc ''result'') (\<lambda>m.
     case m of Some (JArray js) \<Rightarrow> parseBlocksHeader_loop js | _ \<Rightarrow> Err (Exception ''result field not found''))))"

section \<open>The last block\<close>

record lastBlockResponse =
  lb_servers :: "string list"
  lb_lastBlock :: size_t
  lb_error :: "string option"

record lastBlockState =
  ls_lastBlock :: "size_t option"
  ls_error :: string
  ls_servers :: "string list"

text \<open>The answer of one server; the callback keeps the servers with the most blocks. Only an exception of \<open>CHECK\<close>
  is caught.\<close>

definition count_blocks_of :: "getEnv \<Rightarrow> string \<Rightarrow> size_t res" where
  "count_blocks_of gv result =
     rbind (parse_document gv result) (\<lambda>doc.
     rbind (check_error gv doc) (\<lambda>_.
     rbind (rbind (object_member doc ''result'') (\<lambda>m. require m ''result field not found'')) (\<lambda>resultJson.
     rbind (rbind (int_member 32 resultJson ''count_blocks'') (\<lambda>m. require m ''count_blocks field not found'')) (\<lambda>n.
     Ok (word_of_int n)))))"

definition getLastBlock_callback :: "getEnv \<Rightarrow> broadcastCall \<Rightarrow> lastBlockState \<Rightarrow> lastBlockState res" where
  "getLastBlock_callback gv call st =
     (case call of (server, result, curlException) \<Rightarrow>
        (case curlException of
           Some e \<Rightarrow> Ok (st\<lparr>ls_error := e\<rparr>)
         | None \<Rightarrow>
             (case count_blocks_of gv result of
                Inl (Exception e) \<Rightarrow> Ok (st\<lparr>ls_error := e\<rparr>)
              | Inl e \<Rightarrow> Err e
              | Inr countBlocks \<Rightarrow>
                  let lastBlock = (case ls_lastBlock st of None \<Rightarrow> 0 | Some n \<Rightarrow> n);
                      st = st\<lparr>ls_lastBlock := Some lastBlock\<rparr>
                  in if lastBlock < countBlocks then Ok (st\<lparr>ls_lastBlock := Some countBlocks, ls_servers := [server]\<rparr>)
                     else if lastBlock = countBlocks then Ok (st\<lparr>ls_servers := ls_servers st @ [server]\<rparr>)
                     else Ok st)))"

fun getLastBlock_calls :: "getEnv \<Rightarrow> broadcastCall list \<Rightarrow> lastBlockState \<Rightarrow> lastBlockState res" where
  "getLastBlock_calls gv [] st = Ok st"
| "getLastBlock_calls gv (c # cs) st = rbind (getLastBlock_callback gv c st) (getLastBlock_calls gv cs)"

definition getLastBlock_response :: "lastBlockState \<Rightarrow> lastBlockResponse" where
  "getLastBlock_response st =
     (case ls_lastBlock st of
        Some n \<Rightarrow> \<lparr>lb_servers = ls_servers st, lb_lastBlock = n, lb_error = None\<rparr>
      | None \<Rightarrow> \<lparr>lb_servers = [], lb_lastBlock = 0, lb_error = Some (ls_error st)\<rparr>)"

definition GetNewBlocks_getLastBlock :: "'w p2p \<Rightarrow> getEnv \<Rightarrow> 'w \<Rightarrow> 'w \<times> lastBlockResponse res" where
  "GetNewBlocks_getLastBlock p2p gv w =
     (case p2p_broadcast p2p ''get-count-blocks'' ''{\"id\": 1}'' [] w of
        (w, calls, r) \<Rightarrow>
          (w, rbind (getLastBlock_calls gv calls \<lparr>ls_lastBlock = None, ls_error = [], ls_servers = []\<rparr>) (\<lambda>st.
              rbind r (\<lambda>_. Ok (getLastBlock_response st)))))"

section \<open>Headers\<close>

record getterOptions =
  go_maxAdvancedLoadBlocks :: size_t
  go_countBlocksInBatch :: size_t
  go_isCompress :: bool

record getter =
  gt_headers :: "(size_t \<times> minimumBlockHeader) list"
  gt_dumps :: "(string, string) fmap"

definition clearAdvanced :: "getter \<Rightarrow> getter" where
  "clearAdvanced g = g\<lparr>gt_headers := [], gt_dumps := fmempty\<rparr>"

definition plain_response :: "string \<Rightarrow> responseParse" where
  "plain_response result = \<lparr>rp_response = result, rp_error = None\<rparr>"

definition get_blocks_query :: "size_t \<Rightarrow> size_t \<Rightarrow> string" where
  "get_blocks_query beginBlock countBlocks =
     ''{\"id\":1,\"params\":{\"beginBlock\": '' @ to_string_u64 beginBlock @ '', \"countBlocks\": '' @
       to_string_u64 countBlocks @ '', \"type\": \"forP2P\", \"direction\": \"forward\"}}''"

definition get_block_query :: "size_t \<Rightarrow> string" where
  "get_block_query number =
     ''{\"id\":1,\"params\":{\"number\": '' @ to_string_u64 number @ '', \"type\": \"forP2P\"}}''"

text \<open>The request for one part of the headers. A part of one block is asked for by number.\<close>

definition header_request :: "size_t \<Rightarrow> size_t \<Rightarrow> size_t \<Rightarrow> size_t \<Rightarrow> string \<times> string" where
  "header_request batch blockNum maxCountBlocks number =
     (let beginBlock = blockNum + number * batch;
          countBlocks = min batch (maxCountBlocks - number * batch)
      in if countBlocks \<noteq> 1 then
           (''get-blocks'', get_blocks_query beginBlock countBlocks)
         else (''get-block-by-number'', get_block_query (blockNum + number)))"

fun store_blocks ::
    "size_t \<Rightarrow> minimumBlockHeader list \<Rightarrow> (size_t \<times> minimumBlockHeader) list \<Rightarrow> (size_t \<times> minimumBlockHeader) list \<times> unit res" where
  "store_blocks num [] hs = (hs, Ok ())"
| "store_blocks num (b # bs) hs =
     (if mb_number b \<noteq> num then
        (hs, Err (Exception (''Incorrect block number in answer: '' @ to_string_u64 (mb_number b) @ '' '' @ to_string_u64 num)))
      else store_blocks (num + 1) bs (hs @ [(num, b)]))"

fun store_parts ::
    "getEnv \<Rightarrow> size_t \<Rightarrow> size_t \<Rightarrow> size_t \<Rightarrow> size_t \<Rightarrow> string list \<Rightarrow> (size_t \<times> minimumBlockHeader) list \<Rightarrow>
     (size_t \<times> minimumBlockHeader) list \<times> unit res" where
  "store_parts gv batch blockNum countBlocks i [] hs = (hs, Ok ())"
| "store_parts gv batch blockNum countBlocks i (answer # answers) hs =
     (let currBlockNum = blockNum + i * batch;
          blocksInPart = min batch (countBlocks - i * batch)
      in if blocksInPart \<noteq> 1 then
           (case parseBlocksHeader gv answer of
              Inl e \<Rightarrow> (hs, Err e)
            | Inr blocks \<Rightarrow>
                if size_of blocks \<noteq> blocksInPart then (hs, Err (Exception ''Incorrect answers''))
                else (case store_blocks currBlockNum blocks hs of
                        (hs, Inl e) \<Rightarrow> (hs, Err e)
                      | (hs, Inr _) \<Rightarrow> store_parts gv batch blockNum countBlocks (i + 1) answers hs))
         else
           (case parseBlockHeader gv answer of
              Inl e \<Rightarrow> (hs, Err e)
            | Inr b \<Rightarrow> store_parts gv batch blockNum countBlocks (i + 1) answers (hs @ [(currBlockNum, b)])))"

definition Getter_getBlockHeader ::
    "'w p2p \<Rightarrow> getEnv \<Rightarrow> getterOptions \<Rightarrow> size_t \<Rightarrow> size_t \<Rightarrow> string \<Rightarrow> getter \<Rightarrow> 'w \<Rightarrow> getter \<times> 'w \<times> minimumBlockHeader res" where
  "Getter_getBlockHeader p2p gv opt blockNum maxBlockNum server g w =
     (case find (\<lambda>h. fst h = blockNum) (gt_headers g) of
        Some h \<Rightarrow> (g, w, Ok (snd h))
      | None \<Rightarrow>
          let g = g\<lparr>gt_headers := []\<rparr>;
              batch = go_countBlocksInBatch opt;
              countBlocks = min (maxBlockNum - blockNum + 1) (go_maxAdvancedLoadBlocks opt)
          in if batch = 0 then (g, w, Err Undefined)
             else
               let countParts = (countBlocks + batch - 1) div batch
               in if countBlocks = 0 \<or> countParts = 0 then (g, w, Err (Exception ''Incorrect count blocks''))
                  else
                    (case p2p_requests p2p countParts (\<lambda>number. Ok (header_request batch blockNum countBlocks number)) []
                            plain_response [server] w of
                       (w, Inl e) \<Rightarrow> (g, w, Err e)
                     | (w, Inr answer) \<Rightarrow>
                         if size_of answer \<noteq> countParts then (g, w, Err (Exception ''Incorrect answer''))
                         else
                           let (hs, r) = store_parts gv batch blockNum countBlocks 0 answer []
                           in (g\<lparr>gt_headers := hs\<rparr>, w, rbind r (\<lambda>_. case hs of [] \<Rightarrow> Err Undefined | h # _ \<Rightarrow> Ok (snd h)))))"

definition getBlockHeaderWithoutAdvanceLoad :: "'w p2p \<Rightarrow> getEnv \<Rightarrow> size_t \<Rightarrow> string \<Rightarrow> 'w \<Rightarrow> 'w \<times> minimumBlockHeader res" where
  "getBlockHeaderWithoutAdvanceLoad p2p gv blockNum server w =
     (case p2p_runOneRequest p2p server ''get-block-by-number'' (get_block_query blockNum) [] w of
        (w, response) \<Rightarrow> (w, rbind response (parseBlockHeader gv)))"

section \<open>Dumps\<close>

definition makeRequestForDumpBlock :: "string \<Rightarrow> size_t \<Rightarrow> size_t \<Rightarrow> string \<times> string" where
  "makeRequestForDumpBlock blockHash from_byte to_byte =
     (''get-dump-block-by-hash'', ''{\"id\":1,\"params\":{\"hash\": \"'' @ blockHash @ ''\" , \"fromByte\": '' @
        to_string_u64 from_byte @ '', \"toByte\": '' @ to_string_u64 to_byte @ '', \"isHex\": false}}'')"

definition makeRequestForDumpBlockSign :: "string \<Rightarrow> size_t \<Rightarrow> size_t \<Rightarrow> string \<times> string" where
  "makeRequestForDumpBlockSign blockHash from_byte to_byte =
     (''get-dump-block-by-hash'', ''{\"id\":1,\"params\":{\"hash\": \"'' @ blockHash @ ''\" , \"fromByte\": '' @
        to_string_u64 from_byte @ '', \"toByte\": '' @ to_string_u64 to_byte @ ''\", \"isHex\": false, \"isSign\": true, '' @
        ''\"compress\": '' @ ''false'' @ ''}}'')"

text \<open>A short answer in braces is taken for JSON; such a text parses to an object, if at all.\<close>

definition dump_field :: "getEnv \<Rightarrow> string \<Rightarrow> string res" where
  "dump_field gv result =
     rbind (parse_document gv result) (\<lambda>doc.
     rbind (check_error gv doc) (\<lambda>_.
     rbind (rbind (object_member doc ''result'') (\<lambda>m. require m ''result field not found'')) (\<lambda>resultJson.
     rbind (string_member resultJson ''dump'') (\<lambda>m. require m ''dump field not found''))))"

definition parseDumpBlockResponse :: "getEnv \<Rightarrow> string \<Rightarrow> responseParse" where
  "parseDumpBlockResponse gv result =
     (if result = [] then \<lparr>rp_response = [], rp_error = None\<rparr>
      else if size_of result \<le> 512 \<and> hd result = CHR ''{'' \<and> last result = CHR ''}'' then
        (case dump_field gv result of
           Inr dump \<Rightarrow> \<lparr>rp_response = dump, rp_error = None\<rparr>
         | Inl (Exception e) \<Rightarrow> \<lparr>rp_response = [], rp_error = Some e\<rparr>
         | Inl _ \<Rightarrow> \<lparr>rp_response = [], rp_error = Some []\<rparr>)
      else \<lparr>rp_response = result, rp_error = None\<rparr>)"

definition getBlockDumpWithoutAdvancedLoad ::
    "'w p2p \<Rightarrow> getEnv \<Rightarrow> string \<Rightarrow> size_t \<Rightarrow> string list \<Rightarrow> bool \<Rightarrow> 'w \<Rightarrow> 'w \<times> string res" where
  "getBlockDumpWithoutAdvancedLoad p2p gv blockHash blockSize hintsServers isSign w =
     (if \<not> isSign then
        p2p_request p2p blockSize True (\<lambda>from to. Ok (makeRequestForDumpBlock blockHash from to)) []
          (parseDumpBlockResponse gv) hintsServers w
      else
        p2p_request p2p (blockSize + ESTIMATE_SIZE_SIGNATURE) False (\<lambda>from to. Ok (makeRequestForDumpBlockSign blockHash from to)) []
          (parseDumpBlockResponse gv) hintsServers w)"

definition json_bool :: "bool \<Rightarrow> string" where
  "json_bool b = (if b then ''true'' else ''false'')"

fun quoted_list :: "string list \<Rightarrow> string" where
  "quoted_list [] = []"
| "quoted_list [h] = ''\"'' @ h @ ''\"''"
| "quoted_list (h # hs) = ''\"'' @ h @ ''\"'' @ '', '' @ quoted_list hs"

text \<open>The request for one part of the dumps. A part of one block names the hash at the number of the part; the
  vector is indexed without a check.\<close>

definition dump_request :: "size_t \<Rightarrow> bool \<Rightarrow> bool \<Rightarrow> string list \<Rightarrow> size_t \<Rightarrow> (string \<times> string) res" where
  "dump_request batch isSign isCompress blocksHashs number =
     rbind (CHECK (number * batch < size_of blocksHashs) ''Incorrect number'') (\<lambda>_.
     let beginBlock = number * batch;
         countBlocks = min batch (size_of blocksHashs - number * batch)
     in if countBlocks = 1 then
          (if unat number < length blocksHashs then
             Ok (''get-dump-block-by-hash'', ''{\"id\":1,\"params\":{\"hash\": \"'' @ blocksHashs ! unat number @
                ''\" , \"isHex\": false, '' @ ''\"isSign\": '' @ json_bool isSign @ '', \"compress\": '' @ json_bool isCompress @ ''}}'')
           else Err Undefined)
        else
          Ok (''get-dumps-blocks-by-hash'', ''{\"id\":1,\"params\":{\"hashes\": ['' @
              quoted_list (take (unat countBlocks) (drop (unat beginBlock) blocksHashs)) @ ''], \"isSign\": '' @ json_bool isSign @
              '', \"compress\": '' @ json_bool isCompress @ ''}}''))"

text \<open>The dumps of the answers, by hash. Unpacking may go on for ever: \<open>None\<close>.\<close>

fun store_dumps ::
    "nat \<Rightarrow> lz4_ops \<Rightarrow> size_t \<Rightarrow> bool \<Rightarrow> string list \<Rightarrow> size_t \<Rightarrow> string list \<Rightarrow> (string, string) fmap \<Rightarrow>
     ((string, string) fmap \<times> unit res) option" where
  "store_dumps fuel lz batch isCompress blocksHashs i [] m = Some (m, Ok ())"
| "store_dumps fuel lz batch isCompress blocksHashs i (response # responses) m =
     (let beginBlock = i * batch;
          blocksInPart = min batch (size_of blocksHashs - i * batch)
      in if blocksInPart = 1 then
           (if unat i < length blocksHashs then
              store_dumps fuel lz batch isCompress blocksHashs (i + 1) responses
                (fmupd (blocksHashs ! unat i) (parseDumpBlockBinary lz response isCompress) m)
            else Some (m, Err Undefined))
         else
           (case parseDumpBlocksBinary fuel lz response isCompress of
              None \<Rightarrow> None
            | Some (Inl e) \<Rightarrow> Some (m, Err e)
            | Some (Inr blocks) \<Rightarrow>
                if size_of blocks \<noteq> blocksInPart then Some (m, Err (Exception ''Incorrect answer''))
                else if size_of blocksHashs < beginBlock + size_of blocks then Some (m, Err (Exception ''Incorrect answer''))
                else store_dumps fuel lz batch isCompress blocksHashs (i + 1) responses
                       (fold (\<lambda>(h, b). fmupd h b) (zip (drop (unat beginBlock) blocksHashs) blocks) m)))"

definition Getter_getBlockDump ::
    "nat \<Rightarrow> 'w p2p \<Rightarrow> getEnv \<Rightarrow> getterOptions \<Rightarrow> string \<Rightarrow> size_t \<Rightarrow> string list \<Rightarrow> bool \<Rightarrow> getter \<Rightarrow> 'w \<Rightarrow>
     (getter \<times> 'w \<times> string res) option" where
  "Getter_getBlockDump fuel p2p gv opt blockHash blockSize hintsServers isSign g w =
     (case fmlookup (gt_dumps g) blockHash of
        Some dump \<Rightarrow> Some (g, w, Ok dump)
      | None \<Rightarrow>
          if MAX_BLOCK_SIZE_WITHOUT_ADVANCE < blockSize then
            Some (g, getBlockDumpWithoutAdvancedLoad p2p gv blockHash blockSize hintsServers isSign w)
          else
            let g = g\<lparr>gt_dumps := fmempty\<rparr>;
                batch = go_countBlocksInBatch opt;
                blocksHashs = map (\<lambda>h. mb_hash (snd h)) (takeWhile (\<lambda>h. mb_blockSize (snd h) \<le> MAX_BLOCK_SIZE_WITHOUT_ADVANCE)
                  (dropWhile (\<lambda>h. mb_hash (snd h) \<noteq> blockHash) (gt_headers g)))
            in if blocksHashs = [] then Some (g, w, Err (Exception ''advanced blocks not loaded''))
               else if batch = 0 then Some (g, w, Err Undefined)
               else
                 let countParts = (size_of blocksHashs + batch - 1) div batch
                 in (case p2p_requests p2p countParts (dump_request batch isSign (go_isCompress opt) blocksHashs) []
                            (parseDumpBlockResponse gv) hintsServers w of
                       (w, Inl e) \<Rightarrow> Some (g, w, Err e)
                     | (w, Inr responses) \<Rightarrow>
                         if size_of responses \<noteq> countParts then Some (g, w, Err (Exception ''Incorrect responses''))
                         else
                           (case store_dumps fuel (gv_lz gv) batch (go_isCompress opt) blocksHashs 0 responses fmempty of
                              None \<Rightarrow> None
                            | Some (m, Inl e) \<Rightarrow> Some (g\<lparr>gt_dumps := m\<rparr>, w, Err e)
                            | Some (m, Inr _) \<Rightarrow>
                                (case fmlookup m blockHash of
                                   None \<Rightarrow> Some (g\<lparr>gt_dumps := fmupd blockHash [] m\<rparr>, w, Ok [])
                                 | Some dump \<Rightarrow> Some (g\<lparr>gt_dumps := m\<rparr>, w, Ok dump)))))"

section \<open>The peers\<close>

text \<open>The lists of answers come from \<open>requests\<close> of the client of the graph, or of the client of a list of servers, over the network
  \<open>net\<close>. What the getter needs of either is the contract of the locale.\<close>

definition graph_requests :: "(string \<Rightarrow> string \<Rightarrow> string \<Rightarrow> string res \<Rightarrow> bool) \<Rightarrow> size_t \<Rightarrow> 'w p2p \<Rightarrow> bool" where
  "graph_requests net conns p2p \<longleftrightarrow>
     (\<forall>n mk header parse hints w w' answers. p2p_requests p2p n mk header parse hints w = (w', Ok answers) \<longrightarrow>
        P2P_requests net conns n mk header parse hints (Ok answers))"

definition address_requests :: "(string \<Rightarrow> string \<Rightarrow> string \<Rightarrow> string res \<Rightarrow> bool) \<Rightarrow> p2pIps \<Rightarrow> 'w p2p \<Rightarrow> bool" where
  "address_requests net ips p2p \<longleftrightarrow>
     (\<forall>n mk header parse hints w w' answers. p2p_requests p2p n mk header parse hints w = (w', Ok answers) \<longrightarrow>
        Ips_requests net ips n mk header parse hints (Ok answers))"

definition peer_answers :: "(string \<Rightarrow> string \<Rightarrow> string \<Rightarrow> string res \<Rightarrow> bool) \<Rightarrow> 'w p2p \<Rightarrow> bool" where
  "peer_answers net p2p \<longleftrightarrow>
     peer_requests (\<lambda>n mk header parse hints r. \<exists>w w'. p2p_requests p2p n mk header parse hints w = (w', r)) (curl_request net)"

lemma graph_or_address_answers:
  assumes "graph_requests net conns p2p \<or> address_requests net ips p2p"
  shows "peer_answers net p2p"
  unfolding peer_answers_def
proof (unfold_locales, elim exE)
  fix n mk header parse server answers w w'
  assume "p2p_requests p2p n mk header parse [server] w = (w', Ok answers)"
  then have "P2P_requests net conns n mk header parse [server] (Ok answers) \<or> Ips_requests net ips n mk header parse [server] (Ok answers)"
    using assms unfolding graph_requests_def address_requests_def by blast
  then show "length answers = unat n \<and> (\<forall>k<length answers. responds (curl_request net) (mk (of_nat k)) header parse server (answers ! k))"
    by (elim disjE) (rule graph_peers.requests_answers, assumption, rule address_peers.requests_answers, assumption)
qed

text \<open>A server with the chain \<open>chain\<close> up to the block \<open>lastBlock\<close>: what it answers to the two queries for headers, when it
  answers and its answer can be read, are headers of its chain.\<close>

definition serves_headers ::
    "getEnv \<Rightarrow> (string \<Rightarrow> string \<Rightarrow> string \<Rightarrow> string res \<Rightarrow> bool) \<Rightarrow> string \<Rightarrow> (size_t \<Rightarrow> minimumBlockHeader) \<Rightarrow> size_t \<Rightarrow> bool" where
  "serves_headers gv net server chain lastBlock \<longleftrightarrow>
     (\<forall>b c response hs. unat b + unat c \<le> unat lastBlock + 1 \<longrightarrow>
        curl_request net ''get-blocks'' (get_blocks_query b c) [] server (Ok response) \<longrightarrow>
        parseBlocksHeader gv response = Ok hs \<longrightarrow> hs = map (\<lambda>j. chain (b + of_nat j)) [0..<unat c]) \<and>
     (\<forall>n response h. unat n \<le> unat lastBlock \<longrightarrow> curl_request net ''get-block-by-number'' (get_block_query n) [] server (Ok response) \<longrightarrow>
        parseBlockHeader gv response = Ok h \<longrightarrow> h = chain n)"

lemma serves_headersD:
  assumes "serves_headers gv net server chain lastBlock"
  shows "unat b + unat c \<le> unat lastBlock + 1 \<Longrightarrow> curl_request net ''get-blocks'' (get_blocks_query b c) [] server (Ok response) \<Longrightarrow>
      parseBlocksHeader gv response = Ok hs \<Longrightarrow> hs = map (\<lambda>j. chain (b + of_nat j)) [0..<unat c]"
    and "unat n \<le> unat lastBlock \<Longrightarrow> curl_request net ''get-block-by-number'' (get_block_query n) [] server (Ok response) \<Longrightarrow>
      parseBlockHeader gv response = Ok h \<Longrightarrow> h = chain n"
  using assms unfolding serves_headers_def by blast+

lemma store_blocks_Ok:
  "store_blocks num bs hs = (hs', Ok ()) \<Longrightarrow> hs' = hs @ map (\<lambda>j. (num + of_nat j, bs ! j)) [0..<length bs]"
proof (induction bs arbitrary: num hs)
  case (Cons b bs)
  then have "hs' = (hs @ [(num, b)]) @ map (\<lambda>j. (num + 1 + of_nat j, bs ! j)) [0..<length bs]"
    using Cons.IH [of "num + 1" "hs @ [(num, b)]"] by (auto split: if_splits)
  also have "map (\<lambda>j. (num + 1 + of_nat j, bs ! j)) [0..<length bs] = map (\<lambda>j. (num + of_nat j, (b # bs) ! j)) [Suc 0..<Suc (length bs)]"
    by (rule nth_equalityI) (simp_all add: ac_simps del: upt_Suc)
  finally show ?case by (simp add: upt_conv_Cons del: upt_Suc)
qed simp

text \<open>The parts of a list of \<open>C\<close> blocks in batches of \<open>B\<close>.\<close>

lemma min_of_unat: "unat c = n \<Longrightarrow> min b c = of_nat (min (unat b) n)" for b c :: u64
  by (auto simp: min_def word_le_nat_alt)

lemma part_size:
  fixes batch cnt :: size_t
  assumes "k * unat batch \<le> unat cnt"
  shows "of_nat k * batch = of_nat (k * unat batch)"
    and "min batch (cnt - of_nat k * batch) = of_nat (min (unat batch) (unat cnt - k * unat batch))"
proof -
  show e: "of_nat k * batch = of_nat (k * unat batch)" by simp
  have "unat (of_nat (k * unat batch) :: size_t) = k * unat batch"
    using assms unat_u64_less [of cnt] by (intro unat_of_nat_u64) linarith
  then have "unat (cnt - of_nat k * batch) = unat cnt - k * unat batch"
    unfolding e using assms by (intro trans [OF unat_sub]) (simp_all add: word_le_nat_alt)
  then show "min batch (cnt - of_nat k * batch) = of_nat (min (unat batch) (unat cnt - k * unat batch))"
    by (rule min_of_unat)
qed

lemma part_range:
  assumes "k * B < C"
  shows "[k * B..<C] = [k * B..<k * B + min B (C - k * B)] @ [Suc k * B..<C]"
proof (cases "C \<le> Suc k * B")
  case False
  then have "C = k * B + B + (C - Suc k * B)" "min B (C - k * B) = B" by (simp_all add: min_def)
  then show ?thesis using upt_add_eq_append [of "k * B" "k * B + B" "C - Suc k * B"] by (simp add: add.commute)
next
  case True
  then have "k * B + min B (C - k * B) = C" using assms by (simp add: min_def) linarith
  then show ?thesis using True by simp
qed

text \<open>Block \<open>j\<close> of the list, as it is stored: a block that is alone in its part has the number of the part.\<close>

definition loaded_number :: "nat \<Rightarrow> nat \<Rightarrow> nat \<Rightarrow> nat" where
  "loaded_number B C j = (if min B (C - j div B * B) = 1 then j div B else j)"

definition loaded_header :: "(size_t \<Rightarrow> minimumBlockHeader) \<Rightarrow> nat \<Rightarrow> nat \<Rightarrow> size_t \<Rightarrow> nat \<Rightarrow> size_t \<times> minimumBlockHeader" where
  "loaded_header chain B C blockNum j = (blockNum + of_nat j, chain (blockNum + of_nat (loaded_number B C j)))"

lemma loaded_part:
  assumes "k * B < C" and "0 < B"
  shows "map (loaded_header chain B C blockNum) [k * B..<k * B + min B (C - k * B)] =
    (if min B (C - k * B) = 1 then [(blockNum + of_nat (k * B), chain (blockNum + of_nat k))]
     else map (\<lambda>j. (blockNum + of_nat (k * B) + of_nat j, chain (blockNum + of_nat (k * B) + of_nat j))) [0..<min B (C - k * B)])"
proof (cases "min B (C - k * B) = 1")
  case True
  then show ?thesis using assms by (simp add: loaded_header_def loaded_number_def)
next
  case False
  have "(k * B + j) div B = k" if "j < min B (C - k * B)" for j
    using that assms(2) by (intro div_nat_eqI) (simp_all add: add.commute)
  then have "loaded_number B C (k * B + j) = k * B + j" if "j < min B (C - k * B)" for j
    using that False by (simp add: loaded_number_def)
  then show ?thesis using False by (intro nth_equalityI) (simp_all add: loaded_header_def add.assoc)
qed

lemma store_parts_Ok:
  assumes "store_parts gv batch blockNum cnt (of_nat k) answers hs = (hs', Ok ())" and "0 < unat batch"
    and "unat cnt \<le> (k + length answers) * unat batch" and "\<And>m. m < length answers \<Longrightarrow> (k + m) * unat batch < unat cnt"
    and "\<And>m bs. m < length answers \<Longrightarrow> min (unat batch) (unat cnt - (k + m) * unat batch) \<noteq> 1 \<Longrightarrow>
      parseBlocksHeader gv (answers ! m) = Ok bs \<Longrightarrow>
      bs = map (\<lambda>j. chain (blockNum + of_nat ((k + m) * unat batch) + of_nat j)) [0..<min (unat batch) (unat cnt - (k + m) * unat batch)]"
    and "\<And>m b. m < length answers \<Longrightarrow> min (unat batch) (unat cnt - (k + m) * unat batch) = 1 \<Longrightarrow>
      parseBlockHeader gv (answers ! m) = Ok b \<Longrightarrow> b = chain (blockNum + of_nat (k + m))"
  shows "hs' = hs @ map (loaded_header chain (unat batch) (unat cnt) blockNum) [k * unat batch..<unat cnt]"
  using assms(1,3-6)
proof (induction answers arbitrary: k hs)
  case Nil
  then show ?case by simp
next
  case (Cons a answers)
  let ?B = "unat batch" and ?C = "unat cnt"
  let ?n = "min ?B (?C - k * ?B)"
  have kB: "k * ?B < ?C" using Cons.prems(3) [of 0] by simp
  have n: "min batch (cnt - of_nat k * batch) = of_nat ?n" "of_nat k * batch = of_nat (k * ?B)"
    using part_size [of k batch cnt] kB by simp_all
  have "unat (of_nat ?n :: size_t) = ?n" using unat_u64_less [of batch] by (intro unat_of_nat_u64) simp
  then have one: "min batch (cnt - of_nat k * batch) = 1 \<longleftrightarrow> ?n = 1" unfolding n(1) by (metis of_nat_1 unat_1)
  have suc: "of_nat k + 1 = (of_nat (Suc k) :: size_t)" by simp
  have IH: "hs' = hs1 @ map (loaded_header chain ?B ?C blockNum) [Suc k * ?B..<?C]"
    if "store_parts gv batch blockNum cnt (of_nat (Suc k)) answers hs1 = (hs', Ok ())" for hs1
  proof (rule Cons.IH [OF that])
    show "?C \<le> (Suc k + length answers) * ?B" using Cons.prems(2) by simp
    show "(Suc k + m) * ?B < ?C" if "m < length answers" for m using Cons.prems(3) [of "Suc m"] that by simp
    show "bs = map (\<lambda>j. chain (blockNum + of_nat ((Suc k + m) * ?B) + of_nat j)) [0..<min ?B (?C - (Suc k + m) * ?B)]"
      if "m < length answers" "min ?B (?C - (Suc k + m) * ?B) \<noteq> 1" "parseBlocksHeader gv (answers ! m) = Ok bs" for m bs
      using Cons.prems(4) [of "Suc m" bs] that by simp
    show "b = chain (blockNum + of_nat (Suc k + m))"
      if "m < length answers" "min ?B (?C - (Suc k + m) * ?B) = 1" "parseBlockHeader gv (answers ! m) = Ok b" for m b
      using Cons.prems(5) [of "Suc m" b] that by simp
  qed
  have range: "map F [k * ?B..<?C] = map F [k * ?B..<k * ?B + ?n] @ map F [Suc k * ?B..<?C]" for F :: "nat \<Rightarrow> size_t \<times> minimumBlockHeader"
    using part_range [OF kB] by (metis map_append)
  show ?case
  proof (cases "?n = 1")
    case True
    then obtain b where b: "parseBlockHeader gv a = Ok b"
      and rest: "store_parts gv batch blockNum cnt (of_nat (Suc k)) answers (hs @ [(blockNum + of_nat (k * ?B), b)]) = (hs', Ok ())"
      using Cons.prems(1) one by (auto simp: Let_def n(2) suc split: sum.splits simp del: of_nat_Suc of_nat_mult)
    have "b = chain (blockNum + of_nat k)" using Cons.prems(5) [of 0 b] True b by simp
    then show ?thesis using IH [OF rest] loaded_part [OF kB assms(2), of chain blockNum] True by (simp add: range)
  next
    case False
    then obtain bs hs1 where bs: "parseBlocksHeader gv a = Ok bs" and st: "store_blocks (blockNum + of_nat (k * ?B)) bs hs = (hs1, Ok ())"
      and rest: "store_parts gv batch blockNum cnt (of_nat (Suc k)) answers hs1 = (hs', Ok ())"
      using Cons.prems(1) one
      by (auto simp: Let_def n(2) suc split: sum.splits prod.splits if_splits simp del: of_nat_Suc of_nat_mult)
    have e: "bs = map (\<lambda>j. chain (blockNum + of_nat (k * ?B) + of_nat j)) [0..<?n]" using Cons.prems(4) [of 0 bs] False bs by simp
    have "hs1 = hs @ map (\<lambda>j. (blockNum + of_nat (k * ?B) + of_nat j, chain (blockNum + of_nat (k * ?B) + of_nat j))) [0..<?n]"
      unfolding store_blocks_Ok [OF st] e by (auto intro!: nth_equalityI)
    then show ?thesis using IH [OF rest] loaded_part [OF kB assms(2), of chain blockNum] False by (simp add: range)
  qed
qed

lemma count_parts:
  fixes cnt batch :: size_t
  assumes "0 < C" and "0 < B" and "C + B < 2 ^ 64" and "unat cnt = C" and "unat batch = B"
  shows "unat ((cnt + batch - 1) div batch) = (C + B - 1) div B"
proof -
  have "unat (cnt + batch) = C + B" using assms by (simp add: unat_word_ariths)
  then have "unat (cnt + batch - 1) = C + B - 1" using assms(1) by (subst unat_sub) (simp_all add: word_le_nat_alt)
  then show ?thesis using assms(5) by (simp add: unat_div)
qed

lemma parts_cover:
  fixes B C :: nat
  assumes "0 < C" and "0 < B"
  shows "C \<le> (C + B - 1) div B * B" and "m < (C + B - 1) div B \<Longrightarrow> m * B < C"
proof -
  have "(C + B - 1) div B * B + (C + B - 1) mod B = C + B - 1" by (rule div_mult_mod_eq)
  moreover have "(C + B - 1) mod B < B" using assms(2) by simp
  ultimately show "C \<le> (C + B - 1) div B * B" by linarith
  assume "m < (C + B - 1) div B"
  then have "Suc m * B \<le> C + B - 1" using less_eq_div_iff_mult_less_eq [OF assms(2), of "Suc m" "C + B - 1"] by simp
  then show "m * B < C" using assms by simp
qed

lemma header_request_at:
  assumes "m * unat batch \<le> unat cnt"
  shows "header_request batch blockNum cnt (of_nat m) =
    (if min (unat batch) (unat cnt - m * unat batch) \<noteq> 1
     then (''get-blocks'', get_blocks_query (blockNum + of_nat (m * unat batch)) (of_nat (min (unat batch) (unat cnt - m * unat batch))))
     else (''get-block-by-number'', get_block_query (blockNum + of_nat m)))"
proof -
  let ?n = "min (unat batch) (unat cnt - m * unat batch)"
  have "unat (of_nat ?n :: size_t) = ?n" using unat_u64_less [of batch] by (intro unat_of_nat_u64) simp
  then have "(of_nat ?n :: size_t) = 1 \<longleftrightarrow> ?n = 1" by (metis of_nat_1 unat_1)
  then show ?thesis
    unfolding header_request_def Let_def part_size(2) [OF assms] unfolding part_size(1) [OF assms] by (simp del: of_nat_mult)
qed

section \<open>The servers with the most blocks\<close>

definition reported :: "getEnv \<Rightarrow> broadcastCall list \<Rightarrow> (string \<times> size_t) list" where
  "reported gv calls = concat (map (\<lambda>(server, result, curlException).
     if curlException \<noteq> None then [] else (case count_blocks_of gv result of Inl e \<Rightarrow> [] | Inr n \<Rightarrow> [(server, n)])) calls)"

text \<open>Every answer can be read, or is refused by a check.\<close>

definition readable :: "getEnv \<Rightarrow> broadcastCall list \<Rightarrow> bool" where
  "readable gv calls \<longleftrightarrow>
     (\<forall>(server, result, curlException)\<in>set calls. \<forall>e. count_blocks_of gv result = Err e \<longrightarrow> (\<exists>msg. e = Exception msg))"

definition best :: "(string \<times> size_t) list \<Rightarrow> lastBlockState \<Rightarrow> bool" where
  "best rs st \<longleftrightarrow>
     (if rs = [] then ls_lastBlock st = None \<and> ls_servers st = []
      else ls_lastBlock st = Some (Max (snd ` set rs)) \<and> ls_servers st = map fst (filter (\<lambda>r. snd r = Max (snd ` set rs)) rs))"

lemma best_snoc:
  assumes "best rs st" and "count_blocks_of gv result = Ok n"
  shows "\<exists>st'. getLastBlock_callback gv (server, result, None) st = Ok st' \<and> best (rs @ [(server, n)]) st'"
proof (cases "rs = []")
  case True
  then show ?thesis using assms by (auto simp: best_def getLastBlock_callback_def Let_def word_gt_0)
next
  case False
  define m where "m = Max (snd ` set rs)"
  have b: "ls_lastBlock st = Some m" "ls_servers st = map fst (filter (\<lambda>r. snd r = m) rs)"
    using assms(1) False by (simp_all add: best_def m_def)
  have mx: "Max (insert n (snd ` set rs)) = max n m" using False by (simp add: m_def)
  have le: "r \<in> set rs \<Longrightarrow> snd r \<le> m" for r by (simp add: m_def)
  consider "m < n" | "m = n" | "n < m" by (rule linorder_cases)
  then show ?thesis
  proof cases
    case 1
    then have "filter (\<lambda>r. snd r = n) rs = []" by (auto simp: filter_empty_conv dest!: le)
    then show ?thesis using assms(2) b mx 1 by (simp add: best_def getLastBlock_callback_def)
  next
    case 2
    then show ?thesis using assms(2) b mx by (simp add: best_def getLastBlock_callback_def)
  next
    case 3
    then show ?thesis using assms(2) b mx by (auto simp: best_def getLastBlock_callback_def Let_def)
  qed
qed

lemma getLastBlock_calls_best:
  "best rs st \<Longrightarrow> readable gv calls \<Longrightarrow> \<exists>st'. getLastBlock_calls gv calls st = Ok st' \<and> best (rs @ reported gv calls) st'"
proof (induction calls arbitrary: rs st)
  case Nil
  then show ?case by (simp add: reported_def)
next
  case (Cons c calls)
  obtain server result exc where c: "c = (server, result, exc)" by (cases c)
  have rd: "readable gv calls" using Cons.prems(2) by (simp add: readable_def)
  show ?case
  proof (cases "exc = None \<and> (\<exists>n. count_blocks_of gv result = Ok n)")
    case True
    then obtain n where n: "count_blocks_of gv result = Ok n" by blast
    obtain st1 where "getLastBlock_callback gv c st = Ok st1" "best (rs @ [(server, n)]) st1"
      using best_snoc [OF Cons.prems(1) n, of server] True c by auto
    then show ?thesis using Cons.IH [OF _ rd, of "rs @ [(server, n)]" st1] True n by (simp add: c reported_def)
  next
    case False
    have "\<exists>e. getLastBlock_callback gv c st = Ok (st\<lparr>ls_error := e\<rparr>)"
      using False Cons.prems(2) by (cases "count_blocks_of gv result"; cases exc)
        (auto simp: c getLastBlock_callback_def readable_def)
    then obtain e where e: "getLastBlock_callback gv c st = Ok (st\<lparr>ls_error := e\<rparr>)" by blast
    have "reported gv (c # calls) = reported gv calls"
      using False by (auto simp: reported_def c split: sum.splits)
    moreover have "best rs (st\<lparr>ls_error := e\<rparr>)" using Cons.prems(1) by (simp add: best_def)
    ultimately show ?thesis using Cons.IH [OF _ rd] e by simp
  qed
qed

section \<open>The headers that are kept\<close>

text \<open>What the advance load of headers stores. With a server that answers with headers of its own chain, a successful
  call returns the header of the block asked for, and the list that is kept for the following calls has one entry
  for each block number in order; each entry is the header of its block, except for a block that is alone in the
  last part: that entry holds the header of the block whose number is behind the first one by the number of the
  part. So with ten blocks in batches of three the tenth entry is the header of the fourth block.\<close>

lemma headers_loaded:
  assumes "peer_answers net p2p" and "serves_headers gv net server chain maxBlockNum"
    and "find (\<lambda>h. fst h = blockNum) (gt_headers g) = None"
    and "Getter_getBlockHeader p2p gv opt blockNum maxBlockNum server g w = (g', w', Ok h)"
    and "blockNum \<le> maxBlockNum" and "unat maxBlockNum + unat (go_countBlocksInBatch opt) + 1 < 2 ^ 64"
  shows "let B = unat (go_countBlocksInBatch opt);
             C = min (unat maxBlockNum - unat blockNum + 1) (unat (go_maxAdvancedLoadBlocks opt))
         in h = chain blockNum \<and> gt_headers g' = map (loaded_header chain B C blockNum) [0..<C]"
proof -
  define batch where "batch = go_countBlocksInBatch opt"
  define cnt where "cnt = min (maxBlockNum - blockNum + 1) (go_maxAdvancedLoadBlocks opt)"
  define parts where "parts = (cnt + batch - 1) div batch"
  let ?B = "unat batch" and ?C = "unat cnt"
  obtain answers hs where b0: "batch \<noteq> 0" and c0: "cnt \<noteq> 0"
    and req: "p2p_requests p2p parts (\<lambda>number. Ok (header_request batch blockNum cnt number)) [] plain_response [server] w = (w', Ok answers)"
    and st: "store_parts gv batch blockNum cnt 0 answers [] = (hs, Ok ())" and h: "hs \<noteq> []" "h = snd (hd hs)" "gt_headers g' = hs"
    using assms(3,4) unfolding Getter_getBlockHeader_def
    by (auto simp: Let_def batch_def [symmetric] cnt_def [symmetric] parts_def [symmetric] rbind_Ok_iff
        split: if_splits prod.splits sum.splits list.splits)
  have d: "unat (maxBlockNum - blockNum + 1) = unat maxBlockNum - unat blockNum + 1"
    using assms(5,6) by (simp add: unat_word_ariths(1) unat_sub word_le_nat_alt)
  have C: "?C = min (unat maxBlockNum - unat blockNum + 1) (unat (go_maxAdvancedLoadBlocks opt))"
    unfolding cnt_def d [symmetric] by (simp add: min_def word_le_nat_alt)
  have pos: "0 < ?B" "0 < ?C" using b0 c0 by (simp_all add: unat_gt_0)
  have le: "unat blockNum + ?C \<le> unat maxBlockNum + 1" using C assms(5) by (simp add: word_le_nat_alt)
  have N: "unat parts = (?C + ?B - 1) div ?B"
    unfolding parts_def by (rule count_parts [OF pos(2,1)]) (use le assms(6) in \<open>auto simp: batch_def\<close>)
  have "\<exists>w w'. p2p_requests p2p parts (\<lambda>number. Ok (header_request batch blockNum cnt number)) [] plain_response [server] w = (w', Ok answers)"
    using req by blast
  note ans = peer_requests.requests_answers [OF assms(1) [unfolded peer_answers_def] this]
  have part: "m * ?B < ?C" if "m < length answers" for m using parts_cover(2) [OF pos(2,1)] ans that N by simp
  have curl: "curl_request net (fst (header_request batch blockNum cnt (of_nat m))) (snd (header_request batch blockNum cnt (of_nat m))) []
      server (Ok (answers ! m))" if "m < length answers" for m
    using ans that by (auto simp: responds_def plain_response_def)
  have hs: "hs = [] @ map (loaded_header chain ?B ?C blockNum) [0 * ?B..<?C]"
  proof (rule store_parts_Ok [of gv batch blockNum cnt 0 answers "[]"])
    show "store_parts gv batch blockNum cnt (of_nat 0) answers [] = (hs, Ok ())" using st by simp
    show "?C \<le> (0 + length answers) * ?B" using parts_cover(1) [OF pos(2,1)] ans N by simp
    fix m assume m: "m < length answers"
    note r = header_request_at [of m batch cnt blockNum, OF less_imp_le [OF part [OF m]]]
    have "m \<le> m * ?B" using pos(1) by simp
    then have mC': "m < ?C" using part [OF m] by linarith
    show "(0 + m) * ?B < ?C" using part [OF m] by simp
    show "bs = map (\<lambda>j. chain (blockNum + of_nat ((0 + m) * ?B) + of_nat j)) [0..<min ?B (?C - (0 + m) * ?B)]"
      if "min ?B (?C - (0 + m) * ?B) \<noteq> 1" "parseBlocksHeader gv (answers ! m) = Ok bs" for bs
    proof -
      let ?n = "min ?B (?C - m * ?B)"
      have u: "unat (of_nat ?n :: size_t) = ?n" using unat_u64_less [of batch] by (intro unat_of_nat_u64) simp
      have "unat (blockNum + of_nat (m * ?B)) = unat blockNum + m * ?B"
        using le part [OF m] assms(6) by (intro unat_add_of_nat) simp
      then have bound: "unat (blockNum + of_nat (m * ?B)) + unat (of_nat ?n :: size_t) \<le> unat maxBlockNum + 1"
        unfolding u using le part [OF m] by linarith
      have "curl_request net ''get-blocks'' (get_blocks_query (blockNum + of_nat (m * ?B)) (of_nat ?n)) [] server (Ok (answers ! m))"
        using curl [OF m] that(1) by (simp add: r del: of_nat_mult)
      from serves_headersD(1) [OF assms(2) bound this that(2)] show ?thesis using u by simp
    qed
    show "b = chain (blockNum + of_nat (0 + m))" if "min ?B (?C - (0 + m) * ?B) = 1" "parseBlockHeader gv (answers ! m) = Ok b" for b
    proof -
      have "unat (blockNum + of_nat m) = unat blockNum + m"
        using le mC' assms(6) by (intro unat_add_of_nat) simp
      then have "unat (blockNum + of_nat m) \<le> unat maxBlockNum" using le mC' by linarith
      then show ?thesis using serves_headersD(2) [OF assms(2), of "blockNum + of_nat m"] curl [OF m] that by (simp add: r)
    qed
  qed (use pos in simp)
  have "loaded_number ?B ?C 0 = 0" by (simp add: loaded_number_def)
  then have "h = chain blockNum" using h hs pos(2) by (simp add: upt_conv_Cons loaded_header_def)
  then show ?thesis unfolding Let_def C [symmetric] batch_def [symmetric] using h(3) hs by simp
qed

text \<open>Peers that always answer, with \<open>srv\<close>.\<close>

definition answering_p2p :: "(string \<Rightarrow> string \<Rightarrow> string) \<Rightarrow> 'w p2p" where
  "answering_p2p srv =
     \<lparr>p2p_broadcast = (\<lambda>qs post header w. (w, [], Err (Exception ''Servers end''))),
      p2p_request = (\<lambda>n prec mk header parse hints w. (w, Err (Exception ''dont run request''))),
      p2p_requests = (\<lambda>n mk header parse hints w.
        (w, case hints of
              [server] \<Rightarrow>
                if server \<noteq> [] \<and> n \<noteq> 0 \<and> (\<forall>k<unat n. \<exists>qs post. mk (of_nat k) = Ok (qs, post)) \<and> (\<forall>s. rp_error (parse s) = None)
                then Ok (map (\<lambda>k. rp_response (parse (reply srv server (mk (of_nat k))))) [0..<unat n])
                else Err (Exception ''dont run request'')
            | _ \<Rightarrow> Err (Exception ''dont run request''))),
      p2p_runOneRequest = (\<lambda>server qs post header w. (w, rbind (request_url server qs) (\<lambda>url. Ok (srv url post))))\<rparr>"

lemma answering_requests:
  assumes "server \<noteq> []" and "n \<noteq> 0" and "\<forall>k<unat n. \<exists>qs post. mk (of_nat k) = Ok (qs, post)" and "\<forall>s. rp_error (parse s) = None"
  shows "p2p_requests (answering_p2p srv) n mk header parse [server] w =
    (w, Ok (map (\<lambda>k. rp_response (parse (reply srv server (mk (of_nat k))))) [0..<unat n]))"
  using assms by (simp add: answering_p2p_def)

lemma answering_graph: "graph_requests (\<lambda>url post header r. r = Ok (srv url post)) 1 (answering_p2p srv)"
  unfolding graph_requests_def
proof (intro allI impI)
  fix n mk header parse hints and w w' :: 'w and answers
  assume "p2p_requests (answering_p2p srv) n mk header parse hints w = (w', Ok answers)"
  then obtain server where "hints = [server]" "server \<noteq> []" "n \<noteq> 0" "\<forall>k<unat n. \<exists>qs post. mk (of_nat k) = Ok (qs, post)"
    "\<forall>s. rp_error (parse s) = None" "answers = map (\<lambda>k. rp_response (parse (reply srv server (mk (of_nat k))))) [0..<unat n]"
    by (auto simp: answering_p2p_def split: list.splits if_splits)
  then show "P2P_requests (\<lambda>url post header r. r = Ok (srv url post)) 1 n mk header parse hints (Ok answers)"
    using requests_exact [of server "\<lambda>url post header r. r = Ok (srv url post)" header srv parse n mk 1 "Ok answers"] by simp
qed

text \<open>The document of a header.\<close>

definition header_json :: "minimumBlockHeader \<Rightarrow> json" where
  "header_json h = JObject [(''number'', JInt (uint (mb_number h))), (''hash'', JString (mb_hash h)), (''prev_hash'', JString (mb_parentHash h)),
     (''size'', JInt (uint (mb_blockSize h))), (''fileName'', JString (mb_fileName h))]"

lemma to_string_u64_digits: "list_all is_digit (to_string_u64 n)"
  by (simp add: to_string_u64_def to_string_nat_digits)

lemma no_nul: "CHR 0x00 \<notin> set (to_string_u64 n)"
proof
  assume "CHR 0x00 \<in> set (to_string_u64 n)"
  then have "is_digit (CHR 0x00)" using to_string_u64_digits [of n] by (auto simp: list_all_iff)
  then show False by (simp add: is_digit_def)
qed

abbreviation three_options :: getterOptions where
  "three_options \<equiv> \<lparr>go_maxAdvancedLoadBlocks = 5, go_countBlocksInBatch = 2, go_isCompress = False\<rparr>"

section \<open>Properties\<close>


definition count_json :: "string \<Rightarrow> int \<Rightarrow> json" where
  "count_json s n = JObject [(''result'', JObject [(''count_blocks'', JInt n)])]"

definition count_env :: getEnv where
  "count_env = \<lparr>gv_parse = (\<lambda>text. if text = ''five'' then Some (count_json text 5) else if text = ''seven'' then Some (count_json text 7) else None),
     gv_print = (\<lambda>_. []), gv_lz = copy_lz4\<rparr>"

definition count_calls :: "broadcastCall list" where
  "count_calls = [(''a'', ''seven'', None), (''b'', ''five'', None), (''c'', [], Some ''down''), (''d'', ''seven'', None), (''e'', ''?'', None)]"


end
