(* ===== verification/BlockSources.thy ===== *)
theory BlockSources
  imports BlockGetter BlockchainRead LevelDb
begin

text \<open>
  \<^verbatim>\<open>src/src/BlockSource/NetworkBlockSource.cpp\<close> and \<^verbatim>\<open>FileBlockSource.cpp\<close>: where the blocks of a node come from. Both offer
  \<open>doProcess\<close> and \<open>process\<close> to the synchronisation. A source takes its state and returns the next one. Reading a block
  and unpacking an answer are loops over foreign data; \<open>None\<close> says that they did not end within the fuel. A dump is
  read at an address \<open>base\<close> of the memory.
\<close>

record sourceEnv =
  se_fuel :: nat
  se_base :: size_t
  se_read :: readEnv
  se_get :: getEnv
  se_keyOps :: keyOps

definition BlockInfo_default :: blockInfo where
  "BlockInfo_default = \<lparr>bi_header = BlockHeader_default, bi_txs = []\<rparr>"

text \<open>The signed dump of a peer is checked and opened.\<close>

definition open_signed :: "sourceEnv \<Rightarrow> string \<Rightarrow> blockInfo \<Rightarrow> (string \<times> blockInfo) res" where
  "open_signed se dump bi =
     rbind (checkSignatureBlock (env_crypto (se_read se)) (se_keyOps se) dump) (\<lambda>signBlock.
     Ok (sr_block signBlock, bi\<lparr>bi_header := (bi_header bi)\<lparr>bh_senderSign := sr_sign signBlock,
       bh_senderPubkey := sr_pubkey signBlock, bh_senderAddress := sr_address signBlock\<rparr>\<rparr>))"

section \<open>Blocks from the network\<close>

record networkOptions =
  no_getter :: getterOptions
  no_folderPath :: string
  no_saveAllTx :: bool
  no_isValidate :: bool
  no_isVerifySign :: bool

record advancedBlock =
  ab_header :: minimumBlockHeader
  ab_bi :: blockInfo
  ab_dump :: string
  ab_exception :: "error option"

record networkSource =
  ns_getter :: getter
  ns_nextBlockToRead :: size_t
  ns_servers :: "string list"
  ns_lastBlockInBlockchain :: size_t
  ns_advancedBlocks :: "(size_t, advancedBlock) fmap"

definition COUNT_ADVANCED_BLOCKS :: size_t where "COUNT_ADVANCED_BLOCKS = 8"

definition MinimumBlockHeader_default :: minimumBlockHeader where
  "MinimumBlockHeader_default = \<lparr>mb_number = 0, mb_blockSize = 0, mb_hash = [], mb_parentHash = [], mb_fileName = []\<rparr>"

definition AdvancedBlock_default :: advancedBlock where
  "AdvancedBlock_default = \<lparr>ab_header = MinimumBlockHeader_default, ab_bi = BlockInfo_default, ab_dump = [], ab_exception = None\<rparr>"

definition Network_doProcess ::
    "'w p2p \<Rightarrow> sourceEnv \<Rightarrow> size_t \<Rightarrow> networkSource \<Rightarrow> 'w \<Rightarrow> networkSource \<times> 'w \<times> (bool \<times> size_t) res" where
  "Network_doProcess p2p se countBlocks ns w =
     (let ns = ns\<lparr>ns_nextBlockToRead := countBlocks + 1\<rparr>
      in case GetNewBlocks_getLastBlock p2p (se_get se) w of
           (w, Inl e) \<Rightarrow> (ns, w, Err e)
         | (w, Inr lastBlock) \<Rightarrow>
             (case lb_error lastBlock of
                Some e \<Rightarrow> (ns, w, Err (Exception e))
              | None \<Rightarrow>
                  let ns = ns\<lparr>ns_lastBlockInBlockchain := lb_lastBlock lastBlock, ns_servers := lb_servers lastBlock,
                              ns_advancedBlocks := fmempty, ns_getter := clearAdvanced (ns_getter ns)\<rparr>
                  in (ns, w, Ok (ns_nextBlockToRead ns \<le> ns_lastBlockInBlockchain ns, ns_lastBlockInBlockchain ns))))"

definition Network_knownBlock :: "networkSource \<Rightarrow> size_t" where
  "Network_knownBlock ns = ns_lastBlockInBlockchain ns"

text \<open>Header and dump of one block ahead. Every exception is kept with the block; undefined behaviour is not an
  exception.\<close>

definition load_block ::
    "'w p2p \<Rightarrow> sourceEnv \<Rightarrow> networkOptions \<Rightarrow> size_t \<Rightarrow> size_t \<Rightarrow> string list \<Rightarrow> getter \<Rightarrow> 'w \<Rightarrow>
     (getter \<times> 'w \<times> advancedBlock) option" where
  "load_block p2p se opt currBlock lastBlock servers g w =
     (case Getter_getBlockHeader p2p (se_get se) (no_getter opt) currBlock lastBlock (hd servers) g w of
        (g, w, Inl e) \<Rightarrow> Some (g, w, AdvancedBlock_default\<lparr>ab_exception := Some e\<rparr>)
      | (g, w, Inr header) \<Rightarrow>
          (case Getter_getBlockDump (se_fuel se) p2p (se_get se) (no_getter opt) (mb_hash header) (mb_blockSize header) servers
                  (no_isVerifySign opt) g w of
             None \<Rightarrow> None
           | Some (g, w, Inl e) \<Rightarrow> Some (g, w, AdvancedBlock_default\<lparr>ab_header := header, ab_exception := Some e\<rparr>)
           | Some (g, w, Inr dump) \<Rightarrow> Some (g, w, AdvancedBlock_default\<lparr>ab_header := header, ab_dump := dump\<rparr>)))"

fun load_blocks_ahead ::
    "'w p2p \<Rightarrow> sourceEnv \<Rightarrow> networkOptions \<Rightarrow> size_t \<Rightarrow> size_t \<Rightarrow> string list \<Rightarrow> nat \<Rightarrow> getter \<Rightarrow> 'w \<Rightarrow>
     (getter \<times> 'w \<times> (size_t \<times> advancedBlock) list) option" where
  "load_blocks_ahead p2p se opt currBlock lastBlock servers 0 g w = Some (g, w, [])"
| "load_blocks_ahead p2p se opt currBlock lastBlock servers (Suc n) g w =
     (case load_block p2p se opt currBlock lastBlock servers g w of
        None \<Rightarrow> None
      | Some (g, w, advanced) \<Rightarrow>
          (case load_blocks_ahead p2p se opt (currBlock + 1) lastBlock servers n g w of
             None \<Rightarrow> None
           | Some (g, w, rest) \<Rightarrow> Some (g, w, (currBlock, advanced) # rest)))"

text \<open>The checks of one block that was loaded.\<close>

definition read_dump :: "sourceEnv \<Rightarrow> networkOptions \<Rightarrow> minimumBlockHeader \<Rightarrow> string \<Rightarrow> blockInfo \<Rightarrow> blockInfo res option" where
  "read_dump se opt header dump bi =
     (if size_of dump \<noteq> mb_blockSize header then Some (Err (Exception ''binaryDump.size() == nextBlockHeader.blockSize''))
      else
        let bi = bi\<lparr>bi_header := (bi_header bi)\<lparr>bh_filePos := (bh_filePos (bi_header bi))\<lparr>fp_fileName :=
                   getFullPath (getBasename (mb_fileName header)) (no_folderPath opt)\<rparr>\<rparr>\<rparr>
        in readNextBlockInfo (se_fuel se) (se_read se) (se_base se) dump (se_base se) (se_base se + size_of dump) 0 bi
             (no_isValidate opt) (no_saveAllTx opt) 0 0)"

definition verify_block :: "sourceEnv \<Rightarrow> networkOptions \<Rightarrow> advancedBlock \<Rightarrow> advancedBlock option" where
  "verify_block se opt ab =
     (if ab_exception ab \<noteq> None then Some ab
      else
        (case if no_isVerifySign opt then open_signed se (ab_dump ab) (ab_bi ab) else Ok (ab_dump ab, ab_bi ab) of
           Inl e \<Rightarrow> Some (ab\<lparr>ab_exception := Some e\<rparr>)
         | Inr (dump, bi) \<Rightarrow>
             (case read_dump se opt (ab_header ab) dump bi of
                None \<Rightarrow> None
              | Some (Inl e) \<Rightarrow> Some (ab\<lparr>ab_dump := dump, ab_exception := Some e\<rparr>)
              | Some (Inr bi) \<Rightarrow> Some (ab\<lparr>ab_dump := dump, ab_bi := bi\<rparr>))))"

fun verify_blocks :: "sourceEnv \<Rightarrow> networkOptions \<Rightarrow> (size_t \<times> advancedBlock) list \<Rightarrow> (size_t \<times> advancedBlock) list option" where
  "verify_blocks se opt [] = Some []"
| "verify_blocks se opt ((num, ab) # ready) =
     (case (verify_block se opt ab, verify_blocks se opt ready) of
        (Some ab, Some ready) \<Rightarrow> Some ((num, ab) # ready)
      | _ \<Rightarrow> None)"

text \<open>Handing out the next block.\<close>

definition process_advanced :: "advancedBlock \<Rightarrow> networkSource \<Rightarrow> networkSource \<times> (blockInfo \<times> string) option res" where
  "process_advanced ab ns =
     (case ab_exception ab of
        Some e \<Rightarrow> (ns, Err e)
      | None \<Rightarrow> (ns\<lparr>ns_nextBlockToRead := ns_nextBlockToRead ns + 1\<rparr>, Ok (Some (ab_bi ab, ab_dump ab))))"

definition Network_process ::
    "'w p2p \<Rightarrow> sourceEnv \<Rightarrow> networkOptions \<Rightarrow> networkSource \<Rightarrow> 'w \<Rightarrow>
     (networkSource \<times> 'w \<times> (blockInfo \<times> string) option res) option" where
  "Network_process p2p se opt ns w =
     (if ns_lastBlockInBlockchain ns < ns_nextBlockToRead ns then Some (ns, w, Ok None)
      else
        (case fmlookup (ns_advancedBlocks ns) (ns_nextBlockToRead ns) of
           Some ab \<Rightarrow> (case process_advanced ab ns of (ns, r) \<Rightarrow> Some (ns, w, r))
         | None \<Rightarrow>
             let ns = ns\<lparr>ns_advancedBlocks := fmempty\<rparr>;
                 countAdvanced = min COUNT_ADVANCED_BLOCKS (ns_lastBlockInBlockchain ns - ns_nextBlockToRead ns + 1)
             in if ns_servers ns = [] then Some (ns, w, Err (Exception ''Servers empty''))
                else
                  (case load_blocks_ahead p2p se opt (ns_nextBlockToRead ns) (ns_lastBlockInBlockchain ns) (ns_servers ns)
                          (unat countAdvanced) (ns_getter ns) w of
                     None \<Rightarrow> None
                   | Some (g, w, loaded) \<Rightarrow>
                       (case verify_blocks se opt loaded of
                          None \<Rightarrow> None
                        | Some ready \<Rightarrow>
                            let ns = ns\<lparr>ns_getter := g, ns_advancedBlocks := fmap_of_list ready\<rparr>
                            in if \<exists>a\<in>set ready. ab_exception (snd a) = Some Undefined then Some (ns, w, Err Undefined)
                               else
                                 (case fmlookup (ns_advancedBlocks ns) (ns_nextBlockToRead ns) of
                                    None \<Rightarrow> Some (ns, w, Err (Exception ''Incorrect results''))
                                  | Some ab \<Rightarrow> (case process_advanced ab ns of (ns, r) \<Rightarrow> Some (ns, w, r)))))))"

text \<open>A block the chain has already, fetched again: its file name and number are those of the header. The caller's
  block \<open>bi\<close> is filled in; its fields may be set.\<close>

definition place_block :: "blockHeader \<Rightarrow> size_t \<Rightarrow> blockInfo \<Rightarrow> blockInfo" where
  "place_block bh number bi =
     bi\<lparr>bi_header := (bi_header bi)\<lparr>bh_filePos := (bh_filePos (bi_header bi))\<lparr>fp_fileName := fp_fileName (bh_filePos bh)\<rparr>,
          bh_blockNumber := bh_blockNumber bh\<rparr>,
        bi_txs := map (\<lambda>tx. tx\<lparr>ti_filePos := (ti_filePos tx)\<lparr>fp_fileName := fp_fileName (bh_filePos bh)\<rparr>, ti_blockNumber := number\<rparr>) (bi_txs bi)\<rparr>"

definition Network_getExistingBlock ::
    "'w p2p \<Rightarrow> sourceEnv \<Rightarrow> networkOptions \<Rightarrow> blockHeader \<Rightarrow> blockInfo \<Rightarrow> 'w \<Rightarrow> ('w \<times> (blockInfo \<times> string) res) option" where
  "Network_getExistingBlock p2p se opt bh bi w =
     (case bh_blockNumber bh of
        None \<Rightarrow> Some (w, Err (Exception ''Block number not set''))
      | Some number \<Rightarrow>
          (case GetNewBlocks_getLastBlock p2p (se_get se) w of
             (w, Inl e) \<Rightarrow> Some (w, Err e)
           | (w, Inr lastBlock) \<Rightarrow>
               (case (lb_error lastBlock, lb_servers lastBlock) of
                  (Some e, _) \<Rightarrow> Some (w, Err (Exception e))
                | (None, []) \<Rightarrow> Some (w, Err Undefined)
                | (None, server # servers) \<Rightarrow>
                    (case getBlockHeaderWithoutAdvanceLoad p2p (se_get se) number server w of
                       (w, Inl e) \<Rightarrow> Some (w, Err e)
                     | (w, Inr header) \<Rightarrow>
                         (case getBlockDumpWithoutAdvancedLoad p2p (se_get se) (mb_hash header) (mb_blockSize header) (lb_servers lastBlock)
                                 (no_isVerifySign opt) w of
                            (w, Inl e) \<Rightarrow> Some (w, Err e)
                          | (w, Inr dump) \<Rightarrow>
                              (case if no_isVerifySign opt then open_signed se dump bi else Ok (dump, bi) of
                                 Inl e \<Rightarrow> Some (w, Err e)
                               | Inr (dump, bi) \<Rightarrow>
                                   if size_of dump \<noteq> mb_blockSize header
                                   then Some (w, Err (Exception ''binaryDump.size() == nextBlockHeader.blockSize''))
                                   else
                                     map_option (\<lambda>r. (w, rbind r (\<lambda>bi. Ok (place_block bh number bi, dump))))
                                       (readNextBlockInfo (se_fuel se) (se_read se) (se_base se) dump (se_base se)
                                          (se_base se + size_of dump) (fp_pos (bh_filePos bh)) bi (no_isValidate opt)
                                          (no_saveAllTx opt) 0 0)))))))"

section \<open>Blocks from files\<close>

record fileSource =
  fs_allFiles :: "(string, fileInfo) fmap"
  fs_fileName :: string
  fs_currPos :: size_t

definition File_initialize :: "'s leveldb_ops \<Rightarrow> 's \<Rightarrow> fileSource \<Rightarrow> fileSource res" where
  "File_initialize ops db fs = rbind (getAllFiles ops db) (\<lambda>files. Ok (fs\<lparr>fs_allFiles := files\<rparr>))"

definition File_doProcess :: "size_t \<Rightarrow> string \<Rightarrow> bool \<times> size_t" where
  "File_doProcess countBlocks lastBlockHash = (True, 0)"

definition File_knownBlock :: size_t where "File_knownBlock = 0"

definition file_size_on :: "disk \<Rightarrow> string \<Rightarrow> size_t" where
  "file_size_on d p = (case fmlookup d p of None \<Rightarrow> 0 | Some content \<Rightarrow> fileSize content)"

text \<open>A file is open while its name is set; \<open>directory\<close> lists the folder.\<close>

definition open_next :: "string \<Rightarrow> string list \<Rightarrow> disk \<Rightarrow> fileSource \<Rightarrow> fileSource \<times> bool res" where
  "open_next folderPath directory d fs =
     (if fs_fileName fs \<noteq> [] then (fs, Ok True)
      else
        let fi = getNextFile (fs_allFiles fs) folderPath directory (file_size_on d);
            fs = fs\<lparr>fs_fileName := fp_fileName (fi_filePos fi)\<rparr>
        in if fs_fileName fs = [] then (fs, Ok False)
           else (case openFile (fs_fileName fs) d of
                   Inl e \<Rightarrow> (fs, Err e)
                 | Inr content \<Rightarrow> (fs\<lparr>fs_currPos := fp_pos (fi_filePos fi)\<rparr>, Ok True)))"

definition name_block :: "string \<Rightarrow> blockInfo \<Rightarrow> blockInfo" where
  "name_block fileName bi =
     bi\<lparr>bi_header := (bi_header bi)\<lparr>bh_filePos := (bh_filePos (bi_header bi))\<lparr>fp_fileName := fileName\<rparr>\<rparr>,
        bi_txs := map (\<lambda>tx. tx\<lparr>ti_filePos := (ti_filePos tx)\<lparr>fp_fileName := fileName\<rparr>\<rparr>) (bi_txs bi)\<rparr>"

definition File_process ::
    "sourceEnv \<Rightarrow> bool \<Rightarrow> string \<Rightarrow> string list \<Rightarrow> disk \<Rightarrow> fileSource \<Rightarrow> (fileSource \<times> (blockInfo \<times> string) option res) option" where
  "File_process se isValidate folderPath directory d fs =
     (case open_next folderPath directory d fs of
        (fs, Inl e) \<Rightarrow> Some (fs, Err e)
      | (fs, Inr False) \<Rightarrow> Some (fs, Ok None)
      | (fs, Inr True) \<Rightarrow>
          let fileName = fs_fileName fs;
              content = (case fmlookup d fileName of None \<Rightarrow> [] | Some content \<Rightarrow> content)
          in (case readNextBlockInfo_file (se_fuel se) (se_read se) (se_base se) content (fs_currPos fs) BlockInfo_default []
                     isValidate False 0 0 of
                None \<Rightarrow> None
              | Some (Inl e) \<Rightarrow> Some (fs, Err e)
              | Some (Inr (nextCurrPos, bi, dump)) \<Rightarrow>
                  if fs_currPos fs = nextCurrPos then Some (fs\<lparr>fs_fileName := []\<rparr>, Ok None)
                  else
                    let fi = \<lparr>fi_filePos = \<lparr>fp_pos = nextCurrPos, fp_fileName = fileName\<rparr>\<rparr>
                    in Some (fs\<lparr>fs_currPos := nextCurrPos, fs_allFiles := fmupd (CroppedFileName fileName) fi (fs_allFiles fs)\<rparr>,
                             Ok (Some (name_block fileName bi, dump)))))"

definition getExistingBlockS :: "sourceEnv \<Rightarrow> bool \<Rightarrow> disk \<Rightarrow> blockHeader \<Rightarrow> blockInfo \<Rightarrow> (blockInfo \<times> string) res option" where
  "getExistingBlockS se isValidate d bh bi =
     (case rbind (CHECK (fp_fileName (bh_filePos bh) \<noteq> []) ''Incorrect file name'') (\<lambda>_. openFile (fp_fileName (bh_filePos bh)) d) of
        Inl e \<Rightarrow> Some (Err e)
      | Inr content \<Rightarrow>
          map_option (\<lambda>r. rbind r (\<lambda>(nextCurrPos, bi, dump).
            rbind (CHECK (nextCurrPos \<noteq> fp_pos (bh_filePos bh)) ''File incorrect'') (\<lambda>_.
            case bh_blockNumber bh of
              None \<Rightarrow> if bi_txs bi = [] then Ok (place_block bh 0 bi, dump) else Err (StdException ''bad_optional_access'')
            | Some number \<Rightarrow> Ok (place_block bh number bi, dump))))
            (readNextBlockInfo_file (se_fuel se) (se_read se) (se_base se) content (fp_pos (bh_filePos bh)) bi []
               isValidate False 0 0))"

definition File_getExistingBlock :: "sourceEnv \<Rightarrow> bool \<Rightarrow> disk \<Rightarrow> blockHeader \<Rightarrow> blockInfo \<Rightarrow> (blockInfo \<times> string) res option" where
  "File_getExistingBlock se isValidate d bh bi = getExistingBlockS se isValidate d bh bi"

section \<open>What reading keeps\<close>

lemma readBlockTxs_loop_header:
  "readBlockTxs_loop fuel env base buf b e pos sa beginTx countTx v cur k helper (bi\<lparr>bi_header := h\<rparr>) =
   map_option (\<lambda>r. rbind r (\<lambda>x. Ok (x\<lparr>bi_header := h\<rparr>))) (readBlockTxs_loop fuel env base buf b e pos sa beginTx countTx v cur k helper bi)"
proof (induction fuel arbitrary: cur k helper bi countTx beginTx)
  case (Suc fuel)
  have upd: "(if c then (bi\<lparr>bi_header := h\<rparr>)\<lparr>bi_txs := bi_txs (bi\<lparr>bi_header := h\<rparr>) @ [tx]\<rparr> else bi\<lparr>bi_header := h\<rparr>) =
      (if c then bi\<lparr>bi_txs := bi_txs bi @ [tx]\<rparr> else bi)\<lparr>bi_header := h\<rparr>" for c tx
    by simp
  show ?case by (auto simp: Let_def upd Suc.IH split: sum.split prod.split)
qed simp

lemma readBlockTxs_loop_same_header:
  assumes "readBlockTxs_loop fuel env base buf b e pos sa beginTx countTx v cur k helper bi = Some (Ok bi')"
  shows "bi_header bi' = bi_header bi"
proof -
  have "bi\<lparr>bi_header := bi_header bi\<rparr> = bi" by simp
  then have "Some (Ok bi') = Some (Ok (bi'\<lparr>bi_header := bi_header bi\<rparr>))"
    using assms readBlockTxs_loop_header [where bi = bi and h = "bi_header bi" and fuel = fuel and env = env and base = base and buf = buf
        and b = b and e = e and pos = pos and sa = sa and beginTx = beginTx and countTx = countTx and v = v and cur = cur and k = k
        and helper = helper] by simp
  then have "bi_header bi' = bi_header (bi'\<lparr>bi_header := bi_header bi\<rparr>)" by (simp only: option.inject sum.inject(2))
  then show ?thesis by simp
qed

lemma set_block_signature_header:
  "set_block_signature bi = Ok bi' \<Longrightarrow> \<exists>sign. bi_header bi' = (bi_header bi)\<lparr>bh_signature := sign\<rparr>"
  by (auto simp: set_block_signature_def rbind_Ok_iff split: list.splits if_splits intro: exI [of _ "bh_signature (bi_header bi)"])

text \<open>The header of a block that was read from memory: its hash is the hash of the bytes, its size their number, and
  what the caller had put in for the sender is still there.\<close>

lemma readNextBlockInfo_header:
  assumes "readNextBlockInfo fuel env base dump base (base + size_of dump) posInFile bi v sa 0 0 = Some (Ok bi')"
    and "unat base + length dump < 2 ^ 64"
  shows "\<exists>h. get_double_sha256 (env_crypto env) dump = Ok h \<and> bh_hash (bi_header bi') = env_toHex env h"
    and "bh_blockSize (bi_header bi') = size_of dump" and "bh_senderSign (bi_header bi') = bh_senderSign (bi_header bi)"
    and "bh_senderPubkey (bi_header bi') = bh_senderPubkey (bi_header bi)"
    and "bh_senderAddress (bi_header bi') = bh_senderAddress (bi_header bi)" and "bh_blockNumber (bi_header bi') = bh_blockNumber (bi_header bi)"
proof -
  have m: "mem_ok base dump" using assms(2) by (simp add: mem_ok_def)
  have whole: "load base dump base (unat (size_of dump)) = Ok dump"
    using stands_load [OF _ m, of 0 dump] assms(2) by (simp add: adr_0 stands_def)
  obtain bh h bi1 bi2 where hd: "readBlockHeaderWithoutSize env base dump base (base + size_of dump) (bi_header bi) = Ok bh"
    and h: "get_double_sha256 (env_crypto env) dump = Ok h"
    and loop: "readBlockTxs_loop fuel env base dump base (base + size_of dump) posInFile sa 0 0 v (base + (BLOCK_HEADER_SIZE - 8)) 0
      \<lparr>isFirst = True, isPrevSign = True, prevTxData = []\<rparr> (bi\<lparr>bi_header := bh\<lparr>bh_hash := env_toHex env h\<rparr>\<rparr>) = Some (Ok bi1)"
    and sign: "set_block_signature (bi1\<lparr>bi_header := (bi_header bi1)\<lparr>bh_countTxs := Some (size_of (bi_txs bi1))\<rparr>\<rparr>) = Ok bi2"
    and bi': "bi_header bi' = (bi_header bi2)\<lparr>bh_blockSize := size_of dump, bh_filePos := (bh_filePos (bi_header bi2))\<lparr>fp_pos := posInFile\<rparr>,
      bh_endBlockPos := posInFile + size_of dump + 8\<rparr>"
    using assms(1) by (auto simp: readNextBlockInfo_def readBlockTxs_def whole Let_def rbind_Ok_iff split: sum.splits)
  have hd: "\<exists>a b c d. bh = (bi_header bi)\<lparr>bh_blockType := a, bh_timestamp := b, bh_prevHash := c, bh_txsHash := d\<rparr>"
    using hd by (auto simp: readBlockHeaderWithoutSize_def rbind_Ok_iff)
  then show "\<exists>h. get_double_sha256 (env_crypto env) dump = Ok h \<and> bh_hash (bi_header bi') = env_toHex env h"
    and "bh_blockSize (bi_header bi') = size_of dump" and "bh_senderSign (bi_header bi') = bh_senderSign (bi_header bi)"
    and "bh_senderPubkey (bi_header bi') = bh_senderPubkey (bi_header bi)"
    and "bh_senderAddress (bi_header bi') = bh_senderAddress (bi_header bi)" and "bh_blockNumber (bi_header bi') = bh_blockNumber (bi_header bi)"
    using h readBlockTxs_loop_same_header [OF loop] set_block_signature_header [OF sign] bi' by auto
qed

section \<open>Verified blocks\<close>

text \<open>A block of a dump that a peer sent: opened, of the announced size, and read.\<close>

definition verified :: "sourceEnv \<Rightarrow> networkOptions \<Rightarrow> minimumBlockHeader \<Rightarrow> string \<Rightarrow> blockInfo \<Rightarrow> bool" where
  "verified se opt header dump bi \<longleftrightarrow>
     (\<exists>bi0. (if no_isVerifySign opt then \<exists>received. open_signed se received BlockInfo_default = Ok (dump, bi0) else bi0 = BlockInfo_default) \<and>
        read_dump se opt header dump bi0 = Some (Ok bi))"

definition advanced_ok :: "sourceEnv \<Rightarrow> networkOptions \<Rightarrow> networkSource \<Rightarrow> bool" where
  "advanced_ok se opt ns \<longleftrightarrow>
     fmpred (\<lambda>n ab. ab_exception ab = None \<longrightarrow> verified se opt (ab_header ab) (ab_dump ab) (ab_bi ab)) (ns_advancedBlocks ns)"

lemma load_block_fresh: "load_block p2p se opt c l servers g w = Some (g', w', ab) \<Longrightarrow> ab_bi ab = BlockInfo_default"
  by (auto simp: load_block_def AdvancedBlock_default_def split: prod.splits sum.splits option.splits)

lemma load_blocks_ahead_fresh:
  "load_blocks_ahead p2p se opt c l servers n g w = Some (g', w', loaded) \<Longrightarrow> \<forall>a\<in>set loaded. ab_bi (snd a) = BlockInfo_default"
proof (induction n arbitrary: c g w loaded)
  case (Suc n)
  then obtain g1 w1 ab rest where "load_block p2p se opt c l servers g w = Some (g1, w1, ab)"
    and "load_blocks_ahead p2p se opt (c + 1) l servers n g1 w1 = Some (g', w', rest)" and "loaded = (c, ab) # rest"
    by (auto split: option.splits)
  then show ?case using Suc.IH load_block_fresh by fastforce
qed simp

lemma verify_block_verified:
  assumes "verify_block se opt ab = Some ab'" and "ab_bi ab = BlockInfo_default" and "ab_exception ab' = None"
  shows "verified se opt (ab_header ab') (ab_dump ab') (ab_bi ab')"
  unfolding verified_def
  using assms by (auto simp: verify_block_def split: if_splits sum.splits option.splits) blast

lemma verify_blocks_verified:
  "verify_blocks se opt loaded = Some ready \<Longrightarrow> \<forall>a\<in>set loaded. ab_bi (snd a) = BlockInfo_default \<Longrightarrow> a \<in> set ready \<Longrightarrow>
   ab_exception (snd a) = None \<Longrightarrow> verified se opt (ab_header (snd a)) (ab_dump (snd a)) (ab_bi (snd a))"
proof (induction loaded arbitrary: ready)
  case (Cons l loaded)
  obtain ab ready' where "verify_block se opt (snd l) = Some ab" and "verify_blocks se opt loaded = Some ready'"
    and "ready = (fst l, ab) # ready'"
    using Cons.prems(1) by (cases l) (auto split: option.splits)
  then show ?case using Cons.IH [of ready'] Cons.prems verify_block_verified [of se opt "snd l" ab] by auto
qed simp

lemma process_advanced_Ok:
  assumes "process_advanced ab ns = (ns', Ok (Some (bi, dump)))"
  shows "ab_exception ab = None" and "bi = ab_bi ab" and "dump = ab_dump ab"
  using assms by (auto simp: process_advanced_def split: option.splits)

lemma process_advanced_ns: "process_advanced ab ns = (ns', r) \<Longrightarrow> ns_advancedBlocks ns' = ns_advancedBlocks ns"
  by (auto simp: process_advanced_def split: option.splits)

lemma handed_out:
  assumes "process_advanced ab ns = (ns', r)" and "fmlookup (ns_advancedBlocks ns) n = Some ab" and "advanced_ok se opt ns"
  shows "advanced_ok se opt ns' \<and> (\<forall>bi dump. r = Ok (Some (bi, dump)) \<longrightarrow> (\<exists>header. verified se opt header dump bi))"
proof -
  have "ab_exception ab = None \<longrightarrow> verified se opt (ab_header ab) (ab_dump ab) (ab_bi ab)"
    using assms(2,3) by (auto simp: advanced_ok_def fmpred_iff)
  then show ?thesis
    using assms(1,3) process_advanced_ns [OF assms(1)] by (auto simp: advanced_ok_def dest: process_advanced_Ok)
qed

lemma verified_map:
  assumes "load_blocks_ahead p2p se opt c l servers n g w = Some (g', w', loaded)" and "verify_blocks se opt loaded = Some ready"
  shows "advanced_ok se opt (ns\<lparr>ns_getter := g', ns_advancedBlocks := fmap_of_list ready\<rparr>)"
  using verify_blocks_verified [OF assms(2) load_blocks_ahead_fresh [OF assms(1)]]
  by (fastforce simp: advanced_ok_def fmpred_iff fmlookup_of_list dest: map_of_SomeD)

lemma Network_process_verified:
  assumes "Network_process p2p se opt ns w = Some (ns', w', r)" and "advanced_ok se opt ns"
  shows "advanced_ok se opt ns' \<and> (\<forall>bi dump. r = Ok (Some (bi, dump)) \<longrightarrow> (\<exists>header. verified se opt header dump bi))"
proof (cases "ns_lastBlockInBlockchain ns < ns_nextBlockToRead ns")
  case True
  then show ?thesis using assms by (auto simp: Network_process_def)
next
  case more: False
  show ?thesis
  proof (cases "fmlookup (ns_advancedBlocks ns) (ns_nextBlockToRead ns)")
    case (Some ab)
    then have "process_advanced ab ns = (ns', r)" using assms(1) more by (auto simp: Network_process_def split: prod.splits)
    then show ?thesis by (rule handed_out [OF _ Some assms(2)])
  next
    case None
    show ?thesis
    proof (cases "ns_servers ns = []")
      case True
      then show ?thesis using assms(1) more None by (auto simp: Network_process_def advanced_ok_def)
    next
      case False
      obtain g w1 loaded where load: "load_blocks_ahead p2p se opt (ns_nextBlockToRead ns) (ns_lastBlockInBlockchain ns) (ns_servers ns)
          (unat (min COUNT_ADVANCED_BLOCKS (ns_lastBlockInBlockchain ns - ns_nextBlockToRead ns + 1))) (ns_getter ns) w = Some (g, w1, loaded)"
        using assms(1) more None False by (auto simp: Network_process_def Let_def split: option.splits)
      then obtain ready where ready: "verify_blocks se opt loaded = Some ready"
        using assms(1) more None False by (auto simp: Network_process_def Let_def split: option.splits)
      have ok: "advanced_ok se opt (ns\<lparr>ns_advancedBlocks := fmempty, ns_getter := g, ns_advancedBlocks := fmap_of_list ready\<rparr>)"
        using verified_map [OF load ready, of "ns\<lparr>ns_advancedBlocks := fmempty\<rparr>"] by simp
      show ?thesis
        using assms(1) more None False load ready ok
        by (auto simp: Network_process_def Let_def split: if_splits option.splits prod.splits dest: handed_out)
    qed
  qed
qed

text \<open>The life of a source: created without blocks ahead, then any calls of its two operations.\<close>

inductive network_run :: "'w p2p \<Rightarrow> sourceEnv \<Rightarrow> networkOptions \<Rightarrow> networkSource \<Rightarrow> bool" for p2p se opt where
  start: "ns_advancedBlocks ns = fmempty \<Longrightarrow> network_run p2p se opt ns"
| refreshed: "network_run p2p se opt ns \<Longrightarrow> Network_doProcess p2p se n ns w = (ns', w', r) \<Longrightarrow> network_run p2p se opt ns'"
| processed: "network_run p2p se opt ns \<Longrightarrow> Network_process p2p se opt ns w = Some (ns', w', r) \<Longrightarrow> network_run p2p se opt ns'"

lemma network_run_ok: "network_run p2p se opt ns \<Longrightarrow> advanced_ok se opt ns"
proof (induction rule: network_run.induct)
  case (start ns)
  then show ?case by (simp add: advanced_ok_def)
next
  case (refreshed ns n w ns' w' r)
  then show ?case by (auto simp: Network_doProcess_def Let_def advanced_ok_def split: prod.splits sum.splits option.splits)
next
  case (processed ns w ns' w' r)
  then show ?case using Network_process_verified [OF processed.hyps(2) processed.IH] by simp
qed

lemma catch_exception_Ok: "catch_exception a b = Ok x \<Longrightarrow> a = Ok x \<or> b = Ok x"
  by (auto simp: catch_exception_def split: sum.splits error.splits)

lemma checkSignatureBlock_Ok:
  assumes "checkSignatureBlock cr ko received = Ok r"
  shows "crypto_check_sign_data cr (sr_sign r) (sr_pubkey r) (sr_block r)"
    and "makeAddressFromSecpKey cr ko (sr_pubkey r) = Ok (sr_address r) \<or> get_address cr (sr_pubkey r) = Ok (sr_address r)"
proof -
  obtain block sign pubkey address where v: "crypto_check_sign_data cr sign pubkey block"
    and c: "catch_exception
          (rbind (makeAddressFromSecpKey cr ko pubkey) (\<lambda>calculatedAddress. rbind (CHECK (calculatedAddress = address) ''Not validate'') (\<lambda>_.
             Ok \<lparr>sr_block = block, sr_sign = sign, sr_pubkey = pubkey, sr_address = address\<rparr>)))
          (rbind (get_address cr pubkey) (\<lambda>calculatedAddress. rbind (CHECK (calculatedAddress = address) ''Not validate'') (\<lambda>_.
             Ok \<lparr>sr_block = block, sr_sign = sign, sr_pubkey = pubkey, sr_address = address\<rparr>))) = Ok r"
    using assms unfolding checkSignatureBlock_def Let_def
    by (simp only: rbind_Ok_iff [of "deserializeStringBigEndian _ _"] rbind_Ok_iff [of "CHECK _ _"] split_paired_Ex prod.case CHECK_Ok_iff)
      (elim exE conjE, rule that)
  from catch_exception_Ok [OF c] show "crypto_check_sign_data cr (sr_sign r) (sr_pubkey r) (sr_block r)"
    and "makeAddressFromSecpKey cr ko (sr_pubkey r) = Ok (sr_address r) \<or> get_address cr (sr_pubkey r) = Ok (sr_address r)"
    using v by (auto simp: rbind_Ok_iff)
qed

section \<open>Blocks in files and in memory\<close>

text \<open>Reading the transactions leaves alone the size and the position that the header has.\<close>

definition put_place :: "u64 \<Rightarrow> size_t \<Rightarrow> blockHeader \<Rightarrow> blockHeader" where
  "put_place sz p h = h\<lparr>bh_blockSize := sz, bh_filePos := (bh_filePos h)\<lparr>fp_pos := p\<rparr>\<rparr>"

lemma put_place_commutes [simp]:
  "(put_place sz p h)\<lparr>bh_hash := x\<rparr> = put_place sz p (h\<lparr>bh_hash := x\<rparr>)"
  "(put_place sz p h)\<lparr>bh_countTxs := n\<rparr> = put_place sz p (h\<lparr>bh_countTxs := n\<rparr>)"
  "(put_place sz p h)\<lparr>bh_signature := g\<rparr> = put_place sz p (h\<lparr>bh_signature := g\<rparr>)"
  by (simp_all add: put_place_def)

lemma set_block_signature_place:
  "set_block_signature (bi\<lparr>bi_header := put_place sz p (bi_header bi)\<rparr>) =
   rbind (set_block_signature bi) (\<lambda>x. Ok (x\<lparr>bi_header := put_place sz p (bi_header x)\<rparr>))"
  by (auto simp: set_block_signature_def rbind_rbind split: list.split intro!: arg_cong2 [where f = rbind])

lemma readBlockTxs_place:
  "readBlockTxs fuel env base buf b e pos (bi\<lparr>bi_header := put_place sz p h\<rparr>) sa beginTx countTx v =
   map_option (\<lambda>r. rbind r (\<lambda>x. Ok (x\<lparr>bi_header := put_place sz p (bi_header x)\<rparr>)))
     (readBlockTxs fuel env base buf b e pos (bi\<lparr>bi_header := h\<rparr>) sa beginTx countTx v)"
proof (cases "rbind (load base buf b (unat (e - b))) (get_double_sha256 (env_crypto env))")
  case (Inr hash)
  have fin: "set_block_signature (x\<lparr>bi_header := put_place sz p g\<rparr>) =
      rbind (set_block_signature (x\<lparr>bi_header := g\<rparr>)) (\<lambda>x. Ok (x\<lparr>bi_header := put_place sz p (bi_header x)\<rparr>))" for x g
    using set_block_signature_place [where bi = "x\<lparr>bi_header := g\<rparr>" and sz = sz and p = p] by simp
  show ?thesis
    by (cases "countTx = 0")
      (simp_all add: readBlockTxs_def Inr Let_def readBlockTxs_loop_header option.map_comp comp_def rbind_rbind fin)
qed (simp add: readBlockTxs_def)

lemma le_value_Cons: "le_value (c # bs) = of_char c + 256 * le_value bs"
  by (simp add: le_value_def)

lemma le_bytes_le_value: "le_bytes (length bs) (le_value bs) = bs"
proof (induction bs)
  case (Cons c bs)
  have "(of_char c :: nat) < 256" by (rule of_char_less_256)
  then show ?case using Cons by (simp add: le_value_Cons)
qed simp

lemma digit_less: "c < 256 \<Longrightarrow> v < P \<Longrightarrow> c + 256 * v < 256 * P" for c v P :: nat
  by linarith

lemma le_value_less: "le_value bs < 256 ^ length bs"
proof (induction bs)
  case (Cons c bs)
  have "(of_char c :: nat) < 256" by (rule of_char_less_256)
  then have "of_char c + 256 * le_value bs < 256 * 256 ^ length bs" by (rule digit_less [OF _ Cons])
  then show ?case by (simp add: le_value_Cons)
qed (simp add: le_value_def)

lemma header_fields:
  assumes "80 \<le> length data"
  obtains ty ts :: u64 and ph th rest where "data = (le_bytes 8 (unat ty) @ le_bytes 8 (unat ts) @ ph @ th) @ rest"
    and "length ph = 32" and "length th = 32"
proof -
  have bytes: "le_bytes 8 (unat (of_nat (le_value bs) :: u64)) = bs" if "length bs = 8" for bs
    using le_bytes_le_value [of bs] le_value_less [of bs] that by (simp add: unat_of_nat_u64)
  have "data = (take 8 data @ take 8 (drop 8 data) @ take 32 (drop 16 data) @ take 32 (drop 48 data)) @ drop 80 data"
    using append_take_drop_id [of 8 data] append_take_drop_id [of 8 "drop 8 data"] append_take_drop_id [of 32 "drop 16 data"]
      append_take_drop_id [of 32 "drop 48 data"] by simp
  then show ?thesis
    using that [of "of_nat (le_value (take 8 data))" "of_nat (le_value (take 8 (drop 8 data)))" "take 32 (drop 16 data)" "take 32 (drop 48 data)"]
      bytes [of "take 8 data"] bytes [of "take 8 (drop 8 data)"] assms by auto
qed

text \<open>A block in a file: its size, its bytes, and whatever follows.\<close>

lemma readBlockHeader_at:
  assumes content: "content = old @ le_bytes 8 (length data) @ data @ later" and small: "length content < 2 ^ 63"
    and data: "data = (le_bytes 8 (unat ty) @ le_bytes 8 (unat ts) @ ph @ th) @ rest" and len: "length ph = 32" "length th = 32"
    and base: "unat base + 88 < 2 ^ 64"
  shows "readBlockHeader env base content (size_of old) (fileSize content) bh =
    Ok (Some (put_place (size_of data) (size_of old)
      (bh\<lparr>bh_blockType := ty, bh_timestamp := ts, bh_prevHash := env_toHex env ph, bh_txsHash := env_toHex env th\<rparr>)))"
proof -
  let ?h = "le_bytes 8 (unat ty) @ le_bytes 8 (unat ts) @ ph @ th" and ?o = "length old"
  let ?buf = "le_bytes 8 (length data) @ ?h"
  have l: "length content = ?o + 8 + length data + length later" "80 \<le> length data" "length ?buf = 88" using len by (simp_all add: content data)
  have "unat (size_of content - size_of old) = length content - ?o"
  proof -
    have "size_of content - size_of old = of_nat (length content - ?o)" using l by (simp add: size_of_def of_nat_diff)
    then show ?thesis using small by (simp add: unat_of_nat_u64)
  qed
  then have hd: "\<not> fileSize content \<le> size_of old" "BLOCK_HEADER_SIZE \<le> fileSize content - size_of old"
    using small l by (simp_all add: fileSize_def word_le_nat_alt BLOCK_HEADER_SIZE_def)
  have "file_read content (of_nat ?o) (of_nat 88) = take 88 (drop ?o content)"
    using small l by (intro file_read_inside) simp_all
  then have buf: "file_read content (size_of old) BLOCK_HEADER_SIZE = ?buf"
    using len by (simp add: size_of_def BLOCK_HEADER_SIZE_def content data)
  have m: "mem_ok base ?buf" using base l by (simp add: mem_ok_def)
  have e: "unat (base + BLOCK_HEADER_SIZE) = unat base + 88"
    using unat_add_of_nat [of base 88] base by (simp add: BLOCK_HEADER_SIZE_def)
  have st: "stands ?buf 0 (le_bytes 8 (length data))" "stands ?buf 8 ?h"
    unfolding stands_def by (rule exI [of _ "[]"], rule exI [of _ ?h], simp, rule exI [of _ "le_bytes 8 (length data)"], rule exI [of _ "[]"], simp)
  have i: "reads (\<lambda>base buf. readInt base buf 8) (le_bytes 8 (length data)) (size_of data)"
    using reads_readInt [of 8 "length data"] small l by (simp add: size_of_def)
  have r1: "readInt base ?buf 8 base (base + BLOCK_HEADER_SIZE) = Ok (size_of data, adr base 8)"
    using stands_reads [OF i st(1) m, of "base + BLOCK_HEADER_SIZE"] e by (simp add: adr_0)
  have r2: "readBlockHeaderWithoutSize env base ?buf (adr base 8) (base + BLOCK_HEADER_SIZE) b =
      Ok (b\<lparr>bh_blockType := ty, bh_timestamp := ts, bh_prevHash := env_toHex env ph, bh_txsHash := env_toHex env th\<rparr>)" for b
    by (rule readBlockHeaderWithoutSize_stands [OF m st(2) len]) (simp add: e len)
  have "seekFile (size_of old) = Ok ()" using small l by (simp add: seekFile_def size_of_def unat_of_nat_u64)
  then show ?thesis using hd by (simp add: readBlockHeader_def buf readBlockHeader_buf_def r1 r2 put_place_def Let_def)
qed

lemma readNextBlockInfo_file_at:
  assumes content: "content = old @ le_bytes 8 (length data) @ data @ later" and small: "length content < 2 ^ 63" "80 \<le> length data"
    and mem: "unat base + 8 + length data < 2 ^ 64"
  shows "readNextBlockInfo_file fuel env base content (size_of old) bi dump v sa beginTx countTx =
    map_option (\<lambda>r. rbind r (\<lambda>bi. Ok (size_of old + size_of data + 8, bi, data)))
      (readNextBlockInfo fuel env base data base (base + size_of data) (size_of old) bi v sa beginTx countTx)"
proof -
  obtain ty ts :: u64 and ph th rest where data: "data = (le_bytes 8 (unat ty) @ le_bytes 8 (unat ts) @ ph @ th) @ rest"
    and len: "length ph = 32" "length th = 32" using header_fields [OF small(2)] .
  define h where "h = (bi_header bi)\<lparr>bh_blockType := ty, bh_timestamp := ts, bh_prevHash := env_toHex env ph, bh_txsHash := env_toHex env th\<rparr>"
  have l: "length content = length old + 8 + length data + length later" by (simp add: content)
  have onDisk: "readBlockHeader env base content (size_of old) (fileSize content) (bi_header bi) = Ok (Some (put_place (size_of data) (size_of old) h))"
    unfolding h_def by (rule readBlockHeader_at [OF content small(1) data len]) (use mem small in simp)
  have m: "mem_ok base data" using mem by (simp add: mem_ok_def)
  have "unat (base + size_of data) = unat base + length data" unfolding size_of_def by (rule unat_add_of_nat) (use mem in simp)
  moreover have "stands data 0 (le_bytes 8 (unat ty) @ le_bytes 8 (unat ts) @ ph @ th)" by (auto simp: stands_def data)
  ultimately have head: "readBlockHeaderWithoutSize env base data base (base + size_of data) (bi_header bi) = Ok h"
    using readBlockHeaderWithoutSize_stands [OF m _ len, of 0 ty ts "base + size_of data" env "bi_header bi"] by (simp add: adr_0 h_def)
  have "unat (size_of content - size_of old) = length content - length old" "unat (size_of data + 8 :: size_t) = length data + 8"
  proof -
    have "size_of content - size_of old = of_nat (length content - length old)" using l by (simp add: size_of_def of_nat_diff)
    then show "unat (size_of content - size_of old) = length content - length old" using small by (simp add: unat_of_nat_u64)
    show "unat (size_of data + 8 :: size_t) = length data + 8"
      using unat_add_of_nat [of "size_of data" 8] small l by simp
  qed
  then have whole: "\<not> fileSize content - size_of old < size_of data + 8" using l by (simp add: fileSize_def word_less_nat_alt)
  have pos: "size_of old + 8 = of_nat (length old + 8)" by (simp add: size_of_def)
  have "file_read content (of_nat (length old + 8)) (of_nat (length data)) = data"
    using file_read_inside [of "length old + 8" "length data" content] small l by (simp add: content del: of_nat_add)
  then have rd: "rbind (seekFile (size_of old + 8)) (\<lambda>_. read_buffer content (size_of old + 8) (size_of data)) = Ok data"
    using small l unfolding pos by (simp add: seekFile_def read_buffer_def unat_of_nat_u64 size_of_def del: of_nat_add)
  have bs: "bh_blockSize (put_place (size_of data) (size_of old) h) = size_of data" by (simp add: put_place_def)
  show ?thesis
    unfolding readNextBlockInfo_file_def readNextBlockInfo_def Let_def onDisk head
    using whole rd
    by (simp add: bs readBlockTxs_place option.map_comp comp_def rbind_rbind add.assoc) (simp add: put_place_def)
qed

text \<open>A block file as the node writes it.\<close>

definition block_records :: "string list \<Rightarrow> string" where
  "block_records blocks = concat (map (\<lambda>b. le_bytes 8 (length b) @ b) blocks)"

definition save_blocks :: "string \<Rightarrow> string list \<Rightarrow> disk \<Rightarrow> disk" where
  "save_blocks fileName blocks d = fold (\<lambda>b d. fst (saveBlockToFileBinary fileName b d)) blocks d"

lemma save_blocks_records:
  assumes "\<forall>b\<in>set blocks. length b < 2 ^ 64" and "blocks \<noteq> []"
  shows "fmlookup (save_blocks fileName blocks d) fileName =
    Some ((case fmlookup d fileName of None \<Rightarrow> [] | Some c \<Rightarrow> c) @ block_records blocks)"
  using assms
proof (induction blocks rule: rev_induct)
  case (snoc b blocks)
  have one: "fmlookup (fst (saveBlockToFileBinary fileName b d)) fileName =
      Some ((case fmlookup d fileName of None \<Rightarrow> [] | Some c \<Rightarrow> c) @ le_bytes 8 (length b) @ b)" for d
    using snoc.prems by (simp add: saveBlockToFileBinary_def append_file_def Let_def)
  show ?case
  proof (cases "blocks = []")
    case True
    then show ?thesis using one [of d] by (simp add: save_blocks_def block_records_def)
  next
    case False
    then show ?thesis using one [of "save_blocks fileName blocks d"] snoc by (simp add: save_blocks_def block_records_def)
  qed
qed simp

lemma readNextBlockInfo_file_end:
  "readNextBlockInfo_file fuel env base content (size_of content) bi dump v sa beginTx countTx = Some (Ok (size_of content, bi, dump))"
  by (simp add: readNextBlockInfo_file_def readBlockHeader_def fileSize_def Let_def)

section \<open>Properties\<close>


definition demo_block :: string where
  "demo_block = block_bytes 1 2 (replicate 32 (CHR 0x05)) (replicate 32 (CHR 0x06)) []"

definition demo_signed :: string where
  "demo_signed = serializeString demo_block @ serializeString (sha256 sample_crypto demo_block) @
     serializeString (replicate 65 (CHR ''k'')) @ serializeString ''0x00046b00046b30''"

definition demo_header :: minimumBlockHeader where
  "demo_header = \<lparr>mb_number = 1, mb_blockSize = size_of demo_block, mb_hash = ''h'', mb_parentHash = [], mb_fileName = ''1.blk''\<rparr>"

definition demo_p2p :: "unit p2p" where
  "demo_p2p =
     \<lparr>p2p_broadcast = (\<lambda>qs post header w. (w, [], Err (Exception ''Servers end''))),
      p2p_request = (\<lambda>n prec mk header parse hints w. (w, Err (Exception ''dont run request''))),
      p2p_requests = (\<lambda>n mk header parse hints w.
        (w, rbind (mk 0) (\<lambda>(qs, post). Ok [rp_response (parse (if qs = ''get-block-by-number'' then ''header'' else demo_signed))]))),
      p2p_runOneRequest = (\<lambda>server qs post header w. (w, Err (Exception ''dont run request'')))\<rparr>"

definition demo_env :: sourceEnv where
  "demo_env = \<lparr>se_fuel = 2, se_base = 4096,
     se_read = \<lparr>env_crypto = sample_crypto, env_parse = (\<lambda>_. None), env_toHex = (\<lambda>s. s)\<rparr>,
     se_get = \<lparr>gv_parse = (\<lambda>text. Some (JObject [(''result'', header_json demo_header)])), gv_print = (\<lambda>_. []), gv_lz = copy_lz4\<rparr>,
     se_keyOps = sample_keyOps\<rparr>"

definition demo_options :: networkOptions where
  "demo_options = \<lparr>no_getter = three_options, no_folderPath = ''folder'', no_saveAllTx = False, no_isValidate = True, no_isVerifySign = True\<rparr>"

definition demo_source :: networkSource where
  "demo_source = \<lparr>ns_getter = \<lparr>gt_headers = [], gt_dumps = fmempty\<rparr>, ns_nextBlockToRead = 1, ns_servers = [''srv''],
     ns_lastBlockInBlockchain = 1, ns_advancedBlocks = fmempty\<rparr>"

lemma demo_length: "length demo_block = 81"
  by (simp add: demo_block_def block_bytes_def) code_simp

lemma demo_read:
  assumes "bi_txs bi = []"
  shows "\<exists>bi'. readNextBlockInfo (se_fuel demo_env) (se_read demo_env) (se_base demo_env) demo_block (se_base demo_env)
    (se_base demo_env + size_of demo_block) pos bi v sa 0 0 = Some (Ok bi')"
proof -
  have m: "unat (se_base demo_env) + length demo_block < 2 ^ 64" by (simp add: demo_length demo_env_def)
  have "\<exists>bi'. block_meaning (se_read demo_env) sa v pos bh demo_block [] bi = Ok bi'" for bh
    using assms by (simp add: block_meaning_def get_double_sha256_def set_block_signature_def demo_env_def sample_crypto_def)
  moreover have "0 < se_fuel demo_env" by (simp add: demo_env_def)
  ultimately show ?thesis using readNextBlockInfo_block_bytes [OF demo_block_def m, of "se_fuel demo_env" "se_read demo_env" pos bi v sa] by auto
qed

lemma demo_open:
  "open_signed demo_env demo_signed bi = Ok (demo_block, bi\<lparr>bi_header := (bi_header bi)\<lparr>bh_senderSign := sha256 sample_crypto demo_block,
     bh_senderPubkey := replicate 65 (CHR ''k''), bh_senderAddress := ''0x00046b00046b30''\<rparr>\<rparr>)"
proof -
  have "crypto_check_sign_data sample_crypto (sha256 sample_crypto demo_block) (replicate 65 (CHR ''k'')) demo_block"
    by (simp add: crypto_check_sign_data_def check_sign_def sample_crypto_def)
  moreover have "length (sha256 sample_crypto demo_block) = 4" by (simp add: sample_crypto_def demo_length)
  ultimately show ?thesis
    using checkSignatureBlock_fields [of demo_block "sha256 sample_crypto demo_block" "replicate 65 (CHR ''k'')" "''0x00046b00046b30''" "[]"
        sample_crypto sample_keyOps] sample_address
    by (simp add: open_signed_def demo_signed_def demo_env_def demo_length catch_address_check [OF refl] Let_def)
qed

lemma demo_loaded:
  "\<exists>g. load_blocks_ahead demo_p2p demo_env demo_options 1 1 [''srv''] 1 \<lparr>gt_headers = [], gt_dumps = fmempty\<rparr> () =
     Some (g, (), [(1, AdvancedBlock_default\<lparr>ab_header := demo_header, ab_dump := demo_signed\<rparr>)])"
proof -
  have "(case load_blocks_ahead demo_p2p demo_env demo_options 1 1 [''srv''] 1 \<lparr>gt_headers = [], gt_dumps = fmempty\<rparr> () of
      Some (g, w, r) \<Rightarrow> r = [(1, AdvancedBlock_default\<lparr>ab_header := demo_header, ab_dump := demo_signed\<rparr>)] | _ \<Rightarrow> False)"
    by code_simp
  then show ?thesis by (auto split: option.splits prod.splits)
qed

lemma demo_process:
  "\<exists>ns' bi. Network_process demo_p2p demo_env demo_options demo_source () = Some (ns', (), Ok (Some (bi, demo_block)))"
proof -
  obtain g where g: "load_blocks_ahead demo_p2p demo_env demo_options 1 1 [''srv''] 1 \<lparr>gt_headers = [], gt_dumps = fmempty\<rparr> () =
     Some (g, (), [(1, AdvancedBlock_default\<lparr>ab_header := demo_header, ab_dump := demo_signed\<rparr>)])"
    using demo_loaded by blast
  let ?bi = "BlockInfo_default\<lparr>bi_header := (bi_header BlockInfo_default)\<lparr>bh_senderSign := sha256 sample_crypto demo_block,
     bh_senderPubkey := replicate 65 (CHR ''k''), bh_senderAddress := ''0x00046b00046b30''\<rparr>\<rparr>"
  have "\<exists>bi. read_dump demo_env demo_options demo_header demo_block ?bi = Some (Ok bi)"
    by (simp add: read_dump_def demo_header_def Let_def demo_read BlockInfo_default_def)
  then obtain bi where r: "read_dump demo_env demo_options demo_header demo_block ?bi = Some (Ok bi)" by blast
  have v: "verify_block demo_env demo_options (AdvancedBlock_default\<lparr>ab_header := demo_header, ab_dump := demo_signed\<rparr>) =
      Some (AdvancedBlock_default\<lparr>ab_header := demo_header, ab_dump := demo_block, ab_bi := bi\<rparr>)"
    using r by (simp add: verify_block_def AdvancedBlock_default_def demo_open demo_options_def)
  show ?thesis
    using g v by (simp add: Network_process_def demo_source_def Let_def COUNT_ADVANCED_BLOCKS_def process_advanced_def
        AdvancedBlock_default_def fmlookup_of_list del: load_blocks_ahead.simps)
qed


text \<open>C19: The blocks of a file come back in the order they were written. On a file that was written block by block, with the
  source open behind the first blocks \<open>pre\<close>: while blocks remain, the next call of \<open>process\<close> hands out exactly the bytes of
  the next block, with the block that reading those bytes in memory yields for its position in the file, and the source
  stands behind it and has recorded so; an error of the reader leaves the source where it is. Behind the last block the
  file is closed and no block is handed out.\<close>

theorem file_source_delivers:
  assumes "d = save_blocks f (pre @ post) d0" and "fmlookup d0 f = None" and "pre @ post \<noteq> []" and "f \<noteq> []"
    and "\<forall>b\<in>set (pre @ post). 80 \<le> length b \<and> unat (se_base se) + 8 + length b < 2 ^ 64" and "length (block_records (pre @ post)) < 2 ^ 63"
    and "fs_fileName fs = f" and "fs_currPos fs = size_of (block_records pre)"
  shows "File_process se v folder directory d fs =
    (case post of
       [] \<Rightarrow> Some (fs\<lparr>fs_fileName := []\<rparr>, Ok None)
     | b # bs \<Rightarrow>
         map_option (\<lambda>r. case r of
             Inl e \<Rightarrow> (fs, Err e)
           | Inr bi \<Rightarrow>
               let p = size_of (block_records (pre @ [b]))
               in (fs\<lparr>fs_currPos := p, fs_allFiles := fmupd (CroppedFileName f) \<lparr>fi_filePos = \<lparr>fp_pos = p, fp_fileName = f\<rparr>\<rparr> (fs_allFiles fs)\<rparr>,
                   Ok (Some (name_block f bi, b))))
           (readNextBlockInfo (se_fuel se) (se_read se) (se_base se) b (se_base se) (se_base se + size_of b)
              (size_of (block_records pre)) BlockInfo_default v False 0 0))"
proof -
  have small: "\<forall>b\<in>set (pre @ post). length b < 2 ^ 64" using assms(5) by force
  have c: "fmlookup d f = Some (block_records (pre @ post))"
    using save_blocks_records [OF small assms(3), of f d0] assms(1,2) by simp
  have o: "open_next folder directory d fs = (fs, Ok True)" using assms(4,7) by (simp add: open_next_def)
  show ?thesis
  proof (cases post)
    case Nil
    then show ?thesis using c assms(7,8) by (simp add: File_process_def o readNextBlockInfo_file_end Let_def)
  next
    case (Cons b bs)
    have content: "block_records (pre @ post) = block_records pre @ le_bytes 8 (length b) @ b @ block_records bs"
      by (simp add: Cons block_records_def)
    have b: "80 \<le> length b" "unat (se_base se) + 8 + length b < 2 ^ 64" using assms(5) Cons by auto
    have l: "length (block_records pre) + 8 + length b < 2 ^ 63" using assms(6) by (simp add: content)
    have p: "size_of (block_records pre) + size_of b + 8 = size_of (block_records (pre @ [b]))"
      by (simp add: block_records_def size_of_def)
    have "length (block_records (pre @ [b])) = length (block_records pre) + 8 + length b"
      by (simp add: block_records_def)
    moreover have "length (block_records pre) < 2 ^ 64" "length (block_records pre) + 8 + length b < 2 ^ 64" using l by simp_all
    ultimately have "unat (size_of (block_records pre)) \<noteq> unat (size_of (block_records (pre @ [b])))"
      by (simp only: unat_size_of)
    then have ne: "size_of (block_records pre) \<noteq> size_of (block_records (pre @ [b]))" by metis
    show ?thesis
      using readNextBlockInfo_file_at [OF content assms(6) b, of "se_fuel se" "se_read se" BlockInfo_default "[]" v False 0 0] c assms(7,8) ne
      by (auto simp: File_process_def o Let_def p Cons option.map_comp comp_def split: option.split sum.split)
  qed
qed

theorem file_source_delivers_witness:
  "\<exists>bi. File_process demo_env True ''folder'' [] (save_blocks ''1.blk'' [demo_block, demo_block] fmempty)
       \<lparr>fs_allFiles = fmempty, fs_fileName = ''1.blk'', fs_currPos = 0\<rparr> =
     Some (\<lparr>fs_allFiles = fmap_of_list [(CroppedFileName ''1.blk'', \<lparr>fi_filePos = \<lparr>fp_pos = 89, fp_fileName = ''1.blk''\<rparr>\<rparr>)],
            fs_fileName = ''1.blk'', fs_currPos = 89\<rparr>, Ok (Some (bi, demo_block)))"
proof -
  obtain bi where r: "readNextBlockInfo (se_fuel demo_env) (se_read demo_env) (se_base demo_env) demo_block (se_base demo_env)
      (se_base demo_env + size_of demo_block) 0 BlockInfo_default True False 0 0 = Some (Ok bi)"
    using demo_read [of BlockInfo_default 0 True False] by (auto simp: BlockInfo_default_def)
  have l: "length (block_records [demo_block, demo_block]) = 178" "size_of (block_records [demo_block]) = 89" "size_of (block_records []) = 0"
    "unat (se_base demo_env) = 4096"
    by (simp_all add: block_records_def demo_length size_of_def demo_env_def)
  show ?thesis
    using file_source_delivers [OF refl, of fmempty "''1.blk''" "[]" "[demo_block, demo_block]" demo_env
        "\<lparr>fs_allFiles = fmempty, fs_fileName = ''1.blk'', fs_currPos = 0\<rparr>" True "''folder''" "[]"]
    by (simp add: l r Let_def demo_length)
qed

end
