(* ===== verification/AddressFile.thy ===== *)
theory AddressFile
  imports Cache
begin

text \<open>
  The outer class \<^verbatim>\<open>LocalCache\<close> of \<^verbatim>\<open>src/src/Cache/LocalCache.cpp\<close>: the groups of addresses that a node keeps the histories of, and the
  file they are stored in, one line for each address with the name of its group behind it. An \<open>unordered_set\<close> is a finite set;
  \<open>ae_order\<close> is the order in which it is run through. \<open>trim\<close> of the common library is an argument.
\<close>

record addressEnv =
  ae_trim :: "string \<Rightarrow> string"
  ae_order :: "string fset \<Rightarrow> string list"

type_synonym getterTxs = "string \<Rightarrow> string \<Rightarrow> transactionInfo list"

record localCacheFile =
  lf_txs :: "transactionInfo localCache"
  lf_txsStatus :: "transactionStatus localCache"
  lf_getterTxs :: getterTxs
  lf_isSetFunctions :: bool
  lf_addressesFile :: string
  lf_processAddr :: "string \<Rightarrow> string"
  lf_getterTxs2 :: "string \<Rightarrow> transactionInfo list"
  lf_countThreadsForLoad :: size_t
  lf_isInitialized :: bool
  lf_isSetAddressesPath :: bool
  lf_addresses :: "(string, string fset) fmap"

definition LocalCache_new :: "size_t \<Rightarrow> localCacheFile" where
  "LocalCache_new maxCount =
     \<lparr>lf_txs = LocalCacheInternal_new maxCount, lf_txsStatus = LocalCacheInternal_new maxCount, lf_getterTxs = (\<lambda>_ _. []), lf_isSetFunctions = False,
      lf_addressesFile = [], lf_processAddr = (\<lambda>s. s), lf_getterTxs2 = (\<lambda>_. []), lf_countThreadsForLoad = 0, lf_isInitialized = False,
      lf_isSetAddressesPath = False, lf_addresses = fmempty\<rparr>"

definition setFunctions :: "getterTxs \<Rightarrow> size_t \<Rightarrow> localCacheFile \<Rightarrow> localCacheFile" where
  "setFunctions getter countThreads lf =
     lf\<lparr>lf_getterTxs := getter, lf_isSetFunctions := True, lf_countThreadsForLoad := countThreads\<rparr>"

text \<open>\<open>addresses[group]\<close>: an absent group is an empty one.\<close>

definition group_of :: "(string, string fset) fmap \<Rightarrow> string \<Rightarrow> string fset" where
  "group_of m g = (case fmlookup m g of None \<Rightarrow> {||} | Some s \<Rightarrow> s)"

text \<open>A line: the address up to the first space, the group behind it.\<close>

definition split_group :: "string \<Rightarrow> string \<times> string" where
  "split_group line =
     (let before = takeWhile (\<lambda>c. c \<noteq> CHR '' '') line
      in if length before = length line then (line, []) else (before, drop (length before + 1) line))"

fun read_addresses :: "(string \<Rightarrow> string) \<Rightarrow> string list \<Rightarrow> string fset \<times> (string, string fset) fmap \<Rightarrow> string fset \<times> (string, string fset) fmap" where
  "read_addresses trim [] st = st"
| "read_addresses trim (l # ls) (inFile, addresses) =
     (let line = trim l
      in read_addresses trim ls
           (if line \<noteq> [] then
              (case split_group line of (address, grp) \<Rightarrow>
                 (finsert address inFile, fmupd grp (finsert address (group_of addresses grp)) addresses))
            else (inFile, addresses)))"

text \<open>A file that is not there reads as empty. The addresses of the file are looked up on several threads, each at its own address.\<close>

definition processFile :: "addressEnv \<Rightarrow> disk \<Rightarrow> localCacheFile \<Rightarrow> localCacheFile" where
  "processFile ae d lf =
     (let content = (case fmlookup d (lf_addressesFile lf) of None \<Rightarrow> [] | Some s \<Rightarrow> s);
          (inFile, addresses) = read_addresses (ae_trim ae) (getlines content) ({||}, lf_addresses lf)
      in lf\<lparr>lf_addresses := addresses,
            lf_txs := fold (\<lambda>address lc. addIfNoExist getMaxBlockNumber_txs address (lf_getterTxs2 lf) False True lc) (ae_order ae inFile) (lf_txs lf)\<rparr>)"

definition setAddressPathAndLoad ::
    "addressEnv \<Rightarrow> disk \<Rightarrow> string \<Rightarrow> (string \<Rightarrow> string) \<Rightarrow> string \<Rightarrow> localCacheFile \<Rightarrow> localCacheFile \<times> unit res" where
  "setAddressPathAndLoad ae d path processAddress setName lf =
     (if lf_addressesFile lf \<noteq> [] then (lf, Err (Exception ''Double run setAddressPathAndLoad''))
      else
        let lf = lf\<lparr>lf_addressesFile := path, lf_processAddr := processAddress\<rparr>
        in if path \<noteq> [] then
             (if \<not> lf_isSetFunctions lf then (lf, Err (Exception ''Functions not set''))
              else
                let lf = lf\<lparr>lf_getterTxs2 := (\<lambda>address. lf_getterTxs lf address setName)\<rparr>;
                    lf = processFile ae d lf
                in (lf\<lparr>lf_isSetAddressesPath := True, lf_isInitialized := True\<rparr>, Ok ()))
           else (lf\<lparr>lf_isInitialized := True\<rparr>, Ok ()))"

definition address_line :: "string \<Rightarrow> string \<Rightarrow> string" where
  "address_line address grp = address @ (if grp \<noteq> [] then '' '' @ grp else [])"

definition addAddressesToFile :: "string list \<Rightarrow> string \<Rightarrow> string" where
  "addAddressesToFile newAddresses grp = concat (map (\<lambda>address. address_line address grp @ [CHR 0x0A]) newAddresses)"

definition file_content :: "disk \<Rightarrow> string \<Rightarrow> string" where
  "file_content d path = (case fmlookup d path of None \<Rightarrow> [] | Some s \<Rightarrow> s)"

definition addAddresses :: "addressEnv \<Rightarrow> string list \<Rightarrow> string \<Rightarrow> localCacheFile \<times> disk \<Rightarrow> (localCacheFile \<times> disk) \<times> unit res" where
  "addAddresses ae newAddressesStrs grp st =
     (case st of (lf, d) \<Rightarrow>
        if \<not> lf_isInitialized lf then (st, Err (Exception ''not initialized''))
        else if \<not> lf_isSetAddressesPath lf then (st, Err (Exception ''not initialized for batch requests''))
        else
          let newAddresses = fset_of_list (map (lf_processAddr lf) newAddressesStrs);
              txs = fold (\<lambda>address lc. addIfNoExist getMaxBlockNumber_txs address (lf_getterTxs2 lf) False False lc) (ae_order ae newAddresses) (lf_txs lf);
              addresses = fmupd grp (group_of (lf_addresses lf) grp |\<union>| newAddresses) (lf_addresses lf);
              path = lf_addressesFile lf
          in ((lf\<lparr>lf_txs := txs, lf_addresses := addresses\<rparr>,
               fmupd path (file_content d path @ addAddressesToFile (ae_order ae newAddresses) grp) d), Ok ()))"

definition removeAddresses :: "addressEnv \<Rightarrow> string list \<Rightarrow> string \<Rightarrow> localCacheFile \<times> disk \<Rightarrow> (localCacheFile \<times> disk) \<times> unit res" where
  "removeAddresses ae removedAddressesStrs grp st =
     (case st of (lf, d) \<Rightarrow>
        if \<not> lf_isInitialized lf then (st, Err (Exception ''not initialized''))
        else if \<not> lf_isSetAddressesPath lf then (st, Err (Exception ''not initialized for batch requests''))
        else
          let removedAddresses = fset_of_list (map (lf_processAddr lf) removedAddressesStrs)
          in case fmlookup (lf_addresses lf) grp of
               None \<Rightarrow> (st, Err (Exception (''Group '' @ grp @ '' not found in addresses list'')))
             | Some found \<Rightarrow>
                 let addresses = fmupd grp (found |-| removedAddresses) (lf_addresses lf)
                 in ((lf\<lparr>lf_addresses := addresses\<rparr>,
                      fmupd (lf_addressesFile lf)
                        (concat (map (\<lambda>g. addAddressesToFile (ae_order ae (group_of addresses g)) g) (ae_order ae (fmdom addresses)))) d), Ok ()))"

definition getAddresses :: "string \<Rightarrow> localCacheFile \<Rightarrow> string fset res" where
  "getAddresses grp lf =
     rbind (CHECK (lf_isInitialized lf) ''not initialized'') (\<lambda>_.
     rbind (CHECK (lf_isSetAddressesPath lf) ''not initialized for batch requests'') (\<lambda>_.
     Ok (case fmlookup (lf_addresses lf) grp of Some s \<Rightarrow> s | None \<Rightarrow> {||})))"

definition LocalCache_setLastBlockNum :: "size_t \<Rightarrow> localCacheFile \<Rightarrow> localCacheFile" where
  "LocalCache_setLastBlockNum blockNum lf = lf\<lparr>lf_txs := setLastBlockNum blockNum (lf_txs lf)\<rparr>"

section \<open>Lines of a file\<close>

lemma getlines_nonempty: "getlines (c # s) = takeWhile (\<lambda>c. c \<noteq> CHR 0x0A) (c # s) # getlines (tl (dropWhile (\<lambda>c. c \<noteq> CHR 0x0A) (c # s)))"
  by (simp add: dropWhile_eq_drop del: takeWhile.simps dropWhile.simps) (simp add: Let_def)

lemma getlines_line: "CHR 0x0A \<notin> set l \<Longrightarrow> getlines (l @ CHR 0x0A # s) = l # getlines s"
proof (cases l)
  case (Cons c cs)
  assume nl: "CHR 0x0A \<notin> set l"
  then have "\<forall>x\<in>set l. x \<noteq> CHR 0x0A" by auto
  then have "takeWhile (\<lambda>c. c \<noteq> CHR 0x0A) (l @ CHR 0x0A # s) = l" "dropWhile (\<lambda>c. c \<noteq> CHR 0x0A) (l @ CHR 0x0A # s) = CHR 0x0A # s"
    by (simp_all add: takeWhile_append2 dropWhile_append2)
  then show ?thesis using getlines_nonempty [of c "cs @ CHR 0x0A # s"] Cons by simp
qed (simp add: Let_def)

lemma getlines_lines: "\<forall>l\<in>set ls. CHR 0x0A \<notin> set l \<Longrightarrow> getlines (concat (map (\<lambda>l. l @ [CHR 0x0A]) ls) @ s) = ls @ getlines s"
  by (induction ls) (simp_all add: getlines_line)

lemma getlines_no_feed: "l \<in> set (getlines s) \<Longrightarrow> CHR 0x0A \<notin> set l"
proof (induction s rule: getlines.induct)
  case (2 c s)
  then show ?case using set_takeWhileD by (fastforce simp del: takeWhile.simps simp: Let_def)
qed simp

text \<open>A text that ends with a line feed is the text of its lines.\<close>

definition whole_lines :: "string \<Rightarrow> bool" where
  "whole_lines s \<longleftrightarrow> s = [] \<or> last s = CHR 0x0A"

definition text_of :: "string list \<Rightarrow> string" where
  "text_of ls = concat (map (\<lambda>l. l @ [CHR 0x0A]) ls)"

lemma whole_lines_text: "whole_lines s \<Longrightarrow> \<exists>ls. s = text_of ls \<and> (\<forall>l\<in>set ls. CHR 0x0A \<notin> set l)"
proof (induction s)
  case (Cons c s)
  show ?case
  proof (cases "s = []")
    case True
    then show ?thesis using Cons.prems by (intro exI [of _ "[[]]"]) (simp add: whole_lines_def text_of_def)
  next
    case False
    then obtain ls where ls: "s = text_of ls" "\<forall>l\<in>set ls. CHR 0x0A \<notin> set l" using Cons by (auto simp: whole_lines_def)
    then obtain l ls' where "ls = l # ls'" using False by (cases ls) (simp_all add: text_of_def)
    then show ?thesis using ls
      by (intro exI [of _ "if c = CHR 0x0A then [] # ls else (c # l) # ls'"]) (simp add: text_of_def)
  qed
qed (auto simp: text_of_def intro: exI [of _ "[]"])

lemma getlines_append: "whole_lines s \<Longrightarrow> getlines (s @ t) = getlines s @ getlines t"
  using whole_lines_text [of s] getlines_lines [of _ t] getlines_lines [of _ "[]"] by (auto simp: text_of_def)

lemma getlines_text_of: "\<forall>l\<in>set ls. CHR 0x0A \<notin> set l \<Longrightarrow> getlines (text_of ls) = ls"
  using getlines_lines [of ls "[]"] by (simp add: text_of_def)

lemma whole_lines_append: "whole_lines s \<Longrightarrow> whole_lines t \<Longrightarrow> whole_lines (s @ t)"
  by (auto simp: whole_lines_def last_append)

lemma whole_lines_text_of: "whole_lines (text_of ls)"
  by (induction ls rule: rev_induct) (simp_all add: whole_lines_def text_of_def)

lemma addAddressesToFile_text: "addAddressesToFile as grp = text_of (map (\<lambda>a. address_line a grp) as)"
  by (simp add: addAddressesToFile_def text_of_def comp_def)

section \<open>What is in the file\<close>

text \<open>What is relied on of \<open>trim\<close>: it gives a part of the text that does not begin or end with a space and is not trimmed any
  further; and of a walk through a set: every element comes once.\<close>

definition trim_spec :: "(string \<Rightarrow> string) \<Rightarrow> bool" where
  "trim_spec trim \<longleftrightarrow>
     (\<forall>s. trim (trim s) = trim s \<and> set (trim s) \<subseteq> set s \<and> (trim s \<noteq> [] \<longrightarrow> hd (trim s) \<noteq> CHR '' '' \<and> last (trim s) \<noteq> CHR '' ''))"

definition order_spec :: "(string fset \<Rightarrow> string list) \<Rightarrow> bool" where
  "order_spec ord \<longleftrightarrow> (\<forall>S. set (ord S) = fset S \<and> distinct (ord S))"

text \<open>An address and a group whose line is read back.\<close>

definition plain_entry :: "(string \<Rightarrow> string) \<Rightarrow> string \<Rightarrow> string \<Rightarrow> bool" where
  "plain_entry trim a g \<longleftrightarrow>
     a \<noteq> [] \<and> CHR '' '' \<notin> set a \<and> CHR 0x0A \<notin> set (address_line a g) \<and> trim (address_line a g) = address_line a g"

definition members :: "(string, string fset) fmap \<Rightarrow> (string \<times> string) set" where
  "members m = {(g, a). a |\<in>| group_of m g}"

definition file_members :: "(string \<Rightarrow> string) \<Rightarrow> string list \<Rightarrow> (string \<times> string) set" where
  "file_members trim ls = {(g, a). \<exists>l\<in>set ls. trim l \<noteq> [] \<and> split_group (trim l) = (a, g)}"

lemma group_of_upd: "group_of (fmupd g S m) h = (if h = g then S else group_of m h)"
  by (simp add: group_of_def)

lemma members_read: "members (snd (read_addresses trim ls (S, m))) = members m \<union> file_members trim ls"
proof (induction ls arbitrary: S m)
  case (Cons l ls)
  show ?case
  proof (cases "trim l = []")
    case True
    then show ?thesis using Cons by (auto simp: file_members_def)
  next
    case False
    obtain a g where "split_group (trim l) = (a, g)" by fastforce
    then show ?thesis using False Cons by (auto simp: file_members_def members_def group_of_upd split: if_splits)
  qed
qed (simp add: file_members_def)

lemma split_address_line: "CHR '' '' \<notin> set a \<Longrightarrow> a \<noteq> [] \<Longrightarrow> split_group (address_line a g) = (a, g)"
proof -
  assume a: "CHR '' '' \<notin> set a" "a \<noteq> []"
  then have "\<forall>x\<in>set a. x \<noteq> CHR '' ''" by auto
  then show ?thesis by (auto simp: split_group_def address_line_def takeWhile_append2 Let_def)
qed

text \<open>Every entry that is read from a file is plain.\<close>

lemma file_members_plain:
  assumes "trim_spec trim" and "(g, a) \<in> file_members trim (getlines s)"
  shows "plain_entry trim a g"
proof -
  obtain l where l: "l \<in> set (getlines s)" "trim l \<noteq> []" "split_group (trim l) = (a, g)" using assms(2) by (auto simp: file_members_def)
  let ?t = "trim l" and ?p = "\<lambda>c. c \<noteq> CHR '' ''"
  have t: "trim ?t = ?t" "set ?t \<subseteq> set l" "hd ?t \<noteq> CHR '' ''" "last ?t \<noteq> CHR '' ''" using assms(1) l(2) by (auto simp: trim_spec_def)
  have line: "address_line a g = ?t \<and> a \<noteq> [] \<and> CHR '' '' \<notin> set a"
  proof (cases "length (takeWhile ?p ?t) = length ?t")
    case True
    then have "takeWhile ?p ?t = ?t" by (metis takeWhile_eq_take take_all_iff order_refl)
    then have "CHR '' '' \<notin> set ?t" by (auto simp: takeWhile_eq_all_conv)
    then show ?thesis using l True by (auto simp: split_group_def address_line_def Let_def)
  next
    case False
    then have ag: "a = takeWhile ?p ?t" "g = drop (length (takeWhile ?p ?t) + 1) ?t" using l(3) by (auto simp: split_group_def Let_def)
    have "dropWhile ?p ?t \<noteq> []" using False by (metis append_Nil2 takeWhile_dropWhile_id)
    then have "dropWhile ?p ?t = CHR '' '' # tl (dropWhile ?p ?t)" using hd_dropWhile [of ?p ?t] by (metis list.collapse)
    then have rest: "?t = takeWhile ?p ?t @ CHR '' '' # tl (dropWhile ?p ?t)" (is "_ = _ @ _ # ?rest") by (metis takeWhile_dropWhile_id)
    have "g = ?rest" by (simp add: ag(2) dropWhile_eq_drop tl_drop drop_Suc)
    moreover have "?rest \<noteq> []" using rest t(4) by (metis last_snoc)
    moreover have "a \<noteq> []" using rest t(3) by (cases "takeWhile ?p ?t") (auto simp: ag(1) simp del: takeWhile.simps, metis list.sel(1))
    ultimately show ?thesis using rest by (auto simp: address_line_def ag(1) dest: set_takeWhileD simp del: takeWhile.simps)
  qed
  then show ?thesis using t(1,2) getlines_no_feed [OF l(1)] by (auto simp: plain_entry_def)
qed

lemma file_members_text:
  assumes "\<forall>(g, a)\<in>set es. plain_entry trim a g"
  shows "file_members trim (getlines (text_of (map (\<lambda>(g, a). address_line a g) es))) = set es"
proof -
  have nl: "\<forall>l\<in>set (map (\<lambda>(g, a). address_line a g) es). CHR 0x0A \<notin> set l" using assms by (auto simp: plain_entry_def)
  have "split_group (address_line a g) = (a, g) \<and> trim (address_line a g) = address_line a g \<and> address_line a g \<noteq> []" if "(g, a) \<in> set es" for g a
    using assms that split_address_line [of a g] by (auto simp: plain_entry_def address_line_def)
  then show ?thesis unfolding getlines_text_of [OF nl] by (force simp: file_members_def)
qed

lemma file_members_append: "file_members trim (ls @ ls') = file_members trim ls \<union> file_members trim ls'"
  by (auto simp: file_members_def)

lemma file_members_group:
  assumes "\<forall>a\<in>set as. plain_entry trim a g"
  shows "file_members trim (getlines (addAddressesToFile as g)) = {g} \<times> set as" and "whole_lines (addAddressesToFile as g)"
proof -
  have "addAddressesToFile as g = text_of (map (\<lambda>(g, a). address_line a g) (map (Pair g) as))" by (simp add: addAddressesToFile_text comp_def)
  then show "file_members trim (getlines (addAddressesToFile as g)) = {g} \<times> set as"
    using file_members_text [of "map (Pair g) as" trim] assms by auto
qed (simp add: addAddressesToFile_text whole_lines_text_of)

lemma file_members_groups:
  assumes "\<forall>g\<in>set gs. \<forall>a\<in>set (f g). plain_entry trim a g"
  shows "file_members trim (getlines (concat (map (\<lambda>g. addAddressesToFile (f g) g) gs))) = (SIGMA g:set gs. set (f g)) \<and>
    whole_lines (concat (map (\<lambda>g. addAddressesToFile (f g) g) gs))"
  using assms
proof (induction gs)
  case (Cons g gs)
  then show ?case using file_members_group [of "f g" trim g]
    by (auto simp: getlines_append file_members_append whole_lines_append)
qed (simp add: file_members_def whole_lines_def)

section \<open>Memory and file agree\<close>

definition mirrored :: "addressEnv \<Rightarrow> localCacheFile \<times> disk \<Rightarrow> bool" where
  "mirrored ae st \<longleftrightarrow> (case st of (lf, d) \<Rightarrow>
     lf_isInitialized lf \<and> lf_isSetAddressesPath lf \<and> whole_lines (file_content d (lf_addressesFile lf)) \<and>
     members (lf_addresses lf) = file_members (ae_trim ae) (getlines (file_content d (lf_addressesFile lf))))"

lemma mirrored_plain:
  assumes "trim_spec (ae_trim ae)" and "mirrored ae (lf, d)" and "(g, a) \<in> members (lf_addresses lf)"
  shows "plain_entry (ae_trim ae) a g"
  using assms file_members_plain [OF assms(1)] by (auto simp: mirrored_def)

lemma file_content_upd [simp]: "file_content (fmupd p s d) p = s"
  by (simp add: file_content_def)

lemma mirrored_add:
  assumes "order_spec (ae_order ae)" and "mirrored ae (lf, d)" and "\<forall>s\<in>set strs. plain_entry (ae_trim ae) (lf_processAddr lf s) g"
  shows "mirrored ae (fst (addAddresses ae strs g (lf, d)))"
proof -
  define S where "S = fset_of_list (map (lf_processAddr lf) strs)"
  have ord: "set (ae_order ae S) = fset S" using assms(1) by (simp add: order_spec_def)
  have "fset S = lf_processAddr lf ` set strs" by (simp add: S_def fset_of_list.rep_eq)
  then have "\<forall>a\<in>set (ae_order ae S). plain_entry (ae_trim ae) a g" using assms(3) ord by auto
  note new = file_members_group [OF this]
  have "members (fmupd g (group_of (lf_addresses lf) g |\<union>| S) (lf_addresses lf)) = members (lf_addresses lf) \<union> {g} \<times> set (ae_order ae S)"
    by (auto simp: members_def group_of_upd ord split: if_splits)
  moreover have "mirrored ae (fst (addAddresses ae strs g (lf, d))) \<longleftrightarrow>
      whole_lines (file_content d (lf_addressesFile lf) @ addAddressesToFile (ae_order ae S) g) \<and>
      members (fmupd g (group_of (lf_addresses lf) g |\<union>| S) (lf_addresses lf)) =
        file_members (ae_trim ae) (getlines (file_content d (lf_addressesFile lf) @ addAddressesToFile (ae_order ae S) g))"
    using assms(2) by (simp add: mirrored_def addAddresses_def Let_def S_def)
  ultimately show ?thesis using assms(2) new by (simp add: mirrored_def getlines_append file_members_append whole_lines_append)
qed

lemma mirrored_remove:
  assumes "trim_spec (ae_trim ae)" and "order_spec (ae_order ae)" and "mirrored ae (lf, d)"
  shows "mirrored ae (fst (removeAddresses ae strs g (lf, d)))"
proof (cases "fmlookup (lf_addresses lf) g")
  case None
  then show ?thesis using assms(3) by (simp add: removeAddresses_def mirrored_def Let_def)
next
  case (Some found)
  define addrs where "addrs = fmupd g (found |-| fset_of_list (map (lf_processAddr lf) strs)) (lf_addresses lf)"
  have sub: "members addrs \<subseteq> members (lf_addresses lf)" using Some by (auto simp: members_def addrs_def group_of_def split: if_splits)
  have ord: "set (ae_order ae S) = fset S" for S using assms(2) by (simp add: order_spec_def)
  have "\<forall>h\<in>set (ae_order ae (fmdom addrs)). \<forall>a\<in>set (ae_order ae (group_of addrs h)). plain_entry (ae_trim ae) a h"
    using sub mirrored_plain [OF assms(1,3)] by (auto simp: ord members_def)
  note written = file_members_groups [OF this]
  have "(SIGMA h:set (ae_order ae (fmdom addrs)). set (ae_order ae (group_of addrs h))) = members addrs"
    by (auto simp: ord members_def group_of_def fmlookup_dom_iff split: option.splits)
  moreover have "mirrored ae (fst (removeAddresses ae strs g (lf, d))) \<longleftrightarrow>
      mirrored ae (lf\<lparr>lf_addresses := addrs\<rparr>,
        fmupd (lf_addressesFile lf) (concat (map (\<lambda>h. addAddressesToFile (ae_order ae (group_of addrs h)) h) (ae_order ae (fmdom addrs)))) d)"
    using assms(3) Some by (simp add: mirrored_def removeAddresses_def Let_def addrs_def)
  ultimately show ?thesis using assms(3) written by (simp add: mirrored_def)
qed

section \<open>Properties\<close>

text \<open>The life of the cache: loaded from the file, then additions and removals, whatever they return.\<close>

inductive address_run ::
    "addressEnv \<Rightarrow> (string \<Rightarrow> string) \<Rightarrow> string \<Rightarrow> disk \<Rightarrow> localCacheFile \<Rightarrow> localCacheFile \<times> disk \<Rightarrow> bool"
  for ae processAddr path d0 lf0 where
  start: "setAddressPathAndLoad ae d0 path processAddr setName lf0 = (lf, Ok ()) \<Longrightarrow> address_run ae processAddr path d0 lf0 (lf, d0)"
| add: "address_run ae processAddr path d0 lf0 st \<Longrightarrow> \<forall>s\<in>set strs. plain_entry (ae_trim ae) (processAddr s) g \<Longrightarrow>
    address_run ae processAddr path d0 lf0 (fst (addAddresses ae strs g st))"
| remove: "address_run ae processAddr path d0 lf0 st \<Longrightarrow> address_run ae processAddr path d0 lf0 (fst (removeAddresses ae strs g st))"

lemma processFile_fields:
  "lf_addressesFile (processFile ae d lf) = lf_addressesFile lf" "lf_processAddr (processFile ae d lf) = lf_processAddr lf"
  "members (lf_addresses (processFile ae d lf)) = members (lf_addresses lf) \<union> file_members (ae_trim ae) (getlines (file_content d (lf_addressesFile lf)))"
  using members_read [of "ae_trim ae" "getlines (file_content d (lf_addressesFile lf))" "{||}" "lf_addresses lf"]
  by (simp_all add: processFile_def file_content_def split_beta Let_def)

lemma loaded:
  assumes "setAddressPathAndLoad ae d path processAddr setName lf = (lf', Ok ())" and "path \<noteq> []" and "lf_addresses lf = fmempty"
  shows "lf_isInitialized lf' \<and> lf_isSetAddressesPath lf' \<and> lf_addressesFile lf' = path \<and> lf_processAddr lf' = processAddr \<and>
    members (lf_addresses lf') = file_members (ae_trim ae) (getlines (file_content d path))"
  using assms by (auto simp: setAddressPathAndLoad_def Let_def processFile_fields members_def [of fmempty] group_of_def [of fmempty] split: if_splits)

lemma address_run_mirrored:
  assumes "trim_spec (ae_trim ae)" and "order_spec (ae_order ae)" and "path \<noteq> []" and "lf_addresses lf0 = fmempty" and "whole_lines (file_content d0 path)"
    and "address_run ae processAddr path d0 lf0 st"
  shows "mirrored ae st \<and> lf_addressesFile (fst st) = path \<and> lf_processAddr (fst st) = processAddr"
  using assms(6)
proof (induction rule: address_run.induct)
  case (start setName lf)
  then show ?case using loaded [OF start assms(3,4)] assms(5) by (simp add: mirrored_def)
next
  case (add st strs g)
  obtain lf d where st: "st = (lf, d)" by (cases st)
  have "mirrored ae (fst (addAddresses ae strs g (lf, d)))" using mirrored_add [OF assms(2), of lf d strs g] add by (simp add: st)
  then show ?case using add by (auto simp: st addAddresses_def Let_def)
next
  case (remove st strs g)
  obtain lf d where st: "st = (lf, d)" by (cases st)
  have "mirrored ae (fst (removeAddresses ae strs g (lf, d)))" using mirrored_remove [OF assms(1,2), of lf d strs g] remove by (simp add: st)
  then show ?case using remove by (auto simp: st removeAddresses_def Let_def split: option.splits)
qed

lemma getAddresses_members:
  assumes "lf_isInitialized lf" and "lf_isSetAddressesPath lf" and "lf_isInitialized lf'" and "lf_isSetAddressesPath lf'"
    and "members (lf_addresses lf) = members (lf_addresses lf')"
  shows "getAddresses g lf = getAddresses g lf'"
proof -
  have "a |\<in>| group_of (lf_addresses lf) g \<longleftrightarrow> a |\<in>| group_of (lf_addresses lf') g" for a
    using assms(5) by (auto simp: members_def set_eq_iff)
  then have "group_of (lf_addresses lf) g = group_of (lf_addresses lf') g" by (intro fset_eqI)
  then show ?thesis using assms(1-4) by (auto simp: getAddresses_def group_of_def split: option.splits)
qed

text \<open>C11: The groups of addresses survive a restart. A cache is loaded from its file, addresses are added to groups and removed again in
  any order; then a new cache that is loaded from the file has exactly the addresses of the old one in every group. It is
  enough that the file ends with a line feed at the start, and that the added addresses contain no space and can be
  read back from a line; what was in the file before, however it was written, is kept.\<close>
theorem addresses_survive_restart:
  assumes "trim_spec (ae_trim ae)" and "order_spec (ae_order ae)" and "path \<noteq> []" and "whole_lines (file_content d0 path)"
    and "lf_addresses lf0 = fmempty" and "address_run ae processAddr path d0 lf0 (lf, d)"
    and "lf_addresses lf1 = fmempty" and "setAddressPathAndLoad ae d path processAddr' setName lf1 = (lf2, Ok ())"
  shows "getAddresses g lf2 = getAddresses g lf"
proof (rule getAddresses_members)
  have m: "mirrored ae (lf, d)" "lf_addressesFile lf = path" using address_run_mirrored [OF assms(1-3,5,4,6)] by simp_all
  note l = loaded [OF assms(8,3,7)]
  show "members (lf_addresses lf2) = members (lf_addresses lf)" using m l by (simp add: mirrored_def)
  show "lf_isInitialized lf2" "lf_isSetAddressesPath lf2" "lf_isInitialized lf" "lf_isSetAddressesPath lf" using m l by (simp_all add: mirrored_def)
qed

text \<open>A trimmer of spaces, and the walk in the order of the names.\<close>

definition trim_spaces :: "string \<Rightarrow> string" where
  "trim_spaces s = rev (dropWhile (\<lambda>c. c = CHR '' '') (rev (dropWhile (\<lambda>c. c = CHR '' '') s)))"

definition space_env :: addressEnv where
  "space_env = \<lparr>ae_trim = trim_spaces, ae_order = sorted_list_of_fset\<rparr>"

lemma trim_spaces_id: "s \<noteq> [] \<Longrightarrow> hd s \<noteq> CHR '' '' \<Longrightarrow> last s \<noteq> CHR '' '' \<Longrightarrow> trim_spaces s = s"
proof -
  assume s: "s \<noteq> []" "hd s \<noteq> CHR '' ''" "last s \<noteq> CHR '' ''"
  have "dropWhile (\<lambda>c. c = CHR '' '') t = t" if "hd t \<noteq> CHR '' ''" for t using that by (cases t) simp_all
  then show "trim_spaces s = s" using s by (simp add: trim_spaces_def hd_rev)
qed

lemma set_dropWhile_subset: "set (dropWhile P xs) \<subseteq> set xs"
  by (auto dest: set_dropWhileD)

lemma trim_spaces_spec: "trim_spec trim_spaces"
  unfolding trim_spec_def
proof (intro allI conjI impI)
  fix s
  let ?sp = "\<lambda>c. c = CHR '' ''" and ?d = "dropWhile (\<lambda>c. c = CHR '' '') s"
  show "set (trim_spaces s) \<subseteq> set s"
    unfolding trim_spaces_def set_rev by (rule order_trans [OF set_dropWhile_subset]) (simp add: set_dropWhile_subset)
  have ends: "hd (trim_spaces s) \<noteq> CHR '' ''" "last (trim_spaces s) \<noteq> CHR '' ''" if ne: "trim_spaces s \<noteq> []"
  proof -
    have "dropWhile ?sp (rev ?d) \<noteq> []" using ne by (simp add: trim_spaces_def)
    then have "hd (dropWhile ?sp (rev ?d)) \<noteq> CHR '' ''" by (rule hd_dropWhile)
    then show "last (trim_spaces s) \<noteq> CHR '' ''" by (simp add: trim_spaces_def last_rev)
    have "rev ?d = takeWhile ?sp (rev ?d) @ dropWhile ?sp (rev ?d)" by simp
    then have parts: "?d = trim_spaces s @ rev (takeWhile ?sp (rev ?d))" unfolding trim_spaces_def by (metis rev_append rev_rev_ident)
    have "hd ?d = hd (trim_spaces s)" by (subst parts, rule hd_append2 [OF ne])
    moreover have "?d \<noteq> []" using ne by (subst parts) simp
    ultimately show "hd (trim_spaces s) \<noteq> CHR '' ''" using hd_dropWhile [of ?sp s] by simp
  qed
  then show "hd (trim_spaces s) \<noteq> CHR '' ''" "last (trim_spaces s) \<noteq> CHR '' ''" if "trim_spaces s \<noteq> []" using that by blast+
  show "trim_spaces (trim_spaces s) = trim_spaces s"
  proof (cases "trim_spaces s = []")
    case True
    show ?thesis unfolding True by (simp add: trim_spaces_def)
  qed (use ends trim_spaces_id in blast)
qed

lemma space_env_spec: "trim_spec (ae_trim space_env)" "order_spec (ae_order space_env)"
  by (simp_all add: space_env_def trim_spaces_spec order_spec_def sorted_list_of_fset.rep_eq)

definition loaded_cache :: localCacheFile where
  "loaded_cache = setFunctions (\<lambda>_ _. []) 1 (LocalCache_new 10)"

theorem addresses_survive_restart_witness:
  "\<exists>lf d lf2. address_run space_env (\<lambda>s. s) ''f'' (fmupd ''f'' [CHR ''a'', CHR 0x0A] fmempty) loaded_cache (lf, d) \<and>
     file_content d ''f'' = [CHR ''a'', CHR 0x0A, CHR ''b'', CHR '' '', CHR ''g'', CHR 0x0A] \<and>
     setAddressPathAndLoad space_env d ''f'' (\<lambda>s. s) ''set'' loaded_cache = (lf2, Ok ()) \<and> (\<forall>g. getAddresses g lf2 = getAddresses g lf)"
proof -
  let ?d0 = "fmupd ''f'' [CHR ''a'', CHR 0x0A] fmempty :: disk"
  have fields: "lf_addresses loaded_cache = fmempty" "lf_addressesFile loaded_cache = []" "lf_isSetFunctions loaded_cache"
    by (simp_all add: loaded_cache_def setFunctions_def LocalCache_new_def)
  have load: "\<exists>lf. setAddressPathAndLoad space_env d ''f'' (\<lambda>s. s) ''set'' loaded_cache = (lf, Ok ())" for d
    using fields by (simp add: setAddressPathAndLoad_def Let_def)
  then obtain lf1 where lf1: "setAddressPathAndLoad space_env ?d0 ''f'' (\<lambda>s. s) ''set'' loaded_cache = (lf1, Ok ())" by blast
  note l = loaded [OF lf1 _ fields(1)]
  obtain lf d where add: "fst (addAddresses space_env [''b''] ''g'' (lf1, ?d0)) = (lf, d)" by fastforce
  have "plain_entry trim_spaces ''b'' ''g''" by (simp add: plain_entry_def address_line_def trim_spaces_id)
  then have run: "address_run space_env (\<lambda>s. s) ''f'' ?d0 loaded_cache (lf, d)"
    using address_run.add [OF address_run.start [OF lf1], of "[''b'']" "''g''"] add by (simp add: space_env_def)
  have "file_content d ''f'' = [CHR ''a'', CHR 0x0A, CHR ''b'', CHR '' '', CHR ''g'', CHR 0x0A]"
    using add l by (auto simp: addAddresses_def Let_def space_env_def addAddressesToFile_def address_line_def file_content_def sorted_list_of_fset.rep_eq)
  moreover obtain lf2 where lf2: "setAddressPathAndLoad space_env d ''f'' (\<lambda>s. s) ''set'' loaded_cache = (lf2, Ok ())" using load by blast
  moreover have "getAddresses g lf2 = getAddresses g lf" for g
    by (rule addresses_survive_restart [OF space_env_spec _ _ fields(1) run fields(1) lf2]) (simp_all add: whole_lines_def file_content_def)
  ultimately show ?thesis using run by blast
qed

end
