(* ===== verification/Workers.thy ===== *)
theory Workers
  imports Sync BlockSources AddressFile NodeTests "HOL-Library.Sublist"
begin

text \<open>
  \<^verbatim>\<open>src/src/Workers/\<close>: the three threads that index the accepted blocks, and the part of \<^verbatim>\<open>SyncImpl.cpp\<close> that hands old blocks
  to them again after a start. A worker takes the blocks from its queue one by one; the queue of the common library keeps
  their order, so that a run of a worker is a fold over the blocks that were pushed. The body of the loop is one step; it
  catches every exception, logs it and goes on with the next block.
\<close>

section \<open>The caches of the node\<close>

record allCaches =
  ac_maxCountElementsBlockCache :: size_t
  ac_maxCountElementsTxsCache :: size_t
  ac_macLocalCacheElements :: size_t
  ac_blockDumpCache :: "string cache"
  ac_txsCache :: "transactionInfo cache"
  ac_txsStatusCache :: "transactionStatus cache"
  ac_localCache :: localCacheFile

definition AllCaches_new :: "size_t \<Rightarrow> size_t \<Rightarrow> size_t \<Rightarrow> allCaches" where
  "AllCaches_new maxBlock maxTxs maxLocal =
     \<lparr>ac_maxCountElementsBlockCache = maxBlock, ac_maxCountElementsTxsCache = maxTxs, ac_macLocalCacheElements = maxLocal,
      ac_blockDumpCache = Cache_new, ac_txsCache = Cache_new, ac_txsStatusCache = Cache_new,
      ac_localCache = LocalCache_new maxLocal\<rparr>"

section \<open>The loop of a worker\<close>

definition number_value :: "blockHeader \<Rightarrow> size_t res" where
  "number_value bh = (case bh_blockNumber bh of None \<Rightarrow> Err (StdException ''bad_optional_access'') | Some n \<Rightarrow> Ok n)"

fun worker_loop :: "('b \<Rightarrow> 's \<Rightarrow> 's \<times> unit res) \<Rightarrow> 'b list \<Rightarrow> 's \<Rightarrow> 's res" where
  "worker_loop handle [] s = Ok s"
| "worker_loop handle (b # bs) s =
     (case handle b s of
        (s, Inl Undefined) \<Rightarrow> Err Undefined
      | (s, _) \<Rightarrow> worker_loop handle bs s)"

section \<open>The main worker\<close>

record workerMain =
  wm_lastSavedBlock :: size_t
  wm_countVal :: size_t

definition WorkerMain_new :: "'s leveldb_ops \<Rightarrow> 's \<Rightarrow> workerMain res" where
  "WorkerMain_new ops db =
     rbind (findMainBlock ops db) (\<lambda>oldBlockMetadata.
     rbind (MainBlockInfo_deserialize oldBlockMetadata) (\<lambda>oldMetadata.
     Ok \<lparr>wm_lastSavedBlock = mbi_blockNumber oldMetadata, wm_countVal = mbi_countVal oldMetadata\<rparr>))"

definition checkAddressToSave :: "modules \<Rightarrow> string fset \<Rightarrow> transactionInfo \<Rightarrow> address \<Rightarrow> bool res" where
  "checkAddressToSave modules users tx addr =
     (if \<not> isSaveToBd tx then Ok False
      else if module_on modules MODULE_USERS then users_find users addr
      else Ok True)"

definition WorkerMain_handle ::
    "'s leveldb_ops \<Rightarrow> workerMain \<Rightarrow> blockInfo \<Rightarrow> 's \<times> allCaches \<Rightarrow> ('s \<times> allCaches) \<times> unit res" where
  "WorkerMain_handle ops wm bi st =
     (case st of (db, caches) \<Rightarrow>
      case rbind (number_value (bi_header bi)) (\<lambda>number.
           rbind (findMainBlock ops db) (\<lambda>oldBlockMetadata.
           rbind (MainBlockInfo_deserialize oldBlockMetadata) (\<lambda>oldMetadata. Ok (number, oldMetadata)))) of
        Inl e \<Rightarrow> ((db, caches), Err e)
      | Inr (number, oldMetadata) \<Rightarrow>
          let prevHash = mbi_blockHash oldMetadata
          in if number \<le> mbi_blockNumber oldMetadata then ((db, caches), Ok ())
             else if prevHash \<noteq> [] \<and> prevHash \<noteq> bh_prevHash (bi_header bi) then
               ((db, caches), Err (Exception (''Incorrect prev hash. Expected '' @ prevHash @ '', received '' @ bh_prevHash (bi_header bi))))
             else
               (case MainBlockInfo_serialize \<lparr>mbi_blockNumber = number, mbi_blockHash = bh_hash (bi_header bi), mbi_countVal = wm_countVal wm\<rparr> of
                  Inl e \<Rightarrow> ((db, caches), Err e)
                | Inr metadata \<Rightarrow>
                    (case addBatch ops (addMainBlock metadata (Batch_new True)) db of
                       (db, Inl e) \<Rightarrow> ((db, caches), Err e)
                     | (db, Inr _) \<Rightarrow>
                         let caches = caches\<lparr>ac_txsStatusCache :=
                               Cache_remove (to_string_u64 (number - ac_maxCountElementsTxsCache caches)) (ac_txsStatusCache caches)\<rparr>
                         in ((db, caches\<lparr>ac_localCache := LocalCache_setLastBlockNum number (ac_localCache caches)\<rparr>), Ok ()))))"

definition WorkerMain_process :: "workerMain \<Rightarrow> blockInfo \<Rightarrow> blockInfo list \<Rightarrow> blockInfo list res" where
  "WorkerMain_process wm bi queue =
     rbind (number_value (bi_header bi)) (\<lambda>number. Ok (if wm_lastSavedBlock wm < number then queue @ [bi] else queue))"

definition WorkerMain_getInitBlockNumber :: "workerMain \<Rightarrow> size_t option" where
  "WorkerMain_getInitBlockNumber wm = Some (wm_lastSavedBlock wm)"

text \<open>A whole block for a client, from the cache of dumps or from its file. \<open>None\<close>: the fuel of the reader did not last.\<close>

definition number_txs :: "blockInfo \<Rightarrow> blockInfo res" where
  "number_txs bi =
     (if bi_txs bi = [] then Ok bi
      else rbind (number_value (bi_header bi)) (\<lambda>number. Ok (bi\<lparr>bi_txs := map (\<lambda>tx. tx\<lparr>ti_blockNumber := number\<rparr>) (bi_txs bi)\<rparr>)))"

definition getFullBlock ::
    "nat \<Rightarrow> readEnv \<Rightarrow> size_t \<Rightarrow> modules \<Rightarrow> disk \<Rightarrow> allCaches \<Rightarrow> blockHeader \<Rightarrow> size_t \<Rightarrow> size_t \<Rightarrow> blockInfo res option" where
  "getFullBlock fuel env base modules d caches bh beginTx countTx =
     (if \<not> (module_on modules MODULE_BLOCK_RAW \<and> \<not> module_on modules MODULE_USERS) then
        Some (Err (Exception (''module '' @ MODULE_BLOCK_RAW_STR @ '' not set'')))
      else
        let bi = \<lparr>bi_header = bh, bi_txs = []\<rparr>
        in if bh_blockNumber bh = Some 0 then Some (Ok bi)
           else
             (case Cache_getValue (bh_hash bh) (ac_blockDumpCache caches) of
                None \<Rightarrow>
                  (case rbind (CHECK (fp_fileName (bh_filePos bh) \<noteq> []) ''Empty file name in block header'') (\<lambda>_.
                        openFile (fp_fileName (bh_filePos bh)) d) of
                     Inl e \<Rightarrow> Some (Err e)
                   | Inr content \<Rightarrow>
                       map_option (\<lambda>r. rbind r (\<lambda>(nextPos, bi, dump).
                           rbind (CHECK (nextPos \<noteq> fp_pos (bh_filePos bh)) ''Ups'') (\<lambda>_. number_txs bi)))
                         (readNextBlockInfo_file fuel env base content (fp_pos (bh_filePos bh)) bi [] False False beginTx countTx))
              | Some element \<Rightarrow>
                  map_option (\<lambda>r. rbind r number_txs)
                    (readNextBlockInfo fuel env base element base (base + size_of element) (fp_pos (bh_filePos bh)) bi True False
                       beginTx countTx)))"

section \<open>The worker of the caches\<close>

definition cache_txs :: "string \<Rightarrow> transactionInfo list \<Rightarrow> transactionInfo cache \<Rightarrow> transactionInfo cache" where
  "cache_txs attr txs c =
     fold (\<lambda>tx c. if isIntStatusNodeTest tx then c else if isSaveToBd tx then Cache_addValue (ti_hash tx) attr tx c else c) txs c"

definition WorkerCache_handle :: "blockInfo \<times> string \<Rightarrow> allCaches \<Rightarrow> allCaches \<times> unit res" where
  "WorkerCache_handle el caches =
     (case el of (bi, blockDump) \<Rightarrow>
      case number_value (bi_header bi) of
        Inl e \<Rightarrow> (caches, Err e)
      | Inr number \<Rightarrow>
          let attr = to_string_u64 number;
              caches = (if ac_maxCountElementsBlockCache caches \<noteq> 0 then
                caches\<lparr>ac_blockDumpCache := Cache_remove (to_string_u64 (number - ac_maxCountElementsBlockCache caches))
                  (Cache_addValue (bh_hash (bi_header bi)) attr blockDump (ac_blockDumpCache caches))\<rparr> else caches);
              caches = (if ac_maxCountElementsTxsCache caches \<noteq> 0 then
                caches\<lparr>ac_txsCache := Cache_remove (to_string_u64 (number - ac_maxCountElementsTxsCache caches))
                  (cache_txs attr (bi_txs bi) (ac_txsCache caches))\<rparr> else caches)
          in (caches, Ok ()))"

definition WorkerCache_process :: "blockInfo \<Rightarrow> string \<Rightarrow> (blockInfo \<times> string) list \<Rightarrow> (blockInfo \<times> string) list" where
  "WorkerCache_process bi dump queue = queue @ [(bi, dump)]"

definition WorkerCache_getInitBlockNumber :: "size_t option" where
  "WorkerCache_getInitBlockNumber = None"

section \<open>The worker of the node tests\<close>

definition WorkerNodeTest_new :: "'s leveldb_ops \<Rightarrow> 's \<Rightarrow> size_t res" where
  "WorkerNodeTest_new ops db =
     rbind (findNodeStatBlock ops db) (\<lambda>lastScriptBlockStr.
     rbind (NodeStatBlockInfo_deserialize lastScriptBlockStr) (\<lambda>lastScriptBlock. Ok (nsb_blockNumber lastScriptBlock)))"

text \<open>A transaction that registers a node: host and name.\<close>

definition node_registration :: "(string \<Rightarrow> json option) \<Rightarrow> string \<Rightarrow> (string \<times> string) option res" where
  "node_registration parse data =
     (if data = [] \<or> hd data \<noteq> CHR ''{'' \<or> last data \<noteq> CHR ''}'' then Ok None
      else
        case parse data of
          None \<Rightarrow> Ok None
        | Some doc \<Rightarrow>
            rbind (string_member doc ''method'') (\<lambda>method.
            if method \<noteq> Some ''mh-noderegistration'' then Ok None
            else
              rbind (object_member doc ''params'') (\<lambda>params.
              case params of
                None \<Rightarrow> Ok None
              | Some params \<Rightarrow>
                  rbind (string_member params ''host'') (\<lambda>host.
                  rbind (string_member params ''name'') (\<lambda>name.
                  case (host, name) of (Some host, Some name) \<Rightarrow> Ok (Some (host, name)) | _ \<Rightarrow> Ok None)))))"

fun register_nodes :: "(string \<Rightarrow> json option) \<Rightarrow> transactionInfo list \<Rightarrow> (string, string) fmap \<Rightarrow> (string, string) fmap res" where
  "register_nodes parse [] nodes = Ok nodes"
| "register_nodes parse (tx # txs) nodes =
     rbind (node_registration parse (ti_data tx)) (\<lambda>r.
     register_nodes parse txs (case r of None \<Rightarrow> nodes | Some (host, name) \<Rightarrow> fmupd host name nodes))"

definition WorkerNodeTest_handle :: "(string \<Rightarrow> json option) \<Rightarrow> 's leveldb_ops \<Rightarrow> blockInfo \<Rightarrow> 's \<Rightarrow> 's \<times> unit res" where
  "WorkerNodeTest_handle parse ops bi db =
     (case rbind (findNodeStatBlock ops db) (\<lambda>lastScriptBlockStr.
           rbind (NodeStatBlockInfo_deserialize lastScriptBlockStr) (\<lambda>lastScriptBlock.
           rbind (number_value (bi_header bi)) (\<lambda>number. Ok (number, lastScriptBlock)))) of
        Inl e \<Rightarrow> (db, Err e)
      | Inr (number, lastScriptBlock) \<Rightarrow>
          let prevHash = nsb_blockHash lastScriptBlock
          in if number \<le> nsb_blockNumber lastScriptBlock then (db, Ok ())
             else if prevHash \<noteq> [] \<and> prevHash \<noteq> bh_prevHash (bi_header bi) then
               (db, Err (Exception (''Incorrect prev hash. Expected '' @ prevHash @ '', received '' @ bh_prevHash (bi_header bi))))
             else
               (case rbind (findAllNodes ops db) (\<lambda>allNodesStr.
                     rbind (AllNodes_deserialize allNodesStr) (\<lambda>allNodes.
                     rbind (register_nodes parse (bi_txs bi) (an_nodes allNodes)) (\<lambda>nodes.
                     rbind (NodeStatBlockInfo_serialize \<lparr>nsb_blockNumber = number, nsb_blockHash = bh_hash (bi_header bi), nsb_countVal = 0\<rparr>) (\<lambda>stat.
                     Ok (addAllNodes (AllNodes_serialize \<lparr>an_nodes = nodes\<rparr>) (addNodeStatBlock stat (Batch_new False))))))) of
                  Inl e \<Rightarrow> (db, Err e)
                | Inr batchStates \<Rightarrow> addBatch ops batchStates db))"

definition WorkerNodeTest_process :: "blockInfo \<Rightarrow> blockInfo list \<Rightarrow> blockInfo list" where
  "WorkerNodeTest_process bi queue = queue @ [bi]"

definition WorkerNodeTest_getAllNodes :: "'s leveldb_ops \<Rightarrow> 's \<Rightarrow> (string, string) fmap res" where
  "WorkerNodeTest_getAllNodes ops db =
     rbind (findAllNodes ops db) (\<lambda>allNodesStr. rbind (AllNodes_deserialize allNodesStr) (\<lambda>allNodes. Ok (an_nodes allNodes)))"

section \<open>Old blocks for the workers\<close>

text \<open>The workers as \<open>SyncImpl::synchronize\<close> holds them: behind the interface of \<^verbatim>\<open>Worker.h\<close>. A push adds to the worker's queue; the
  dump is used by the cache worker only.\<close>

datatype worker = CacheWorker | MainWorker workerMain | NodeTestWorker size_t

definition getInitBlockNumber :: "worker \<Rightarrow> size_t option" where
  "getInitBlockNumber w =
     (case w of
        CacheWorker \<Rightarrow> WorkerCache_getInitBlockNumber
      | MainWorker wm \<Rightarrow> WorkerMain_getInitBlockNumber wm
      | NodeTestWorker n \<Rightarrow> Some n)"

definition worker_process :: "worker \<Rightarrow> blockInfo \<Rightarrow> string \<Rightarrow> (blockInfo \<times> string) list \<Rightarrow> (blockInfo \<times> string) list res" where
  "worker_process w bi dump queue =
     (case w of
        MainWorker wm \<Rightarrow> rbind (WorkerMain_process wm bi []) (\<lambda>pushed. Ok (queue @ map (\<lambda>b. (b, dump)) pushed))
      | _ \<Rightarrow> Ok (queue @ [(bi, dump)]))"

text \<open>\<open>std::min_element\<close> over the workers: one that has no number is never less.\<close>

definition init_less :: "worker \<Rightarrow> worker \<Rightarrow> bool" where
  "init_less a b =
     (case getInitBlockNumber a of
        None \<Rightarrow> False
      | Some x \<Rightarrow> (case getInitBlockNumber b of None \<Rightarrow> True | Some y \<Rightarrow> x < y))"

fun min_worker :: "worker list \<Rightarrow> worker option" where
  "min_worker [] = None"
| "min_worker (w # ws) = Some (foldl (\<lambda>m x. if init_less x m then x else m) w ws)"

text \<open>An old block is read from its file, or else from the source. \<open>leftover\<close> is what a read that failed has put into the
  block.\<close>

definition existing_block ::
    "sourceEnv \<Rightarrow> bool \<Rightarrow> disk \<Rightarrow> (blockHeader \<Rightarrow> blockInfo \<Rightarrow> 'w \<Rightarrow> ('w \<times> (blockInfo \<times> string) res) option) \<Rightarrow> (blockHeader \<Rightarrow> blockInfo) \<Rightarrow>
     blockHeader \<Rightarrow> 'w \<Rightarrow> ('w \<times> (blockInfo \<times> string) res) option" where
  "existing_block se isValidate d source leftover bh w =
     (case getExistingBlockS se isValidate d bh BlockInfo_default of
        None \<Rightarrow> None
      | Some (Inr b) \<Rightarrow> Some (w, Ok b)
      | Some (Inl Undefined) \<Rightarrow> Some (w, Err Undefined)
      | Some (Inl e) \<Rightarrow> source bh (leftover bh) w)"

fun push_workers ::
    "size_t \<Rightarrow> blockInfo \<Rightarrow> string \<Rightarrow> worker list \<Rightarrow> (blockInfo \<times> string) list list \<Rightarrow> (blockInfo \<times> string) list list \<times> unit res" where
  "push_workers blockNumber bi dump (w # ws) (q # qs) =
     (case if (case getInitBlockNumber w of None \<Rightarrow> False | Some n \<Rightarrow> n < blockNumber) then worker_process w bi dump q else Ok q of
        Inl e \<Rightarrow> (q # qs, Err e)
      | Inr q \<Rightarrow> (case push_workers blockNumber bi dump ws qs of (qs, r) \<Rightarrow> (q # qs, r)))"
| "push_workers blockNumber bi dump ws qs = (qs, Ok ())"

fun retry_loop ::
    "(blockHeader \<Rightarrow> 'w \<Rightarrow> ('w \<times> (blockInfo \<times> string) res) option) \<Rightarrow> modules \<Rightarrow> string fset \<Rightarrow> blockChain \<Rightarrow> worker list \<Rightarrow> nat \<Rightarrow> size_t \<Rightarrow>
     (blockInfo \<times> string) list list \<Rightarrow> 'w \<Rightarrow> ((blockInfo \<times> string) list list \<times> 'w \<times> unit res) option" where
  "retry_loop existing modules users bc ws 0 blockNumber qs w = Some (qs, w, Ok ())"
| "retry_loop existing modules users bc ws (Suc k) blockNumber qs w =
     (case existing (getBlock_number bc blockNumber) w of
        None \<Rightarrow> None
      | Some (w, Inl e) \<Rightarrow> Some (qs, w, Err e)
      | Some (w, Inr (bi, dump)) \<Rightarrow>
          (case filterTransactionsToSave modules users bi of
             Inl e \<Rightarrow> Some (qs, w, Err e)
           | Inr bi \<Rightarrow>
               (case push_workers blockNumber bi dump ws qs of
                  (qs, Inl e) \<Rightarrow> Some (qs, w, Err e)
                | (qs, Inr _) \<Rightarrow> retry_loop existing modules users bc ws k (blockNumber + 1) qs w)))"

text \<open>The loop runs while \<open>blockNumber <= countBlocks()\<close>, which does not change meanwhile.\<close>

definition retry_blocks ::
    "(blockHeader \<Rightarrow> 'w \<Rightarrow> ('w \<times> (blockInfo \<times> string) res) option) \<Rightarrow> modules \<Rightarrow> string fset \<Rightarrow> blockChain \<Rightarrow> worker list \<Rightarrow>
     (blockInfo \<times> string) list list \<Rightarrow> 'w \<Rightarrow> ((blockInfo \<times> string) list list \<times> 'w \<times> unit res) option" where
  "retry_blocks existing modules users bc ws qs w =
     (case min_worker ws of
        None \<Rightarrow> Some (qs, w, Ok ())
      | Some m \<Rightarrow>
          (case getInitBlockNumber m of
             None \<Rightarrow> Some (qs, w, Ok ())
           | Some n \<Rightarrow>
               let fromBlockNumber = n + 1
               in retry_loop existing modules users bc ws (Suc (unat (countBlocks bc)) - unat fromBlockNumber) fromBlockNumber qs w))"

section \<open>Workers that can be started again\<close>

text \<open>A worker records the number and the hash of the last block it has indexed. Blocks it has seen are passed over; a block
  behind the record is either indexed, and then it follows the recorded one and is recorded, or it changes nothing.\<close>

definition short_hash :: "blockInfo \<Rightarrow> bool" where
  "short_hash b \<longleftrightarrow> length (bh_hash (bi_header b)) < 2 ^ 63"

fun linked_from :: "size_t \<Rightarrow> string \<Rightarrow> blockInfo list \<Rightarrow> bool" where
  "linked_from p h [] \<longleftrightarrow> True"
| "linked_from p h (b # bs) \<longleftrightarrow>
     (case bh_blockNumber (bi_header b) of
        None \<Rightarrow> False
      | Some n \<Rightarrow> p < n \<and> (h = [] \<or> h = bh_prevHash (bi_header b)) \<and> linked_from n (bh_hash (bi_header b)) bs)"

fun last_record :: "size_t \<Rightarrow> string \<Rightarrow> blockInfo list \<Rightarrow> size_t \<times> string" where
  "last_record p h [] = (p, h)"
| "last_record p h (b # bs) = last_record (case bh_blockNumber (bi_header b) of None \<Rightarrow> p | Some n \<Rightarrow> n) (bh_hash (bi_header b)) bs"

locale resumable_worker =
  fixes progress :: "'s \<Rightarrow> (size_t \<times> string) option"
    and handle :: "blockInfo \<Rightarrow> 's \<Rightarrow> 's \<times> unit res"
  assumes skipped: "progress s = Some (p, h) \<Longrightarrow> bh_blockNumber (bi_header b) = Some n \<Longrightarrow> n \<le> p \<Longrightarrow> handle b s = (s, Ok ())"
    and unnumbered: "progress s = Some (p, h) \<Longrightarrow> bh_blockNumber (bi_header b) = None \<Longrightarrow> \<exists>e. handle b s = (s, Err e)"
    and indexed: "progress s = Some (p, h) \<Longrightarrow> bh_blockNumber (bi_header b) = Some n \<Longrightarrow> p < n \<Longrightarrow> short_hash b \<Longrightarrow>
      handle b s = (s', r) \<Longrightarrow> (r = Ok () \<and> (h = [] \<or> h = bh_prevHash (bi_header b)) \<and> progress s' = Some (n, bh_hash (bi_header b))) \<or>
        (\<exists>e. r = Err e) \<and> s' = s"
begin

lemma replay_skipped:
  assumes "progress s = Some (p, h)" and "\<forall>b\<in>set old. \<exists>n. bh_blockNumber (bi_header b) = Some n \<and> n \<le> p"
  shows "worker_loop handle (old @ bs) s = worker_loop handle bs s"
  using assms(2)
proof (induction old)
  case (Cons b old)
  then obtain n where "bh_blockNumber (bi_header b) = Some n" "n \<le> p" by auto
  from skipped [OF assms(1) this] Cons show ?case by simp
qed simp

lemma indexes_chain:
  assumes "progress s = Some (p, h)" and "\<forall>b\<in>set bs. short_hash b" and "worker_loop handle bs s = Ok s'"
  shows "\<exists>cs. subseq cs bs \<and> linked_from p h cs \<and> worker_loop handle cs s = Ok s' \<and> progress s' = Some (last_record p h cs)"
  using assms
proof (induction bs arbitrary: s p h)
  case Nil
  then show ?case by (intro exI [of _ "[]"]) simp
next
  case (Cons b bs)
  obtain s1 r where st: "handle b s = (s1, r)" by fastforce
  have rest: "worker_loop handle bs s1 = Ok s'" using Cons.prems(3) st by (auto split: sum.splits error.splits)
  show ?case
  proof (cases "s1 = s")
    case True
    then obtain cs where "subseq cs bs \<and> linked_from p h cs \<and> worker_loop handle cs s = Ok s' \<and> progress s' = Some (last_record p h cs)"
      using Cons.IH [OF Cons.prems(1)] Cons.prems(2) rest by auto
    then show ?thesis by (intro exI [of _ cs]) (auto intro: subseq_Cons')
  next
    case False
    then obtain n where n: "bh_blockNumber (bi_header b) = Some n"
      using unnumbered [OF Cons.prems(1), of b] st by (cases "bh_blockNumber (bi_header b)") auto
    have "p < n" using skipped [OF Cons.prems(1) n] st False by (cases "n \<le> p") auto
    with indexed [OF Cons.prems(1) n _ _ st] Cons.prems(2) False
    have i: "r = Ok ()" "h = [] \<or> h = bh_prevHash (bi_header b)" "progress s1 = Some (n, bh_hash (bi_header b))" by auto
    obtain cs where "subseq cs bs \<and> linked_from n (bh_hash (bi_header b)) cs \<and> worker_loop handle cs s1 = Ok s' \<and>
        progress s' = Some (last_record n (bh_hash (bi_header b)) cs)"
      using Cons.IH [OF i(3) _ rest] Cons.prems(2) by auto
    with i n st \<open>p < n\<close> show ?thesis by (intro exI [of _ "b # cs"]) auto
  qed
qed

end

subsection \<open>The database\<close>

definition db_works :: "'s leveldb_ops \<Rightarrow> bool" where
  "db_works ops \<longleftrightarrow> (\<exists>view. leveldb_spec ops view) \<and> (\<forall>db b. snd (ldb_write ops db b) = None)"

lemma db_works_batch:
  assumes "db_works ops"
  obtains db' view where "leveldb_spec ops view" and "addBatch ops b db = (db', Ok ())"
    and "view db' = fold apply_op (batch_ops b) (view db)"
proof -
  obtain view where v: "leveldb_spec ops view" and w: "snd (ldb_write ops db (batch_ops b)) = None"
    using assms unfolding db_works_def by blast
  obtain db' where db': "addBatch ops b db = (db', Ok ())"
    using w by (auto simp: addBatch_def LevelDb_addBatch_def check_status_def split: option.split)
  show thesis by (rule that [OF v db' addBatch_ok [OF v db']])
qed

lemma db_works_reads: "db_works ops \<Longrightarrow> \<exists>v. findOneValueWithoutCheck ops db k = Ok v"
  unfolding db_works_def by (auto simp: findOneValueWithoutCheck_eq)

subsection \<open>The main worker\<close>

definition main_progress :: "'s leveldb_ops \<Rightarrow> 's \<times> allCaches \<Rightarrow> (size_t \<times> string) option" where
  "main_progress ops st =
     (if db_works ops then
        case rbind (findMainBlock ops (fst st)) MainBlockInfo_deserialize of
          Inl _ \<Rightarrow> None
        | Inr m \<Rightarrow> Some (mbi_blockNumber m, mbi_blockHash m)
      else None)"

lemma main_progress_Some:
  assumes "main_progress ops st = Some (p, h)"
  obtains c raw where "db_works ops" and "findMainBlock ops (fst st) = Ok raw"
    and "MainBlockInfo_deserialize raw = Ok \<lparr>mbi_blockNumber = p, mbi_blockHash = h, mbi_countVal = c\<rparr>"
proof -
  obtain raw m where "db_works ops" "findMainBlock ops (fst st) = Ok raw" "MainBlockInfo_deserialize raw = Ok m"
    "mbi_blockNumber m = p" "mbi_blockHash m = h"
    using assms by (auto simp: main_progress_def rbind_def split: if_splits sum.splits)
  moreover from this have "m = \<lparr>mbi_blockNumber = p, mbi_blockHash = h, mbi_countVal = mbi_countVal m\<rparr>" by simp
  ultimately show thesis using that by metis
qed

lemma main_handle_indexed:
  assumes "main_progress ops st = Some (p, h)" and "bh_blockNumber (bi_header b) = Some n" and "p < n" and "short_hash b"
    and "h = [] \<or> h = bh_prevHash (bi_header b)" and "bh_hash (bi_header b) \<noteq> []"
  shows "\<exists>st'. WorkerMain_handle ops wm b st = (st', Ok ()) \<and> main_progress ops st' = Some (n, bh_hash (bi_header b))"
proof -
  obtain c raw where w: "db_works ops" and f: "findMainBlock ops (fst st) = Ok raw"
    and raw: "MainBlockInfo_deserialize raw = Ok \<lparr>mbi_blockNumber = p, mbi_blockHash = h, mbi_countVal = c\<rparr>"
    by (rule main_progress_Some [OF assms(1)])
  let ?m = "\<lparr>mbi_blockNumber = n, mbi_blockHash = bh_hash (bi_header b), mbi_countVal = wm_countVal wm\<rparr>"
  define e where "e = serializeString (bh_hash (bi_header b)) @ serializeInt n @ serializeInt (wm_countVal wm)"
  have ser: "MainBlockInfo_serialize ?m = Ok e" using assms(6) by (simp add: MainBlockInfo_serialize_def e_def)
  have "length e < 2 ^ 64" using assms(4) by (simp add: e_def short_hash_def)
  then have again: "MainBlockInfo_deserialize e = Ok ?m" by (rule MainBlockInfo_deserialize_serialize [OF ser])
  obtain db' view where v: "leveldb_spec ops view" and db': "addBatch ops (addMainBlock e (Batch_new True)) (fst st) = (db', Ok ())"
    and view: "view db' = fold apply_op (batch_ops (addMainBlock e (Batch_new True))) (view (fst st))"
    by (rule db_works_batch [OF w])
  have "findMainBlock ops db' = Ok e"
    by (simp add: findMainBlock_def findOneValueWithoutCheck_eq [OF v] view addMainBlock_def Batch_new_def apply_op_def)
  then have "main_progress ops (db', cs) = Some (n, bh_hash (bi_header b))" for cs by (simp add: main_progress_def w again)
  then show ?thesis
    using assms(2,3,5) db' f raw ser by (cases st) (auto simp: WorkerMain_handle_def number_value_def Let_def not_le)
qed

lemma main_handle_kept:
  assumes "main_progress ops st = Some (p, h)"
  shows "bh_blockNumber (bi_header b) = Some n \<Longrightarrow> n \<le> p \<Longrightarrow> WorkerMain_handle ops wm b st = (st, Ok ())"
    and "bh_blockNumber (bi_header b) = None \<Longrightarrow> \<exists>e. WorkerMain_handle ops wm b st = (st, Err e)"
    and "bh_blockNumber (bi_header b) = Some n \<Longrightarrow> p < n \<Longrightarrow> \<not> (h = [] \<or> h = bh_prevHash (bi_header b)) \<Longrightarrow>
      \<exists>e. WorkerMain_handle ops wm b st = (st, Err (Exception e))"
    and "bh_blockNumber (bi_header b) = Some n \<Longrightarrow> p < n \<Longrightarrow> h = [] \<or> h = bh_prevHash (bi_header b) \<Longrightarrow> bh_hash (bi_header b) = [] \<Longrightarrow>
      \<exists>e. WorkerMain_handle ops wm b st = (st, Err (Exception e))"
proof -
  obtain c raw where w: "db_works ops" and f: "findMainBlock ops (fst st) = Ok raw"
    and raw: "MainBlockInfo_deserialize raw = Ok \<lparr>mbi_blockNumber = p, mbi_blockHash = h, mbi_countVal = c\<rparr>"
    by (rule main_progress_Some [OF assms])
  note d = WorkerMain_handle_def number_value_def Let_def MainBlockInfo_serialize_def
  show "bh_blockNumber (bi_header b) = Some n \<Longrightarrow> n \<le> p \<Longrightarrow> WorkerMain_handle ops wm b st = (st, Ok ())"
    using f raw by (cases st) (simp add: d)
  show "bh_blockNumber (bi_header b) = None \<Longrightarrow> \<exists>e. WorkerMain_handle ops wm b st = (st, Err e)"
    by (cases st) (simp add: d)
  show "bh_blockNumber (bi_header b) = Some n \<Longrightarrow> p < n \<Longrightarrow> \<not> (h = [] \<or> h = bh_prevHash (bi_header b)) \<Longrightarrow>
      \<exists>e. WorkerMain_handle ops wm b st = (st, Err (Exception e))"
    using f raw by (cases st) (simp add: d)
  show "bh_blockNumber (bi_header b) = Some n \<Longrightarrow> p < n \<Longrightarrow> h = [] \<or> h = bh_prevHash (bi_header b) \<Longrightarrow> bh_hash (bi_header b) = [] \<Longrightarrow>
      \<exists>e. WorkerMain_handle ops wm b st = (st, Err (Exception e))"
    using f raw by (cases st) (auto simp: d not_le)
qed

interpretation main_worker: resumable_worker "main_progress ops" "WorkerMain_handle ops wm"
proof
  fix s :: "'a \<times> allCaches" and p h b n s' r
  assume a: "main_progress ops s = Some (p, h)"
  show "bh_blockNumber (bi_header b) = Some n \<Longrightarrow> n \<le> p \<Longrightarrow> WorkerMain_handle ops wm b s = (s, Ok ())"
    and "bh_blockNumber (bi_header b) = None \<Longrightarrow> \<exists>e. WorkerMain_handle ops wm b s = (s, Err e)"
    by (rule main_handle_kept [OF a]; assumption)+
  assume b: "bh_blockNumber (bi_header b) = Some n" "p < n" "short_hash b" and st: "WorkerMain_handle ops wm b s = (s', r)"
  show "(r = Ok () \<and> (h = [] \<or> h = bh_prevHash (bi_header b)) \<and> main_progress ops s' = Some (n, bh_hash (bi_header b))) \<or> (\<exists>e. r = Err e) \<and> s' = s"
    using main_handle_kept(3,4) [OF a b(1,2), where wm = wm] main_handle_indexed [OF a b, where wm = wm] st
    by (cases "h = [] \<or> h = bh_prevHash (bi_header b)"; cases "bh_hash (bi_header b) = []") auto
qed

subsection \<open>The worker of the node tests\<close>

definition stat_progress :: "'s leveldb_ops \<Rightarrow> 's \<Rightarrow> (size_t \<times> string) option" where
  "stat_progress ops db =
     (if db_works ops then
        case rbind (findNodeStatBlock ops db) NodeStatBlockInfo_deserialize of
          Inl _ \<Rightarrow> None
        | Inr m \<Rightarrow> Some (nsb_blockNumber m, nsb_blockHash m)
      else None)"

lemma stat_progress_Some:
  assumes "stat_progress ops db = Some (p, h)"
  obtains c raw where "db_works ops" and "findNodeStatBlock ops db = Ok raw"
    and "NodeStatBlockInfo_deserialize raw = Ok \<lparr>nsb_blockNumber = p, nsb_blockHash = h, nsb_countVal = c\<rparr>"
proof -
  obtain raw m where "db_works ops" "findNodeStatBlock ops db = Ok raw" "NodeStatBlockInfo_deserialize raw = Ok m"
    "nsb_blockNumber m = p" "nsb_blockHash m = h"
    using assms by (auto simp: stat_progress_def rbind_def split: if_splits sum.splits)
  moreover from this have "m = \<lparr>nsb_blockNumber = p, nsb_blockHash = h, nsb_countVal = nsb_countVal m\<rparr>" by simp
  ultimately show thesis using that by metis
qed

lemma stat_deserialize:
  assumes "hash \<noteq> []" and "length hash < 2 ^ 63"
  obtains e where "NodeStatBlockInfo_serialize \<lparr>nsb_blockNumber = n, nsb_blockHash = hash, nsb_countVal = 0\<rparr> = Ok e"
    and "NodeStatBlockInfo_deserialize e = Ok \<lparr>nsb_blockNumber = n, nsb_blockHash = hash, nsb_countVal = 0\<rparr>"
proof -
  let ?m = "\<lparr>nsb_blockNumber = n, nsb_blockHash = hash, nsb_countVal = 0\<rparr>"
  let ?e = "serializeString hash @ serializeInt n @ serializeInt (0 :: size_t)"
  have e: "NodeStatBlockInfo_serialize ?m = Ok ?e" using assms(1) by (simp add: NodeStatBlockInfo_serialize_def)
  moreover have "NodeStatBlockInfo_deserialize ?e = Ok ?m"
    unfolding NodeStatBlockInfo_deserialize_def
    using encodes_NodeStatBlockInfo [OF e] assms(2) by (intro read_record_encodes) simp_all
  ultimately show thesis by (rule that)
qed

lemma node_handle_kept:
  assumes "stat_progress ops db = Some (p, h)"
  shows "bh_blockNumber (bi_header b) = Some n \<Longrightarrow> n \<le> p \<Longrightarrow> WorkerNodeTest_handle parse ops b db = (db, Ok ())"
    and "bh_blockNumber (bi_header b) = None \<Longrightarrow> \<exists>e. WorkerNodeTest_handle parse ops b db = (db, Err e)"
    and "bh_blockNumber (bi_header b) = Some n \<Longrightarrow> p < n \<Longrightarrow> \<not> (h = [] \<or> h = bh_prevHash (bi_header b)) \<Longrightarrow>
      \<exists>e. WorkerNodeTest_handle parse ops b db = (db, Err (Exception e))"
proof -
  obtain c raw where f: "findNodeStatBlock ops db = Ok raw"
    and raw: "NodeStatBlockInfo_deserialize raw = Ok \<lparr>nsb_blockNumber = p, nsb_blockHash = h, nsb_countVal = c\<rparr>"
    by (rule stat_progress_Some [OF assms])
  note d = WorkerNodeTest_handle_def number_value_def Let_def
  show "bh_blockNumber (bi_header b) = Some n \<Longrightarrow> n \<le> p \<Longrightarrow> WorkerNodeTest_handle parse ops b db = (db, Ok ())"
    and "bh_blockNumber (bi_header b) = None \<Longrightarrow> \<exists>e. WorkerNodeTest_handle parse ops b db = (db, Err e)"
    and "bh_blockNumber (bi_header b) = Some n \<Longrightarrow> p < n \<Longrightarrow> \<not> (h = [] \<or> h = bh_prevHash (bi_header b)) \<Longrightarrow>
      \<exists>e. WorkerNodeTest_handle parse ops b db = (db, Err (Exception e))"
    using f raw by (simp_all add: d)
qed

lemma node_handle_written:
  assumes "stat_progress ops db = Some (p, h)" and "bh_blockNumber (bi_header b) = Some n" and "p < n" and "short_hash b"
    and "h = [] \<or> h = bh_prevHash (bi_header b)" and "bh_hash (bi_header b) \<noteq> []"
    and "rbind (findAllNodes ops db) AllNodes_deserialize = Ok \<lparr>an_nodes = nodes\<rparr>" and "register_nodes parse (bi_txs b) nodes = Ok nodes'"
  shows "\<exists>db'. WorkerNodeTest_handle parse ops b db = (db', Ok ()) \<and> stat_progress ops db' = Some (n, bh_hash (bi_header b)) \<and>
    findAllNodes ops db' = Ok (AllNodes_serialize \<lparr>an_nodes = nodes'\<rparr>)"
proof -
  obtain c raw where w: "db_works ops" and f: "findNodeStatBlock ops db = Ok raw"
    and raw: "NodeStatBlockInfo_deserialize raw = Ok \<lparr>nsb_blockNumber = p, nsb_blockHash = h, nsb_countVal = c\<rparr>"
    by (rule stat_progress_Some [OF assms(1)])
  obtain e where e: "NodeStatBlockInfo_serialize \<lparr>nsb_blockNumber = n, nsb_blockHash = bh_hash (bi_header b), nsb_countVal = 0\<rparr> = Ok e"
    "NodeStatBlockInfo_deserialize e = Ok \<lparr>nsb_blockNumber = n, nsb_blockHash = bh_hash (bi_header b), nsb_countVal = 0\<rparr>"
    by (rule stat_deserialize [of "bh_hash (bi_header b)" n]) (use assms(4,6) in \<open>simp_all add: short_hash_def\<close>)
  obtain allNodesStr where all: "findAllNodes ops db = Ok allNodesStr" "AllNodes_deserialize allNodesStr = Ok \<lparr>an_nodes = nodes\<rparr>"
    using assms(7) by (auto simp: rbind_Ok_iff)
  let ?batch = "addAllNodes (AllNodes_serialize \<lparr>an_nodes = nodes'\<rparr>) (addNodeStatBlock e (Batch_new False))"
  obtain db' view where v: "leveldb_spec ops view" and db': "addBatch ops ?batch db = (db', Ok ())"
    and view: "view db' = fold apply_op (batch_ops ?batch) (view db)"
    by (rule db_works_batch [OF w])
  have vals: "findNodeStatBlock ops db' = Ok e" "findAllNodes ops db' = Ok (AllNodes_serialize \<lparr>an_nodes = nodes'\<rparr>)"
    by (simp_all add: findNodeStatBlock_def findAllNodes_def findOneValueWithoutCheck_eq [OF v] view addNodeStatBlock_def addAllNodes_def
        Batch_new_def apply_op_def NODE_STAT_BLOCK_NUMBER_PREFIX_def NODES_STATS_ALL_def)
  moreover have "WorkerNodeTest_handle parse ops b db = (db', Ok ())"
    using assms(2,3,5,8) db' f raw e(1) all by (auto simp: WorkerNodeTest_handle_def number_value_def Let_def not_le)
  ultimately show ?thesis by (simp add: stat_progress_def w e(2))
qed

text \<open>Either the block is written or nothing is.\<close>

lemma node_handle_cases:
  assumes "stat_progress ops db = Some (p, h)" and "bh_blockNumber (bi_header b) = Some n" and "p < n" and "short_hash b"
    and "WorkerNodeTest_handle parse ops b db = (db', r)"
  shows "(\<exists>nodes nodes'. r = Ok () \<and> (h = [] \<or> h = bh_prevHash (bi_header b)) \<and> stat_progress ops db' = Some (n, bh_hash (bi_header b)) \<and>
      rbind (findAllNodes ops db) AllNodes_deserialize = Ok \<lparr>an_nodes = nodes\<rparr> \<and> register_nodes parse (bi_txs b) nodes = Ok nodes' \<and>
      findAllNodes ops db' = Ok (AllNodes_serialize \<lparr>an_nodes = nodes'\<rparr>)) \<or> (\<exists>e. r = Err e) \<and> db' = db"
proof (cases "h = [] \<or> h = bh_prevHash (bi_header b)")
  case False
  then show ?thesis using node_handle_kept(3) [OF assms(1-3), where parse = parse] assms(5) by auto
next
  case True
  obtain c raw where f: "findNodeStatBlock ops db = Ok raw"
    and raw: "NodeStatBlockInfo_deserialize raw = Ok \<lparr>nsb_blockNumber = p, nsb_blockHash = h, nsb_countVal = c\<rparr>"
    by (rule stat_progress_Some [OF assms(1)])
  note d = WorkerNodeTest_handle_def number_value_def Let_def
  show ?thesis
  proof (cases "\<exists>nodes nodes'. rbind (findAllNodes ops db) AllNodes_deserialize = Ok \<lparr>an_nodes = nodes\<rparr> \<and>
      register_nodes parse (bi_txs b) nodes = Ok nodes' \<and> bh_hash (bi_header b) \<noteq> []")
    case True
    then obtain nodes nodes' where a: "rbind (findAllNodes ops db) AllNodes_deserialize = Ok \<lparr>an_nodes = nodes\<rparr>"
      "register_nodes parse (bi_txs b) nodes = Ok nodes'" "bh_hash (bi_header b) \<noteq> []" by blast
    with node_handle_written [OF assms(1-4) \<open>h = [] \<or> h = bh_prevHash (bi_header b)\<close> a(3,1,2)] assms(5) True show ?thesis
      using \<open>h = [] \<or> h = bh_prevHash (bi_header b)\<close> by auto
  next
    case False
    have "\<exists>e. WorkerNodeTest_handle parse ops b db = (db, Err e)"
    proof (cases "rbind (findAllNodes ops db) AllNodes_deserialize")
      case (Inl e)
      then show ?thesis using True assms(2,3) f raw by (auto simp: d not_le rbind_def split: sum.splits)
    next
      case (Inr nodes)
      then show ?thesis
        using True False assms(2,3) f raw
        by (cases "register_nodes parse (bi_txs b) (an_nodes nodes)"; cases nodes)
          (auto simp: d not_le rbind_Ok_iff NodeStatBlockInfo_serialize_def)
    qed
    then show ?thesis using assms(5) by auto
  qed
qed

interpretation node_worker: resumable_worker "stat_progress ops" "WorkerNodeTest_handle parse ops"
proof
  fix s p h b n s' r
  assume a: "stat_progress ops s = Some (p, h)"
  show "bh_blockNumber (bi_header b) = Some n \<Longrightarrow> n \<le> p \<Longrightarrow> WorkerNodeTest_handle parse ops b s = (s, Ok ())"
    and "bh_blockNumber (bi_header b) = None \<Longrightarrow> \<exists>e. WorkerNodeTest_handle parse ops b s = (s, Err e)"
    by (rule node_handle_kept [OF a]; assumption)+
  assume "bh_blockNumber (bi_header b) = Some n" "p < n" "short_hash b" and "WorkerNodeTest_handle parse ops b s = (s', r)"
  then show "(r = Ok () \<and> (h = [] \<or> h = bh_prevHash (bi_header b)) \<and> stat_progress ops s' = Some (n, bh_hash (bi_header b))) \<or> (\<exists>e. r = Err e) \<and> s' = s"
    using node_handle_cases [OF a] by blast
qed

lemma register_nodes_append:
  "register_nodes parse (txs @ txs') nodes = rbind (register_nodes parse txs nodes) (register_nodes parse txs')"
  by (induction txs arbitrary: nodes) (simp_all add: rbind_rbind)

lemma getAllNodes_read:
  "WorkerNodeTest_getAllNodes ops db = Ok nodes \<longleftrightarrow> rbind (findAllNodes ops db) AllNodes_deserialize = Ok \<lparr>an_nodes = nodes\<rparr>"
proof -
  have "an_nodes m = nodes \<longleftrightarrow> m = \<lparr>an_nodes = nodes\<rparr>" for m :: allNodes by (cases m) simp
  then show ?thesis by (auto simp: WorkerNodeTest_getAllNodes_def rbind_Ok_iff)
qed

lemma getAllNodes_written:
  "findAllNodes ops db = Ok (AllNodes_serialize \<lparr>an_nodes = nodes\<rparr>) \<Longrightarrow> length (AllNodes_serialize \<lparr>an_nodes = nodes\<rparr>) < 2 ^ 64 \<Longrightarrow>
   WorkerNodeTest_getAllNodes ops db = Ok nodes"
  using read_record_encodes [OF encodes_AllNodes, of "\<lparr>an_nodes = nodes\<rparr>" "\<lparr>an_nodes = fmempty\<rparr>"]
  by (simp add: getAllNodes_read AllNodes_deserialize_def) (simp add: AllNodes_serialize_def)

text \<open>The registry after a run: the registrations of a chain of the blocks that were pushed.\<close>

lemma node_run_registry:
  assumes "stat_progress ops db = Some (p, h)" and "WorkerNodeTest_getAllNodes ops db = Ok nodes" and "\<forall>b\<in>set bs. short_hash b"
    and "worker_loop (WorkerNodeTest_handle parse ops) bs db = Ok db'"
    and "\<forall>cs nodes'. subseq cs bs \<longrightarrow> register_nodes parse (concat (map bi_txs cs)) nodes = Ok nodes' \<longrightarrow>
      length (AllNodes_serialize \<lparr>an_nodes = nodes'\<rparr>) < 2 ^ 64"
  shows "\<exists>cs nodes'. subseq cs bs \<and> linked_from p h cs \<and> stat_progress ops db' = Some (last_record p h cs) \<and>
    register_nodes parse (concat (map bi_txs cs)) nodes = Ok nodes' \<and> WorkerNodeTest_getAllNodes ops db' = Ok nodes'"
  using assms
proof (induction bs arbitrary: db p h nodes)
  case Nil
  then show ?case by (intro exI [of _ "[]"]) simp
next
  case (Cons b bs)
  obtain db1 r where st: "WorkerNodeTest_handle parse ops b db = (db1, r)" by fastforce
  have rest: "worker_loop (WorkerNodeTest_handle parse ops) bs db1 = Ok db'"
    using Cons.prems(4) st by (auto split: sum.splits error.splits)
  have small: "\<forall>b\<in>set bs. short_hash b" "short_hash b" using Cons.prems(3) by simp_all
  show ?case
  proof (cases "db1 = db")
    case True
    have "\<forall>cs nodes'. subseq cs bs \<longrightarrow> register_nodes parse (concat (map bi_txs cs)) nodes = Ok nodes' \<longrightarrow>
        length (AllNodes_serialize \<lparr>an_nodes = nodes'\<rparr>) < 2 ^ 64"
      using Cons.prems(5) by (auto intro: subseq_Cons')
    from Cons.IH [OF Cons.prems(1,2) small(1) _ this] rest True show ?thesis by (blast intro: subseq_Cons')
  next
    case False
    obtain n where n: "bh_blockNumber (bi_header b) = Some n"
      using node_worker.unnumbered [OF Cons.prems(1), of b parse] st False by (cases "bh_blockNumber (bi_header b)") auto
    have "p < n" using node_worker.skipped [OF Cons.prems(1) n, of parse] st False by (cases "n \<le> p") auto
    from node_handle_cases [OF Cons.prems(1) n this small(2) st] False obtain nodes1
      where i: "h = [] \<or> h = bh_prevHash (bi_header b)" "stat_progress ops db1 = Some (n, bh_hash (bi_header b))"
        "register_nodes parse (bi_txs b) nodes = Ok nodes1" "findAllNodes ops db1 = Ok (AllNodes_serialize \<lparr>an_nodes = nodes1\<rparr>)"
      using Cons.prems(2) unfolding getAllNodes_read by auto
    have "subseq [b] (b # bs)" by simp
    then have "length (AllNodes_serialize \<lparr>an_nodes = nodes1\<rparr>) < 2 ^ 64" using Cons.prems(5) i(3) by fastforce
    note g = getAllNodes_written [OF i(4) this]
    have "\<forall>cs nodes'. subseq cs bs \<longrightarrow> register_nodes parse (concat (map bi_txs cs)) nodes1 = Ok nodes' \<longrightarrow>
        length (AllNodes_serialize \<lparr>an_nodes = nodes'\<rparr>) < 2 ^ 64"
    proof (intro allI impI)
      fix cs nodes' assume "subseq cs bs" "register_nodes parse (concat (map bi_txs cs)) nodes1 = Ok nodes'"
      then show "length (AllNodes_serialize \<lparr>an_nodes = nodes'\<rparr>) < 2 ^ 64"
        using Cons.prems(5) [THEN spec, of "b # cs"] i(3) by (simp add: register_nodes_append)
    qed
    from Cons.IH [OF i(2) g small(1) rest this] obtain cs nodes' where "subseq cs bs" "linked_from n (bh_hash (bi_header b)) cs"
      "stat_progress ops db' = Some (last_record n (bh_hash (bi_header b)) cs)"
      "register_nodes parse (concat (map bi_txs cs)) nodes1 = Ok nodes'" "WorkerNodeTest_getAllNodes ops db' = Ok nodes'"
      by blast
    then show ?thesis using i(1,3) n \<open>p < n\<close> by (intro exI [of _ "b # cs"] exI [of _ nodes']) (simp add: register_nodes_append)
  qed
qed

text \<open>A worker that is given the next blocks of its chain indexes them all.\<close>

lemma main_run_complete:
  assumes "main_progress ops st = Some (p, h)" and "linked_from p h bs" and "\<forall>b\<in>set bs. short_hash b \<and> bh_hash (bi_header b) \<noteq> []"
  shows "\<exists>st'. worker_loop (WorkerMain_handle ops wm) bs st = Ok st' \<and> main_progress ops st' = Some (last_record p h bs)"
  using assms
proof (induction bs arbitrary: st p h)
  case (Cons b bs)
  then obtain n where n: "bh_blockNumber (bi_header b) = Some n" "p < n" "h = [] \<or> h = bh_prevHash (bi_header b)"
    "linked_from n (bh_hash (bi_header b)) bs"
    by (auto split: option.splits)
  obtain st1 where "WorkerMain_handle ops wm b st = (st1, Ok ())" "main_progress ops st1 = Some (n, bh_hash (bi_header b))"
    using main_handle_indexed [OF Cons.prems(1) n(1,2) _ n(3), of wm] Cons.prems(3) by auto
  then show ?case using Cons.IH [of st1 n] Cons.prems(3) n by simp
qed simp

section \<open>What a start hands out\<close>

lemma min_worker_member: "min_worker ws = Some m \<Longrightarrow> m \<in> set ws"
proof -
  have "foldl (\<lambda>m x. if init_less x m then x else m) v vs \<in> set (v # vs)" for v vs
    by (induction vs rule: rev_induct) auto
  then show "min_worker ws = Some m \<Longrightarrow> m \<in> set ws" by (cases ws) auto
qed

lemma unat_Suc_u64: "n \<noteq> - 1 \<Longrightarrow> unat (n + 1) = Suc (unat n)" for n :: u64
  using unatSuc [of n] by (simp add: add_eq_0_iff add.commute)

lemma init_least:
  assumes "min_worker ws = Some m" and "w \<in> set ws" and "getInitBlockNumber w = Some x"
  shows "\<exists>y. getInitBlockNumber m = Some y \<and> y \<le> x"
proof -
  define less where "less = (\<lambda>m x. if init_less x m then x else m)"
  have keep: "\<exists>y. getInitBlockNumber (less a b) = Some y \<and> y \<le> x"
    if "(\<exists>y. getInitBlockNumber a = Some y \<and> y \<le> x) \<or> (\<exists>y. getInitBlockNumber b = Some y \<and> y \<le> x)" for a b
    using that by (auto simp: less_def init_less_def split: option.splits)
  have fold_keep: "\<exists>y. getInitBlockNumber (foldl less a ws) = Some y \<and> y \<le> x"
    if "\<exists>y. getInitBlockNumber a = Some y \<and> y \<le> x" for a ws
    using that by (induction ws arbitrary: a) (simp_all add: keep)
  have fold_member: "\<exists>y. getInitBlockNumber (foldl less a ws) = Some y \<and> y \<le> x" if "w \<in> set ws" for a ws
    using that
  proof (induction ws arbitrary: a)
    case (Cons v vs)
    show ?case
    proof (cases "w = v")
      case True
      then show ?thesis using fold_keep [OF keep, of a v vs] assms(3) by simp
    next
      case False
      then show ?thesis using Cons by simp
    qed
  qed simp
  obtain v vs where "ws = v # vs" "m = foldl less v vs" using assms(1) by (cases ws) (auto simp: less_def)
  then show ?thesis using assms(2,3) fold_keep [of v vs] fold_member by auto
qed

lemma push_workers_numbered:
  assumes "bh_blockNumber (bi_header bi) = Some n" and "length qs = length ws"
  shows "push_workers n bi dump ws qs =
    (map2 (\<lambda>w q. case getInitBlockNumber w of Some m \<Rightarrow> if m < n then q @ [(bi, dump)] else q | None \<Rightarrow> q) ws qs, Ok ())"
  using assms(2)
proof (induction ws arbitrary: qs)
  case (Cons w ws)
  then obtain q qs' where "qs = q # qs'" "length qs' = length ws" by (cases qs) auto
  then show ?case
    using Cons.IH assms(1)
    by (auto simp: worker_process_def WorkerMain_process_def number_value_def getInitBlockNumber_def WorkerMain_getInitBlockNumber_def
        split: option.splits worker.splits)
qed simp

lemma filterTransactionsToSave_header:
  "filterTransactionsToSave modules users bi = Ok bi' \<Longrightarrow> bi_header bi' = bi_header bi"
  by (auto simp: filterTransactionsToSave_def rbind_Ok_iff)

definition keeps_number :: "(blockHeader \<Rightarrow> 'w \<Rightarrow> ('w \<times> (blockInfo \<times> string) res) option) \<Rightarrow> bool" where
  "keeps_number existing \<longleftrightarrow>
     (\<forall>bh w w' bi dump. existing bh w = Some (w', Ok (bi, dump)) \<longrightarrow> bh_blockNumber (bi_header bi) = bh_blockNumber bh)"

lemma retry_loop_Ok:
  assumes "chain_ok bc" and "keeps_number existing" and "retry_loop existing modules users bc ws k n qs w = Some (qs', w', Ok ())"
    and "unat n + k = Suc (unat (countBlocks bc))" and "length qs = length ws"
  shows "\<exists>bs. map (\<lambda>b. bh_blockNumber (bi_header (fst b))) bs = map (\<lambda>i. Some (of_nat i)) [unat n..<Suc (unat (countBlocks bc))] \<and>
    qs' = map2 (\<lambda>w q. q @ (case getInitBlockNumber w of None \<Rightarrow> [] | Some m \<Rightarrow> drop (Suc (unat m) - unat n) bs)) ws qs"
  using assms(3-5)
proof (induction k arbitrary: n qs w)
  case 0
  have "qs = map2 (\<lambda>w q. q @ (case getInitBlockNumber w of None \<Rightarrow> [] | Some m \<Rightarrow> drop (Suc (unat m) - unat n) [])) ws qs"
    by (rule nth_equalityI) (use 0 in \<open>simp_all split: option.split\<close>)
  then show ?case using 0 by (intro exI [of _ "[]"]) simp
next
  case (Suc k)
  have n: "n \<le> countBlocks bc" using Suc.prems(2) by (simp add: word_le_nat_alt)
  then obtain bh where bh: "getBlock_number bc n = bh" "bh_blockNumber bh = Some n"
    using getBlock_number_present [OF assms(1)] by metis
  obtain w1 bi0 dump bi where e: "existing bh w = Some (w1, Ok (bi0, dump))" and f: "filterTransactionsToSave modules users bi0 = Ok bi"
    using Suc.prems(1) bh(1) by (auto split: option.splits sum.splits prod.splits)
  have num: "bh_blockNumber (bi_header bi) = Some n"
    using assms(2) e bh(2) filterTransactionsToSave_header [OF f] unfolding keeps_number_def by metis
  define qs1 where "qs1 = map2 (\<lambda>w q. case getInitBlockNumber w of Some m \<Rightarrow> if m < n then q @ [(bi, dump)] else q | None \<Rightarrow> q) ws qs"
  have loop: "retry_loop existing modules users bc ws k (n + 1) qs1 w1 = Some (qs', w', Ok ())"
    using Suc.prems(1) by (simp add: bh(1) e f push_workers_numbered [OF num Suc.prems(3)] qs1_def)
  have "unat (countBlocks bc) < length (hashes bc)" "length (hashes bc) < 2 ^ 64"
    using chain_ok_count [OF assms(1), of "countBlocks bc"] assms(1) by (simp_all add: chain_ok_def)
  then have n1: "unat (n + 1) = Suc (unat n)" using Suc.prems(2) by (simp add: unat_word_ariths)
  obtain bs where bs: "map (\<lambda>b. bh_blockNumber (bi_header (fst b))) bs = map (\<lambda>i. Some (of_nat i)) [Suc (unat n)..<Suc (unat (countBlocks bc))]"
    "qs' = map2 (\<lambda>w q. q @ (case getInitBlockNumber w of None \<Rightarrow> [] | Some m \<Rightarrow> drop (Suc (unat m) - Suc (unat n)) bs)) ws qs1"
    using Suc.IH [OF loop, unfolded n1] Suc.prems(2,3) by (auto simp: qs1_def simp del: upt_Suc)
  have "q @ (case i of None \<Rightarrow> [] | Some m \<Rightarrow> drop (Suc (unat m) - unat n) ((bi, dump) # bs)) =
      (case i of Some m \<Rightarrow> if m < n then q @ [(bi, dump)] else q | None \<Rightarrow> q) @ (case i of None \<Rightarrow> [] | Some m \<Rightarrow> drop (Suc (unat m) - Suc (unat n)) bs)"
    for q i
    by (auto simp: word_less_nat_alt Suc_diff_le split: option.split)
  then have "qs' = map2 (\<lambda>w q. q @ (case getInitBlockNumber w of None \<Rightarrow> [] | Some m \<Rightarrow> drop (Suc (unat m) - unat n) ((bi, dump) # bs))) ws qs"
    unfolding bs(2) qs1_def by (intro nth_equalityI) (simp_all add: Suc.prems(3))
  then show ?case
    using bs(1) num Suc.prems(2) by (intro exI [of _ "(bi, dump) # bs"]) (simp add: upt_conv_Cons del: upt_Suc)
qed

lemma place_block_number [simp]: "bh_blockNumber (bi_header (place_block bh n bi)) = bh_blockNumber bh"
  by (simp add: place_block_def)

lemma getExistingBlockS_number:
  "getExistingBlockS se v d bh bi = Some (Ok (bi', dump)) \<Longrightarrow> bh_blockNumber (bi_header bi') = bh_blockNumber bh"
  by (auto simp: getExistingBlockS_def rbind_Ok_iff split: sum.splits option.splits if_splits)

lemma Network_getExistingBlock_number:
  "Network_getExistingBlock p2p se opt bh bi w = Some (w', Ok (bi', dump)) \<Longrightarrow> bh_blockNumber (bi_header bi') = bh_blockNumber bh"
  unfolding Network_getExistingBlock_def by (auto simp: rbind_Ok_iff split: option.splits prod.splits sum.splits list.splits if_splits)

text \<open>The source of a node: the network or its files.\<close>

definition block_source ::
    "'w p2p \<Rightarrow> sourceEnv \<Rightarrow> networkOptions option \<Rightarrow> bool \<Rightarrow> disk \<Rightarrow> blockHeader \<Rightarrow> blockInfo \<Rightarrow> 'w \<Rightarrow> ('w \<times> (blockInfo \<times> string) res) option" where
  "block_source p2p se net v d bh bi w =
     (case net of
        Some opt \<Rightarrow> Network_getExistingBlock p2p se opt bh bi w
      | None \<Rightarrow> map_option (Pair w) (File_getExistingBlock se v d bh bi))"

lemma existing_block_number: "keeps_number (existing_block se v d (block_source p2p se net v d) leftover)"
  unfolding keeps_number_def
proof (intro allI impI)
  fix bh w w' bi dump
  assume "existing_block se v d (block_source p2p se net v d) leftover bh w = Some (w', Ok (bi, dump))"
  then have "getExistingBlockS se v d bh BlockInfo_default = Some (Ok (bi, dump)) \<or>
      block_source p2p se net v d bh (leftover bh) w = Some (w', Ok (bi, dump))"
    by (auto simp: existing_block_def split: option.splits sum.splits error.splits)
  then show "bh_blockNumber (bi_header bi) = bh_blockNumber bh"
    using getExistingBlockS_number Network_getExistingBlock_number
    by (auto simp: block_source_def File_getExistingBlock_def split: option.splits)
qed

lemma retry_blocks_Ok:
  assumes "chain_ok bc" and "keeps_number existing" and "length qs = length ws" and "\<forall>w\<in>set ws. getInitBlockNumber w \<noteq> Some (- 1)"
    and "retry_blocks existing modules users bc ws qs world = Some (qs', world', Ok ())"
  shows "\<exists>start blocks. map (\<lambda>b. bh_blockNumber (bi_header (fst b))) blocks = map (\<lambda>i. Some (of_nat i)) [start..<Suc (unat (countBlocks bc))] \<and>
    qs' = map2 (\<lambda>w q. q @ (case getInitBlockNumber w of None \<Rightarrow> [] | Some m \<Rightarrow> drop (Suc (unat m) - start) blocks)) ws qs \<and>
    (\<forall>w\<in>set ws. \<forall>m. getInitBlockNumber w = Some m \<longrightarrow> start \<le> Suc (unat m))"
proof -
  have same: "map2 (\<lambda>w q. q @ (case getInitBlockNumber w of None \<Rightarrow> [] | Some m \<Rightarrow> drop (j m) [])) ws qs = qs" for j :: "size_t \<Rightarrow> nat"
    by (rule nth_equalityI) (use assms(3) in \<open>simp_all split: option.split\<close>)
  show ?thesis
  proof (cases "\<exists>m n. min_worker ws = Some m \<and> getInitBlockNumber m = Some n")
    case False
    have "getInitBlockNumber w = None" if member: "w \<in> set ws" for w
    proof (rule ccontr)
      assume "getInitBlockNumber w \<noteq> None"
      then obtain x where "getInitBlockNumber w = Some x" by blast
      moreover obtain m where "min_worker ws = Some m" using member by (cases ws) auto
      ultimately show False using init_least [of ws m w x] member False by blast
    qed
    moreover have "qs' = qs" using assms(5) False by (auto simp: retry_blocks_def split: option.splits)
    ultimately show ?thesis using same by (intro exI [of _ "Suc (unat (countBlocks bc))"] exI [of _ "[]"]) simp
  next
    case True
    then obtain m n where m: "min_worker ws = Some m" "getInitBlockNumber m = Some n" by blast
    have "n \<noteq> - 1" using min_worker_member [OF m(1)] assms(4) m(2) by blast
    then have n: "unat (n + 1) = Suc (unat n)" by (rule unat_Suc_u64)
    have loop: "retry_loop existing modules users bc ws (Suc (unat (countBlocks bc)) - Suc (unat n)) (n + 1) qs world = Some (qs', world', Ok ())"
      using assms(5) m n by (simp add: retry_blocks_def)
    have least: "\<forall>w\<in>set ws. \<forall>k. getInitBlockNumber w = Some k \<longrightarrow> Suc (unat n) \<le> Suc (unat k)"
      using init_least [OF m(1)] m(2) by (fastforce simp: word_le_nat_alt)
    show ?thesis
    proof (cases "unat n \<le> unat (countBlocks bc)")
      case True
      then show ?thesis
        using retry_loop_Ok [OF assms(1,2) loop _ assms(3), unfolded n] least by (intro exI [of _ "Suc (unat n)"]) auto
    next
      case False
      then have "qs' = qs" using loop by simp
      then show ?thesis using False least same by (intro exI [of _ "Suc (unat n)"] exI [of _ "[]"]) simp
    qed
  qed
qed

section \<open>The window of the cached dumps\<close>

text \<open>The cache holds exactly the values \<open>lo\<close> to \<open>hi - 1\<close> of a sequence, each under its own attribute.\<close>

definition window :: "(nat \<Rightarrow> string) \<Rightarrow> (nat \<Rightarrow> string) \<Rightarrow> (nat \<Rightarrow> 'v) \<Rightarrow> nat \<Rightarrow> nat \<Rightarrow> 'v cache \<Rightarrow> bool" where
  "window attr key val lo hi c \<longleftrightarrow>
     (\<forall>a. attribute_keys a c = concat (map (\<lambda>i. if a = attr i then [key i] else []) [lo..<hi])) \<and>
     (\<forall>x. Cache_getValue x c = map_of (map (\<lambda>i. (key i, val i)) [lo..<hi]) x)"

lemma window_cong:
  assumes "\<forall>i<hi. key i = key' i \<and> val i = val' i"
  shows "window attr key val lo hi c \<longleftrightarrow> window attr key' val' lo hi c"
proof -
  have "map (\<lambda>i. if a = attr i then [key i] else []) [lo..<hi] = map (\<lambda>i. if a = attr i then [key' i] else []) [lo..<hi]"
    and "map (\<lambda>i. (key i, val i)) [lo..<hi] = map (\<lambda>i. (key' i, val' i)) [lo..<hi]" for a
    using assms by auto
  then show ?thesis by (simp only: window_def)
qed

lemma window_add:
  assumes "window attr key val lo k c" and "lo \<le> k"
  shows "window attr key val lo (Suc k) (Cache_addValue (key k) (attr k) (val k) c)"
  using assms by (auto simp: window_def attribute_keys_add getValue_add map_add_def split: option.splits)

lemma window_keys_empty:
  assumes "window attr key val lo hi c" and "\<forall>i. lo \<le> i \<and> i < hi \<longrightarrow> a \<noteq> attr i"
  shows "attribute_keys a c = []"
  using assms by (simp add: window_def)

lemma window_remove_other:
  assumes "window attr key val lo hi c" and "\<forall>i. lo \<le> i \<and> i < hi \<longrightarrow> a \<noteq> attr i"
  shows "window attr key val lo hi (Cache_remove a c)"
  using assms window_keys_empty [OF assms] by (auto simp: window_def attribute_keys_remove getValue_remove)

lemma window_remove_first:
  assumes "window attr key val lo hi c" and "lo < hi" and "inj_on attr {lo..<hi}" and "inj_on key {lo..<hi}"
  shows "window attr key val (Suc lo) hi (Cache_remove (attr lo) c)"
proof -
  have r: "[lo..<hi] = lo # [Suc lo..<hi]" using assms(2) by (rule upt_conv_Cons)
  have other: "attr lo \<noteq> attr i" "key lo \<noteq> key i" if "i \<in> {Suc lo..<hi}" for i
    using that assms(2-4) by (auto dest!: inj_onD [where x = lo and y = i])
  then have none: "concat (map (\<lambda>i. if attr lo = attr i then [key i] else []) [Suc lo..<hi]) = []" by auto
  then have keys: "attribute_keys (attr lo) c = [key lo]" using assms(1) by (simp add: window_def r)
  have "map_of (map (\<lambda>i. (key i, val i)) [Suc lo..<hi]) (key lo) = None" using other(2) by (fastforce simp: map_of_eq_None_iff)
  then show ?thesis
    using assms(1) none by (auto simp: window_def r attribute_keys_remove getValue_remove keys)
qed

lemma worker_loop_append: "worker_loop handle (bs @ cs) s = rbind (worker_loop handle bs s) (worker_loop handle cs)"
  by (induction bs arbitrary: s) (simp_all split: prod.split sum.split error.split)

lemma of_nat_offset:
  assumes "k < 2 ^ 64" and "i \<le> k"
  shows "(x :: u64) + of_nat k - m = x + of_nat i \<longleftrightarrow> k = i + unat m"
proof -
  have "x + of_nat k - m = x + of_nat i \<longleftrightarrow> of_nat (k - i) = m"
    using assms(2) by (auto simp: of_nat_diff algebra_simps)
  also have "\<dots> \<longleftrightarrow> k - i = unat m" using assms(1) by (auto simp: unat_of_nat_u64 word_unat_eq_iff)
  finally show ?thesis using assms(2) by auto
qed

lemma cache_worker_window:
  assumes "maxBlock \<noteq> 0" and "length bs < 2 ^ 64" and "distinct (map (\<lambda>b. bh_hash (bi_header (fst b))) bs)"
    and "\<forall>i<length bs. bh_blockNumber (bi_header (fst (bs ! i))) = Some (first + of_nat i)"
  shows "\<exists>c. worker_loop WorkerCache_handle bs (AllCaches_new maxBlock maxTxs maxLocal) = Ok c \<and> ac_maxCountElementsBlockCache c = maxBlock \<and>
    window (\<lambda>i. to_string_u64 (first + of_nat i)) (\<lambda>i. bh_hash (bi_header (fst (bs ! i)))) (\<lambda>i. snd (bs ! i))
      (length bs - unat maxBlock) (length bs) (ac_blockDumpCache c)"
  using assms(2-4)
proof (induction bs rule: rev_induct)
  case Nil
  then show ?case by (simp add: AllCaches_new_def Cache_new_def window_def attribute_keys_def Cache_getValue_def)
next
  case (snoc el bs)
  let ?attr = "\<lambda>i. to_string_u64 (first + of_nat i)" and ?key = "\<lambda>i. bh_hash (bi_header (fst ((bs @ [el]) ! i)))"
    and ?val = "\<lambda>i. snd ((bs @ [el]) ! i)" and ?k = "length bs" and ?N = "unat maxBlock"
  obtain b dump where el: "el = (b, dump)" by fastforce
  have "\<forall>i<length bs. bh_blockNumber (bi_header (fst (bs ! i))) = Some (first + of_nat i)"
  proof (intro allI impI)
    fix i assume "i < length bs"
    then show "bh_blockNumber (bi_header (fst (bs ! i))) = Some (first + of_nat i)"
      using snoc.prems(3) [rule_format, of i] by (simp add: nth_append)
  qed
  then obtain c where c: "worker_loop WorkerCache_handle bs (AllCaches_new maxBlock maxTxs maxLocal) = Ok c" "ac_maxCountElementsBlockCache c = maxBlock"
    and w0: "window ?attr (\<lambda>i. bh_hash (bi_header (fst (bs ! i)))) (\<lambda>i. snd (bs ! i)) (?k - ?N) ?k (ac_blockDumpCache c)"
    using snoc.IH snoc.prems(1,2) by auto
  have w: "window ?attr ?key ?val (?k - ?N) ?k (ac_blockDumpCache c)"
    by (rule iffD1 [OF window_cong w0]) (simp add: nth_append)
  have n: "bh_blockNumber (bi_header b) = Some (first + of_nat ?k)" using snoc.prems(3) [rule_format, of ?k] by (simp add: el)
  define added where "added = Cache_addValue (?key ?k) (?attr ?k) (?val ?k) (ac_blockDumpCache c)"
  have wa: "window ?attr ?key ?val (?k - ?N) (Suc ?k) added" unfolding added_def by (rule window_add [OF w]) simp
  have off: "?attr i = to_string_u64 (first + of_nat ?k - maxBlock) \<longleftrightarrow> ?k = i + ?N" if "i \<le> ?k" for i
    using of_nat_offset [OF _ that, of first maxBlock] snoc.prems(1) to_string_u64_inj by (metis length_append_singleton Suc_lessD)
  have removed: "window ?attr ?key ?val (Suc ?k - ?N) (Suc ?k) (Cache_remove (to_string_u64 (first + of_nat ?k - maxBlock)) added)"
  proof (cases "?N \<le> ?k")
    case True
    have "inj_on ?key {?k - ?N..<Suc ?k}"
    proof (rule inj_onI)
      fix i j assume "i \<in> {?k - ?N..<Suc ?k}" "j \<in> {?k - ?N..<Suc ?k}" "?key i = ?key j"
      then show "i = j"
        using nth_eq_iff_index_eq [OF snoc.prems(2), of i j] by (simp del: map_append)
    qed
    moreover have "inj_on ?attr {?k - ?N..<Suc ?k}"
    proof (rule inj_onI)
      fix i j assume "i \<in> {?k - ?N..<Suc ?k}" "j \<in> {?k - ?N..<Suc ?k}" "?attr i = ?attr j"
      then have "(of_nat i :: u64) = of_nat j" "i < 2 ^ 64" "j < 2 ^ 64" using snoc.prems(1) by (auto dest!: to_string_u64_inj)
      then show "i = j" by (simp add: of_nat_u64_inj)
    qed
    moreover have "?attr (?k - ?N) = to_string_u64 (first + of_nat ?k - maxBlock)" using off [of "?k - ?N"] True by simp
    ultimately show ?thesis using window_remove_first [OF wa] True by (simp add: Suc_diff_le)
  next
    case False
    then have "Suc ?k - ?N = ?k - ?N" by simp
    moreover have "window ?attr ?key ?val (?k - ?N) (Suc ?k) (Cache_remove (to_string_u64 (first + of_nat ?k - maxBlock)) added)"
    proof (rule window_remove_other [OF wa], intro allI impI)
      fix i assume "?k - ?N \<le> i \<and> i < Suc ?k"
      then show "to_string_u64 (first + of_nat ?k - maxBlock) \<noteq> ?attr i" using off [of i] False by auto
    qed
    ultimately show ?thesis by simp
  qed
  obtain c' where "WorkerCache_handle (b, dump) c = (c', Ok ())" "ac_maxCountElementsBlockCache c' = maxBlock"
    "ac_blockDumpCache c' = Cache_remove (to_string_u64 (first + of_nat ?k - maxBlock)) added"
    using n c(2) assms(1) by (simp add: WorkerCache_handle_def number_value_def Let_def added_def el)
  then show ?case using c(1) removed by (simp add: worker_loop_append el)
qed

section \<open>Properties\<close>

text \<open>A block without transactions, for examples.\<close>

definition numbered_block :: "size_t \<Rightarrow> string \<Rightarrow> string \<Rightarrow> blockInfo" where
  "numbered_block n hash parent =
     \<lparr>bi_header = BlockHeader_default\<lparr>bh_blockNumber := Some n, bh_hash := hash, bh_prevHash := parent\<rparr>, bi_txs = []\<rparr>"


definition old_header :: blockHeader where
  "old_header = BlockHeader_default\<lparr>bh_hash := ''a'', bh_prevHash := ''p'', bh_filePos := \<lparr>fp_pos = 0, fp_fileName = ''1.blk''\<rparr>\<rparr>"

definition old_chain :: blockChain where
  "old_chain = fst (addBlock BlockChain_new old_header)"

abbreviation old_disk :: disk where
  "old_disk \<equiv> save_blocks ''1.blk'' [demo_block] fmempty"

lemma old_chain_block: "getBlock_number old_chain 1 = old_header\<lparr>bh_blockNumber := Some 1\<rparr>" "countBlocks old_chain = 1"
  by code_simp+

lemma old_block_read:
  "\<exists>bi. getExistingBlockS demo_env True old_disk (old_header\<lparr>bh_blockNumber := Some 1\<rparr>) BlockInfo_default = Some (Ok (place_block (old_header\<lparr>bh_blockNumber := Some 1\<rparr>) 1 bi, demo_block))"
proof -
  have c: "fmlookup old_disk ''1.blk'' = Some (le_bytes 8 (length demo_block) @ demo_block)"
    using save_blocks_records [of "[demo_block]" "''1.blk''" fmempty] by (simp add: demo_length block_records_def)
  obtain bi where r: "readNextBlockInfo (se_fuel demo_env) (se_read demo_env) (se_base demo_env) demo_block (se_base demo_env)
      (se_base demo_env + size_of demo_block) 0 BlockInfo_default True False 0 0 = Some (Ok bi)"
    using demo_read [of BlockInfo_default 0 True False] by (auto simp: BlockInfo_default_def)
  have "readNextBlockInfo_file (se_fuel demo_env) (se_read demo_env) (se_base demo_env) (le_bytes 8 (length demo_block) @ demo_block) 0
      BlockInfo_default [] True False 0 0 = Some (Ok (89, bi, demo_block))"
    using readNextBlockInfo_file_at [of "le_bytes 8 (length demo_block) @ demo_block" "[]" demo_block "[]" "se_base demo_env" "se_fuel demo_env"
        "se_read demo_env" BlockInfo_default "[]" True False 0 0] r
    by (simp add: demo_length size_of_def) (simp add: demo_env_def)
  then show ?thesis by (intro exI [of _ bi]) (simp add: getExistingBlockS_def old_header_def openFile_def c)
qed


text \<open>C10: The registry of nodes is that of one chain. Whatever blocks reach the worker of the node tests, in whatever order,
  again or with gaps: if its database works, then in the end there is a selection of those blocks, in the order they came,
  that is linked by their parent hashes with growing numbers, such that the stored progress is its last block and the
  stored registry is exactly the one that the registrations in its transactions make. A block whose parent is not the last
  indexed one contributes nothing.\<close>

theorem node_registry_of_chain:
  assumes "db_works ops" and "findNodeStatBlock ops db = Ok []" and "findAllNodes ops db = Ok []" and "\<forall>b\<in>set bs. short_hash b"
    and "worker_loop (WorkerNodeTest_handle parse ops) bs db = Ok db'"
    and "\<forall>cs nodes. subseq cs bs \<longrightarrow> register_nodes parse (concat (map bi_txs cs)) fmempty = Ok nodes \<longrightarrow>
      length (AllNodes_serialize \<lparr>an_nodes = nodes\<rparr>) < 2 ^ 64"
  shows "\<exists>cs nodes. subseq cs bs \<and> linked_from 0 [] cs \<and> WorkerNodeTest_new ops db' = Ok (fst (last_record 0 [] cs)) \<and>
    register_nodes parse (concat (map bi_txs cs)) fmempty = Ok nodes \<and> WorkerNodeTest_getAllNodes ops db' = Ok nodes"
proof -
  have "stat_progress ops db = Some (0, [])"
    using assms(1,2) by (simp add: stat_progress_def NodeStatBlockInfo_deserialize_def read_record_def NodeStatBlockInfo_default_def)
  moreover have "WorkerNodeTest_getAllNodes ops db = Ok fmempty"
    using assms(3) by (simp add: WorkerNodeTest_getAllNodes_def AllNodes_deserialize_def read_record_def)
  ultimately obtain cs nodes where "subseq cs bs \<and> linked_from 0 [] cs \<and> register_nodes parse (concat (map bi_txs cs)) fmempty = Ok nodes \<and>
      WorkerNodeTest_getAllNodes ops db' = Ok nodes" and p: "stat_progress ops db' = Some (last_record 0 [] cs)"
    using node_run_registry [OF _ _ assms(4-6)] by blast
  moreover have "WorkerNodeTest_new ops db' = Ok (fst (last_record 0 [] cs))"
    using p by (cases "last_record 0 [] cs") (auto elim!: stat_progress_Some simp: WorkerNodeTest_new_def)
  ultimately show ?thesis by blast
qed

definition register_parse :: "string \<Rightarrow> json option" where
  "register_parse data =
     Some (JObject [(''method'', JString ''mh-noderegistration''), (''params'', JObject [(''host'', JString ''h''), (''name'', JString ''n'')])])"

definition registering_block :: blockInfo where
  "registering_block = (numbered_block 1 ''a'' [])\<lparr>bi_txs := [TransactionInfo_default\<lparr>ti_data := ''{}''\<rparr>]\<rparr>"

theorem node_registry_of_chain_witness:
  "\<exists>db'. worker_loop (WorkerNodeTest_handle register_parse map_leveldb) [registering_block] fmempty = Ok db' \<and>
     (WorkerNodeTest_getAllNodes map_leveldb db' = Ok (fmupd ''h'' ''n'' fmempty) \<or> WorkerNodeTest_getAllNodes map_leveldb db' = Ok fmempty)"
proof -
  have works: "db_works map_leveldb" unfolding db_works_def using map_leveldb_spec by (auto simp: map_leveldb_def)
  have empty: "findNodeStatBlock map_leveldb fmempty = Ok []" "findAllNodes map_leveldb fmempty = Ok []"
    by (simp_all add: findNodeStatBlock_def findAllNodes_def findOneValueWithoutCheck_eq [OF map_leveldb_spec])
  have reg: "register_nodes register_parse (bi_txs registering_block) fmempty = Ok (fmupd ''h'' ''n'' fmempty)" by code_simp
  have short: "short_hash registering_block" by (simp add: short_hash_def registering_block_def numbered_block_def)
  have "stat_progress map_leveldb fmempty = Some (0, [])"
    by (simp add: stat_progress_def works empty NodeStatBlockInfo_deserialize_def read_record_def NodeStatBlockInfo_default_def)
  from node_handle_written [OF this _ _ short _ _ _ reg, of 1] empty obtain db'
    where run: "worker_loop (WorkerNodeTest_handle register_parse map_leveldb) [registering_block] fmempty = Ok db'"
    by (auto simp: registering_block_def numbered_block_def AllNodes_deserialize_def read_record_def)
  have cases: "cs = [] \<or> cs = [registering_block]" if "subseq cs [registering_block]" for cs
    using that by (cases cs) (auto split: if_splits)
  have "length (AllNodes_serialize \<lparr>an_nodes = nodes\<rparr>) < 2 ^ 64" if "nodes \<in> {fmempty, fmupd ''h'' ''n'' fmempty}" for nodes
    using that by (auto simp: AllNodes_serialize_def entries_def serialize_node_def sorted_list_of_fset.rep_eq)
  then have "\<forall>cs nodes. subseq cs [registering_block] \<longrightarrow> register_nodes register_parse (concat (map bi_txs cs)) fmempty = Ok nodes \<longrightarrow>
      length (AllNodes_serialize \<lparr>an_nodes = nodes\<rparr>) < 2 ^ 64"
    using reg by (auto dest!: cases)
  from node_registry_of_chain [OF works empty _ run this] short obtain cs nodes where "subseq cs [registering_block]"
    "register_nodes register_parse (concat (map bi_txs cs)) fmempty = Ok nodes" "WorkerNodeTest_getAllNodes map_leveldb db' = Ok nodes"
    by auto
  then show ?thesis using run reg by (auto dest!: cases)
qed

text \<open>C12: A restarted main worker picks up where it stopped. If blocks it has indexed are pushed again, followed by the next
  blocks of the chain, its state is the same as if only the new ones had been pushed, all of them are indexed, and the
  worker that is created from the database at the next start begins behind the last of them.\<close>

theorem main_worker_resumes:
  assumes "db_works ops" and "WorkerMain_new ops db = Ok wm" and "rbind (findMainBlock ops db) MainBlockInfo_deserialize = Ok m"
    and "\<forall>b\<in>set old. \<exists>n. bh_blockNumber (bi_header b) = Some n \<and> n \<le> wm_lastSavedBlock wm"
    and "linked_from (wm_lastSavedBlock wm) (mbi_blockHash m) new" and "\<forall>b\<in>set new. short_hash b \<and> bh_hash (bi_header b) \<noteq> []"
  shows "\<exists>db' caches' wm'. worker_loop (WorkerMain_handle ops wm) (old @ new) (db, caches) = Ok (db', caches') \<and>
    worker_loop (WorkerMain_handle ops wm) new (db, caches) = Ok (db', caches') \<and>
    WorkerMain_new ops db' = Ok wm' \<and> wm_lastSavedBlock wm' = fst (last_record (wm_lastSavedBlock wm) (mbi_blockHash m) new)"
proof -
  have p: "main_progress ops (db, caches) = Some (wm_lastSavedBlock wm, mbi_blockHash m)"
    using assms(1-3) by (auto simp: main_progress_def WorkerMain_new_def rbind_Ok_iff)
  obtain st' where st': "worker_loop (WorkerMain_handle ops wm) new (db, caches) = Ok st'"
    "main_progress ops st' = Some (last_record (wm_lastSavedBlock wm) (mbi_blockHash m) new)"
    using main_run_complete [OF p assms(5,6)] by blast
  then have "\<exists>wm'. WorkerMain_new ops (fst st') = Ok wm' \<and> wm_lastSavedBlock wm' = fst (last_record (wm_lastSavedBlock wm) (mbi_blockHash m) new)"
    by (cases "last_record (wm_lastSavedBlock wm) (mbi_blockHash m) new") (auto elim!: main_progress_Some simp: WorkerMain_new_def)
  then show ?thesis using main_worker.replay_skipped [OF p assms(4), of wm new] st'(1) by (cases st') auto
qed

theorem main_worker_resumes_witness:
  "\<exists>db' caches' wm'. worker_loop (WorkerMain_handle map_leveldb \<lparr>wm_lastSavedBlock = 0, wm_countVal = 0\<rparr>)
      [numbered_block 0 ''g'' [], numbered_block 1 ''a'' ''g'', numbered_block 2 ''b'' ''a''] (fmempty, AllCaches_new 1 1 1) = Ok (db', caches') \<and>
    WorkerMain_new map_leveldb db' = Ok wm' \<and> wm_lastSavedBlock wm' = 2"
proof -
  have works: "db_works map_leveldb" unfolding db_works_def using map_leveldb_spec by (auto simp: map_leveldb_def)
  have f: "findMainBlock map_leveldb fmempty = Ok []" by (simp add: findMainBlock_def findOneValueWithoutCheck_eq [OF map_leveldb_spec])
  then have "WorkerMain_new map_leveldb fmempty = Ok \<lparr>wm_lastSavedBlock = 0, wm_countVal = 0\<rparr>"
    "rbind (findMainBlock map_leveldb fmempty) MainBlockInfo_deserialize = Ok MainBlockInfo_default"
    by (simp_all add: WorkerMain_new_def MainBlockInfo_deserialize_def MainBlockInfo_default_def)
  from main_worker_resumes [OF works this, of "[numbered_block 0 ''g'' []]" "[numbered_block 1 ''a'' ''g'', numbered_block 2 ''b'' ''a'']" "AllCaches_new 1 1 1"]
  show ?thesis by (auto simp: numbered_block_def MainBlockInfo_default_def short_hash_def)
qed

text \<open>C25: The node keeps the dumps of its latest blocks at hand, and no others. When the worker of the caches has taken
  consecutive blocks with distinct hashes, from any first number on, the cache of dumps holds exactly the last
  \<open>maxCountElementsBlockCache\<close> of them, each under its hash; the numbers of blocks that are removed are computed modulo $2^{64}$,
  which never hits a block that should stay.\<close>

theorem cached_dumps_window:
  assumes "maxBlock \<noteq> 0" and "length bs < 2 ^ 64" and "distinct (map (\<lambda>b. bh_hash (bi_header (fst b))) bs)"
    and "\<forall>i<length bs. bh_blockNumber (bi_header (fst (bs ! i))) = Some (first + of_nat i)"
  shows "\<exists>c. worker_loop WorkerCache_handle bs (AllCaches_new maxBlock maxTxs maxLocal) = Ok c \<and>
    (\<forall>x. Cache_getValue x (ac_blockDumpCache c) =
       map_of (map (\<lambda>b. (bh_hash (bi_header (fst b)), snd b)) (drop (length bs - unat maxBlock) bs)) x)"
proof -
  have "map (\<lambda>i. (bh_hash (bi_header (fst (bs ! i))), snd (bs ! i))) [m..<length bs] =
      map (\<lambda>b. (bh_hash (bi_header (fst b)), snd b)) (drop m bs)" for m
    by (rule nth_equalityI) simp_all
  then show ?thesis using cache_worker_window [OF assms, of maxTxs maxLocal] by (simp add: window_def) blast
qed

theorem cached_dumps_window_witness:
  "\<exists>c. worker_loop WorkerCache_handle [(numbered_block 1 ''a'' [], ''A''), (numbered_block 2 ''b'' ''a'', ''B'')] (AllCaches_new 1 0 0) = Ok c \<and>
     Cache_getValue ''a'' (ac_blockDumpCache c) = None \<and> Cache_getValue ''b'' (ac_blockDumpCache c) = Some ''B''"
  using cached_dumps_window [of 1 "[(numbered_block 1 ''a'' [], ''A''), (numbered_block 2 ''b'' ''a'', ''B'')]" 1 0 0]
  by (auto simp: numbered_block_def less_Suc_eq)

end
