(* ===== verification/SyncLoop.thy ===== *)
theory SyncLoop
  imports Workers
begin

text \<open>
  The thread of \<^verbatim>\<open>src/src/SyncImpl.cpp\<close> as a whole: \<open>SyncImpl::synchronize\<close> from the preparation to the endless loop, whose passes ask
  the source for blocks and take them until there are no more or something throws. What is thrown is logged and the next
  pass begins with the state that the failure has left. The two sources are behind the interface of
  \<^verbatim>\<open>BlockSource/BlockSource.h\<close>. The pauses between the passes are computed but take no time in the model.
\<close>

section \<open>A block source\<close>

datatype blockSource = Network_source networkSource | File_source fileSource

text \<open>\<open>sc_directory\<close> lists the folder of the block files.\<close>

record 'w sourceOptions =
  sc_p2p :: "'w p2p"
  sc_env :: sourceEnv
  sc_network :: networkOptions
  sc_folderPath :: string
  sc_isValidate :: bool
  sc_directory :: "disk \<Rightarrow> string list"

definition BlockSource_initialize :: "'s leveldb_ops \<Rightarrow> 's \<Rightarrow> blockSource \<Rightarrow> blockSource res" where
  "BlockSource_initialize ops db src =
     (case src of
        Network_source ns \<Rightarrow> Ok src
      | File_source fs \<Rightarrow> rbind (File_initialize ops db fs) (\<lambda>fs. Ok (File_source fs)))"

definition BlockSource_doProcess ::
    "'w sourceOptions \<Rightarrow> size_t \<Rightarrow> string \<Rightarrow> blockSource \<Rightarrow> 'w \<Rightarrow> blockSource \<times> 'w \<times> (bool \<times> size_t) res" where
  "BlockSource_doProcess so countNow lastBlockHash src w =
     (case src of
        Network_source ns \<Rightarrow>
          (case Network_doProcess (sc_p2p so) (sc_env so) countNow ns w of (ns, w, r) \<Rightarrow> (Network_source ns, w, r))
      | File_source fs \<Rightarrow> (src, w, Ok (File_doProcess countNow lastBlockHash)))"

definition BlockSource_process ::
    "'w sourceOptions \<Rightarrow> disk \<Rightarrow> blockSource \<Rightarrow> 'w \<Rightarrow> (blockSource \<times> 'w \<times> (blockInfo \<times> string) option res) option" where
  "BlockSource_process so d src w =
     (case src of
        Network_source ns \<Rightarrow>
          map_option (\<lambda>(ns, w, r). (Network_source ns, w, r)) (Network_process (sc_p2p so) (sc_env so) (sc_network so) ns w)
      | File_source fs \<Rightarrow>
          map_option (\<lambda>(fs, r). (File_source fs, w, r))
            (File_process (sc_env so) (sc_isValidate so) (sc_folderPath so) (sc_directory so d) d fs))"

section \<open>The loop\<close>

record ('s, 'w) syncState =
  ss_node :: "'s node"
  ss_source :: blockSource
  ss_world :: 'w
  ss_knownLastBlock :: size_t

fun inner_loop ::
    "nat \<Rightarrow> syncOptions \<Rightarrow> 's leveldb_ops \<Rightarrow> 'w sourceOptions \<Rightarrow> string fset \<Rightarrow> (blockInfo \<times> string) option \<Rightarrow> ('s, 'w) syncState \<Rightarrow>
     (('s, 'w) syncState \<times> unit res) option" where
  "inner_loop 0 opt ops so users prev st = None"
| "inner_loop (Suc fuel) opt ops so users prev st =
     (case BlockSource_process so (nd_disk (ss_node st)) (ss_source st) (ss_world st) of
        None \<Rightarrow> None
      | Some (src, w, r) \<Rightarrow>
          let st = st\<lparr>ss_source := src, ss_world := w\<rparr>
          in case r of
               Inl e \<Rightarrow> Some (st, Err e)
             | Inr None \<Rightarrow> Some (st, Ok ())
             | Inr (Some b) \<Rightarrow>
                 (case process_next opt ops users prev b (ss_node st) of
                    (nd, Inl e) \<Rightarrow> Some (st\<lparr>ss_node := nd\<rparr>, Err e)
                  | (nd, Inr prev) \<Rightarrow> inner_loop fuel opt ops so users prev (st\<lparr>ss_node := nd\<rparr>)))"

definition sync_pass ::
    "nat \<Rightarrow> syncOptions \<Rightarrow> 's leveldb_ops \<Rightarrow> 'w sourceOptions \<Rightarrow> string fset \<Rightarrow> ('s, 'w) syncState \<Rightarrow> (('s, 'w) syncState \<times> unit res) option" where
  "sync_pass fuel opt ops so users st =
     (case BlockSource_doProcess so (countBlocks (nd_chain (ss_node st))) (bh_hash (getLastBlock (nd_chain (ss_node st))))
             (ss_source st) (ss_world st) of
        (src, w, Inl e) \<Rightarrow> Some (st\<lparr>ss_source := src, ss_world := w\<rparr>, Err e)
      | (src, w, Inr (isContinue, knownLstBlk)) \<Rightarrow>
          let st = st\<lparr>ss_source := src, ss_world := w, ss_knownLastBlock := knownLstBlk\<rparr>
          in if isContinue then inner_loop fuel opt ops so users None st else Some (st, Ok ()))"

text \<open>What the handlers around a pass catch.\<close>

definition caught :: "error \<Rightarrow> bool" where
  "caught e = (case e of Exception _ \<Rightarrow> True | StdException _ \<Rightarrow> True | _ \<Rightarrow> False)"

text \<open>The first passes of the endless loop. It is left by what the handlers do not catch.\<close>

fun sync_passes ::
    "nat \<Rightarrow> syncOptions \<Rightarrow> 's leveldb_ops \<Rightarrow> 'w sourceOptions \<Rightarrow> string fset \<Rightarrow> nat \<Rightarrow> ('s, 'w) syncState \<Rightarrow>
     (('s, 'w) syncState \<times> unit res) option" where
  "sync_passes fuel opt ops so users 0 st = Some (st, Ok ())"
| "sync_passes fuel opt ops so users (Suc n) st =
     (case sync_pass fuel opt ops so users st of
        None \<Rightarrow> None
      | Some (st, Inl e) \<Rightarrow> if caught e then sync_passes fuel opt ops so users n st else Some (st, Err e)
      | Some (st, Inr _) \<Rightarrow> sync_passes fuel opt ops so users n st)"

text \<open>The pause behind a pass that took \<open>elapsed\<close> milliseconds.\<close>

definition pause_ms :: "int \<Rightarrow> int" where
  "pause_ms elapsed = (let pending = 500 - elapsed in if pending < 0 then 0 else pending)"

section \<open>The whole thread\<close>

definition sync_prepare ::
    "modules \<Rightarrow> 's leveldb_ops \<Rightarrow> blockChain \<Rightarrow> blockSource \<Rightarrow> 's \<Rightarrow> 's \<times> (blockChain \<times> blockSource) res" where
  "sync_prepare modules ops bc src db =
     (if \<not> module_on modules MODULE_BLOCK then (db, Err (Exception (''module '' @ MODULE_BLOCK_STR @ '' not set'')))
      else
        sbind (check_modules modules ops db) (\<lambda>_ db.
        sbind (check_version ops db) (\<lambda>_ db.
        (db, rbind (findBlockMetadata ops db) (\<lambda>blockMetadata.
             rbind (BlocksMetadata_deserialize blockMetadata) (\<lambda>metadata.
             rbind (BlockSource_initialize ops db src) (\<lambda>src.
             rbind (load_chain ops db metadata bc) (\<lambda>bc. Ok (bc, src)))))))))"

text \<open>The worker of the node tests has a database of its own.\<close>

definition make_workers :: "modules \<Rightarrow> 's leveldb_ops \<Rightarrow> 's \<Rightarrow> ('n leveldb_ops \<times> 'n) option \<Rightarrow> worker list res" where
  "make_workers modules ops db nodeTest =
     rbind (WorkerMain_new ops db) (\<lambda>mainWorker.
     if module_on modules MODULE_NODE_TEST then
       (case nodeTest of
          None \<Rightarrow> Err (Exception ''Leveldb node test options not setted'')
        | Some (ops, db) \<Rightarrow> rbind (WorkerNodeTest_new ops db) (\<lambda>n. Ok [CacheWorker, MainWorker mainWorker, NodeTestWorker n]))
     else Ok [CacheWorker, MainWorker mainWorker])"

text \<open>The queues of the workers are those after the old blocks; the blocks of the loop are added to all of them in \<open>nd_sent\<close>.\<close>

definition synchronize ::
    "nat \<Rightarrow> nat \<Rightarrow> bool \<Rightarrow> syncOptions \<Rightarrow> 's leveldb_ops \<Rightarrow> ('n leveldb_ops \<times> 'n) option \<Rightarrow> 'w sourceOptions \<Rightarrow> (blockHeader \<Rightarrow> blockInfo) \<Rightarrow>
     string fset \<Rightarrow> ('s, 'w) syncState \<Rightarrow> (('s, 'w) syncState \<times> (blockInfo \<times> string) list list \<times> unit res) option" where
  "synchronize fuel n isInitialized opt ops nodeTest so leftover users st =
     (if \<not> isInitialized then Some (st, [], Err (Exception ''Not initialized''))
      else
        (case sync_prepare (so_modules opt) ops (nd_chain (ss_node st)) (ss_source st) (nd_db (ss_node st)) of
           (db, Inl e) \<Rightarrow> Some (st\<lparr>ss_node := (ss_node st)\<lparr>nd_db := db\<rparr>\<rparr>, [], Err e)
         | (db, Inr (bc, src)) \<Rightarrow>
             let st = st\<lparr>ss_node := (ss_node st)\<lparr>nd_db := db, nd_chain := bc\<rparr>, ss_source := src\<rparr>
             in case make_workers (so_modules opt) ops db nodeTest of
                  Inl e \<Rightarrow> Some (st, [], Err e)
                | Inr workers \<Rightarrow>
                    let d = nd_disk (ss_node st);
                        net = (case src of Network_source ns \<Rightarrow> Some (sc_network so) | File_source fs \<Rightarrow> None);
                        existing = existing_block (sc_env so) (so_isValidate opt) d
                          (block_source (sc_p2p so) (sc_env so) net (so_isValidate opt) d) leftover
                    in case retry_blocks existing (so_modules opt) users bc workers (map (\<lambda>_. []) workers) (ss_world st) of
                         None \<Rightarrow> None
                       | Some (qs, w, Inl e) \<Rightarrow> Some (st\<lparr>ss_world := w\<rparr>, qs, Err e)
                       | Some (qs, w, Inr _) \<Rightarrow>
                           map_option (\<lambda>(st, r). (st, qs, r)) (sync_passes fuel opt ops so users n (st\<lparr>ss_world := w\<rparr>))))"

section \<open>Creation\<close>

record 'w getterBlockOptions =
  gb_maxAdvancedLoadBlocks :: size_t
  gb_countBlocksInBatch :: size_t
  gb_p2p :: "'w p2p option"
  gb_getBlocksFromFile :: bool
  gb_isValidate :: bool
  gb_isValidateSign :: bool
  gb_isCompress :: bool

definition FileBlockSource_new :: fileSource where
  "FileBlockSource_new = \<lparr>fs_allFiles = fmempty, fs_fileName = [], fs_currPos = 0\<rparr>"

definition NetworkBlockSource_new :: networkSource where
  "NetworkBlockSource_new = \<lparr>ns_getter = \<lparr>gt_headers = [], gt_dumps = fmempty\<rparr>, ns_nextBlockToRead = 0, ns_servers = [],
     ns_lastBlockInBlockchain = 0, ns_advancedBlocks = fmempty\<rparr>"

definition network_options :: "modules \<Rightarrow> string \<Rightarrow> 'w getterBlockOptions \<Rightarrow> networkOptions" where
  "network_options modules folderPath gb =
     \<lparr>no_getter = \<lparr>go_maxAdvancedLoadBlocks = gb_maxAdvancedLoadBlocks gb, go_countBlocksInBatch = gb_countBlocksInBatch gb,
        go_isCompress = gb_isCompress gb\<rparr>,
      no_folderPath = folderPath, no_saveAllTx = module_on modules MODULE_USERS, no_isValidate = gb_isValidate gb,
      no_isVerifySign = gb_isValidateSign gb\<rparr>"

text \<open>The source and whether blocks are written to files.\<close>

definition SyncImpl_initialize :: "modules \<Rightarrow> 'w getterBlockOptions \<Rightarrow> (bool \<times> blockSource) res" where
  "SyncImpl_initialize modules gb =
     rbind (CHECK (\<not> module_on modules MODULE_USERS \<or> \<not> gb_getBlocksFromFile gb) ''Options saveOnlyUsers and getBlocksFromFile not compatible'') (\<lambda>_.
     if gb_getBlocksFromFile gb then Ok (False, File_source FileBlockSource_new)
     else
       rbind (CHECK (gb_p2p gb \<noteq> None) ''p2p nullptr'') (\<lambda>_.
       Ok (module_on modules MODULE_BLOCK_RAW, Network_source NetworkBlockSource_new)))"

text \<open>The key of the node, named by its address, in a file of the working directory; \<open>trim\<close> is that of the common library.\<close>

definition load_private_key :: "crypto \<Rightarrow> keyOps \<Rightarrow> (string \<Rightarrow> string) \<Rightarrow> disk \<Rightarrow> string \<Rightarrow> privateKey option res" where
  "load_private_key cr ko trim d signKeyName =
     (if signKeyName = [] then Ok None
      else
        let signKeyPath = signKeyName @ ''.raw.prv'';
            result = trim (loadFile ''./'' signKeyPath d)
        in rbind (CHECK (result \<noteq> []) ''File with private key not found'') (\<lambda>_.
           rbind (PrivateKey_new cr ko (ko_fromHex ko result) signKeyName) (\<lambda>key. Ok (Some key))))"

definition SyncImpl_new ::
    "modules \<Rightarrow> crypto \<Rightarrow> keyOps \<Rightarrow> (string \<Rightarrow> string) \<Rightarrow> disk \<Rightarrow> 'w getterBlockOptions \<Rightarrow> string \<Rightarrow> (syncOptions \<times> blockSource \<times> privateKey option) res" where
  "SyncImpl_new modules cr ko trim d gb signKeyName =
     rbind (if gb_isValidate gb then CHECK (\<not> gb_getBlocksFromFile gb) ''validate and get_blocks_from_file options not compatible'' else Ok ()) (\<lambda>_.
     rbind (SyncImpl_initialize modules gb) (\<lambda>(isSaveBlockToFiles, src).
     rbind (load_private_key cr ko trim d signKeyName) (\<lambda>key.
     Ok (\<lparr>so_modules = modules, so_isSaveBlockToFiles = isSaveBlockToFiles, so_isValidate = gb_isValidate gb, so_fromHex = ko_fromHex ko\<rparr>, src, key))))"

definition getKnownBlock :: "('s, 'w) syncState \<Rightarrow> size_t" where
  "getKnownBlock st = ss_knownLastBlock st"

section \<open>Blocks as the sources deliver them\<close>

definition delivered :: "blockInfo \<Rightarrow> bool" where
  "delivered bi \<longleftrightarrow> bh_blockNumber (bi_header bi) = None \<and> bh_countTxs (bi_header bi) \<noteq> None \<and> fp_fileName (bh_filePos (bi_header bi)) \<noteq> []"

lemma readBlockTxs_fields:
  assumes "readBlockTxs fuel env base buf b e pos bi sa 0 0 v = Some (Ok bi')"
  shows "bh_blockNumber (bi_header bi') = bh_blockNumber (bi_header bi)" and "bh_countTxs (bi_header bi') \<noteq> None"
    and "bh_filePos (bi_header bi') = bh_filePos (bi_header bi)"
proof -
  obtain h bi1 where loop: "readBlockTxs_loop fuel env base buf b e pos sa 0 0 v (b + (BLOCK_HEADER_SIZE - 8)) 0
      \<lparr>isFirst = True, isPrevSign = True, prevTxData = []\<rparr> (bi\<lparr>bi_header := (bi_header bi)\<lparr>bh_hash := h\<rparr>\<rparr>) = Some (Ok bi1)"
    and sign: "set_block_signature (bi1\<lparr>bi_header := (bi_header bi1)\<lparr>bh_countTxs := Some (size_of (bi_txs bi1))\<rparr>\<rparr>) = Ok bi'"
    using assms by (auto simp: readBlockTxs_def Let_def rbind_Ok_iff split: sum.splits)
  then show "bh_blockNumber (bi_header bi') = bh_blockNumber (bi_header bi)" and "bh_countTxs (bi_header bi') \<noteq> None"
    and "bh_filePos (bi_header bi') = bh_filePos (bi_header bi)"
    using readBlockTxs_loop_same_header [OF loop] set_block_signature_header [OF sign] by auto
qed

lemma readNextBlockInfo_delivered:
  assumes "readNextBlockInfo fuel env base buf b e pos bi v sa 0 0 = Some (Ok bi')" and "bh_blockNumber (bi_header bi) = None"
    and "fp_fileName (bh_filePos (bi_header bi)) \<noteq> []"
  shows "delivered bi'"
proof -
  obtain bh bi1 where "readBlockHeaderWithoutSize env base buf b e (bi_header bi) = Ok bh"
    and txs: "readBlockTxs fuel env base buf b e pos (bi\<lparr>bi_header := bh\<rparr>) sa 0 0 v = Some (Ok bi1)"
    and "bh_blockNumber (bi_header bi') = bh_blockNumber (bi_header bi1)" "bh_countTxs (bi_header bi') = bh_countTxs (bi_header bi1)"
    and "fp_fileName (bh_filePos (bi_header bi')) = fp_fileName (bh_filePos (bi_header bi1))"
    using assms(1) by (auto simp: readNextBlockInfo_def Let_def rbind_Ok_iff split: sum.splits)
  moreover from this have "bh_blockNumber bh = None" "bh_filePos bh = bh_filePos (bi_header bi)"
    using assms(2) by (auto simp: readBlockHeaderWithoutSize_def rbind_Ok_iff)
  ultimately show ?thesis using readBlockTxs_fields [OF txs] assms(3) by (simp add: delivered_def)
qed

lemma readNextBlockInfo_file_delivered:
  assumes "readNextBlockInfo_file fuel env base content currPos bi dump v sa 0 0 = Some (Ok (nextPos, bi', dump'))"
    and "currPos \<noteq> nextPos" and "bh_blockNumber (bi_header bi) = None" and "name \<noteq> []"
  shows "delivered (name_block name bi')"
proof -
  obtain bh b e buf bi1 where hd: "readBlockHeader env base content currPos (fileSize content) (bi_header bi) = Ok (Some bh)"
    and txs: "readBlockTxs fuel env base buf b e currPos (bi\<lparr>bi_header := bh\<rparr>) sa 0 0 v = Some (Ok bi1)"
    and same: "bh_blockNumber (bi_header bi') = bh_blockNumber (bi_header bi1)" "bh_countTxs (bi_header bi') = bh_countTxs (bi_header bi1)"
    using assms(1,2) by (auto simp: readNextBlockInfo_file_def Let_def rbind_Ok_iff split: sum.splits option.splits if_splits)
  have "bh_blockNumber bh = None"
    using hd assms(3)
    by (auto simp: readBlockHeader_def readBlockHeader_buf_def readBlockHeaderWithoutSize_def Let_def rbind_Ok_iff split: if_splits)
  then show ?thesis using readBlockTxs_fields [OF txs] same assms(4) by (simp add: delivered_def name_block_def)
qed

lemma default_number [simp]: "bh_blockNumber (bi_header BlockInfo_default) = None"
  by (simp add: BlockInfo_default_def BlockHeader_default_def)

lemma open_next_name: "open_next folder directory d fs = (fs', Ok True) \<Longrightarrow> fs_fileName fs' \<noteq> []"
  by (auto simp: open_next_def Let_def split: if_splits sum.splits)

lemma File_process_delivered: "File_process se v folder directory d fs = Some (fs', Ok (Some (bi, dump))) \<Longrightarrow> delivered bi"
  by (auto simp: File_process_def Let_def split: prod.splits sum.splits option.splits bool.splits if_splits
      intro: readNextBlockInfo_file_delivered [OF _ _ default_number open_next_name])

lemma getFullPath_nonempty: "folder \<noteq> [] \<Longrightarrow> getFullPath name folder \<noteq> []"
  by (simp add: getFullPath_def path_append_def)

lemma CroppedFileName_nonempty: "name \<noteq> [] \<Longrightarrow> CroppedFileName name \<noteq> []"
  by (simp add: CroppedFileName_def getBasename_def Let_def)

lemma verified_delivered:
  assumes "verified se opt header dump bi" and "no_folderPath opt \<noteq> []"
  shows "delivered bi"
proof -
  obtain bi0 where r: "read_dump se opt header dump bi0 = Some (Ok bi)"
    and o: "if no_isVerifySign opt then \<exists>received. open_signed se received BlockInfo_default = Ok (dump, bi0) else bi0 = BlockInfo_default"
    using assms(1) unfolding verified_def by blast
  have "bh_blockNumber (bi_header bi0) = None" using o by (auto simp: open_signed_def rbind_Ok_iff split: if_splits)
  then show ?thesis
    using r assms(2) getFullPath_nonempty
    by (auto simp: read_dump_def Let_def split: if_splits intro!: readNextBlockInfo_delivered [where bi = "bi0\<lparr>bi_header := (bi_header bi0)\<lparr>bh_filePos :=
        (bh_filePos (bi_header bi0))\<lparr>fp_fileName := getFullPath (getBasename (mb_fileName header)) (no_folderPath opt)\<rparr>\<rparr>\<rparr>"])
qed

definition source_ok :: "'w sourceOptions \<Rightarrow> blockSource \<Rightarrow> bool" where
  "source_ok so src \<longleftrightarrow> (case src of Network_source ns \<Rightarrow> advanced_ok (sc_env so) (sc_network so) ns \<and> no_folderPath (sc_network so) \<noteq> [] | File_source fs \<Rightarrow> True)"

text \<open>A created source has no blocks ahead. A node that takes blocks from files neither validates nor filters them, and never writes them
  to files again.\<close>

lemma created_source:
  assumes "SyncImpl_new modules cr ko trim d gb signKeyName = Ok (opt, src, key)"
  shows "no_folderPath (sc_network so) \<noteq> [] \<Longrightarrow> source_ok so src"
    and "gb_getBlocksFromFile gb \<Longrightarrow> \<not> so_isValidate opt \<and> \<not> so_isSaveBlockToFiles opt \<and> \<not> module_on (so_modules opt) MODULE_USERS"
  using assms
  by (auto simp: SyncImpl_new_def SyncImpl_initialize_def rbind_Ok_iff source_ok_def advanced_ok_def NetworkBlockSource_new_def split: if_splits)

lemma doProcess_source_ok: "BlockSource_doProcess so n h src w = (src', w', r) \<Longrightarrow> source_ok so src \<Longrightarrow> source_ok so src'"
  by (auto simp: BlockSource_doProcess_def source_ok_def Network_doProcess_def Let_def advanced_ok_def
      split: blockSource.splits prod.splits sum.splits option.splits)

lemma process_source_ok:
  assumes "BlockSource_process so d src w = Some (src', w', r)" and "source_ok so src"
  shows "source_ok so src'" and "r = Ok (Some (bi, dump)) \<Longrightarrow> delivered bi"
proof -
  have *: "source_ok so src' \<and> (r = Ok (Some (bi, dump)) \<longrightarrow> delivered bi)"
  proof (cases src)
    case (Network_source ns)
    then obtain ns' where "Network_process (sc_p2p so) (sc_env so) (sc_network so) ns w = Some (ns', w', r)" "src' = Network_source ns'"
      using assms(1) by (auto simp: BlockSource_process_def)
    then show ?thesis
      using Network_process_verified [of "sc_p2p so" "sc_env so" "sc_network so" ns w ns' w' r] assms(2) Network_source verified_delivered
      unfolding source_ok_def by auto
  next
    case (File_source fs)
    then obtain fs' where p: "File_process (sc_env so) (sc_isValidate so) (sc_folderPath so) (sc_directory so d) d fs = Some (fs', r)"
      and "src' = File_source fs'"
      using assms(1) by (auto simp: BlockSource_process_def)
    moreover have "delivered bi" if "r = Ok (Some (bi, dump))" using File_process_delivered p that by blast
    ultimately show ?thesis by (simp add: source_ok_def)
  qed
  then show "source_ok so src'" and "r = Ok (Some (bi, dump)) \<Longrightarrow> delivered bi" by blast+
qed

section \<open>The database mirrors the chain, whatever fails\<close>

text \<open>The blocks that a node has taken since it was empty: the first one follows the genesis block, and there is room for them.\<close>

definition well_fed :: "blockInfo list \<Rightarrow> bool" where
  "well_fed sent \<longleftrightarrow> list_all (\<lambda>bi. hash_small (bi_header bi)) sent \<and>
     (sent \<noteq> [] \<longrightarrow> bh_prevHash (bi_header (hd sent)) = GENESIS_BLOCK_HASH) \<and> length sent + 2 < 2 ^ 64"

lemma well_fed_append: "well_fed (sent @ later) \<Longrightarrow> well_fed sent"
  by (auto simp: well_fed_def)

lemma accept_block_cases:
  assumes "accept_block opt ops users bi dump nd = (nd', r)"
  obtains (refused) b e where "same_place (bi_header bi) b" and "nd_db nd' = nd_db nd" and "nd_sent nd' = nd_sent nd" and "r = Err e"
      and "nd_chain nd' = nd_chain nd \<or> (addBlock (nd_chain nd) b = (nd_chain nd', Err e) \<or> addBlock (nd_chain nd) b = (nd_chain nd', Ok 0))"
  | (taken) b n bi' where "same_place (bi_header bi) b" and "bh_countTxs b = bh_countTxs (bi_header bi)"
      and "fp_fileName (bh_filePos b) = fp_fileName (bh_filePos (bi_header bi))" and "addBlock (nd_chain nd) b = (nd_chain nd', Ok n)"
      and "nd_sent nd' = nd_sent nd @ [bi']" and "bi_header bi' = b\<lparr>bh_blockNumber := Some n\<rparr>"
      and "saveBlockToLeveldb (so_modules opt) ops (bi_header bi') (nd_db nd) = (nd_db nd', r)"
proof -
  consider (filter) e where "filterTransactionsToSave (so_modules opt) users bi = Err e" "nd' = nd" "r = Err e"
    | (ok) bi1 where "filterTransactionsToSave (so_modules opt) users bi = Ok bi1"
    using assms by (cases "filterTransactionsToSave (so_modules opt) users bi") (auto simp: accept_block_def)
  then show thesis
  proof cases
    case filter
    then show thesis using refused [of "bi_header bi"] by (simp add: same_place_def)
  next
    case ok
    then have h: "bi_header bi1 = bi_header bi" by (auto simp: filterTransactionsToSave_def rbind_Ok_iff)
    obtain d s where s: "saveTransactions (so_modules opt) bi1 dump (so_isSaveBlockToFiles opt) (nd_disk nd) = (d, s)" by fastforce
    show thesis
    proof (cases s)
      case (Inl e)
      then show thesis using assms ok s refused [of "bi_header bi"] by (auto simp: accept_block_def same_place_def)
    next
      case (Inr bi2)
      have p: "same_place (bi_header bi) (bi_header bi2)" using saveTransactions_place s Inr h by fastforce
      have c: "bh_countTxs (bi_header bi2) = bh_countTxs (bi_header bi)"
        "fp_fileName (bh_filePos (bi_header bi2)) = fp_fileName (bh_filePos (bi_header bi))"
        using s Inr h by (auto simp: saveTransactions_def Let_def split: if_splits prod.splits sum.splits)
      obtain bc a where a: "addBlock (nd_chain nd) (bi_header bi2) = (bc, a)" by fastforce
      show thesis
      proof (cases "\<exists>n. a = Ok n \<and> n \<noteq> 0")
        case True
        then obtain n where "a = Ok n" "n \<noteq> 0" by blast
        then show thesis
          using assms ok s Inr a p c by (intro taken [of "bi_header bi2" n]) (auto simp: accept_block_def Let_def split: prod.splits)
      next
        case False
        then show thesis
          using assms ok s Inr a p by (cases a) (auto simp: accept_block_def Let_def intro: refused [of "bi_header bi2"])
      qed
    qed
  qed
qed

lemma save_succeeds:
  assumes "db_works ops" and "rbind (findBlockMetadata ops db) BlocksMetadata_deserialize = Ok metadata"
    and "bh_hash bh \<noteq> []" and "bh_prevHash bh \<noteq> []" and "bh_countTxs bh \<noteq> None"
    and "CroppedFileName (fp_fileName (bh_filePos bh)) \<noteq> []" and "bm_blockHash (new_metadata metadata bh) = bh_hash bh"
  shows "snd (saveBlockToLeveldb modules ops bh db) = Ok ()"
proof -
  obtain e where e: "BlockHeader_serialize bh = Ok e" using BlockHeader_serialize_complete assms(3-5) by blast
  have "\<exists>m. BlocksMetadata_serialize (new_metadata metadata bh) = Ok m"
    using assms(3,4,7) by (simp add: BlocksMetadata_serialize_def) (simp add: new_metadata_def BlocksMetadata_default_def)
  then obtain batch where b: "block_batch modules metadata bh = Ok batch"
    using e assms(3,6) by (cases "module_on modules MODULE_BLOCK") (auto simp: block_batch_def addBlockHeader_def makeBlockKey_def addFileMetadata_def makeFileKey_def Let_def)
  obtain db' where "addBatch ops batch db = (db', Ok ())" using db_works_batch [OF assms(1)] by metis
  then show ?thesis using assms(2) b by (simp add: saveBlockToLeveldb_def)
qed

text \<open>The state between two blocks.\<close>

definition sent_hashes :: "'s node \<Rightarrow> string list" where
  "sent_hashes nd = map (\<lambda>bi. bh_hash (bi_header bi)) (nd_sent nd)"

definition in_step :: "('s \<Rightarrow> (string, string) fmap) \<Rightarrow> modules \<Rightarrow> 's node \<Rightarrow> bool" where
  "in_step view modules nd \<longleftrightarrow>
     (\<exists>hs. mirrors view modules hs (nd_chain nd) (nd_db nd) \<and> list_all hash_small hs \<and> map bh_hash hs = sent_hashes nd)"

lemma in_step_accept:
  assumes spec: "leveldb_spec ops view" and works: "db_works ops" and on: "module_on (so_modules opt) MODULE_BLOCK"
    and inv: "in_step view (so_modules opt) nd" and bi: "delivered bi"
    and acc: "accept_block opt ops users bi dump nd = (nd', r)" and fed: "well_fed (nd_sent nd')"
  shows "in_step view (so_modules opt) nd'"
proof -
  obtain hs where m: "mirrors view (so_modules opt) hs (nd_chain nd) (nd_db nd)" and small: "list_all hash_small hs"
    and sent: "map bh_hash hs = sent_hashes nd"
    using inv by (auto simp: in_step_def)
  have len: "length hs = length (nd_sent nd)" using arg_cong [OF sent, of length] by (simp add: sent_hashes_def)
  have s: "settled (nd_chain nd)" and h: "hashes (nd_chain nd) = GENESIS_BLOCK_HASH # map bh_hash hs" and c: "chained GENESIS_BLOCK_HASH hs"
    using m by (simp_all add: mirrors_def)
  have number: "bh_blockNumber b = None" if "same_place (bi_header bi) b" for b
    using that bi by (simp add: same_place_def delivered_def)
  show ?thesis
    using acc
  proof (cases rule: accept_block_cases)
    case (refused b e)
    have "length hs + 2 < 2 ^ 64" using fed refused(3) len by (simp add: well_fed_def)
    then have "size_of (hashes (nd_chain nd)) \<noteq> 0" by (intro size_of_nonzero) (simp_all add: h)
    then have "nd_chain nd' = nd_chain nd"
      using refused(5) addBlock_eq_spec [OF s number [OF refused(1)]] by (auto simp: addBlock_spec_def split: if_splits)
    then show ?thesis using m small sent refused(2,3) by (auto simp: in_step_def sent_hashes_def)
  next
    case (taken b n bi')
    have room: "length hs + 2 < 2 ^ 64" using fed taken(5) len by (simp add: well_fed_def)
    have spc: "addBlock_spec (nd_chain nd) b = (nd_chain nd', Ok n)" using addBlock_eq_spec [OF s number [OF taken(1)]] taken(4) by simp
    have first: "bh_prevHash b = GENESIS_BLOCK_HASH" if "hs = []"
      using fed that len taken(5,6) by (simp add: well_fed_def)
    then have "bh_prevHash b = last (hashes (nd_chain nd))"
      using spc h by (auto simp: addBlock_spec_def accepts_def split: if_splits)
    then have "new_metadata (progress_of hs) (bi_header bi') = progress_of (hs @ [bi_header bi'])"
      using new_metadata_follows [OF s h c] taken(6) by simp
    then have "snd (saveBlockToLeveldb (so_modules opt) ops (bi_header bi') (nd_db nd)) = Ok ()"
      using spc taken(2,3,6) bi
      by (intro save_succeeds [OF works mirrors_progress [OF spec m small]])
        (auto simp: addBlock_spec_def delivered_def progress_of_def CroppedFileName_nonempty split: if_splits)
    then have r: "r = Ok ()" using taken(7) by simp
    obtain b' where b': "same_place (bi_header bi) (b'\<lparr>bh_blockNumber := None\<rparr>)"
      and m': "mirrors view (so_modules opt) (hs @ [b']) (nd_chain nd') (nd_db nd')"
      using mirrors_accept [OF spec on m small _ _ room acc [unfolded r]] bi first taken(1) by (auto simp: delivered_def same_place_def)
    have "hash_small (bi_header bi')" using fed taken(5) by (simp add: well_fed_def)
    then have "hash_small b'" "bh_hash b' = bh_hash (bi_header bi')" using b' taken(1,6) by (simp_all add: hash_small_def same_place_def)
    then show ?thesis using m' small sent taken(5) unfolding in_step_def by (intro exI [of _ "hs @ [b']"]) (simp add: sent_hashes_def)
  qed
qed

subsection \<open>Through the loops\<close>

text \<open>What a node has sent to its workers stays sent.\<close>

lemma process_next_cases:
  assumes "process_next opt ops users prev b nd = (nd', r)"
  shows "nd' = nd \<or> (\<exists>bi dump r'. (prev = Some (bi, dump) \<or> b = (bi, dump)) \<and> accept_block opt ops users bi dump nd = (nd', r'))"
    and "r = Ok prev' \<Longrightarrow> prev' = Some b"
  using assms
  by (auto simp: process_next_def sbind_def prod_eq_iff split: if_splits option.splits prod.splits sum.splits)

lemma process_next_sent:
  assumes "process_next opt ops users prev b nd = (nd', r)"
  shows "\<exists>later. nd_sent nd' = nd_sent nd @ later"
proof -
  have "\<exists>later. nd_sent nd' = nd_sent nd @ later" if "accept_block opt ops users bi dump nd = (nd', r')" for bi dump r'
    using that by (cases rule: accept_block_cases) auto
  then show ?thesis using process_next_cases(1) [OF assms] by auto
qed

lemma inner_loop_sent:
  "inner_loop fuel opt ops so users prev st = Some (st', r) \<Longrightarrow> \<exists>later. nd_sent (ss_node st') = nd_sent (ss_node st) @ later"
proof (induction fuel arbitrary: prev st)
  case (Suc fuel)
  obtain src w q where p: "BlockSource_process so (nd_disk (ss_node st)) (ss_source st) (ss_world st) = Some (src, w, q)"
    using Suc.prems by (auto split: option.splits)
  show ?case
  proof (cases "\<exists>b. q = Ok (Some b)")
    case True
    then obtain b where b: "q = Ok (Some b)" by blast
    obtain nd a where n: "process_next opt ops users prev b (ss_node st) = (nd, a)" by fastforce
    obtain later where l: "nd_sent nd = nd_sent (ss_node st) @ later" using process_next_sent [OF n] by blast
    show ?thesis
    proof (cases a)
      case (Inr prev1)
      then have "inner_loop fuel opt ops so users prev1 (st\<lparr>ss_source := src, ss_world := w, ss_node := nd\<rparr>) = Some (st', r)"
        using Suc.prems p b n by simp
      from Suc.IH [OF this] show ?thesis using l by auto
    qed (use Suc.prems p b n l in auto)
  qed (use Suc.prems p in \<open>auto simp: Let_def split: sum.splits option.splits\<close>)
qed simp

lemma inner_loop_in_step:
  assumes spec: "leveldb_spec ops view" and works: "db_works ops" and on: "module_on (so_modules opt) MODULE_BLOCK"
  shows "inner_loop fuel opt ops so users prev st = Some (st', r) \<Longrightarrow> source_ok so (ss_source st) \<Longrightarrow>
    (\<And>bi dump. prev = Some (bi, dump) \<Longrightarrow> delivered bi) \<Longrightarrow> in_step view (so_modules opt) (ss_node st) \<Longrightarrow>
    well_fed (nd_sent (ss_node st')) \<Longrightarrow> source_ok so (ss_source st') \<and> in_step view (so_modules opt) (ss_node st')"
proof (induction fuel arbitrary: prev st)
  case (Suc fuel)
  obtain src w q where p: "BlockSource_process so (nd_disk (ss_node st)) (ss_source st) (ss_world st) = Some (src, w, q)"
    using Suc.prems(1) by (auto split: option.splits)
  have ok: "source_ok so src" by (rule process_source_ok(1) [OF p Suc.prems(2)])
  show ?case
  proof (cases "\<exists>bi dump. q = Ok (Some (bi, dump))")
    case True
    then obtain bi dump where b: "q = Ok (Some (bi, dump))" by blast
    have d: "delivered bi" by (rule process_source_ok(2) [OF p Suc.prems(2) b])
    obtain nd a where n: "process_next opt ops users prev (bi, dump) (ss_node st) = (nd, a)" by fastforce
    have nd: "in_step view (so_modules opt) nd" if "well_fed (nd_sent nd)"
      using process_next_cases(1) [OF n] in_step_accept [OF spec works on Suc.prems(4) _ _ that] Suc.prems(3,4) d by blast
    show ?thesis
    proof (cases a)
      case (Inl e)
      then have "st' = st\<lparr>ss_source := src, ss_world := w, ss_node := nd\<rparr>" using Suc.prems(1) p b n by simp
      then show ?thesis using nd ok Suc.prems(5) by simp
    next
      case (Inr prev1)
      then have l: "inner_loop fuel opt ops so users prev1 (st\<lparr>ss_source := src, ss_world := w, ss_node := nd\<rparr>) = Some (st', r)"
        using Suc.prems(1) p b n by simp
      have "well_fed (nd_sent nd)" using inner_loop_sent [OF l] Suc.prems(5) well_fed_append by auto
      moreover have "prev1 = Some (bi, dump)" using process_next_cases(2) [OF n] Inr by simp
      ultimately show ?thesis using ok nd d Suc.prems(5) by (intro Suc.IH [OF l]) auto
    qed
  qed (use Suc.prems p ok in \<open>auto simp: Let_def split: sum.splits option.splits\<close>)
qed simp

lemma sync_pass_sent:
  "sync_pass fuel opt ops so users st = Some (st', r) \<Longrightarrow> \<exists>later. nd_sent (ss_node st') = nd_sent (ss_node st) @ later"
  using inner_loop_sent by (fastforce simp: sync_pass_def Let_def split: prod.splits sum.splits if_splits)

lemma sync_pass_in_step:
  assumes spec: "leveldb_spec ops view" "db_works ops" "module_on (so_modules opt) MODULE_BLOCK"
    and pass: "sync_pass fuel opt ops so users st = Some (st', r)" and "source_ok so (ss_source st)"
    and "in_step view (so_modules opt) (ss_node st)" and "well_fed (nd_sent (ss_node st'))"
  shows "source_ok so (ss_source st') \<and> in_step view (so_modules opt) (ss_node st')"
proof -
  obtain src w q where p: "BlockSource_doProcess so (countBlocks (nd_chain (ss_node st))) (bh_hash (getLastBlock (nd_chain (ss_node st))))
      (ss_source st) (ss_world st) = (src, w, q)"
    by (metis prod_cases3)
  have ok: "source_ok so src" by (rule doProcess_source_ok [OF p assms(5)])
  show ?thesis
  proof (cases "\<exists>known. q = Ok (True, known)")
    case True
    then obtain known where "inner_loop fuel opt ops so users None (st\<lparr>ss_source := src, ss_world := w, ss_knownLastBlock := known\<rparr>) = Some (st', r)"
      using pass p by (auto simp: sync_pass_def Let_def)
    from inner_loop_in_step [OF spec this] show ?thesis using ok assms(6,7) by simp
  qed (use pass p ok assms(6) in \<open>auto simp: sync_pass_def Let_def split: sum.splits if_splits\<close>)
qed

subsection \<open>The life of a node\<close>

text \<open>The node is started on an empty database; then, in any order, the loop makes a pass, the main worker, which writes to the same
  database, handles a block, or the node is stopped and started again: what was in memory is lost, the database is not. The
  sent blocks are those of all starts together.\<close>

inductive node_run ::
    "('s \<Rightarrow> (string, string) fmap) \<Rightarrow> syncOptions \<Rightarrow> 's leveldb_ops \<Rightarrow> 'w sourceOptions \<Rightarrow> ('s, 'w) syncState \<Rightarrow> bool" for view opt ops so where
  first_start: "view db = fmempty \<Longrightarrow> sync_start (so_modules opt) ops bc db = (db', Ok bc') \<Longrightarrow> source_ok so src \<Longrightarrow>
    node_run view opt ops so \<lparr>ss_node = \<lparr>nd_db = db', nd_chain = bc', nd_disk = d, nd_sent = []\<rparr>, ss_source = src, ss_world = w, ss_knownLastBlock = 0\<rparr>"
| pass: "node_run view opt ops so st \<Longrightarrow> sync_pass fuel opt ops so users st = Some (st', r) \<Longrightarrow> node_run view opt ops so st'"
| main_worker: "node_run view opt ops so st \<Longrightarrow> WorkerMain_handle ops wm bi (nd_db (ss_node st), caches) = ((db', caches'), r) \<Longrightarrow>
    node_run view opt ops so (st\<lparr>ss_node := (ss_node st)\<lparr>nd_db := db'\<rparr>\<rparr>)"
| restart: "node_run view opt ops so st \<Longrightarrow> db_small (view (nd_db (ss_node st))) \<Longrightarrow>
    sync_start (so_modules opt) ops bc (nd_db (ss_node st)) = (db', Ok bc') \<Longrightarrow> source_ok so src \<Longrightarrow>
    node_run view opt ops so
      \<lparr>ss_node = \<lparr>nd_db = db', nd_chain = bc', nd_disk = d, nd_sent = nd_sent (ss_node st)\<rparr>, ss_source = src, ss_world = w, ss_knownLastBlock = 0\<rparr>"

lemma sync_passes_run:
  "sync_passes fuel opt ops so users n st = Some (st', r) \<Longrightarrow> node_run view opt ops so st \<Longrightarrow> node_run view opt ops so st'"
proof (induction n arbitrary: st)
  case (Suc n)
  then obtain st1 q where p: "sync_pass fuel opt ops so users st = Some (st1, q)" by (auto split: option.splits)
  then have "st' = st1 \<or> sync_passes fuel opt ops so users n st1 = Some (st', r)"
    using Suc.prems(1) by (auto split: sum.splits if_splits)
  then show ?case using Suc.IH node_run.pass [OF Suc.prems(2) p] by blast
qed simp

lemma sync_prepare_start: "sync_prepare modules ops bc src db = (db', Ok (bc', src')) \<Longrightarrow> sync_start modules ops bc db = (db', Ok bc')"
  by (auto simp: sync_prepare_def sync_start_def sbind_Ok_iff rbind_Ok_iff split: if_splits)

text \<open>The thread that got through the preparation is such a life, at the first start and at a later one.\<close>

definition can_start ::
    "('s \<Rightarrow> (string, string) fmap) \<Rightarrow> syncOptions \<Rightarrow> 's leveldb_ops \<Rightarrow> 'w sourceOptions \<Rightarrow> ('s, 'w) syncState \<Rightarrow> bool" where
  "can_start view opt ops so st \<longleftrightarrow> source_ok so (ss_source st) \<and> ss_knownLastBlock st = 0 \<and>
     (view (nd_db (ss_node st)) = fmempty \<and> nd_sent (ss_node st) = [] \<or>
      (\<exists>old. node_run view opt ops so old \<and> db_small (view (nd_db (ss_node old))) \<and> nd_db (ss_node st) = nd_db (ss_node old) \<and>
         nd_sent (ss_node st) = nd_sent (ss_node old)))"

lemma synchronize_run:
  assumes "synchronize fuel n True opt ops nodeTest so leftover users st = Some (st', qs, r)" and start: "can_start view opt ops so st"
    and prep: "sync_prepare (so_modules opt) ops (nd_chain (ss_node st)) (ss_source st) (nd_db (ss_node st)) = (db, Ok (bc, src))"
  shows "node_run view opt ops so st'"
proof -
  have "source_ok so src"
    using prep start by (auto simp: sync_prepare_def sbind_Ok_iff rbind_Ok_iff BlockSource_initialize_def can_start_def source_ok_def
        split: if_splits blockSource.splits)
  then have run: "node_run view opt ops so (st\<lparr>ss_node := (ss_node st)\<lparr>nd_db := db, nd_chain := bc\<rparr>, ss_source := src, ss_world := w\<rparr>)" for w
    using start sync_prepare_start [OF prep] node_run.first_start [of view "nd_db (ss_node st)" opt ops "nd_chain (ss_node st)" db bc so src "nd_disk (ss_node st)" w]
      node_run.restart [of view opt ops so _ "nd_chain (ss_node st)" db bc src "nd_disk (ss_node st)" w]
    by (cases st, cases "ss_node st") (auto simp: can_start_def)
  show ?thesis
    using assms(1) prep run [of "ss_world st"] run sync_passes_run [OF _ run]
    by (auto simp: synchronize_def Let_def split: sum.splits option.splits)
qed

lemma main_worker_keys:
  assumes "leveldb_spec ops view" and "db_works ops" and "WorkerMain_handle ops wm bi (db, caches) = ((db', caches'), r)"
  shows "view db' = view db \<or> (\<exists>v. view db' = fmupd MAIN_BLOCK_NUMBER_PREFIX v (view db))"
proof -
  have add: "view db1 = fmupd MAIN_BLOCK_NUMBER_PREFIX v (view db)" if "addBatch ops (addMainBlock v (Batch_new True)) db = (db1, q)" for v db1 q
  proof -
    obtain db2 where "addBatch ops (addMainBlock v (Batch_new True)) db = (db2, Ok ())" using db_works_batch [OF assms(2)] by metis
    then show ?thesis using addBatch_ok [OF assms(1)] that by (simp add: addMainBlock_def Batch_new_def apply_op_def)
  qed
  show ?thesis
    using assms(3) add by (auto simp: WorkerMain_handle_def Let_def split: sum.splits prod.splits if_splits)
qed

lemma main_key_distinct [simp]:
  "MAIN_BLOCK_NUMBER_PREFIX \<noteq> makeKeyPrefix h BLOCK_PREFIX" "makeKeyPrefix h BLOCK_PREFIX \<noteq> MAIN_BLOCK_NUMBER_PREFIX"
  "MAIN_BLOCK_NUMBER_PREFIX \<noteq> KEY_BLOCK_METADATA" "KEY_BLOCK_METADATA \<noteq> MAIN_BLOCK_NUMBER_PREFIX"
  "MAIN_BLOCK_NUMBER_PREFIX \<noteq> MODULES_KEY" "MODULES_KEY \<noteq> MAIN_BLOCK_NUMBER_PREFIX"
  "MAIN_BLOCK_NUMBER_PREFIX \<noteq> VERSION_DB" "VERSION_DB \<noteq> MAIN_BLOCK_NUMBER_PREFIX"
  by (simp_all add: makeKeyPrefix_def db_keys)

lemma mirrors_main_worker:
  assumes "mirrors view modules hs bc db" and "view db' = view db \<or> (\<exists>v. view db' = fmupd MAIN_BLOCK_NUMBER_PREFIX v (view db))"
  shows "mirrors view modules hs bc db'"
proof -
  have "fmlookup (view db') (makeKeyPrefix h BLOCK_PREFIX) = fmlookup (view db) (makeKeyPrefix h BLOCK_PREFIX)"
    "fmlookup (view db') KEY_BLOCK_METADATA = fmlookup (view db) KEY_BLOCK_METADATA"
    "settings_saved modules (view db') = settings_saved modules (view db)" for h
    using assms(2) by (auto simp: settings_saved_def)
  then show ?thesis using assms(1) by (simp add: mirrors_def)
qed

lemma in_step_restart:
  assumes spec: "leveldb_spec ops view" and on: "module_on modules MODULE_BLOCK" and "in_step view modules nd" and "db_small (view (nd_db nd))"
    and "well_fed (nd_sent nd)"
  obtains bc' where "sync_start modules ops bc (nd_db nd) = (nd_db nd, Ok bc')" and "hashes bc' = GENESIS_BLOCK_HASH # sent_hashes nd"
    and "settled bc'" and "hashes (nd_chain nd) = hashes bc'" and "in_step view modules (nd\<lparr>nd_chain := bc'\<rparr>)"
proof -
  obtain hs where m: "mirrors view modules hs (nd_chain nd) (nd_db nd)" "list_all hash_small hs" "map bh_hash hs = sent_hashes nd"
    using assms(3) by (auto simp: in_step_def)
  have "length hs + 1 < 2 ^ 64" using arg_cong [OF m(3), of length] assms(5) by (simp add: sent_hashes_def well_fed_def)
  from mirrors_restart [OF spec on m(1,2) assms(4) this] obtain bc' where
    b: "sync_start modules ops bc (nd_db nd) = (nd_db nd, Ok bc')" "hashes bc' = hashes (nd_chain nd)" "settled bc'"
    by blast
  have "in_step view modules (nd\<lparr>nd_chain := bc'\<rparr>)"
    unfolding in_step_def using m b by (intro exI [of _ hs]) (simp add: mirrors_def sent_hashes_def)
  moreover have "hashes bc' = GENESIS_BLOCK_HASH # sent_hashes nd" using b(2) m(1,3) by (simp add: mirrors_def)
  ultimately show thesis using that b by simp
qed

lemma node_run_in_step:
  assumes spec: "leveldb_spec ops view" and works: "db_works ops"
  shows "node_run view opt ops so st \<Longrightarrow> well_fed (nd_sent (ss_node st)) \<Longrightarrow>
    module_on (so_modules opt) MODULE_BLOCK \<and> source_ok so (ss_source st) \<and> in_step view (so_modules opt) (ss_node st)"
proof (induction rule: node_run.induct)
  case (first_start db bc db' bc' src d w)
  from start_empty [OF spec first_start.hyps(1,2)] show ?case
    using first_start.hyps(3) by (auto simp: in_step_def sent_hashes_def intro: exI [of _ "[]"])
next
  case (pass st fuel users st' r)
  have "well_fed (nd_sent (ss_node st))" using sync_pass_sent [OF pass.hyps(2)] pass.prems well_fed_append by auto
  then show ?case using pass.IH sync_pass_in_step [OF spec works _ pass.hyps(2)] pass.prems by blast
next
  case (main_worker st wm bi caches db' caches' r)
  note keys = main_worker_keys [OF spec works main_worker.hyps(2)]
  have sent: "well_fed (nd_sent (ss_node st))" using main_worker.prems by simp
  note ih = main_worker.IH [OF sent]
  then obtain hs where hs: "mirrors view (so_modules opt) hs (nd_chain (ss_node st)) (nd_db (ss_node st))" "list_all hash_small hs"
    "map bh_hash hs = sent_hashes (ss_node st)"
    unfolding in_step_def by blast
  have "mirrors view (so_modules opt) hs (nd_chain (ss_node st)) db'" by (rule mirrors_main_worker [OF hs(1) keys])
  then have "in_step view (so_modules opt) ((ss_node st)\<lparr>nd_db := db'\<rparr>)"
    unfolding in_step_def using hs(2,3) by (intro exI [of _ hs]) (simp add: sent_hashes_def)
  then show ?case using ih by simp
next
  case (restart st bc db' bc' src d w)
  have fed: "well_fed (nd_sent (ss_node st))" using restart.prems by simp
  then have on: "module_on (so_modules opt) MODULE_BLOCK" and inv: "in_step view (so_modules opt) (ss_node st)" using restart.IH by blast+
  obtain bc1 where "sync_start (so_modules opt) ops bc (nd_db (ss_node st)) = (nd_db (ss_node st), Ok bc1)"
    "in_step view (so_modules opt) ((ss_node st)\<lparr>nd_chain := bc1\<rparr>)"
    by (rule in_step_restart [OF spec on inv restart.hyps(2) fed])
  then show ?case using on restart.hyps(3,4) by (simp add: in_step_def sent_hashes_def)
qed

subsection \<open>The loop over the network ends\<close>

lemma Network_process_next:
  "Network_process p2p se opt ns w = Some (ns', w', Ok (Some b)) \<Longrightarrow>
   ns_nextBlockToRead ns \<le> ns_lastBlockInBlockchain ns \<and> ns_nextBlockToRead ns' = ns_nextBlockToRead ns + 1 \<and>
   ns_lastBlockInBlockchain ns' = ns_lastBlockInBlockchain ns"
  by (auto simp: Network_process_def process_advanced_def Let_def split: if_splits option.splits prod.splits)

lemma network_loop_ends:
  assumes answers: "\<forall>ns w. P ns \<longrightarrow> (\<exists>ns' w' r. Network_process (sc_p2p so) (sc_env so) (sc_network so) ns w = Some (ns', w', r) \<and> P ns')"
  shows "ss_source st = Network_source ns \<Longrightarrow> P ns \<Longrightarrow> ns_lastBlockInBlockchain ns \<noteq> - 1 \<Longrightarrow>
    unat (ns_lastBlockInBlockchain ns) + 1 - unat (ns_nextBlockToRead ns) < fuel \<Longrightarrow> \<exists>st' r. inner_loop fuel opt ops so users prev st = Some (st', r)"
proof (induction fuel arbitrary: ns st prev)
  case (Suc fuel)
  obtain ns' w q where p: "Network_process (sc_p2p so) (sc_env so) (sc_network so) ns (ss_world st) = Some (ns', w, q)" and P: "P ns'"
    using answers Suc.prems(2) by blast
  show ?case
  proof (cases "\<exists>b. q = Ok (Some b)")
    case True
    then obtain b where q: "q = Ok (Some b)" by blast
    obtain nd a where n: "process_next opt ops users prev b (ss_node st) = (nd, a)" by fastforce
    note k = Network_process_next [OF p [unfolded q]]
    have "ns_nextBlockToRead ns \<noteq> - 1" using k Suc.prems(3) by (auto simp: word_order.extremum_unique)
    then have "unat (ns_nextBlockToRead ns + 1) = Suc (unat (ns_nextBlockToRead ns))" by (rule unat_Suc_u64)
    moreover have "unat (ns_nextBlockToRead ns) \<le> unat (ns_lastBlockInBlockchain ns)" using k by (simp add: word_le_nat_alt)
    ultimately have "unat (ns_lastBlockInBlockchain ns') + 1 - unat (ns_nextBlockToRead ns') < fuel" using k Suc.prems(4) by simp
    then have "\<exists>st' r. inner_loop fuel opt ops so users prev1 (st\<lparr>ss_source := Network_source ns', ss_world := w, ss_node := nd\<rparr>) = Some (st', r)" for prev1
      using k P Suc.prems(3) by (intro Suc.IH [where ns = ns']) simp_all
    then show ?thesis using p q n Suc.prems(1) by (cases a) (auto simp: BlockSource_process_def)
  qed (use p Suc.prems(1) in \<open>auto simp: BlockSource_process_def Let_def split: sum.splits option.splits\<close>)
qed simp

subsection \<open>A block that could not be recorded\<close>

lemma serialized_header_read: "BlockHeader_serialize b = Ok v \<Longrightarrow> length v < 2 ^ 64 \<Longrightarrow> BlockHeader_deserialize v = Ok (bare b)"
  using encodes_whole [OF encodes_BlockHeader] by (auto simp: BlockHeader_deserialize_def bare_def)

text \<open>A start on a database with one header builds the chain of the genesis block and that block, whatever its parent is.\<close>

lemma load_single:
  assumes "getAllBlocks ops db = {e}" and "BlockHeader_deserialize e = Ok b" and "bh_blockNumber b = None"
    and "bh_hash b \<notin> {[], GENESIS_BLOCK_HASH}" and "bh_prevHash b \<noteq> []" and "bm_blockHash metadata = bh_hash b"
  shows "\<exists>bc'. load_chain ops db metadata bc = Ok bc' \<and> hashes bc' = [GENESIS_BLOCK_HASH, bh_hash b]"
proof -
  have "addBlock BlockChain_new b = (push_block BlockChain_new b, Ok 1)"
    using assms(4,5) addBlock_eq_spec [OF settled_new assms(3)] by (simp add: addBlock_spec_def accepts_def size_of_def)
  then obtain bc1 where "addWithoutCalc BlockChain_new b = Ok (bc1, False)" "calcBlockchain bc1 (bh_hash b) = (push_block BlockChain_new b, Ok 1)"
    by (auto simp: addBlock_def split: sum.splits prod.splits if_splits error.splits)
  then show ?thesis using assms by (simp add: load_chain_def BlockChain_clear_new) (simp add: push_block_def)
qed

lemma restart_single:
  assumes "leveldb_spec ops view" and "module_on modules MODULE_BLOCK" and "mirrors view modules [] bc0 db"
    and save: "saveBlockToLeveldb modules ops (b'\<lparr>bh_blockNumber := Some m\<rparr>) db = (db2, Ok ())" and "db_small (view db2)"
    and "bh_blockNumber b' = None" and c2: "bh_hash b' \<notin> {[], GENESIS_BLOCK_HASH}" "bh_prevHash b' \<noteq> []" and "hash_small b'"
  obtains bc' where "sync_start modules ops bc db2 = (db2, Ok bc')" and "hashes bc' = [GENESIS_BLOCK_HASH, bh_hash b']"
proof -
  have st: "settings_saved modules (view db)" and nob: "fmlookup (view db) (makeKeyPrefix k BLOCK_PREFIX) = None" for k
    using assms(3) by (auto simp: mirrors_def simp flip: not_None_eq)
  let ?b = "b'\<lparr>bh_blockNumber := Some m\<rparr>"
  obtain metadata r me f v where md: "rbind (findBlockMetadata ops db) BlocksMetadata_deserialize = Ok metadata"
    and r: "BlockHeader_serialize ?b = Ok r" and me: "BlocksMetadata_serialize (new_metadata metadata ?b) = Ok me"
    and db: "view db2 = fmupd (makeKeyPrefix f FILE_PREFIX) v (fmupd KEY_BLOCK_METADATA me
      (fmupd (makeKeyPrefix (bh_hash ?b) BLOCK_PREFIX) r (view db)))"
    by (rule saveBlockToLeveldb_OkD [OF assms(1,2) save])
  have new: "new_metadata metadata ?b = \<lparr>bm_blockHash = bh_hash b', bm_prevBlockHash = bh_prevHash b', bm_blockNumber = 0\<rparr>"
    using md mirrors_progress [OF assms(1,3)] c2(2) by (auto simp: progress_of_def new_metadata_def BlocksMetadata_default_def)
  have all: "getAllBlocks ops db2 = {r}"
    by (subst getAllBlocks_eq [OF assms(1)]) (use assms(5) nob in \<open>auto simp: db db_small_def\<close>)
  have "fmlookup (view db2) (makeKeyPrefix (bh_hash b') BLOCK_PREFIX) = Some r" by (simp add: db)
  then have "length r < 2 ^ 64" using assms(5) unfolding db_small_def fmpred_iff by blast
  note read = serialized_header_read [OF r this]
  have "length me < 2 ^ 64" using metadata_small [OF me] assms(9) by (simp add: new hash_small_def)
  then have prog: "rbind (findBlockMetadata ops db2) (\<lambda>x. rbind (BlocksMetadata_deserialize x) g) = g (new_metadata metadata ?b)" for g
    using BlocksMetadata_deserialize_serialize [OF me] by (simp add: findBlockMetadata_def findOneValueWithoutCheck_eq [OF assms(1)] db)
  obtain bc' where "load_chain ops db2 (new_metadata metadata ?b) bc = Ok bc'" "hashes bc' = [GENESIS_BLOCK_HASH, bh_hash b']"
    using load_single [OF all read, of "new_metadata metadata ?b" bc] c2 by (auto simp: new)
  moreover have "settings_saved modules (view db2)" using st by (simp add: db settings_saved_def)
  ultimately have "sync_start modules ops bc db2 = (db2, Ok bc')"
    using assms(2) prog [of "\<lambda>md. load_chain ops db2 md bc"] by (simp add: sync_start_def sbind_def settings_checked [OF assms(1)])
  then show thesis using that \<open>hashes bc' = _\<close> by blast
qed

section \<open>Properties\<close>

text \<open>C1: No accepted block is lost by a restart, whatever goes wrong in between. A node lives on a database whose writes succeed: its
  loop makes passes over either source, each of which may end with any exception at any point, the main worker writes its
  records, and the node is stopped and started again any number of times. Then the chain in memory, and the chain that the
  next start builds from the database, are the genesis block and all the blocks that were ever accepted, in their order. The
  first accepted block is taken to follow the genesis block.\<close>

theorem accepted_blocks_survive:
  assumes "leveldb_spec ops view" and "db_works ops" and "node_run view opt ops so st"
    and "well_fed (nd_sent (ss_node st))" and "db_small (view (nd_db (ss_node st)))"
  shows "hashes (nd_chain (ss_node st)) = GENESIS_BLOCK_HASH # sent_hashes (ss_node st) \<and>
    (\<exists>bc'. sync_start (so_modules opt) ops bc (nd_db (ss_node st)) = (nd_db (ss_node st), Ok bc') \<and> settled bc' \<and>
      hashes bc' = GENESIS_BLOCK_HASH # sent_hashes (ss_node st))"
proof -
  have "module_on (so_modules opt) MODULE_BLOCK" "in_step view (so_modules opt) (ss_node st)"
    using node_run_in_step [OF assms(1-4)] by blast+
  from in_step_restart [OF assms(1) this assms(5,4)] show ?thesis by metis
qed

text \<open>A node that reads one block from a file.\<close>

definition life_env :: sourceEnv where
  "life_env = demo_env\<lparr>se_read := (se_read demo_env)\<lparr>env_toHex := (\<lambda>s. if length s = 32 then GENESIS_BLOCK_HASH else ''a'')\<rparr>\<rparr>"

definition life_options :: "unit sourceOptions" where
  "life_options = \<lparr>sc_p2p = demo_p2p, sc_env = life_env, sc_network = demo_options, sc_folderPath = ''folder'', sc_isValidate = False,
     sc_directory = (\<lambda>d. [])\<rparr>"

definition life_start :: "((string, string) fmap, unit) syncState" where
  "life_start = \<lparr>ss_node = \<lparr>nd_db = fst (sync_start 1 map_leveldb BlockChain_new fmempty), nd_chain = BlockChain_new,
       nd_disk = fmupd ''1.blk'' (le_bytes 8 (length demo_block) @ demo_block) fmempty, nd_sent = []\<rparr>,
     ss_source = File_source \<lparr>fs_allFiles = fmempty, fs_fileName = ''1.blk'', fs_currPos = 0\<rparr>, ss_world = (), ss_knownLastBlock = 0\<rparr>"

definition life_block :: blockInfo where
  "life_block = \<lparr>bi_header = BlockHeader_default\<lparr>bh_blockType := 1, bh_timestamp := 2, bh_prevHash := GENESIS_BLOCK_HASH,
     bh_txsHash := GENESIS_BLOCK_HASH, bh_hash := ''a'', bh_countTxs := Some 0, bh_blockSize := 81,
     bh_filePos := \<lparr>fp_pos = 0, fp_fileName = ''1.blk''\<rparr>, bh_endBlockPos := 89\<rparr>, bi_txs = []\<rparr>"

lemma life_read:
  "\<exists>bi. readNextBlockInfo_file (se_fuel life_env) (se_read life_env) (se_base life_env) (le_bytes 8 (length demo_block) @ demo_block) 0
     BlockInfo_default [] False False 0 0 = Some (Ok (89, bi, demo_block)) \<and> name_block ''1.blk'' bi = life_block"
proof -
  have "readNextBlockInfo (se_fuel life_env) (se_read life_env) (se_base life_env) demo_block (se_base life_env)
      (se_base life_env + size_of demo_block) 0 BlockInfo_default False False 0 0 = Some (Ok (life_block\<lparr>bi_header := (bi_header life_block)\<lparr>bh_filePos := \<lparr>fp_pos = 0, fp_fileName = []\<rparr>\<rparr>\<rparr>))"
    by (subst readNextBlockInfo_block_bytes [OF demo_block_def])
      (simp_all add: demo_length life_env_def demo_env_def block_meaning_def get_double_sha256_def set_block_signature_def sample_crypto_def life_block_def
        BlockInfo_default_def BlockHeader_default_def size_of_def)
  then show ?thesis
    using readNextBlockInfo_file_at [of "le_bytes 8 (length demo_block) @ demo_block" "[]" demo_block "[]" "se_base life_env" "se_fuel life_env"
        "se_read life_env" BlockInfo_default "[]" False False 0 0]
    by (simp add: demo_length size_of_def life_env_def demo_env_def) (simp add: name_block_def life_block_def)
qed

lemma life_taken:
  "(case process_next plain_node map_leveldb {||} None (life_block, demo_block) (ss_node life_start) of (nd, r) \<Rightarrow>
     r = Ok (Some (life_block, demo_block)) \<and> map (\<lambda>bi. bh_hash (bi_header bi)) (nd_sent nd) = [''a''] \<and> map (\<lambda>bi. bh_prevHash (bi_header bi)) (nd_sent nd) = [GENESIS_BLOCK_HASH] \<and>
     fcard (fmdom (nd_db nd)) \<le> 10 \<and> fmpred (\<lambda>k v. length v \<le> 300) (nd_db nd))"
  by code_simp

lemma process_next_disk:
  assumes "\<not> so_isSaveBlockToFiles opt"
  shows "nd_disk (fst (process_next opt ops users prev b nd)) = nd_disk nd"
proof -
  have "nd_disk (fst (accept_block opt ops users bi dump nd)) = nd_disk nd" for bi dump
    using assms by (auto simp: accept_block_def saveTransactions_def Let_def split: sum.splits prod.splits)
  then have "accept_block opt ops users bi dump nd = (nd', r) \<Longrightarrow> nd_disk nd' = nd_disk nd" for bi dump nd' r
    by (metis fst_conv)
  then show ?thesis by (auto simp: process_next_def sbind_def split: option.split prod.split sum.split)
qed

lemma life_pass:
  obtains st where "sync_pass 2 plain_node map_leveldb life_options {||} life_start = Some (st, Ok ())"
    and "ss_node st = fst (process_next plain_node map_leveldb {||} None (life_block, demo_block) (ss_node life_start))"
proof -
  let ?content = "le_bytes 8 (length demo_block) @ demo_block"
  obtain bi where read: "readNextBlockInfo_file (se_fuel life_env) (se_read life_env) (se_base life_env) ?content 0
     BlockInfo_default [] False False 0 0 = Some (Ok (89, bi, demo_block))" and bi: "name_block ''1.blk'' bi = life_block"
    using life_read by blast
  obtain nd where nd: "process_next plain_node map_leveldb {||} None (life_block, demo_block) (ss_node life_start) = (nd, Ok (Some (life_block, demo_block)))"
    and d: "nd_disk nd = nd_disk (ss_node life_start)"
    using life_taken process_next_disk [of plain_node map_leveldb "{||}" None "(life_block, demo_block)" "ss_node life_start"]
    by (auto simp: plain_node_def split: prod.splits)
  have sz: "size_of ?content = 89" by (simp add: demo_length size_of_def)
  have on_disk: "fmlookup (nd_disk (ss_node life_start)) ''1.blk'' = Some ?content" by (simp add: life_start_def)
  define fs where "fs = \<lparr>fs_allFiles = fmupd (CroppedFileName ''1.blk'') \<lparr>fi_filePos = \<lparr>fp_pos = 89, fp_fileName = ''1.blk''\<rparr>\<rparr> fmempty, fs_fileName = ''1.blk'', fs_currPos = 89\<rparr>"
  have p1: "BlockSource_process life_options (nd_disk (ss_node life_start)) (ss_source life_start) () = Some (File_source fs, (), Ok (Some (life_block, demo_block)))"
    using read bi by (simp add: BlockSource_process_def life_options_def life_start_def File_process_def open_next_def Let_def fs_def)
  have p2: "BlockSource_process life_options (nd_disk nd) (File_source fs) () = Some (File_source (fs\<lparr>fs_fileName := []\<rparr>), (), Ok None)"
    using readNextBlockInfo_file_end [of _ _ _ ?content, unfolded sz] on_disk d
    by (simp add: BlockSource_process_def life_options_def File_process_def open_next_def Let_def fs_def)
  have "sync_pass 2 plain_node map_leveldb life_options {||} life_start = inner_loop 2 plain_node map_leveldb life_options {||} None life_start"
    by (simp add: sync_pass_def BlockSource_doProcess_def File_doProcess_def life_start_def)
  also have "\<dots> = Some (life_start\<lparr>ss_source := File_source (fs\<lparr>fs_fileName := []\<rparr>), ss_node := nd\<rparr>, Ok ())"
    using p1 p2 nd by (simp add: numeral_2_eq_2 Let_def)
  finally show thesis using that nd by simp
qed

theorem accepted_blocks_survive_witness:
  "\<exists>st bc'. node_run (\<lambda>m. m) plain_node map_leveldb life_options st \<and> sent_hashes (ss_node st) = [''a''] \<and>
     sync_start 1 map_leveldb BlockChain_new (nd_db (ss_node st)) = (nd_db (ss_node st), Ok bc') \<and> hashes bc' = [GENESIS_BLOCK_HASH, ''a'']"
proof -
  obtain st where pass: "sync_pass 2 plain_node map_leveldb life_options {||} life_start = Some (st, Ok ())"
    and st: "ss_node st = fst (process_next plain_node map_leveldb {||} None (life_block, demo_block) (ss_node life_start))"
    by (rule life_pass)
  have s: "sync_start (so_modules plain_node) map_leveldb BlockChain_new fmempty = (nd_db (ss_node life_start), Ok BlockChain_new)"
    unfolding life_start_def plain_node_def by code_simp
  have "node_run (\<lambda>m. m) plain_node map_leveldb life_options life_start"
    using node_run.first_start [where view = "\<lambda>m. m", OF refl s, of life_options "ss_source life_start" "nd_disk (ss_node life_start)" "()"]
    by (simp add: life_start_def source_ok_def)
  note run = node_run.pass [OF this pass]
  have hashes: "map (\<lambda>bi. bh_hash (bi_header bi)) (nd_sent (ss_node st)) = [''a'']"
    and parents: "map (\<lambda>bi. bh_prevHash (bi_header bi)) (nd_sent (ss_node st)) = [GENESIS_BLOCK_HASH]"
    and db: "fcard (fmdom (nd_db (ss_node st))) \<le> 10" "fmpred (\<lambda>k v. length v \<le> 300) (nd_db (ss_node st))"
    using life_taken unfolding st by (auto split: prod.splits)
  have fed: "well_fed (nd_sent (ss_node st))" 
    using parents hashes
    by (cases "nd_sent (ss_node st)") (auto simp: well_fed_def hash_small_def GENESIS_BLOCK_HASH_def)
  have works: "db_works map_leveldb" unfolding db_works_def using map_leveldb_spec by (auto simp: map_leveldb_def)
  from accepted_blocks_survive [OF map_leveldb_spec works run fed db_small_of [OF db], of BlockChain_new] show ?thesis
    using run hashes by (auto simp: sent_hashes_def plain_node_def)
qed


text \<open>Peers that announce blocks and do not hand them out.\<close>

definition idle_p2p :: "unit p2p" where
  "idle_p2p = demo_p2p\<lparr>p2p_broadcast := (\<lambda>qs post header w. (w, count_calls, Ok ())),
     p2p_requests := (\<lambda>n mk header parse hints w. (w, Err (Exception ''dont run request'')))\<rparr>"

definition idle_options :: "unit sourceOptions" where
  "idle_options = life_options\<lparr>sc_p2p := idle_p2p, sc_env := demo_env\<lparr>se_get := count_env\<rparr>\<rparr>"

definition nothing_loaded :: "networkSource \<Rightarrow> bool" where
  "nothing_loaded ns \<longleftrightarrow> gt_headers (ns_getter ns) = [] \<and> fmpred (\<lambda>n ab. ab_exception ab \<noteq> None) (ns_advancedBlocks ns)"

lemma idle_load:
  "gt_headers g = [] \<Longrightarrow> \<exists>e. load_block idle_p2p (sc_env idle_options) demo_options c l servers g w =
    Some (g, w, AdvancedBlock_default\<lparr>ab_exception := Some (Exception e)\<rparr>)"
  by (auto simp: load_block_def Getter_getBlockHeader_def idle_p2p_def demo_options_def Let_def)

lemma idle_load_ahead:
  "gt_headers g = [] \<Longrightarrow> \<exists>loaded. load_blocks_ahead idle_p2p (sc_env idle_options) demo_options c l servers n g w = Some (g, w, loaded) \<and>
    (\<forall>a\<in>set loaded. ab_exception (snd a) \<noteq> None)"
proof (induction n arbitrary: c)
  case (Suc n)
  obtain e where "load_block idle_p2p (sc_env idle_options) demo_options c l servers g w =
    Some (g, w, AdvancedBlock_default\<lparr>ab_exception := Some (Exception e)\<rparr>)"
    using idle_load [OF Suc.prems] by blast
  then show ?case using Suc.IH [OF Suc.prems, of "c + 1"] by auto
qed simp

lemma exceptions_kept: "\<forall>a\<in>set loaded. ab_exception (snd a) \<noteq> None \<Longrightarrow> verify_blocks se opt loaded = Some loaded"
  by (induction loaded) (auto simp: verify_block_def)

lemma idle_returns:
  assumes "nothing_loaded ns"
  shows "\<exists>ns' w' r. Network_process idle_p2p (sc_env idle_options) demo_options ns w = Some (ns', w', r) \<and> nothing_loaded ns'"
proof -
  have h: "gt_headers (ns_getter ns) = []" using assms by (simp add: nothing_loaded_def)
  let ?n = "unat (min COUNT_ADVANCED_BLOCKS (ns_lastBlockInBlockchain ns - ns_nextBlockToRead ns + 1))"
  obtain loaded where l: "load_blocks_ahead idle_p2p (sc_env idle_options) demo_options (ns_nextBlockToRead ns) (ns_lastBlockInBlockchain ns)
      (ns_servers ns) ?n (ns_getter ns) w = Some (ns_getter ns, w, loaded)" and e: "\<forall>a\<in>set loaded. ab_exception (snd a) \<noteq> None"
    using idle_load_ahead [OF h] by blast
  have all: "fmpred (\<lambda>n ab. ab_exception ab \<noteq> None) (fmap_of_list loaded)"
    using e by (fastforce simp: fmpred_iff fmlookup_of_list dest: map_of_SomeD)
  have adv: "\<exists>r. process_advanced ab ns1 = (ns1, r)" if "nothing_loaded ns1" "fmlookup (ns_advancedBlocks ns1) k = Some ab" for ab ns1 k
    using that by (fastforce simp: process_advanced_def nothing_loaded_def fmpred_iff)
  have new: "nothing_loaded (ns\<lparr>ns_advancedBlocks := fmempty\<rparr>)" "nothing_loaded (ns\<lparr>ns_advancedBlocks := fmap_of_list loaded\<rparr>)"
    using h all by (simp_all add: nothing_loaded_def)
  show ?thesis
  proof (cases "ns_nextBlockToRead ns \<le> ns_lastBlockInBlockchain ns \<and> fmlookup (ns_advancedBlocks ns) (ns_nextBlockToRead ns) = None \<and> ns_servers ns \<noteq> []")
    case True
    then show ?thesis
      using l new(2) exceptions_kept [OF e] adv [OF new(2), of "ns_nextBlockToRead ns"]
      by (cases "fmlookup (fmap_of_list loaded) (ns_nextBlockToRead ns)") (auto simp: Network_process_def Let_def)
  next
    case False
    then show ?thesis
      using assms new(1) adv [OF assms, of "ns_nextBlockToRead ns"]
      by (cases "fmlookup (ns_advancedBlocks ns) (ns_nextBlockToRead ns)") (auto simp: Network_process_def Let_def)
  qed
qed


text \<open>C35: A block whose recording fails is lost at the next start, and its number is given to another block. On a node with the genesis
  block, a block is accepted and handed to the workers, then the write to the database fails; the chain in memory keeps the
  block. The next block is accepted and recorded. The next start succeeds with a chain of the genesis block and the second
  block, which is number 1 although it was number 2, and which does not follow the genesis block.\<close>

theorem unsaved_block_lost:
  assumes "leveldb_spec ops view" and "module_on (so_modules opt) MODULE_BLOCK"
    and "mirrors view (so_modules opt) [] (nd_chain nd) (nd_db nd)" and "delivered a" and "delivered b" and "hash_small (bi_header b)"
    and "accept_block opt ops users a dumpA nd = (nd1, Err e)" and "nd_sent nd1 \<noteq> nd_sent nd" and "nd_db nd1 = nd_db nd"
    and "accept_block opt ops users b dumpB nd1 = (nd2, Ok ())" and "db_small (view (nd_db nd2))"
  shows "hashes (nd_chain nd2) = [GENESIS_BLOCK_HASH, bh_hash (bi_header a), bh_hash (bi_header b)] \<and>
    bh_prevHash (bi_header b) = bh_hash (bi_header a) \<and>
    (\<exists>bc'. sync_start (so_modules opt) ops bc (nd_db nd2) = (nd_db nd2, Ok bc') \<and> hashes bc' = [GENESIS_BLOCK_HASH, bh_hash (bi_header b)])"
proof -
  have s: "settled (nd_chain nd)" and h: "hashes (nd_chain nd) = [GENESIS_BLOCK_HASH]" 
    using assms(3) by (simp_all add: mirrors_def)
  obtain a' n where a': "same_place (bi_header a) a'" "addBlock (nd_chain nd) a' = (nd_chain nd1, Ok n)"
    using assms(7,8) by (cases rule: accept_block_cases) auto
  have na: "bh_blockNumber a' = None" using a'(1) assms(4) by (simp add: same_place_def delivered_def)
  have c1: "nd_chain nd1 = push_block (nd_chain nd) a'" "bh_hash a' \<noteq> []" "bh_hash a' \<noteq> GENESIS_BLOCK_HASH"
    using a'(2) addBlock_eq_spec [OF s na] h by (auto simp: addBlock_spec_def split: if_splits)
  have s1: "settled (nd_chain nd1)" unfolding c1(1) by (rule settled_push_block [OF s c1(2) _ na]) (use h c1(3) in simp_all)
  have h1: "hashes (nd_chain nd1) = [GENESIS_BLOCK_HASH, bh_hash (bi_header a)]" using c1(1) h a'(1) by (simp add: push_block_def same_place_def)
  obtain b' m where b': "same_place (bi_header b) b'" "addBlock (nd_chain nd1) b' = (nd_chain nd2, Ok m)"
    and save: "saveBlockToLeveldb (so_modules opt) ops (b'\<lparr>bh_blockNumber := Some m\<rparr>) (nd_db nd) = (nd_db nd2, Ok ())"
    using accept_block_OkD [OF assms(10)] assms(9) by metis
  have nb: "bh_blockNumber b' = None" using b'(1) assms(5) by (simp add: same_place_def delivered_def)
  have c2: "nd_chain nd2 = push_block (nd_chain nd1) b'" "bh_hash b' \<notin> {[], GENESIS_BLOCK_HASH}" "bh_prevHash b' \<noteq> []"
    "bh_prevHash b' = bh_hash (bi_header a)"
    using b'(2) addBlock_eq_spec [OF s1 nb] h1 by (auto simp: addBlock_spec_def accepts_def split: if_splits)
  obtain bc' where "sync_start (so_modules opt) ops bc (nd_db nd2) = (nd_db nd2, Ok bc')" "hashes bc' = [GENESIS_BLOCK_HASH, bh_hash b']"
    by (rule restart_single [OF assms(1-3) save assms(11) nb c2(2,3)]) (use assms(6) b'(1) in \<open>simp add: hash_small_def same_place_def\<close>)
  then show ?thesis using c2(1,4) h1 b'(1) by (simp add: push_block_def same_place_def)
qed

text \<open>A database that can not write the record of one block.\<close>

definition flaky_leveldb :: "(string, string) fmap leveldb_ops" where
  "flaky_leveldb = map_leveldb\<lparr>ldb_write := (\<lambda>db ops.
     if list_ex (\<lambda>op. case op of Put k v \<Rightarrow> k = makeKeyPrefix ''a'' BLOCK_PREFIX | _ \<Rightarrow> False) ops then (db, Some ''IO error'')
     else ldb_write map_leveldb db ops)\<rparr>"

lemma flaky_spec: "leveldb_spec flaky_leveldb (\<lambda>m. m)"
proof -
  have "ldb_get flaky_leveldb = ldb_get map_leveldb" "ldb_put flaky_leveldb = ldb_put map_leveldb" "ldb_delete flaky_leveldb = ldb_delete map_leveldb"
    "ldb_seek flaky_leveldb = ldb_seek map_leveldb" "snd (ldb_write flaky_leveldb db b) = None \<Longrightarrow> ldb_write flaky_leveldb db b = ldb_write map_leveldb db b" for db b
    by (auto simp: flaky_leveldb_def split: if_splits)
  then show ?thesis using map_leveldb_spec unfolding leveldb_spec_def by metis
qed

theorem unsaved_block_lost_witness:
  "let nd1 = fst (accept_block plain_node flaky_leveldb {||} life_block [] (ss_node life_start));
       nd2 = fst (accept_block plain_node flaky_leveldb {||} (life_block\<lparr>bi_header := (bi_header life_block)\<lparr>bh_hash := ''b'', bh_prevHash := ''a''\<rparr>\<rparr>) [] nd1)
   in hashes (nd_chain nd2) = [GENESIS_BLOCK_HASH, ''a'', ''b''] \<and>
      (\<exists>bc'. sync_start 1 flaky_leveldb BlockChain_new (nd_db nd2) = (nd_db nd2, Ok bc') \<and> hashes bc' = [GENESIS_BLOCK_HASH, ''b''])"
proof -
  let ?b = "life_block\<lparr>bi_header := (bi_header life_block)\<lparr>bh_hash := ''b'', bh_prevHash := ''a''\<rparr>\<rparr>"
  define nd where "nd = ss_node life_start"
  obtain nd1 r1 where a1: "accept_block plain_node flaky_leveldb {||} life_block [] nd = (nd1, r1)" by fastforce
  obtain nd2 r2 where a2: "accept_block plain_node flaky_leveldb {||} ?b [] nd1 = (nd2, r2)" by fastforce
  have "(case accept_block plain_node flaky_leveldb {||} life_block [] nd of (nd1, r1) \<Rightarrow>
      r1 \<noteq> Ok () \<and> length (nd_sent nd1) = 1 \<and> nd_db nd1 = nd_db nd \<and>
      (case accept_block plain_node flaky_leveldb {||} ?b [] nd1 of (nd2, r2) \<Rightarrow>
         r2 = Ok () \<and> fcard (fmdom (nd_db nd2)) \<le> 10 \<and> fmpred (\<lambda>k v. length v \<le> 300) (nd_db nd2)))"
    unfolding nd_def by code_simp
  then have r: "r1 \<noteq> Ok ()" "length (nd_sent nd1) = 1" "nd_db nd1 = nd_db nd" "r2 = Ok ()" "db_small (nd_db nd2)"
    using a1 a2 db_small_of by auto
  have on: "module_on (so_modules plain_node) MODULE_BLOCK" by code_simp
  have "sync_start (so_modules plain_node) map_leveldb BlockChain_new fmempty = (nd_db nd, Ok BlockChain_new)"
    unfolding nd_def life_start_def plain_node_def by code_simp
  from start_empty(2) [OF map_leveldb_spec refl this] have m: "mirrors (\<lambda>m. m) (so_modules plain_node) [] (nd_chain nd) (nd_db nd)"
    by (simp add: nd_def life_start_def)
  obtain e where e: "r1 = Err e" using r(1) by (cases r1) auto
  have "hashes (nd_chain nd2) = [GENESIS_BLOCK_HASH, bh_hash (bi_header life_block), bh_hash (bi_header ?b)] \<and>
    bh_prevHash (bi_header ?b) = bh_hash (bi_header life_block) \<and>
    (\<exists>bc'. sync_start (so_modules plain_node) flaky_leveldb BlockChain_new (nd_db nd2) = (nd_db nd2, Ok bc') \<and>
       hashes bc' = [GENESIS_BLOCK_HASH, bh_hash (bi_header ?b)])"
    by (rule unsaved_block_lost [OF flaky_spec on m _ _ _ a1 [unfolded e] _ r(3) a2 [unfolded r(4)] r(5)])
      (use r(2) in \<open>auto simp: life_block_def delivered_def hash_small_def BlockHeader_default_def nd_def life_start_def\<close>)
  then show ?thesis using a1 a2 by (simp add: nd_def life_block_def plain_node_def)
qed

end
