(* ===== verification/JsonText.thy ===== *)
theory JsonText
  imports Json
begin

text \<open>
  What the program relies on of the JSON library, and a reader and writer of JSON text that have it. The program only sees
  the library through \<open>doc.Parse\<close> and \<open>jsonToString\<close>, which are parameters of the model; \<open>json_library\<close> states that a document
  that was printed is read back. \<open>read_json\<close> and \<open>write_json\<close> show that the statement can be met: the applications of the
  properties to concrete inputs use them.
\<close>

section \<open>Documents that are printed exactly\<close>

text \<open>Without fractional numbers, and with integers that fit 64 bits.\<close>

fun plain_json :: "json \<Rightarrow> bool" where
  "plain_json (JInt i) \<longleftrightarrow> - (2 ^ 63) \<le> i \<and> i < 2 ^ 64"
| "plain_json (JDouble _) \<longleftrightarrow> False"
| "plain_json (JArray js) \<longleftrightarrow> (\<forall>j\<in>set js. plain_json j)"
| "plain_json (JObject ms) \<longleftrightarrow> (\<forall>m\<in>set ms. plain_json (snd m))"
| "plain_json _ \<longleftrightarrow> True"

definition json_library :: "(string \<Rightarrow> json option) \<Rightarrow> (string \<Rightarrow> json) \<Rightarrow> (json \<Rightarrow> bool \<Rightarrow> string) \<Rightarrow> bool" where
  "json_library parse strToJson jsonToString \<longleftrightarrow>
     (\<forall>s. strToJson s = JString s) \<and> (\<forall>j pretty. plain_json j \<longrightarrow> parse (c_string (jsonToString j pretty)) = Some j)"

section \<open>A writer\<close>

definition escape :: "char \<Rightarrow> string" where
  "escape c = (if c = CHR 0x22 \<or> c = CHR 0x5C then [CHR 0x5C, c] else if c = CHR 0x00 then CHR 0x5C # ''u0000'' else [c])"

definition quote_string :: "string \<Rightarrow> string" where
  "quote_string s = CHR 0x22 # concat (map escape s) @ [CHR 0x22]"

fun comma_sep :: "string list \<Rightarrow> string" where
  "comma_sep [] = []"
| "comma_sep [t] = t"
| "comma_sep (t # ts) = t @ CHR '','' # comma_sep ts"

fun write_json :: "json \<Rightarrow> string" where
  "write_json JNull = ''null''"
| "write_json (JBool b) = (if b then ''true'' else ''false'')"
| "write_json (JInt i) = (if i < 0 then CHR ''-'' # to_string_nat (nat (- i)) else to_string_nat (nat i))"
| "write_json (JDouble d) = d"
| "write_json (JString s) = quote_string s"
| "write_json (JArray js) = CHR ''['' # comma_sep (map write_json js) @ '']''"
| "write_json (JObject ms) = CHR ''{'' # comma_sep (map (\<lambda>m. quote_string (fst m) @ CHR '':'' # write_json (snd m)) ms) @ ''}''"

section \<open>A reader\<close>

definition json_space :: "char \<Rightarrow> bool" where
  "json_space c \<longleftrightarrow> c = CHR '' '' \<or> c = CHR 0x09 \<or> c = CHR 0x0A \<or> c = CHR 0x0D"

abbreviation skip_space :: "string \<Rightarrow> string" where
  "skip_space \<equiv> dropWhile json_space"

text \<open>The rest of a string behind its opening quote.\<close>

fun read_string :: "string \<Rightarrow> (string \<times> string) option" where
  "read_string [] = None"
| "read_string (c # cs) =
     (if c = CHR 0x22 then Some ([], cs)
      else if c = CHR 0x5C then
        (case cs of
           [] \<Rightarrow> None
         | d # ds \<Rightarrow>
             if d = CHR 0x22 \<or> d = CHR 0x5C then map_option (\<lambda>(s, r). (d # s, r)) (read_string ds)
             else if take 5 cs = ''u0000'' then map_option (\<lambda>(s, r). (CHR 0x00 # s, r)) (read_string (drop 5 cs))
             else None)
      else map_option (\<lambda>(s, r). (c # s, r)) (read_string cs))"

definition read_digits :: "string \<Rightarrow> (nat \<times> string) option" where
  "read_digits text = (if takeWhile is_digit text = [] then None else Some (decimal_value (takeWhile is_digit text), dropWhile is_digit text))"

definition read_int :: "string \<Rightarrow> (json \<times> string) option" where
  "read_int text =
     (if hd text = CHR ''-'' then map_option (\<lambda>(n, r). (JInt (- int n), r)) (read_digits (tl text))
      else map_option (\<lambda>(n, r). (JInt (int n), r)) (read_digits text))"

fun read_value :: "nat \<Rightarrow> string \<Rightarrow> (json \<times> string) option"
  and read_elems :: "nat \<Rightarrow> string \<Rightarrow> (json list \<times> string) option"
  and read_members :: "nat \<Rightarrow> string \<Rightarrow> ((string \<times> json) list \<times> string) option" where
  "read_value 0 text = None"
| "read_value (Suc n) text =
     (case skip_space text of
        [] \<Rightarrow> None
      | c # cs \<Rightarrow>
          if c = CHR 0x22 then map_option (\<lambda>(s, r). (JString s, r)) (read_string cs)
          else if c = CHR ''['' then
            (if skip_space cs \<noteq> [] \<and> hd (skip_space cs) = CHR '']'' then Some (JArray [], tl (skip_space cs))
             else map_option (\<lambda>(js, r). (JArray js, r)) (read_elems n cs))
          else if c = CHR ''{'' then
            (if skip_space cs \<noteq> [] \<and> hd (skip_space cs) = CHR ''}'' then Some (JObject [], tl (skip_space cs))
             else map_option (\<lambda>(ms, r). (JObject ms, r)) (read_members n cs))
          else if c = CHR ''n'' then (if take 3 cs = ''ull'' then Some (JNull, drop 3 cs) else None)
          else if c = CHR ''t'' then (if take 3 cs = ''rue'' then Some (JBool True, drop 3 cs) else None)
          else if c = CHR ''f'' then (if take 4 cs = ''alse'' then Some (JBool False, drop 4 cs) else None)
          else read_int (c # cs))"
| "read_elems 0 text = None"
| "read_elems (Suc n) text =
     (case read_value n text of
        None \<Rightarrow> None
      | Some (j, r) \<Rightarrow>
          (case skip_space r of
             [] \<Rightarrow> None
           | d # ds \<Rightarrow>
               if d = CHR '','' then map_option (\<lambda>(js, r). (j # js, r)) (read_elems n ds)
               else if d = CHR '']'' then Some ([j], ds) else None))"
| "read_members 0 text = None"
| "read_members (Suc n) text =
     (case skip_space text of
        [] \<Rightarrow> None
      | c # cs \<Rightarrow>
          if c \<noteq> CHR 0x22 then None
          else
            (case read_string cs of
               None \<Rightarrow> None
             | Some (name, r) \<Rightarrow>
                 if skip_space r = [] \<or> hd (skip_space r) \<noteq> CHR '':'' then None
                 else
                   (case read_value n (tl (skip_space r)) of
                      None \<Rightarrow> None
                    | Some (j, r) \<Rightarrow>
                        (case skip_space r of
                           [] \<Rightarrow> None
                         | d # ds \<Rightarrow>
                             if d = CHR '','' then map_option (\<lambda>(ms, r). ((name, j) # ms, r)) (read_members n ds)
                             else if d = CHR ''}'' then Some ([(name, j)], ds) else None))))"

definition read_json :: "string \<Rightarrow> json option" where
  "read_json text =
     (case read_value (length text + 1) text of
        Some (j, r) \<Rightarrow> if skip_space r = [] then Some j else None
      | None \<Rightarrow> None)"

section \<open>What is written is read\<close>

lemma read_string_escaped: "read_string (concat (map escape s) @ CHR 0x22 # rest) = Some (s, rest)"
  by (induction s) (auto simp: escape_def)

definition stops_number :: "string \<Rightarrow> bool" where
  "stops_number rest \<longleftrightarrow> rest = [] \<or> \<not> is_digit (hd rest)"

lemma read_digits_written:
  assumes "stops_number rest"
  shows "read_digits (to_string_nat n @ rest) = Some (n, rest)"
proof -
  have d: "to_string_nat n \<noteq> []" "\<forall>c\<in>set (to_string_nat n). is_digit c"
    using to_string_nat_digits [of n] by (auto simp: list_all_iff)
  then have "takeWhile is_digit (to_string_nat n @ rest) = to_string_nat n @ takeWhile is_digit rest"
    "dropWhile is_digit (to_string_nat n @ rest) = dropWhile is_digit rest"
    by (auto simp: takeWhile_append2 dropWhile_append2)
  moreover have "takeWhile is_digit rest = []" "dropWhile is_digit rest = rest"
    using assms by (cases rest; simp add: stops_number_def)+
  ultimately show ?thesis using d(1) by (simp add: read_digits_def decimal_value_to_string)
qed

definition reads :: "json \<Rightarrow> bool" where
  "reads j \<longleftrightarrow> (\<forall>fuel rest. length (write_json j) < fuel \<longrightarrow> stops_number rest \<longrightarrow> read_value fuel (write_json j @ rest) = Some (j, rest))"

lemma json_readsD: "reads j \<Longrightarrow> length (write_json j) < fuel \<Longrightarrow> stops_number rest \<Longrightarrow> read_value fuel (write_json j @ rest) = Some (j, rest)"
  by (simp add: reads_def)

text \<open>A text that starts neither with white space nor with a closing bracket.\<close>

definition opens :: "string \<Rightarrow> bool" where
  "opens t \<longleftrightarrow> t \<noteq> [] \<and> \<not> json_space (hd t) \<and> hd t \<noteq> CHR '']'' \<and> hd t \<noteq> CHR ''}''"

lemma opens_append: "opens t \<Longrightarrow> opens (t @ u)"
  by (cases t) (auto simp: opens_def)

lemma skip_space_opens: "opens t \<Longrightarrow> skip_space t = t"
  by (cases t) (auto simp: opens_def)

lemma digit_not_special:
  assumes "is_digit c"
  shows "\<not> json_space c" "c \<noteq> CHR 0x22" "c \<noteq> CHR ''[''" "c \<noteq> CHR ''{''" "c \<noteq> CHR ''n''" "c \<noteq> CHR ''t''" "c \<noteq> CHR ''f''" "c \<noteq> CHR ''-''"
    "c \<noteq> CHR '']''" "c \<noteq> CHR ''}''"
  using assms by (auto simp: is_digit_def json_space_def)

lemma to_string_nat_Cons: obtains c cs where "to_string_nat n = c # cs" and "is_digit c"
  using to_string_nat_digits [of n] by (cases "to_string_nat n") auto

lemma opens_write_json: "plain_json j \<Longrightarrow> opens (write_json j)"
proof (cases j)
  case (JInt i)
  obtain c cs where "to_string_nat (nat i) = c # cs" "is_digit c" by (rule to_string_nat_Cons)
  then show ?thesis by (auto simp: JInt opens_def json_space_def digit_not_special is_digit_def)
qed (auto simp: opens_def json_space_def quote_string_def)

lemma reads_scalar: "reads JNull" "reads (JBool b)" "reads (JString s)"
  unfolding reads_def
  by (auto simp: json_space_def quote_string_def read_string_escaped gr0_conv_Suc less_iff_Suc_add)

lemma reads_int: "reads (JInt i)"
  unfolding reads_def
proof (intro allI impI)
  fix fuel rest assume "length (write_json (JInt i)) < fuel" and r: "stops_number rest"
  then obtain n where n: "fuel = Suc n" by (cases fuel) auto
  show "read_value fuel (write_json (JInt i) @ rest) = Some (JInt i, rest)"
  proof (cases "i < 0")
    case True
    then show ?thesis using read_digits_written [OF r, of "nat (- i)"] by (simp add: n json_space_def read_int_def)
  next
    case False
    obtain c cs where c: "to_string_nat (nat i) = c # cs" "is_digit c" by (rule to_string_nat_Cons)
    then show ?thesis
      using read_digits_written [OF r, of "nat i"] False digit_not_special [OF c(2)] by (simp add: n read_int_def)
  qed
qed

lemma stops_number_simps [simp]: "stops_number []" "stops_number (CHR '','' # r)" "stops_number (CHR '']'' # r)" "stops_number (CHR ''}'' # r)"
  "stops_number (CHR '' '' # r)"
  by (simp_all add: stops_number_def is_digit_def)

lemma read_elems_written:
  assumes "js \<noteq> []" and "\<forall>j\<in>set js. reads j" and "length (comma_sep (map write_json js)) + 2 \<le> fuel"
  shows "read_elems fuel (comma_sep (map write_json js) @ CHR '']'' # rest) = Some (js, rest)"
  using assms
proof (induction js arbitrary: fuel)
  case (Cons j js)
  obtain n where n: "fuel = Suc n" using Cons.prems by (cases fuel) auto
  show ?case
  proof (cases js)
    case Nil
    then show ?thesis using json_readsD [of j n "CHR '']'' # rest"] Cons.prems by (simp add: n json_space_def)
  next
    case (Cons k ks)
    then show ?thesis
      using json_readsD [of j n "CHR '','' # comma_sep (map write_json js) @ CHR '']'' # rest"] Cons.IH [of n] Cons.prems by (simp add: n json_space_def)
  qed
qed simp

lemma read_members_written:
  assumes "ms \<noteq> []" and "\<forall>m\<in>set ms. reads (snd m)"
    and "length (comma_sep (map (\<lambda>m. quote_string (fst m) @ CHR '':'' # write_json (snd m)) ms)) + 2 \<le> fuel"
  shows "read_members fuel (comma_sep (map (\<lambda>m. quote_string (fst m) @ CHR '':'' # write_json (snd m)) ms) @ CHR ''}'' # rest) = Some (ms, rest)"
  using assms
proof (induction ms arbitrary: fuel)
  case (Cons m ms)
  obtain n where n: "fuel = Suc n" using Cons.prems by (cases fuel) auto
  show ?case
  proof (cases ms)
    case Nil
    then show ?thesis
      using json_readsD [of "snd m" n "CHR ''}'' # rest"] Cons.prems by (simp add: n json_space_def quote_string_def read_string_escaped)
  next
    case (Cons k ks)
    then show ?thesis
      using json_readsD [of "snd m" n "CHR '','' # comma_sep (map (\<lambda>m. quote_string (fst m) @ CHR '':'' # write_json (snd m)) ms) @ CHR ''}'' # rest"]
        Cons.IH [of n] Cons.prems by (simp add: n json_space_def quote_string_def read_string_escaped)
  qed
qed simp

lemma opens_comma_sep: "ts \<noteq> [] \<Longrightarrow> \<forall>t\<in>set ts. opens t \<Longrightarrow> opens (comma_sep ts)"
  by (cases ts rule: comma_sep.cases) (auto intro: opens_append)

lemma reads_array:
  assumes "\<forall>j\<in>set js. plain_json j" and "\<forall>j\<in>set js. reads j"
  shows "reads (JArray js)"
  unfolding reads_def
proof (intro allI impI)
  fix fuel rest assume l: "length (write_json (JArray js)) < fuel" and "stops_number rest"
  then obtain n where n: "fuel = Suc n" by (cases fuel) auto
  show "read_value fuel (write_json (JArray js) @ rest) = Some (JArray js, rest)"
  proof (cases "js = []")
    case False
    let ?t = "comma_sep (map write_json js)"
    have "opens ?t" using False assms(1) opens_write_json by (intro opens_comma_sep) auto
    then have "opens (?t @ CHR '']'' # rest)" by (rule opens_append)
    then have sk: "skip_space (?t @ CHR '']'' # rest) = ?t @ CHR '']'' # rest" "hd (?t @ CHR '']'' # rest) \<noteq> CHR '']''"
      by (auto simp: skip_space_opens opens_def)
    have "read_elems n (?t @ CHR '']'' # rest) = Some (js, rest)"
      using False assms(2) l by (intro read_elems_written) (auto simp: n)
    then show ?thesis using sk by (simp add: n json_space_def)
  qed (simp add: n json_space_def)
qed

lemma reads_object:
  assumes "\<forall>m\<in>set ms. reads (snd m)"
  shows "reads (JObject ms)"
  unfolding reads_def
proof (intro allI impI)
  fix fuel rest assume l: "length (write_json (JObject ms)) < fuel" and "stops_number rest"
  then obtain n where n: "fuel = Suc n" by (cases fuel) auto
  show "read_value fuel (write_json (JObject ms) @ rest) = Some (JObject ms, rest)"
  proof (cases "ms = []")
    case False
    let ?t = "comma_sep (map (\<lambda>m. quote_string (fst m) @ CHR '':'' # write_json (snd m)) ms)"
    have "opens ?t" using False by (intro opens_comma_sep) (auto simp: opens_def quote_string_def json_space_def)
    then have "opens (?t @ CHR ''}'' # rest)" by (rule opens_append)
    then have sk: "skip_space (?t @ CHR ''}'' # rest) = ?t @ CHR ''}'' # rest" "hd (?t @ CHR ''}'' # rest) \<noteq> CHR ''}''"
      by (auto simp: skip_space_opens opens_def)
    have "read_members n (?t @ CHR ''}'' # rest) = Some (ms, rest)"
      using False assms l by (intro read_members_written) (auto simp: n)
    then show ?thesis using sk by (simp add: n json_space_def)
  qed (simp add: n json_space_def)
qed

lemma plain_json_reads: "plain_json j \<Longrightarrow> reads j"
proof (induction j)
  case (JArray js)
  then show ?case by (intro reads_array) auto
next
  case (JObject ms)
  then show ?case by (intro reads_object) (fastforce simp: snds.simps)
qed (simp_all add: reads_scalar reads_int)

lemma read_write_json: "plain_json j \<Longrightarrow> read_json (write_json j) = Some j"
  using json_readsD [OF plain_json_reads, of j "length (write_json j) + 1" "[]"] by (simp add: read_json_def)

lemma no_nul_comma_sep: "\<forall>t\<in>set ts. CHR 0x00 \<notin> set t \<Longrightarrow> CHR 0x00 \<notin> set (comma_sep ts)"
  by (induction ts rule: comma_sep.induct) auto

lemma no_nul_quote_string: "CHR 0x00 \<notin> set (quote_string s)"
  by (auto simp: quote_string_def escape_def)

lemma no_nul_number: "CHR 0x00 \<notin> set (to_string_nat n)"
  using to_string_nat_digits [of n] by (auto simp: list_all_iff is_digit_def)

lemma no_nul_write_json: "plain_json j \<Longrightarrow> CHR 0x00 \<notin> set (write_json j)"
proof (induction j)
  case (JArray js)
  then show ?case using no_nul_comma_sep [of "map write_json js"] by auto
next
  case (JObject ms)
  then have "\<forall>m\<in>set ms. CHR 0x00 \<notin> set (write_json (snd m))" by (fastforce simp: snds.simps)
  then show ?case
    using no_nul_comma_sep [of "map (\<lambda>m. quote_string (fst m) @ CHR '':'' # write_json (snd m)) ms"] no_nul_quote_string by auto
qed (simp_all add: no_nul_quote_string no_nul_number)

lemma c_string_id: "CHR 0x00 \<notin> set s \<Longrightarrow> c_string s = s"
  by (auto simp: c_string_def takeWhile_eq_all_conv)

lemma json_library_text: "json_library read_json JString (\<lambda>j pretty. write_json j)"
  by (simp add: json_library_def c_string_id no_nul_write_json read_write_json)

section \<open>Reading step by step\<close>

text \<open>One equation for each kind of value, so that a text with numbers and strings inside that are not literals is read by rewriting.\<close>

lemma read_value_steps [simp]:
  "read_value (Suc n) (CHR '' '' # cs) = read_value (Suc n) cs"
  "read_value (Suc n) (CHR 0x22 # cs) = map_option (\<lambda>(s, r). (JString s, r)) (read_string cs)"
  "read_value (Suc n) (CHR ''{'' # CHR 0x22 # cs) = map_option (\<lambda>(ms, r). (JObject ms, r)) (read_members n (CHR 0x22 # cs))"
  "read_value (Suc n) (CHR ''['' # CHR '']'' # cs) = Some (JArray [], cs)"
  "read_value (Suc n) (CHR ''['' # CHR 0x22 # cs) = map_option (\<lambda>(js, r). (JArray js, r)) (read_elems n (CHR 0x22 # cs))"
  "read_value (Suc n) (CHR ''t'' # CHR ''r'' # CHR ''u'' # CHR ''e'' # cs) = Some (JBool True, cs)"
  "read_value (Suc n) (CHR ''f'' # CHR ''a'' # CHR ''l'' # CHR ''s'' # CHR ''e'' # cs) = Some (JBool False, cs)"
  "stops_number rest \<Longrightarrow> read_value (Suc n) (to_string_u64 w @ rest) = Some (JInt (uint w), rest)"
proof -
  assume r: "stops_number rest"
  obtain c cs where c: "to_string_nat (unat w) = c # cs" "is_digit c" by (rule to_string_nat_Cons)
  then show "read_value (Suc n) (to_string_u64 w @ rest) = Some (JInt (uint w), rest)"
    using read_digits_written [OF r, of "unat w"] digit_not_special [OF c(2)] by (simp add: to_string_u64_def read_int_def)
qed (simp_all add: json_space_def)

lemma read_one_value [simp]:
  "read_value (Suc n) (CHR ''1'' # CHR '','' # cs) = Some (JInt 1, CHR '','' # cs)"
  "read_value (Suc n) (CHR ''1'' # CHR ''}'' # cs) = Some (JInt 1, CHR ''}'' # cs)"
  by (simp_all add: json_space_def read_int_def read_digits_def is_digit_def decimal_value_def)

declare read_value.simps [simp del]

lemma read_jsonI:
  assumes "\<And>n. read_value (Suc (Suc (Suc (Suc (Suc (Suc (Suc (Suc (Suc n))))))))) text = Some (j, [])" and "8 \<le> length text"
  shows "read_json text = Some j"
proof -
  obtain n where "length text = 8 + n" using assms(2) le_Suc_ex by blast
  then have "length text + 1 = Suc (Suc (Suc (Suc (Suc (Suc (Suc (Suc (Suc n))))))))" by simp
  then show ?thesis by (simp only: read_json_def assms(1) option.case prod.case) simp
qed

definition plain_text :: "string \<Rightarrow> bool" where
  "plain_text s \<longleftrightarrow> (\<forall>c\<in>set s. c \<noteq> CHR 0x00 \<and> c \<noteq> CHR 0x22 \<and> c \<noteq> CHR 0x5C)"

lemma read_plain_string: "plain_text s \<Longrightarrow> read_string (s @ CHR 0x22 # rest) = Some (s, rest)"
  by (induction s) (auto simp: plain_text_def)

end
