(* ===== verification/Server.thy ===== *)
theory Server
  imports Sync BlockGetter JsonText
begin

text \<open>
  \<^verbatim>\<open>src/src/Server.cpp\<close> and the answers of \<^verbatim>\<open>generate_json.cpp\<close>: one request over HTTP, from the text of its body to the text and
  the status of the answer, on the node that \<open>nodeView\<close> shows. The JSON library, the clock, the load of the machine and the
  texts of the exceptions of the standard library are parameters. A member of a document that is not an object is
  \<open>Undefined\<close>, as everywhere; such a request gets no answer.
\<close>

section \<open>Requests and answers\<close>

datatype requestIdValue = IdString string | IdNumber size_t

record requestId =
  ri_id :: requestIdValue
  ri_isSet :: bool

definition RequestId_default :: requestId where
  "RequestId_default = \<lparr>ri_id = IdString [], ri_isSet = False\<rparr>"

datatype jsonVersion = V1 | V2

datatype blockTypeInfo = ForP2P | Small | Simple | Hashes | Full

record serverEnv =
  se_parse :: "string \<Rightarrow> json option"
  se_strToJson :: "string \<Rightarrow> json"
  se_jsonToString :: "json \<Rightarrow> bool \<Rightarrow> string"
  se_lz :: lz4_ops
  se_dump :: dumpEnv
  se_modules :: modules
  se_technicalAddress :: string
  se_version :: string
  se_gitHash :: string
  se_serverPrivKey :: string
  se_what :: "string \<Rightarrow> string"

text \<open>What a request finds on the machine: the clock that counts requests, the system time in milliseconds, the load, and
  whether the program was told to stop.\<close>

record machine =
  mc_now :: int
  mc_nowMs :: int
  mc_procLoad :: string
  mc_memory :: u64
  mc_connections :: int
  mc_stopSignal :: bool

record nodeView =
  nv_chain :: blockChain
  nv_cache :: "string cache"
  nv_disk :: disk

record httpRequest =
  rq_url :: string
  rq_method :: string
  rq_post :: string

record httpResponse =
  rs_headers :: "(string \<times> string) list"
  rs_data :: string
  rs_code :: int

section \<open>Answers in JSON\<close>

definition addIdToResponse :: "serverEnv \<Rightarrow> requestId \<Rightarrow> (string \<times> json) list \<Rightarrow> (string \<times> json) list" where
  "addIdToResponse se requestId json =
     (if ri_isSet requestId then
        (case ri_id requestId of
           IdString s \<Rightarrow> json @ [(''id'', se_strToJson se s)]
         | IdNumber n \<Rightarrow> json @ [(''id'', JInt (uint n))])
      else json)"

definition intOrString :: "serverEnv \<Rightarrow> size_t \<Rightarrow> bool \<Rightarrow> json" where
  "intOrString se intValue isString =
     (if isString then se_strToJson se (to_string_u64 intValue) else JInt (uint intValue))"

definition genErrorResponse :: "serverEnv \<Rightarrow> requestId \<Rightarrow> int \<Rightarrow> string \<Rightarrow> string" where
  "genErrorResponse se requestId code err =
     se_jsonToString se (JObject (addIdToResponse se requestId [] @
       [(''error'', JObject [(''code'', JInt code), (''message'', se_strToJson se err)])])) False"

definition genStatusResponse :: "serverEnv \<Rightarrow> requestId \<Rightarrow> string \<Rightarrow> string \<Rightarrow> string" where
  "genStatusResponse se requestId version gitHash =
     se_jsonToString se (JObject (addIdToResponse se requestId [] @
       [(''result'', se_strToJson se ''ok''), (''version'', se_strToJson se version), (''git_hash'', se_strToJson se gitHash)])) False"

definition genInfoResponse :: "serverEnv \<Rightarrow> requestId \<Rightarrow> string \<Rightarrow> string \<Rightarrow> string" where
  "genInfoResponse se requestId version privkey =
     se_jsonToString se (JObject (addIdToResponse se requestId [] @
       [(''result'', JObject [(''version'', se_strToJson se version), (''mh_addr'', se_strToJson se privkey)])])) False"

definition genStatisticResponse :: "serverEnv \<Rightarrow> requestId \<Rightarrow> size_t \<Rightarrow> string \<Rightarrow> u64 \<Rightarrow> int \<Rightarrow> string" where
  "genStatisticResponse se requestId statistic proc memory connections =
     se_jsonToString se (JObject (addIdToResponse se requestId [] @
       [(''result'', JObject [(''request_stat'', JInt (uint statistic)), (''proc'', JDouble proc),
          (''memory'', se_strToJson se (to_string_u64 memory)), (''connections'', JInt connections)])])) False"

definition genStatisticResponse_short :: "serverEnv \<Rightarrow> size_t \<Rightarrow> string" where
  "genStatisticResponse_short se statistic = se_jsonToString se (JObject [(''result'', JInt (uint statistic))]) False"

definition blockHeaderToJson_value :: "serverEnv \<Rightarrow> blockHeader \<Rightarrow> blockTypeInfo \<Rightarrow> jsonVersion \<Rightarrow> json res" where
  "blockHeaderToJson_value se bh type version =
     (let isStringValue = (version = V2) in
     rbind (require (bh_blockNumber bh) ''Block header not set'') (\<lambda>number.
     rbind (if type = Simple then rbind (getBlockType bh) (\<lambda>t. Ok [(''type'', se_strToJson se t)]) else Ok []) (\<lambda>typ.
     let hash = [(''hash'', se_strToJson se (bh_hash bh)), (''prev_hash'', se_strToJson se (bh_prevHash bh))];
         tx_hash = (if type = Simple then [(''tx_hash'', se_strToJson se (bh_txsHash bh))] else []);
         num = [(''number'', intOrString se number isStringValue)]
     in rbind (if type = Simple then
                 rbind (require (bh_countTxs bh) ''Count txs not set'') (\<lambda>countTxs.
                 Ok [(''timestamp'', intOrString se (bh_timestamp bh) isStringValue), (''count_txs'', intOrString se countTxs isStringValue),
                     (''sign'', se_strToJson se (ko_toHex (de_keyOps (se_dump se)) (bh_signature bh)))])
               else Ok []) (\<lambda>rest.
     let place = (if type \<noteq> Small then
                    [(''size'', JInt (uint (bh_blockSize bh))), (''fileName'', se_strToJson se (fp_fileName (bh_filePos bh)))]
                  else [])
     in Ok (JObject (typ @ hash @ tx_hash @ num @ rest @ place))))))"

definition GENESIS_REFUSED :: string where
  "GENESIS_REFUSED = ''Incorrect block number: 0. Genesis block begin with number 1''"

definition blockHeaderToJson ::
    "serverEnv \<Rightarrow> requestId \<Rightarrow> blockHeader \<Rightarrow> blockHeader option \<Rightarrow> bool \<Rightarrow> blockTypeInfo \<Rightarrow> jsonVersion \<Rightarrow> string res" where
  "blockHeaderToJson se requestId bh nextBlock isFormat type version =
     (if bh_blockNumber bh = Some 0 then Ok (genErrorResponse se requestId (- 32603) GENESIS_REFUSED)
      else
        rbind (blockHeaderToJson_value se bh type version) (\<lambda>v.
        Ok (se_jsonToString se (JObject (addIdToResponse se requestId [] @ [(''result'', v)])) isFormat)))"

definition genCountBlockJson :: "serverEnv \<Rightarrow> requestId \<Rightarrow> size_t \<Rightarrow> bool \<Rightarrow> jsonVersion \<Rightarrow> string" where
  "genCountBlockJson se requestId num isFormat version =
     se_jsonToString se (JObject (addIdToResponse se requestId [] @
       [(''result'', JObject [(''count_blocks'', intOrString se num (version = V2))])])) isFormat"

definition genBlockDumpJson :: "serverEnv \<Rightarrow> requestId \<Rightarrow> string \<Rightarrow> bool \<Rightarrow> string" where
  "genBlockDumpJson se requestId blockDump isFormat =
     se_jsonToString se (JObject (addIdToResponse se requestId [] @
       [(''result'', JObject [(''dump'', se_strToJson se blockDump)])])) isFormat"

definition genTestSignStringJson :: "serverEnv \<Rightarrow> requestId \<Rightarrow> string \<Rightarrow> string" where
  "genTestSignStringJson se requestId responseHex =
     se_jsonToString se (JObject (addIdToResponse se requestId [] @
       [(''result'', JObject [(''data'', se_strToJson se responseHex)])])) False"

text \<open>The list of headers; a header of the genesis block makes the whole answer an error. \<open>Inl\<close> is the answer of the early return.\<close>

fun blockHeadersToJson_loop ::
    "serverEnv \<Rightarrow> requestId \<Rightarrow> blockTypeInfo \<Rightarrow> jsonVersion \<Rightarrow> blockHeader list \<Rightarrow> json list \<Rightarrow> (string + json list) res" where
  "blockHeadersToJson_loop se requestId type version [] vals = Ok (Inr vals)"
| "blockHeadersToJson_loop se requestId type version (b # bs) vals =
     (if bh_blockNumber b = Some 0 then Ok (Inl (genErrorResponse se requestId (- 32603) GENESIS_REFUSED))
      else
        rbind (blockHeaderToJson_value se b type version) (\<lambda>v.
        blockHeadersToJson_loop se requestId type version bs (vals @ [v])))"

definition blockHeadersToJson ::
    "serverEnv \<Rightarrow> requestId \<Rightarrow> blockHeader list \<Rightarrow> blockTypeInfo \<Rightarrow> bool \<Rightarrow> jsonVersion \<Rightarrow> string res" where
  "blockHeadersToJson se requestId bhs type isFormat version =
     rbind (blockHeadersToJson_loop se requestId type version bhs []) (\<lambda>r.
     Ok (case r of
           Inl answer \<Rightarrow> answer
         | Inr vals \<Rightarrow> se_jsonToString se (JObject (addIdToResponse se requestId [] @ [(''result'', JArray vals)])) isFormat))"

section \<open>Fields of a request\<close>

definition require_user :: "'a option \<Rightarrow> string \<Rightarrow> 'a res" where
  "require_user m msg = (case m of None \<Rightarrow> Err (UserException msg) | Some x \<Rightarrow> Ok x)"

text \<open>\<open>HasMember(name) && IsBool()\<close> with a default.\<close>

definition bool_member :: "json \<Rightarrow> string \<Rightarrow> bool \<Rightarrow> bool res" where
  "bool_member json name def = rbind (get_member json name) (\<lambda>m. Ok (case m of Some (JBool b) \<Rightarrow> b | _ \<Rightarrow> def))"

definition getJsonField_number :: "json \<Rightarrow> string \<Rightarrow> size_t res" where
  "getJsonField_number json name =
     rbind (int_member 64 json name) (\<lambda>m. require_user (map_option word_of_int m) (name @ '' field not found''))"

definition getJsonField_string :: "json \<Rightarrow> string \<Rightarrow> string res" where
  "getJsonField_string json name = rbind (string_member json name) (\<lambda>m. require_user m (name @ '' field not found''))"

definition getJsonValue_number :: "json \<Rightarrow> size_t res" where
  "getJsonValue_number json =
     (case json of
        JInt i \<Rightarrow> if - (2 ^ 63) \<le> i \<and> i < 2 ^ 63 then Ok (word_of_int i) else Err (UserException ''field not found'')
      | _ \<Rightarrow> Err (UserException ''field not found''))"

definition getJsonValue_string :: "json \<Rightarrow> string res" where
  "getJsonValue_string json = (case json of JString s \<Rightarrow> Ok (c_string s) | _ \<Rightarrow> Err (UserException ''field not found''))"

definition params_of :: "json \<Rightarrow> json res" where
  "params_of doc = rbind (object_member doc ''params'') (\<lambda>m. require_user m ''params field not found'')"

definition type_of_int :: "int \<Rightarrow> blockTypeInfo" where
  "type_of_int i =
     (if i = 0 then Simple else if i = 4 then ForP2P else if i = 1 then Hashes else if i = 2 then Full
      else if i = 3 then Small else Simple)"

definition type_of_string :: "string \<Rightarrow> blockTypeInfo" where
  "type_of_string s =
     (if s = ''simple'' then Simple else if s = ''forP2P'' then ForP2P else if s = ''hashes'' then Hashes
      else if s = ''full'' then Full else if s = ''small'' then Small else Simple)"

definition block_type :: "json \<Rightarrow> blockTypeInfo res" where
  "block_type jsonParams =
     rbind (int_member 32 jsonParams ''type'') (\<lambda>i.
     rbind (string_member jsonParams ''type'') (\<lambda>s.
     Ok (case i of Some n \<Rightarrow> type_of_int n | None \<Rightarrow> (case s of Some t \<Rightarrow> type_of_string t | None \<Rightarrow> Simple))))"

section \<open>Queries for blocks\<close>

text \<open>\<open>getBlock<T>\<close>, \<open>getBlockDump<T>\<close> and \<open>getBlockDumps<T>\<close> differ for hashes and numbers in how the key is read, looked up
  and printed; these are the first arguments.\<close>

record 'k keyOf =
  ky_field :: "json \<Rightarrow> string \<Rightarrow> 'k res"
  ky_value :: "json \<Rightarrow> 'k res"
  ky_getBlock :: "blockChain \<Rightarrow> 'k \<Rightarrow> blockHeader res"
  ky_to_string :: "'k \<Rightarrow> string"

definition by_hash :: "string keyOf" where
  "by_hash = \<lparr>ky_field = getJsonField_string, ky_value = getJsonValue_string, ky_getBlock = getBlock_hash, ky_to_string = (\<lambda>s. s)\<rparr>"

definition by_number :: "size_t keyOf" where
  "by_number = \<lparr>ky_field = getJsonField_number, ky_value = getJsonValue_number, ky_getBlock = (\<lambda>bc n. Ok (getBlock_number bc n)),
     ky_to_string = to_string_u64\<rparr>"

definition Server_getBlock ::
    "'k keyOf \<Rightarrow> serverEnv \<Rightarrow> requestId \<Rightarrow> json \<Rightarrow> string \<Rightarrow> nodeView \<Rightarrow> bool \<Rightarrow> jsonVersion \<Rightarrow> string res" where
  "Server_getBlock ky se requestId doc nameParam nv isFormat version =
     rbind (params_of doc) (\<lambda>jsonParams.
     rbind (ky_field ky jsonParams nameParam) (\<lambda>hashOrNumber.
     rbind (block_type jsonParams) (\<lambda>type.
     rbind (ky_getBlock ky (nv_chain nv) hashOrNumber) (\<lambda>bh.
     case bh_blockNumber bh of
       None \<Rightarrow> Ok (genErrorResponse se requestId (- 32603) (''block '' @ ky_to_string ky hashOrNumber @ '' not found''))
     | Some number \<Rightarrow>
         let nextBh = getBlock_number (nv_chain nv) (number + 1)
         in if type = Simple \<or> type = ForP2P \<or> type = Small
            then blockHeaderToJson se requestId bh (Some nextBh) isFormat type version
            else Ok []))))"

definition Server_getBlockDump ::
    "'k keyOf \<Rightarrow> serverEnv \<Rightarrow> json \<Rightarrow> requestId \<Rightarrow> string \<Rightarrow> nodeView \<Rightarrow> bool \<Rightarrow> string res" where
  "Server_getBlockDump ky se doc requestId nameParam nv isFormat =
     rbind (params_of doc) (\<lambda>jsonParams.
     rbind (ky_field ky jsonParams nameParam) (\<lambda>hashOrNumber.
     rbind (int_member 64 jsonParams ''fromByte'') (\<lambda>fb.
     rbind (int_member 64 jsonParams ''toByte'') (\<lambda>tb.
     let firstByte = (case fb of Some i \<Rightarrow> word_of_int i | None \<Rightarrow> 0);
         endByte = (case tb of Some i \<Rightarrow> word_of_int i | None \<Rightarrow> - 1)
     in rbind (bool_member jsonParams ''isHex'' False) (\<lambda>isHex.
     rbind (bool_member jsonParams ''isSign'' False) (\<lambda>isSign.
     rbind (bool_member jsonParams ''compress'' False) (\<lambda>isCompress.
     rbind (ky_getBlock ky (nv_chain nv) hashOrNumber) (\<lambda>bh.
     rbind (CHECK (bh_blockNumber bh \<noteq> None) (''block '' @ ky_to_string ky hashOrNumber @ '' not found'')) (\<lambda>_.
     rbind (Sync_getBlockDump (se_modules se) (se_dump se) (nv_cache nv) (nv_disk nv) bh firstByte endByte isHex isSign) (\<lambda>dump.
     let res = genDumpBlockBinary (se_lz se) dump isCompress
     in rbind (CHECK (res \<noteq> []) (''block '' @ ky_to_string ky hashOrNumber @ '' not found'')) (\<lambda>_.
     Ok (if isHex then genBlockDumpJson se requestId res isFormat else res))))))))))))"

text \<open>The two loops of \<open>getBlocks\<close>. The numbers are 64-bit; those of a request fit 32 bits, so nothing overflows on a chain
  that fits in memory.\<close>

function blocks_down :: "blockChain \<Rightarrow> int \<Rightarrow> int \<Rightarrow> blockHeader list" where
  "blocks_down bc bound i =
     (if bound < i \<and> 0 < i then getBlock_number bc (word_of_int i) # blocks_down bc bound (i - 1) else [])"
  by pat_completeness auto
termination by (relation "measure (\<lambda>(bc, bound, i). nat i)") auto

function blocks_up :: "blockChain \<Rightarrow> int \<Rightarrow> int \<Rightarrow> blockHeader list" where
  "blocks_up bc bound i = (if i < bound then getBlock_number bc (word_of_int i) # blocks_up bc bound (i + 1) else [])"
  by pat_completeness auto
termination by (relation "measure (\<lambda>(bc, bound, i). nat (bound - i))") auto

declare blocks_down.simps [simp del] blocks_up.simps [simp del]

definition blocks_type :: "json \<Rightarrow> blockTypeInfo res" where
  "blocks_type jsonParams =
     rbind (string_member jsonParams ''type'') (\<lambda>m.
     case m of
       None \<Rightarrow> Ok Simple
     | Some s \<Rightarrow>
         if s = ''simple'' then Ok Simple else if s = ''forP2P'' then Ok ForP2P else if s = ''small'' then Ok Small
         else Err (UserException (''Incorrect block type: '' @ s)))"

text \<open>\<open>reserve\<close> of a negative number throws.\<close>

definition Server_getBlocks :: "serverEnv \<Rightarrow> requestId \<Rightarrow> json \<Rightarrow> nodeView \<Rightarrow> bool \<Rightarrow> jsonVersion \<Rightarrow> string res" where
  "Server_getBlocks se requestId doc nv isFormat version =
     rbind (params_of doc) (\<lambda>jsonParams.
     rbind (int_member 32 jsonParams ''countBlocks'') (\<lambda>cb.
     rbind (int_member 32 jsonParams ''beginBlock'') (\<lambda>bb.
     let count = (case cb of Some i \<Rightarrow> i | None \<Rightarrow> 0);
         beginBlock = (case bb of Some i \<Rightarrow> i | None \<Rightarrow> 0)
     in rbind (CHECK_USER (count \<le> 1000) ''Too many blocks'') (\<lambda>_.
     rbind (blocks_type jsonParams) (\<lambda>type.
     rbind (string_member jsonParams ''direction'') (\<lambda>dir.
     let isForward = (dir = Some ''forward'')
     in rbind (if count < 0 then Err (StdException ''length_error'') else Ok ()) (\<lambda>_.
     let bhs = (if \<not> isForward then
                  let beginBlock = sint (countBlocks (nv_chain nv) - word_of_int beginBlock)
                  in blocks_down (nv_chain nv) (beginBlock - count) beginBlock
                else
                  let maxBlockNum = sint (countBlocks (nv_chain nv))
                  in blocks_up (nv_chain nv) (min (maxBlockNum + 1) (beginBlock + count)) beginBlock)
     in blockHeadersToJson se requestId bhs type isFormat version)))))))"

fun block_dumps :: "'k keyOf \<Rightarrow> serverEnv \<Rightarrow> nodeView \<Rightarrow> bool \<Rightarrow> json list \<Rightarrow> string list res" where
  "block_dumps ky se nv isSign [] = Ok []"
| "block_dumps ky se nv isSign (jsonVal # vals) =
     rbind (ky_value ky jsonVal) (\<lambda>hashOrNumber.
     rbind (ky_getBlock ky (nv_chain nv) hashOrNumber) (\<lambda>bh.
     rbind (CHECK (bh_blockNumber bh \<noteq> None) (''block '' @ ky_to_string ky hashOrNumber @ '' not found'')) (\<lambda>_.
     rbind (Sync_getBlockDump (se_modules se) (se_dump se) (nv_cache nv) (nv_disk nv) bh 0 (- 1) False isSign) (\<lambda>res.
     rbind (CHECK (res \<noteq> []) (''block '' @ ky_to_string ky hashOrNumber @ '' not found'')) (\<lambda>_.
     rbind (block_dumps ky se nv isSign vals) (\<lambda>result. Ok (res # result)))))))"

definition Server_getBlockDumps :: "'k keyOf \<Rightarrow> serverEnv \<Rightarrow> json \<Rightarrow> string \<Rightarrow> nodeView \<Rightarrow> string res" where
  "Server_getBlockDumps ky se doc nameParam nv =
     rbind (params_of doc) (\<lambda>jsonParams.
     rbind (bool_member jsonParams ''isSign'' False) (\<lambda>isSign.
     rbind (bool_member jsonParams ''compress'' False) (\<lambda>isCompress.
     rbind (get_member jsonParams nameParam) (\<lambda>m.
     rbind (case m of Some (JArray vals) \<Rightarrow> Ok vals | _ \<Rightarrow> Err (UserException ''hashes field not found'')) (\<lambda>jsonVals.
     rbind (CHECK_USER (length jsonVals \<le> 1000) ''Too many blocks'') (\<lambda>_.
     rbind (block_dumps ky se nv isSign jsonVals) (\<lambda>result.
     Ok (genDumpBlocksBinary (se_lz se) result isCompress))))))))"

definition Server_signTestString :: "serverEnv \<Rightarrow> string res \<Rightarrow> bool \<Rightarrow> requestId \<Rightarrow> string res" where
  "Server_signTestString se answer isHex requestId =
     rbind answer (\<lambda>answer. Ok (if \<not> isHex then answer else genTestSignStringJson se requestId answer))"

section \<open>The statistics of requests\<close>

text \<open>\<^verbatim>\<open>src/src/utils/SmallStatistic.h\<close>: the number of requests in the last full period. The time 0 is the default time point.\<close>

record smallStatisticElement =
  ss_stat :: size_t
  ss_timer :: int

record smallStatistic =
  st_prev :: smallStatisticElement
  st_current :: smallStatisticElement

definition SmallStatistic_new :: smallStatistic where
  "SmallStatistic_new = \<lparr>st_prev = \<lparr>ss_stat = 0, ss_timer = 0\<rparr>, st_current = \<lparr>ss_stat = 0, ss_timer = 0\<rparr>\<rparr>"

definition addStatistic :: "size_t \<Rightarrow> int \<Rightarrow> int \<Rightarrow> smallStatistic \<Rightarrow> smallStatistic" where
  "addStatistic add now updateTime st =
     (let st = (if ss_timer (st_current st) = 0 then st\<lparr>st_current := (st_current st)\<lparr>ss_timer := now\<rparr>\<rparr>
                else if updateTime \<le> now - ss_timer (st_current st) then
                  st\<lparr>st_prev := st_current st, st_current := \<lparr>ss_stat = 0, ss_timer = now\<rparr>\<rparr>
                else st)
      in st\<lparr>st_current := (st_current st)\<lparr>ss_stat := ss_stat (st_current st) + add\<rparr>\<rparr>)"

definition getStatistic :: "smallStatistic \<Rightarrow> smallStatisticElement" where
  "getStatistic st = st_prev st"

text \<open>\<open>std::stoll\<close>.\<close>

definition stoll :: "string \<Rightarrow> int res" where
  "stoll s =
     (let s = dropWhile is_space s;
          neg = (s \<noteq> [] \<and> hd s = CHR ''-'');
          s = (if s \<noteq> [] \<and> (hd s = CHR ''-'' \<or> hd s = CHR ''+'') then tl s else s);
          ds = takeWhile is_digit s;
          v = (if neg then - int (decimal_value ds) else int (decimal_value ds))
      in if ds = [] then Err (StdException ''invalid_argument'')
         else if v < - (2 ^ 63) \<or> 2 ^ 63 \<le> v then Err (StdException ''out_of_range'')
         else Ok v)"

text \<open>\<open>std::abs(nowTimestamp - timestampLong)\<close> on \<open>long long\<close>: an overflow of either is undefined.\<close>

definition distance64 :: "int \<Rightarrow> int \<Rightarrow> int res" where
  "distance64 a b = (if - (2 ^ 63) < a - b \<and> a - b < 2 ^ 63 then Ok \<bar>a - b\<bar> else Err Undefined)"

definition signed_statistic :: "serverEnv \<Rightarrow> machine \<Rightarrow> smallStatistic \<Rightarrow> requestId \<Rightarrow> json \<Rightarrow> string res" where
  "signed_statistic se mc st requestId doc =
     rbind (params_of doc) (\<lambda>jsonParams.
     rbind (getJsonField_string jsonParams ''pubkey'') (\<lambda>pubkey.
     rbind (getJsonField_string jsonParams ''sign'') (\<lambda>sign.
     rbind (getJsonField_string jsonParams ''timestamp'') (\<lambda>timestamp.
     rbind (stoll timestamp) (\<lambda>timestampLong.
     rbind (distance64 (mc_nowMs mc) timestampLong) (\<lambda>distance.
     rbind (CHECK_USER (distance \<le> 5000) ''Timestamp is out'') (\<lambda>_.
     let fromHex = ko_fromHex (de_keyOps (se_dump se))
     in rbind (verifyTechnicalAddressSign (de_crypto (se_dump se)) (se_technicalAddress se) timestamp (fromHex sign) (fromHex pubkey)) (\<lambda>ok.
     rbind (CHECK_USER ok ''Incorrect signature'') (\<lambda>_.
     Ok (genStatisticResponse se requestId (ss_stat (getStatistic st)) (mc_procLoad mc) (mc_memory mc) (mc_connections mc)))))))))))"

section \<open>A request\<close>

text \<open>The document of the body. Without a body it is the null value.\<close>

definition request_document :: "serverEnv \<Rightarrow> httpRequest \<Rightarrow> json res" where
  "request_document se rq =
     (let jsonRequest = (if rq_method rq = ''POST'' \<and> rq_post rq \<noteq> [] then rq_post rq else [])
      in if jsonRequest = [] then Ok JNull
         else
           (case se_parse se (c_string jsonRequest) of
              None \<Rightarrow> Err (Exception (''rapidjson parse error. Data: '' @ jsonRequest))
            | Some doc \<Rightarrow> Ok doc))"

definition request_func :: "httpRequest \<Rightarrow> json \<Rightarrow> string res" where
  "request_func rq doc =
     (if 1 < length (rq_url rq) then Ok (tl (rq_url rq))
      else rbind (string_member doc ''method'') (\<lambda>m. require_user m ''method field not found''))"

definition request_id :: "json \<Rightarrow> requestId res" where
  "request_id doc =
     rbind (string_member doc ''id'') (\<lambda>s.
     rbind (int_member 64 doc ''id'') (\<lambda>i.
     Ok (case i of
           Some n \<Rightarrow> \<lparr>ri_id = IdNumber (word_of_int n), ri_isSet = True\<rparr>
         | None \<Rightarrow> (case s of Some t \<Rightarrow> \<lparr>ri_id = IdString t, ri_isSet = True\<rparr> | None \<Rightarrow> RequestId_default))))"

definition request_version :: "json \<Rightarrow> jsonVersion res" where
  "request_version doc =
     rbind (string_member doc ''version'') (\<lambda>m.
     Ok (case m of
           None \<Rightarrow> V1
         | Some s \<Rightarrow> if s = ''v1'' \<or> s = ''version1'' then V1 else if s = ''v2'' \<or> s = ''version2'' then V2 else V1))"

definition run_func ::
    "serverEnv \<Rightarrow> machine \<Rightarrow> nodeView \<Rightarrow> smallStatistic \<Rightarrow> string \<Rightarrow> json \<Rightarrow> requestId \<Rightarrow> jsonVersion \<Rightarrow> bool \<Rightarrow> string res" where
  "run_func se mc nv st func doc requestId jsonVersion isFormatJson =
     (if func = ''status'' then Ok (genStatusResponse se requestId (se_version se) (se_gitHash se))
      else if func = ''getinfo'' then Ok (genInfoResponse se requestId (se_version se) (se_serverPrivKey se))
      else if func = ''get-statistic'' then Ok (genStatisticResponse_short se (ss_stat (getStatistic st)))
      else if func = ''get-statistic2'' then signed_statistic se mc st requestId doc
      else if func = ''get-block-by-hash'' then Server_getBlock by_hash se requestId doc ''hash'' nv isFormatJson jsonVersion
      else if func = ''get-block-by-number'' then Server_getBlock by_number se requestId doc ''number'' nv isFormatJson jsonVersion
      else if func = ''get-blocks'' then Server_getBlocks se requestId doc nv isFormatJson jsonVersion
      else if func = ''get-dump-block-by-hash'' then Server_getBlockDump by_hash se doc requestId ''hash'' nv isFormatJson
      else if func = ''get-dump-block-by-number'' then Server_getBlockDump by_number se doc requestId ''number'' nv isFormatJson
      else if func = ''get-dumps-blocks-by-hash'' then Server_getBlockDumps by_hash se doc ''hashes'' nv
      else if func = ''get-dumps-blocks-by-number'' then Server_getBlockDumps by_number se doc ''numbers'' nv
      else if func = ''get-count-blocks'' then Ok (genCountBlockJson se requestId (countBlocks (nv_chain nv)) isFormatJson jsonVersion)
      else Err (UserException (''Incorrect func '' @ func)))"

text \<open>The body of the \<open>try\<close> of \<open>run\<close>; the identifier that was read by the time of an exception goes into the answer.\<close>

definition run_request ::
    "serverEnv \<Rightarrow> machine \<Rightarrow> nodeView \<Rightarrow> smallStatistic \<Rightarrow> httpRequest \<Rightarrow> requestId \<times> string res" where
  "run_request se mc nv st rq =
     (case rbind (request_document se rq) (\<lambda>doc. rbind (request_func rq doc) (\<lambda>func. rbind (request_id doc) (\<lambda>requestId.
             Ok (doc, func, requestId)))) of
        Inl e \<Rightarrow> (RequestId_default, Err e)
      | Inr (doc, func, requestId) \<Rightarrow>
          (requestId,
           rbind (request_version doc) (\<lambda>jsonVersion.
           rbind (bool_member doc ''pretty'' False) (\<lambda>isFormatJson.
           run_func se mc nv st func doc requestId jsonVersion isFormatJson))))"

definition respond :: "serverEnv \<Rightarrow> httpRequest \<Rightarrow> requestId \<times> string res \<Rightarrow> (string \<times> int) res" where
  "respond se rq r =
     (case r of
        (requestId, Inr data) \<Rightarrow> Ok (data, 200)
      | (requestId, Inl (Exception e)) \<Rightarrow> Ok (genErrorResponse se requestId (- 32603) e, 500)
      | (requestId, Inl (UserException e)) \<Rightarrow> Ok (genErrorResponse se requestId (- 32602) (e @ ''. Url: '' @ rq_url rq), 400)
      | (requestId, Inl (StdException e)) \<Rightarrow> Ok (genErrorResponse se requestId (- 32603) (se_what se e), 500)
      | (requestId, Inl Undefined) \<Rightarrow> Err Undefined)"

text \<open>The state of the server. The guard object of \<open>run\<close> counts the running call and is destroyed on every way out.\<close>

record server =
  sr_isStoped :: bool
  sr_countRunningThreads :: int
  sr_statistics :: smallStatistic
  sr_threads :: int

definition Server_new :: "int \<Rightarrow> server" where
  "Server_new countRunningThreads =
     \<lparr>sr_isStoped = False, sr_countRunningThreads = countRunningThreads, sr_statistics = SmallStatistic_new, sr_threads = 0\<rparr>"

definition Server_init :: "server \<Rightarrow> server \<times> bool" where
  "Server_init sv = (sv\<lparr>sr_countRunningThreads := 0, sr_threads := 8\<rparr>, True)"

definition IncCountRunningThread :: "server \<Rightarrow> server" where
  "IncCountRunningThread sv = sv\<lparr>sr_countRunningThreads := sr_countRunningThreads sv + 1\<rparr>"

definition IncCountRunningThread_end :: "server \<Rightarrow> server" where
  "IncCountRunningThread_end sv = sv\<lparr>sr_countRunningThreads := sr_countRunningThreads sv - 1\<rparr>"

definition Server_run ::
    "serverEnv \<Rightarrow> machine \<Rightarrow> nodeView \<Rightarrow> httpRequest \<Rightarrow> httpResponse \<Rightarrow> server \<Rightarrow> server \<times> (bool \<times> httpResponse) res" where
  "Server_run se mc nv rq rs sv =
     (let rs = rs\<lparr>rs_headers := (''Access-Control-Allow-Origin'', ''*'') # rs_headers rs\<rparr>
      in if sr_isStoped sv then (sv, Ok (False, rs))
         else
           let sv = IncCountRunningThread sv
           in if mc_stopSignal mc then (IncCountRunningThread_end (sv\<lparr>sr_isStoped := True\<rparr>), Ok (False, rs))
              else
                let sv = sv\<lparr>sr_statistics := addStatistic 1 (mc_now mc) 60000 (sr_statistics sv)\<rparr>
                in (IncCountRunningThread_end sv,
                    rbind (respond se rq (run_request se mc nv (sr_statistics sv) rq)) (\<lambda>(data, code).
                    Ok (True, rs\<lparr>rs_data := data, rs_code := code\<rparr>))))"

text \<open>A call leaves the number of running calls as it was, and a stopped server stays stopped.\<close>

lemma Server_run_state:
  "sr_countRunningThreads (fst (Server_run se mc nv rq rs sv)) = sr_countRunningThreads sv"
  "sr_isStoped (fst (Server_run se mc nv rq rs sv)) \<longleftrightarrow> sr_isStoped sv \<or> mc_stopSignal mc"
  by (simp_all add: Server_run_def IncCountRunningThread_def IncCountRunningThread_end_def Let_def)

section \<open>Well-formed requests are answered\<close>

definition defined :: "'a res \<Rightarrow> bool" where
  "defined r \<longleftrightarrow> r \<noteq> Err Undefined"

named_theorems defined_intros

lemma defined_simps [simp]:
  "defined (Ok x)" "defined (Err e) \<longleftrightarrow> e \<noteq> Undefined"
  by (simp_all add: defined_def)

lemma defined_rbind [defined_intros]: "defined m \<Longrightarrow> (\<And>x. m = Ok x \<Longrightarrow> defined (f x)) \<Longrightarrow> defined (rbind m f)"
  by (cases m) (auto simp: defined_def)

lemma defined_split [defined_intros]:
  "(b \<Longrightarrow> defined m) \<Longrightarrow> (\<not> b \<Longrightarrow> defined n) \<Longrightarrow> defined (if b then m else n)"
  "(opt = None \<Longrightarrow> defined r) \<Longrightarrow> (\<And>x. opt = Some x \<Longrightarrow> defined (f x)) \<Longrightarrow> defined (case opt of None \<Rightarrow> r | Some x \<Rightarrow> f x)"
  "(\<And>x y. p = (x, y) \<Longrightarrow> defined (g x y)) \<Longrightarrow> defined (case p of (x, y) \<Rightarrow> g x y)"
  "defined (h v) \<Longrightarrow> defined (let y = v in h y)"
  by (simp_all split: option.split prod.split)

lemma defined_checks [simp]:
  "defined (CHECK b msg)" "defined (CHECK_USER b msg)" "defined (require m msg)" "defined (require_user m msg)"
  by (simp_all add: CHECK_def CHECK_USER_def require_def require_user_def split: option.split)

lemma get_member_object [simp]: "get_member (JObject ms) name = Ok (map_of ms name)"
  by (simp add: get_member_def)

lemma is_objectE: "is_object j \<Longrightarrow> (\<And>ms. j = JObject ms \<Longrightarrow> P) \<Longrightarrow> P"
  by (cases j) (auto simp: is_object_def)

lemma defined_members [simp]:
  assumes "is_object j"
  shows "defined (get_member j name)" "defined (string_member j name)" "defined (object_member j name)" "defined (int_member bits j name)"
    "defined (bool_member j name b)"
  using assms by (auto elim!: is_objectE simp: string_member_def object_member_def int_member_def bool_member_def)

lemma is_object_JObject [simp]: "is_object (JObject ms)"
  by (simp add: is_object_def)

lemma object_member_object: "object_member doc name = Ok (Some p) \<Longrightarrow> is_object p"
proof -
  assume "object_member doc name = Ok (Some p)"
  then obtain j where "get_member doc name = Ok (Some j)" "(case j of JObject ms \<Rightarrow> Some (JObject ms) | _ \<Rightarrow> None) = Some p"
    by (auto simp: object_member_def rbind_Ok_iff split: option.splits)
  then show ?thesis by (cases j) auto
qed

lemma params_of_object: "params_of doc = Ok p \<Longrightarrow> is_object p"
  by (auto simp: params_of_def rbind_Ok_iff require_user_def split: option.splits dest: object_member_object)

lemma defined_params [simp]: "is_object doc \<Longrightarrow> defined (params_of doc)"
  unfolding params_of_def by (intro defined_intros) simp_all

text \<open>What is asked of the operations on keys.\<close>

definition key_defined :: "'k keyOf \<Rightarrow> bool" where
  "key_defined ky \<longleftrightarrow> (\<forall>p name. is_object p \<longrightarrow> defined (ky_field ky p name)) \<and> (\<forall>j. defined (ky_value ky j)) \<and> (\<forall>bc k. defined (ky_getBlock ky bc k))"

lemma key_defined_both: "key_defined by_hash" "key_defined by_number"
  unfolding key_defined_def by_hash_def by_number_def getJsonField_string_def getJsonField_number_def getBlock_hash_def
  by (auto simp: getJsonValue_string_def getJsonValue_number_def intro!: defined_intros split: json.splits)

lemma key_definedD [simp]:
  assumes "key_defined ky"
  shows "is_object p \<Longrightarrow> defined (ky_field ky p name)" "defined (ky_value ky j)" "defined (ky_getBlock ky bc k)"
  using assms by (simp_all add: key_defined_def)

text \<open>A key read from a configuration is long enough for its secret part.\<close>

definition signing_key_ok :: "dumpEnv \<Rightarrow> bool" where
  "signing_key_ok env \<longleftrightarrow> (\<forall>key. de_key env = Some key \<longrightarrow> pk_isSecp key \<longrightarrow> 39 \<le> length (pk_privateKey key))"

lemma defined_makeBlockSign:
  assumes "pk_isSecp key \<Longrightarrow> 39 \<le> length (pk_privateKey key)"
  shows "defined (makeBlockSign cr ko dump key)"
  using assms unfolding makeBlockSign_def PrivateKey_sign_def PrivateKey_sign_secp_def secret_bytes_def
  by (intro defined_intros) auto

lemma defined_getBlockDump [simp]: "defined (getBlockDump content pos fb tb)"
  unfolding getBlockDump_def seekFile_def read_buffer_def by (auto intro!: defined_intros)

lemma defined_unsigned_part [simp]: "defined (unsigned_part cached d bh fb tb isSign)"
  unfolding unsigned_part_def openFile_def substr_def by (auto intro!: defined_intros)

lemma defined_Sync_getBlockDump [simp]:
  assumes "signing_key_ok env"
  shows "defined (Sync_getBlockDump modules env c d bh fb tb isHex isSign)"
  using assms unfolding Sync_getBlockDump_def by (auto intro!: defined_intros defined_makeBlockSign simp: signing_key_ok_def)

lemma defined_header_value [simp]: "defined (blockHeaderToJson_value se bh type version)"
  unfolding blockHeaderToJson_value_def getBlockType_def by (auto intro!: defined_intros)

lemma defined_headers_loop [simp]: "defined (blockHeadersToJson_loop se requestId type version bs vals)"
  by (induction bs arbitrary: vals) (auto intro!: defined_intros)

lemma defined_block_dumps: "key_defined ky \<Longrightarrow> signing_key_ok (se_dump se) \<Longrightarrow> defined (block_dumps ky se nv isSign vals)"
  by (induction vals) (auto intro!: defined_intros)

lemma defined_queries:
  assumes "is_object doc" and "key_defined ky" and "signing_key_ok (se_dump se)"
  shows "defined (Server_getBlock ky se requestId doc name nv isFormat version)"
    and "defined (Server_getBlockDump ky se doc requestId name nv isFormat)"
    and "defined (Server_getBlocks se requestId doc nv isFormat version)"
    and "defined (Server_getBlockDumps ky se doc name nv)"
proof -
  note params_of_object [simp]
  show "defined (Server_getBlock ky se requestId doc name nv isFormat version)"
    using assms unfolding Server_getBlock_def block_type_def blockHeaderToJson_def by (auto intro!: defined_intros)
  show "defined (Server_getBlockDump ky se doc requestId name nv isFormat)"
    using assms unfolding Server_getBlockDump_def by (auto intro!: defined_intros)
  show "defined (Server_getBlocks se requestId doc nv isFormat version)"
    using assms unfolding Server_getBlocks_def blocks_type_def blockHeadersToJson_def by (auto intro!: defined_intros)
  show "defined (Server_getBlockDumps ky se doc name nv)"
    using assms unfolding Server_getBlockDumps_def by (auto intro!: defined_intros defined_block_dumps split: json.split)
qed

lemma defined_run_func:
  assumes "is_object doc" and "signing_key_ok (se_dump se)" and "func \<noteq> ''get-statistic2''"
  shows "defined (run_func se mc nv st func doc requestId version isFormat)"
  using defined_queries [OF assms(1) key_defined_both(1) assms(2)] defined_queries [OF assms(1) key_defined_both(2) assms(2)] assms(3)
  by (simp add: run_func_def)

lemma respond_defined: "defined (snd r) \<Longrightarrow> \<exists>data code. respond se rq r = Ok (data, code) \<and> code \<in> {200, 400, 500}"
  by (cases r; cases "snd r"; cases "projl (snd r)") (auto simp: respond_def)

lemma respond_undefined: "respond se rq r = Err e \<Longrightarrow> e = Undefined"
  by (auto simp: respond_def split: prod.splits sum.splits error.splits)

lemma Server_run_respond:
  assumes "\<not> sr_isStoped sv" and "\<not> mc_stopSignal mc"
  shows "\<exists>sv'. Server_run se mc nv rq rs sv =
    (sv', rbind (respond se rq (run_request se mc nv (sr_statistics sv') rq)) (\<lambda>(data, code).
       Ok (True, rs\<lparr>rs_headers := (''Access-Control-Allow-Origin'', ''*'') # rs_headers rs, rs_data := data, rs_code := code\<rparr>)))"
  using assms by (simp add: Server_run_def IncCountRunningThread_end_def Let_def)

lemma defined_run_request:
  assumes "request_document se rq = Ok doc" and "is_object doc" and "signing_key_ok (se_dump se)" and "request_func rq doc \<noteq> Ok ''get-statistic2''"
  shows "defined (snd (run_request se mc nv st rq))"
proof (cases "rbind (request_func rq doc) (\<lambda>func. rbind (request_id doc) (\<lambda>requestId. Ok (doc, func, requestId)))")
  case (Inl e)
  moreover have "defined (rbind (request_func rq doc) (\<lambda>func. rbind (request_id doc) (\<lambda>requestId. Ok (doc, func, requestId))))"
    unfolding request_func_def request_id_def using assms(2) by (auto intro!: defined_intros)
  ultimately show ?thesis by (simp add: run_request_def assms(1))
next
  case (Inr r)
  then obtain func requestId where r: "r = (doc, func, requestId)" "request_func rq doc = Ok func" by (auto simp: rbind_Ok_iff)
  moreover have "func \<noteq> ''get-statistic2''" using r assms(4) by auto
  ultimately show ?thesis
    using assms(2,3) Inr by (auto simp: run_request_def assms(1) request_version_def intro!: defined_intros defined_run_func)
qed

lemma undefined_run_request:
  assumes "request_document se rq = Ok doc" and "\<not> is_object doc"
  shows "run_request se mc nv st rq = (RequestId_default, Err Undefined)"
proof -
  have "get_member doc name = Err Undefined" for name using assms(2) by (cases doc) (auto simp: get_member_def is_object_def)
  then show ?thesis by (simp add: run_request_def assms(1) request_func_def request_id_def string_member_def)
qed

section \<open>Properties\<close>

text \<open>C16: The server answers every request whose body is a JSON object or is not JSON, with one of the status codes 200, 400 and 500,
  except that the query for signed statistics may subtract out of range; a body that is any other JSON value, or no body, leads to
  an access that is undefined, whatever the query.\<close>

theorem requests_answered:
  assumes "\<not> sr_isStoped sv" and "\<not> mc_stopSignal mc" and "signing_key_ok (se_dump se)"
  shows "case request_document se rq of
      Inl e \<Rightarrow> \<exists>sv' rs'. Server_run se mc nv rq rs sv = (sv', Ok (True, rs')) \<and> rs_code rs' = 500
    | Inr doc \<Rightarrow>
        if is_object doc
        then request_func rq doc \<noteq> Ok ''get-statistic2'' \<longrightarrow>
          (\<exists>sv' rs'. Server_run se mc nv rq rs sv = (sv', Ok (True, rs')) \<and> rs_code rs' \<in> {200, 400, 500})
        else snd (Server_run se mc nv rq rs sv) = Err Undefined"
proof -
  obtain sv' where run: "Server_run se mc nv rq rs sv =
      (sv', rbind (respond se rq (run_request se mc nv (sr_statistics sv') rq)) (\<lambda>(data, code).
         Ok (True, rs\<lparr>rs_headers := (''Access-Control-Allow-Origin'', ''*'') # rs_headers rs, rs_data := data, rs_code := code\<rparr>)))"
    using Server_run_respond [OF assms(1,2)] by blast
  show ?thesis
  proof (cases "request_document se rq")
    case (Inl e)
    then obtain msg where "e = Exception msg" by (auto simp: request_document_def Let_def split: if_splits option.splits)
    then show ?thesis using run by (simp add: Inl run_request_def respond_def)
  next
    case (Inr doc)
    show ?thesis
    proof (cases "is_object doc")
      case True
      have "\<exists>rs'. Server_run se mc nv rq rs sv = (sv', Ok (True, rs')) \<and> rs_code rs' \<in> {200, 400, 500}"
        if "request_func rq doc \<noteq> Ok ''get-statistic2''"
        using respond_defined [OF defined_run_request [OF Inr True assms(3) that], of se rq mc nv "sr_statistics sv'"] run by auto
      then show ?thesis by (auto simp: Inr True)
    next
      case False
      then show ?thesis using run by (simp add: Inr undefined_run_request [OF Inr] respond_def)
    qed
  qed
qed

definition idle_machine :: machine where
  "idle_machine = \<lparr>mc_now = 1, mc_nowMs = 0, mc_procLoad = ''0'', mc_memory = 0, mc_connections = 0, mc_stopSignal = False\<rparr>"

definition fresh_server :: server where
  "fresh_server = fst (Server_init (Server_new 0))"

definition empty_response :: httpResponse where
  "empty_response = \<lparr>rs_headers = [], rs_data = [], rs_code = 0\<rparr>"

text \<open>A node without a key, with the reader and writer of JSON text.\<close>

definition text_env :: "crypto \<Rightarrow> keyOps \<Rightarrow> lz4_ops \<Rightarrow> serverEnv" where
  "text_env cr ko lz = \<lparr>se_parse = read_json, se_strToJson = JString, se_jsonToString = (\<lambda>j pretty. write_json j), se_lz = lz,
     se_dump = \<lparr>de_crypto = cr, de_keyOps = ko, de_key = None\<rparr>, se_modules = 17, se_technicalAddress = [], se_version = ''v'', se_gitHash = ''g'',
     se_serverPrivKey = [], se_what = (\<lambda>e. e)\<rparr>"

theorem requests_answered_witness:
  "snd (Server_run (text_env sample_crypto sample_keyOps copy_lz4) idle_machine \<lparr>nv_chain = BlockChain_new, nv_cache = Cache_new, nv_disk = fmempty\<rparr>
     \<lparr>rq_url = ''/status'', rq_method = ''POST'', rq_post = ''5''\<rparr> empty_response fresh_server) = Err Undefined"
proof -
  let ?se = "text_env sample_crypto sample_keyOps copy_lz4" and ?rq = "\<lparr>rq_url = ''/status'', rq_method = ''POST'', rq_post = ''5''\<rparr>"
  have "read_json (c_string ''5'') = Some (JInt 5)" by code_simp
  then have "request_document ?se ?rq = Ok (JInt 5)" by (simp add: request_document_def text_env_def)
  moreover have "signing_key_ok (se_dump ?se)" by (simp add: signing_key_ok_def text_env_def)
  ultimately show ?thesis
    using requests_answered [of fresh_server idle_machine ?se _ ?rq] by (simp add: fresh_server_def Server_init_def Server_new_def idle_machine_def is_object_def)
qed

end
