(* ===== verification/NodeTester.thy ===== *)
theory NodeTester
  imports Server NodeTests
begin

text \<open>
  \<^verbatim>\<open>src/src/TestP2PNodes.cpp\<close> and \<^verbatim>\<open>src/src/utils/utils.cpp\<close>: a node measures other nodes. Once an hour it sends texts of five
  sizes to the nodes of a list, checks the signatures in the answers and posts a signed report for each size. The measured
  requests, the draws of the random generator, the HTTP client that posts the reports and the stop signal are functions of a state of the world;
  \<open>te_unset\<close> is what a duration that is not initialised happens to hold.
\<close>

section \<open>The list of nodes\<close>

text \<open>\<open>line.find(" ")\<close> is the length of the line up to the first space, or \<open>npos\<close>; \<open>npos + 1\<close> is 0.\<close>

definition split_line :: "string \<Rightarrow> string \<times> string" where
  "split_line line =
     (let before = takeWhile (\<lambda>c. c \<noteq> CHR '' '') line
      in if length before = length line then (line, line) else (before, drop (length before + 1) line))"

text \<open>\<open>emplace\<close> keeps an entry that is there.\<close>

definition emplace :: "string \<Rightarrow> 'v \<Rightarrow> (string, 'v) fmap \<Rightarrow> (string, 'v) fmap" where
  "emplace k v m = (if fmlookup m k = None then fmupd k v m else m)"

fun read_nodes :: "(string \<Rightarrow> string) \<Rightarrow> string list \<Rightarrow> (string, string) fmap \<Rightarrow> (string, string) fmap" where
  "read_nodes trim [] nodes = nodes"
| "read_nodes trim (l # ls) nodes =
     (let line = trim l
      in read_nodes trim ls (if line \<noteq> [] then emplace (fst (split_line line)) (snd (split_line line)) nodes else nodes))"

definition readFileTestedNodes :: "(string \<Rightarrow> string) \<Rightarrow> string \<Rightarrow> (string, string) fmap" where
  "readFileTestedNodes trim contents = read_nodes trim (getlines contents) fmempty"

record testP2PNodes =
  tn_myIp :: string
  tn_resultServer :: string
  tn_defaultPortTorrent :: size_t
  tn_testedNodes :: "(string, string) fmap"
  tn_privateKey :: "privateKey option"
  tn_workerTest :: bool
  tn_started :: bool

text \<open>The constructor; an entry whose key contains the own address is erased.\<close>

definition TestP2PNodes_new :: "(string \<Rightarrow> string) \<Rightarrow> string \<Rightarrow> string \<Rightarrow> string \<Rightarrow> size_t \<Rightarrow> testP2PNodes" where
  "TestP2PNodes_new trim contents myIp resultServer defaultPortTorrent =
     \<lparr>tn_myIp = myIp, tn_resultServer = resultServer, tn_defaultPortTorrent = defaultPortTorrent,
      tn_testedNodes = fmfilter (\<lambda>k. \<not> is_infix myIp k) (readFileTestedNodes trim contents),
      tn_privateKey = None, tn_workerTest = False, tn_started = False\<rparr>"

definition setPrivateKey :: "privateKey \<Rightarrow> testP2PNodes \<Rightarrow> testP2PNodes" where
  "setPrivateKey key tn = tn\<lparr>tn_privateKey := Some key\<rparr>"

definition addWorkerTest :: "testP2PNodes \<Rightarrow> testP2PNodes" where
  "addWorkerTest tn = tn\<lparr>tn_workerTest := True\<rparr>"

definition TestP2PNodes_start :: "testP2PNodes \<Rightarrow> testP2PNodes" where
  "TestP2PNodes_start tn = (if tn_resultServer tn \<noteq> [] then tn\<lparr>tn_started := True\<rparr> else tn)"

definition addDefaultPort :: "string \<Rightarrow> size_t \<Rightarrow> string" where
  "addDefaultPort host port = (if CHR '':'' \<notin> set host then host @ '':'' @ to_string_u64 port else host)"

definition transformMap :: "(string, string) fmap \<Rightarrow> size_t \<Rightarrow> (string, string) fmap" where
  "transformMap m defaultPortTorrent =
     fold (\<lambda>(key, val) result. emplace (addDefaultPort key defaultPortTorrent) val result) (entries m) fmempty"

section \<open>The reports\<close>

record testResult =
  ts_time :: "int option"
  ts_size :: size_t

record testForSend =
  tf_fromAddress :: string
  tf_fromName :: string
  tf_toAddress :: string
  tf_toName :: string
  tf_sizeData :: size_t
  tf_time :: int
  tf_isSuccess :: bool
  tf_sign :: string
  tf_pubkey :: string

text \<open>\<open>std::to_string\<close> of a signed number.\<close>

definition to_string_int :: "int \<Rightarrow> string" where
  "to_string_int i = (if i < 0 then ''-'' @ to_string_nat (nat (- i)) else to_string_nat (nat i))"

definition messageFromSign :: "testForSend \<Rightarrow> string" where
  "messageFromSign r =
     tf_fromAddress r @ '';'' @ tf_fromName r @ '';'' @ tf_toAddress r @ '';'' @ tf_toName r @ '';'' @ to_string_u64 (tf_sizeData r) @ '';'' @
     to_string_int (tf_time r) @ '';'' @ to_string_nat (if tf_isSuccess r then 1 else 0)"

text \<open>\<open>std::quoted\<close> with the single quote: a quote or a backslash in the text gets a backslash.\<close>

definition single_quoted :: "string \<Rightarrow> string" where
  "single_quoted s = CHR 0x27 # concat (map (\<lambda>c. if c = CHR 0x27 \<or> c = CHR 0x5C then [CHR 0x5C, c] else [c]) s) @ [CHR 0x27]"

definition bare_quoted :: "string \<Rightarrow> string" where
  "bare_quoted s = CHR 0x27 # s @ [CHR 0x27]"

definition gen_one_result :: "testForSend \<Rightarrow> string" where
  "gen_one_result r =
     ''{'' @
     bare_quoted ''fromAddress'' @ '': '' @ single_quoted (tf_fromAddress r) @ '','' @
     bare_quoted ''fromName'' @ '': '' @ single_quoted (tf_fromName r) @ '','' @
     bare_quoted ''toAddress'' @ '': '' @ single_quoted (tf_toAddress r) @ '','' @
     bare_quoted ''toName'' @ '': '' @ single_quoted (tf_toName r) @ '','' @
     bare_quoted ''sizeData'' @ '': '' @ bare_quoted (to_string_u64 (tf_sizeData r)) @ '','' @
     bare_quoted ''time'' @ '': '' @ bare_quoted (to_string_int (tf_time r)) @ '','' @
     bare_quoted ''isSuccess'' @ '': '' @ bare_quoted (if tf_isSuccess r then ''1'' else ''0'') @ '','' @
     bare_quoted ''sign'' @ '': '' @ bare_quoted (tf_sign r) @ '','' @
     bare_quoted ''pubkey'' @ '': '' @ bare_quoted (tf_pubkey r) @
     ''}''"

definition genTestsResultResponse :: "testForSend list \<Rightarrow> string" where
  "genTestsResultResponse testsResults = ''{'' @ bare_quoted ''result'' @ '': ['' @ comma_sep (map gen_one_result testsResults) @ '']}''"

record 'w testerEnv =
  te_cr :: crypto
  te_ko :: keyOps
  te_requestAll :: "(string \<Rightarrow> string \<Rightarrow> string \<Rightarrow> string list \<Rightarrow> 'w \<Rightarrow> 'w \<times> sendOneResult list res) option"
  te_draw :: "'w \<Rightarrow> 'w \<times> nat"
  te_post :: "string \<Rightarrow> string \<Rightarrow> 'w \<Rightarrow> 'w \<times> string res"
  te_stop :: "'w \<Rightarrow> bool"
  te_unset :: int

text \<open>\<open>te_draw\<close> is one draw of the generator from 0 to 255.\<close>

primrec makeRandomString :: "'w testerEnv \<Rightarrow> nat \<Rightarrow> 'w \<Rightarrow> 'w \<times> string" where
  "makeRandomString te 0 w = (w, [])"
| "makeRandomString te (Suc n) w =
     (case te_draw te w of (w, c) \<Rightarrow> case makeRandomString te n w of (w, result) \<Rightarrow> (w, char_of c # result))"

type_synonym testResults = "(string, testResult list) fmap"

definition make_test_for_send ::
    "'w testerEnv \<Rightarrow> privateKey \<Rightarrow> string \<Rightarrow> (string, string) fmap \<Rightarrow> string \<Rightarrow> testResult \<Rightarrow> testForSend res" where
  "make_test_for_send te pk myIp nodesForTest key res =
     (let r = \<lparr>tf_fromAddress = myIp, tf_fromName = pk_address pk, tf_toAddress = key,
               tf_toName = (case fmlookup nodesForTest key of None \<Rightarrow> [] | Some name \<Rightarrow> name), tf_sizeData = ts_size res,
               tf_time = (case ts_time res of None \<Rightarrow> te_unset te | Some t \<Rightarrow> t), tf_isSuccess = (ts_time res \<noteq> None),
               tf_sign = [], tf_pubkey = ko_toHex (te_ko te) (pk_pubk pk)\<rparr>
      in rbind (makeTestResultSign (te_cr te) (te_ko te) (messageFromSign r) pk) (\<lambda>sign. Ok (r\<lparr>tf_sign := sign\<rparr>)))"

fun tests_of_node ::
    "'w testerEnv \<Rightarrow> privateKey \<Rightarrow> string \<Rightarrow> (string, string) fmap \<Rightarrow> size_t \<Rightarrow> string \<Rightarrow> testResult list \<Rightarrow> testForSend list res" where
  "tests_of_node te pk myIp nodesForTest sz key [] = Ok []"
| "tests_of_node te pk myIp nodesForTest sz key (res # rest) =
     (if ts_size res \<noteq> sz then tests_of_node te pk myIp nodesForTest sz key rest
      else rbind (make_test_for_send te pk myIp nodesForTest key res) (\<lambda>r.
           rbind (tests_of_node te pk myIp nodesForTest sz key rest) (\<lambda>rs. Ok (r # rs))))"

fun tests_to_send ::
    "'w testerEnv \<Rightarrow> privateKey \<Rightarrow> string \<Rightarrow> (string, string) fmap \<Rightarrow> size_t \<Rightarrow> (string \<times> testResult list) list \<Rightarrow> testForSend list res" where
  "tests_to_send te pk myIp nodesForTest sz [] = Ok []"
| "tests_to_send te pk myIp nodesForTest sz ((key, val) # rest) =
     rbind (tests_of_node te pk myIp nodesForTest sz key val) (\<lambda>rs.
     rbind (tests_to_send te pk myIp nodesForTest sz rest) (\<lambda>rs'. Ok (rs @ rs')))"

text \<open>The report that is posted is returned too.\<close>

definition sendTests ::
    "'w testerEnv \<Rightarrow> testResults \<Rightarrow> privateKey \<Rightarrow> string \<Rightarrow> (string, string) fmap \<Rightarrow> string \<Rightarrow> size_t \<Rightarrow> 'w \<Rightarrow>
     'w \<times> testForSend list res" where
  "sendTests te results pk myIp nodesForTest resultServer sz w =
     (case tests_to_send te pk myIp nodesForTest sz (entries results) of
        Inl e \<Rightarrow> (w, Err e)
      | Inr resultsForSend \<Rightarrow>
          (case te_post te resultServer (genTestsResultResponse resultsForSend) w of
             (w, r) \<Rightarrow> (w, rbind r (\<lambda>_. Ok resultsForSend))))"

section \<open>A round of tests\<close>

definition add_result :: "string \<Rightarrow> testResult \<Rightarrow> testResults \<Rightarrow> testResults" where
  "add_result server res results = fmupd server ((case fmlookup results server of None \<Rightarrow> [] | Some rs \<Rightarrow> rs) @ [res]) results"

text \<open>The answer of one node: only the exception of \<open>CHECK\<close> is caught around the check of the signature.\<close>

definition test_outcome :: "'w testerEnv \<Rightarrow> string \<Rightarrow> size_t \<Rightarrow> sendOneResult \<Rightarrow> testResult res" where
  "test_outcome te body sz res =
     (case rp_error (so_response res) of
        Some e \<Rightarrow> Ok \<lparr>ts_time = None, ts_size = sz\<rparr>
      | None \<Rightarrow>
          (case checkSignatureTest (te_cr te) (te_ko te) body (rp_response (so_response res)) of
             Inr _ \<Rightarrow> Ok \<lparr>ts_time = Some (so_time res), ts_size = sz\<rparr>
           | Inl (Exception e) \<Rightarrow> Ok \<lparr>ts_time = None, ts_size = sz\<rparr>
           | Inl e \<Rightarrow> Err e))"

fun collect_results :: "'w testerEnv \<Rightarrow> string \<Rightarrow> size_t \<Rightarrow> sendOneResult list \<Rightarrow> testResults \<Rightarrow> testResults res" where
  "collect_results te body sz [] results = Ok results"
| "collect_results te body sz (res # rest) results =
     rbind (test_outcome te body sz res) (\<lambda>r. collect_results te body sz rest (add_result (so_server res) r results))"

definition test_size ::
    "'w testerEnv \<Rightarrow> testP2PNodes \<Rightarrow> (string \<Rightarrow> string \<Rightarrow> string \<Rightarrow> string list \<Rightarrow> 'w \<Rightarrow> 'w \<times> sendOneResult list res) \<Rightarrow>
     (string, string) fmap \<Rightarrow> size_t \<Rightarrow> testResults \<Rightarrow> 'w \<Rightarrow> 'w \<times> (testResults \<times> testForSend list) res" where
  "test_size te tn requestAll nodesForTest sz results w =
     (case makeRandomString te (unat sz) w of
        (w, body) \<Rightarrow>
          (case requestAll ''sign-test-string'' body [] (sorted_list_of_fset (fmdom nodesForTest)) w of
             (w, Inl e) \<Rightarrow> (w, Err e)
           | (w, Inr testResult) \<Rightarrow>
               (case collect_results te body sz testResult results of
                  Inl e \<Rightarrow> (w, Err e)
                | Inr results \<Rightarrow>
                    (case tn_privateKey tn of
                       None \<Rightarrow> (w, Err (Exception ''Private key not setted''))
                     | Some pk \<Rightarrow>
                         (case sendTests te results pk (tn_myIp tn) nodesForTest (tn_resultServer tn) sz w of
                            (w, r) \<Rightarrow> (w, rbind r (\<lambda>report. Ok (results, report))))))))"

definition test_sizes :: "size_t list" where
  "test_sizes = [1 * 1024, 2 * 1024, 4 * 1024, 8 * 1024, 16 * 1024]"

text \<open>A round ends, fails, or is stopped by the signal that is looked at behind each size.\<close>

datatype round = Completed | Failed error | Stopped

fun test_round ::
    "'w testerEnv \<Rightarrow> testP2PNodes \<Rightarrow> (string \<Rightarrow> string \<Rightarrow> string \<Rightarrow> string list \<Rightarrow> 'w \<Rightarrow> 'w \<times> sendOneResult list res) \<Rightarrow>
     (string, string) fmap \<Rightarrow> size_t list \<Rightarrow> testResults \<Rightarrow> 'w \<Rightarrow> 'w \<times> testForSend list list \<times> testResults \<times> round" where
  "test_round te tn requestAll nodesForTest [] results w = (w, [], results, Completed)"
| "test_round te tn requestAll nodesForTest (sz # szs) results w =
     (case test_size te tn requestAll nodesForTest sz results w of
        (w, Inl e) \<Rightarrow> (w, [], results, Failed e)
      | (w, Inr (results, report)) \<Rightarrow>
          if te_stop te w then (w, [report], results, Stopped)
          else (case test_round te tn requestAll nodesForTest szs results w of
                  (w, reports, results, r) \<Rightarrow> (w, report # reports, results, r)))"

definition work_round :: "'w testerEnv \<Rightarrow> testP2PNodes \<Rightarrow> 'w \<Rightarrow> 'w \<times> testForSend list list \<times> testResults \<times> round" where
  "work_round te tn w =
     (case te_requestAll te of
        None \<Rightarrow> (w, [], fmempty, Failed (Exception ''P2P not set''))
      | Some requestAll \<Rightarrow>
          if \<not> tn_workerTest tn then (w, [], fmempty, Failed (Exception ''Worker test not setted''))
          else test_round te tn requestAll (transformMap (tn_testedNodes tn) (tn_defaultPortTorrent tn)) test_sizes fmempty w)"

text \<open>The counts of the log line.\<close>

definition count_answers :: "testResult list \<Rightarrow> nat" where
  "count_answers rs = length (filter (\<lambda>r. ts_time r \<noteq> None) rs)"

definition lifeServers :: "testResults \<Rightarrow> nat" where
  "lifeServers results = length (filter (\<lambda>(_, rs). 0 < count_answers rs) (entries results))"

definition completeServers :: "testResults \<Rightarrow> nat" where
  "completeServers results = length (filter (\<lambda>(_, rs). count_answers rs = length test_sizes) (entries results))"

text \<open>The thread: rounds, with a pause between them, until the program is stopped. The value is the world and whether the
  thread has ended.\<close>

primrec work :: "nat \<Rightarrow> 'w testerEnv \<Rightarrow> ('w \<Rightarrow> 'w) \<Rightarrow> testP2PNodes \<Rightarrow> 'w \<Rightarrow> 'w \<times> bool" where
  "work 0 te pause tn w = (w, False)"
| "work (Suc n) te pause tn w =
     (case work_round te tn w of
        (w, reports, results, Stopped) \<Rightarrow> (w, True)
      | (w, _) \<Rightarrow> work n te pause tn (pause w))"

section \<open>The check of an answer\<close>

lemma checkSignatureTest_fields:
  assumes "length (serializeString sign @ serializeString pubkey @ serializeString address @ rest) < 2 ^ 64"
  shows "checkSignatureTest cr ko body (serializeString sign @ serializeString pubkey @ serializeString address @ rest) =
    rbind (CHECK (crypto_check_sign_data cr sign pubkey body) ''Not validate'') (\<lambda>_.
    rbind (makeAddressFromSecpKey cr ko pubkey) (\<lambda>a. CHECK (a = address) ''Not validate''))"
proof -
  let ?s = "serializeString sign" and ?p = "serializeString pubkey" and ?a = "serializeString address"
  have d: "deserializeStringBigEndian (pre @ serializeString x @ post) (of_nat (length pre)) =
      Ok (x, of_nat (length (pre @ serializeString x)))" if "length (pre @ serializeString x @ post) < 2 ^ 64" for pre x post
    using encodesD [OF encodes_deserializeString that] by (simp only: deserializeString_def)
  have r: "deserializeStringBigEndian (?s @ ?p @ ?a @ rest) 0 = Ok (sign, of_nat (length ?s))"
    "deserializeStringBigEndian (?s @ ?p @ ?a @ rest) (of_nat (length ?s)) = Ok (pubkey, of_nat (length (?s @ ?p)))"
    "deserializeStringBigEndian (?s @ ?p @ ?a @ rest) (of_nat (length (?s @ ?p))) = Ok (address, of_nat (length (?s @ ?p @ ?a)))"
    using assms d [of "[]" sign "?p @ ?a @ rest"] d [of ?s pubkey "?a @ rest"] d [of "?s @ ?p" address rest]
    by (simp_all del: length_append length_serializeString)
  show ?thesis unfolding checkSignatureTest_def r rbind_simps split ..
qed

text \<open>The answer a node gives to a test: its signature of the text, in the form of the signature of a block.\<close>

lemma signed_answer_passes:
  assumes "ecdsa_correct cr ko" and "PrivateKey_new cr ko key address = Ok pk" and "pk_isSecp pk" and "ko_toLower ko address = address"
    and "secp_pubkey_parse ko (pk_pubk pk) = Some (pk_pubk pk)" and "makeBlockSign cr ko body pk = Ok answer" and "length answer < 2 ^ 64"
  shows "checkSignatureTest cr ko body answer = Ok ()"
proof -
  obtain sign where sign: "PrivateKey_sign cr ko pk body = Ok sign"
    and answer: "answer = serializeString sign @ serializeString (pk_pubk pk) @ serializeString (pk_address pk) @ []"
    using assms(6) by (auto simp: makeBlockSign_def rbind_Ok_iff serialize_alias serializeStringBigEndian_def)
  have a: "pk_address pk = address" "get_address cr (pk_pubk pk) = Ok address"
    using PrivateKey_new_secp [OF assms(2,3)] assms(4) by auto
  show ?thesis
    using checkSignatureTest_fields [of sign "pk_pubk pk" address "[]" cr ko body] assms(5,7) sign_verifies [OF assms(1-3) sign]
    by (simp add: answer a makeAddressFromSecpKey_def require_def)
qed

section \<open>The report of one size\<close>

definition results_of :: "testResults \<Rightarrow> string \<Rightarrow> testResult list" where
  "results_of results k = (case fmlookup results k of None \<Rightarrow> [] | Some rs \<Rightarrow> rs)"

definition test_passed :: "'w testerEnv \<Rightarrow> string \<Rightarrow> sendOneResult \<Rightarrow> bool" where
  "test_passed te body s \<longleftrightarrow>
     rp_error (so_response s) = None \<and> checkSignatureTest (te_cr te) (te_ko te) body (rp_response (so_response s)) = Ok ()"

definition expected :: "'w testerEnv \<Rightarrow> string \<Rightarrow> size_t \<Rightarrow> sendOneResult \<Rightarrow> testResult" where
  "expected te body sz s = \<lparr>ts_time = (if test_passed te body s then Some (so_time s) else None), ts_size = sz\<rparr>"

lemma expected_simps [simp]: "ts_size (expected te body sz s) = sz" "ts_time (expected te body sz s) = None \<longleftrightarrow> \<not> test_passed te body s"
  by (simp_all add: expected_def)

lemma test_outcome_Ok:
  assumes "test_outcome te body sz s = Ok r"
  shows "r = expected te body sz s"
  using assms by (auto simp: test_outcome_def test_passed_def expected_def split: option.split_asm sum.split_asm error.split_asm)

lemma results_of_add: "results_of (add_result s r results) k = results_of results k @ (if k = s then [r] else [])"
  by (simp add: results_of_def add_result_def)

lemma collect_results_Ok:
  "collect_results te body sz sends results = Ok results' \<Longrightarrow>
     results_of results' k = results_of results k @ map (expected te body sz) (filter (\<lambda>s. so_server s = k) sends)"
proof (induction sends arbitrary: results)
  case (Cons s sends)
  then obtain r where "test_outcome te body sz s = Ok r" "collect_results te body sz sends (add_result (so_server s) r results) = Ok results'"
    by (auto simp: rbind_Ok_iff)
  then show ?case using Cons.IH test_outcome_Ok [of te body sz s r] by (simp add: results_of_add)
qed simp

lemma tests_of_node_Ok:
  "tests_of_node te pk ip nodes sz key rs = Ok out \<Longrightarrow>
     list_all2 (\<lambda>res r. make_test_for_send te pk ip nodes key res = Ok r) (filter (\<lambda>res. ts_size res = sz) rs) out"
  by (induction rs arbitrary: out) (auto simp: rbind_Ok_iff split: if_splits)

lemma set_list_all2_Ok: "list_all2 (\<lambda>x y. f x = Ok y) xs ys \<Longrightarrow> y \<in> set ys \<longleftrightarrow> (\<exists>x\<in>set xs. f x = Ok y)"
  by (induction rule: list_all2_induct) auto

lemma ex_list_all2_Ok: "list_all2 (\<lambda>x y. f x = Ok y) xs ys \<Longrightarrow> x \<in> set xs \<Longrightarrow> \<exists>y\<in>set ys. f x = Ok y"
  by (induction rule: list_all2_induct) auto

lemma tests_to_send_Ok:
  "tests_to_send te pk ip nodes sz es = Ok out \<Longrightarrow>
     r \<in> set out \<longleftrightarrow> (\<exists>key rs res. (key, rs) \<in> set es \<and> res \<in> set rs \<and> ts_size res = sz \<and> make_test_for_send te pk ip nodes key res = Ok r)"
proof (induction es arbitrary: out)
  case (Cons e es)
  obtain key rs where e: "e = (key, rs)" by (cases e)
  obtain o1 o2 where o: "tests_of_node te pk ip nodes sz key rs = Ok o1" "tests_to_send te pk ip nodes sz es = Ok o2" "out = o1 @ o2"
    using Cons.prems by (auto simp: e rbind_Ok_iff)
  have "r \<in> set o1 \<longleftrightarrow> (\<exists>res. res \<in> set rs \<and> ts_size res = sz \<and> make_test_for_send te pk ip nodes key res = Ok r)"
    using set_list_all2_Ok [OF tests_of_node_Ok [OF o(1)], of r] by auto
  then show ?case using Cons.IH [OF o(2)] by (auto simp: o(3) e)
qed simp

text \<open>What a report says: of each node that was asked whether it passed, and each entry is signed by the reporting node.\<close>

definition faithful_report :: "'w testerEnv \<Rightarrow> testP2PNodes \<Rightarrow> size_t \<Rightarrow> string \<Rightarrow> sendOneResult list \<Rightarrow> testForSend list \<Rightarrow> bool" where
  "faithful_report te tn sz body sends report \<longleftrightarrow>
     (\<lambda>r. (tf_toAddress r, tf_isSuccess r)) ` set report = (\<lambda>s. (so_server s, test_passed te body s)) ` set sends \<and>
     (\<forall>r\<in>set report. tf_sizeData r = sz \<and>
        (\<exists>pk. tn_privateKey tn = Some pk \<and> makeTestResultSign (te_cr te) (te_ko te) (messageFromSign r) pk = Ok (tf_sign r)))"

lemma make_test_for_send_Ok:
  assumes "make_test_for_send te pk ip nodes key res = Ok r"
  shows "tf_toAddress r = key \<and> tf_isSuccess r = (ts_time res \<noteq> None) \<and> tf_sizeData r = ts_size res \<and>
    makeTestResultSign (te_cr te) (te_ko te) (messageFromSign r) pk = Ok (tf_sign r)"
  using assms by (auto simp: make_test_for_send_def Let_def rbind_Ok_iff messageFromSign_def)

lemma make_test_for_send_total:
  assumes "tests_to_send te pk ip nodes sz es = Ok out" and "(key, rs) \<in> set es" and "res \<in> set rs" and "ts_size res = sz"
  shows "\<exists>r\<in>set out. make_test_for_send te pk ip nodes key res = Ok r"
  using assms
proof (induction es arbitrary: out)
  case (Cons e es)
  obtain key' rs' where e: "e = (key', rs')" by (cases e)
  obtain o1 o2 where o: "tests_of_node te pk ip nodes sz key' rs' = Ok o1" "tests_to_send te pk ip nodes sz es = Ok o2" "out = o1 @ o2"
    using Cons.prems(1) by (auto simp: e rbind_Ok_iff)
  show ?case
  proof (cases "(key, rs) = e")
    case True
    then have "res \<in> set (filter (\<lambda>res. ts_size res = sz) rs')" using Cons.prems(3,4) by (simp add: e)
    then show ?thesis using ex_list_all2_Ok [OF tests_of_node_Ok [OF o(1)]] True by (auto simp: o(3) e)
  next
    case False
    then show ?thesis using Cons.IH [OF o(2)] Cons.prems(2-4) by (auto simp: o(3))
  qed
qed simp

lemma report_entries:
  assumes col: "collect_results te body sz sends results = Ok results'" and fresh: "\<forall>k. \<forall>r\<in>set (results_of results k). ts_size r \<noteq> sz"
    and rep: "tests_to_send te pk ip nodes sz (entries results') = Ok report"
  shows "r \<in> set report \<longleftrightarrow> (\<exists>s\<in>set sends. make_test_for_send te pk ip nodes (so_server s) (expected te body sz s) = Ok r)"
    and "s \<in> set sends \<Longrightarrow> \<exists>r. make_test_for_send te pk ip nodes (so_server s) (expected te body sz s) = Ok r"
proof -
  have ent: "(\<exists>rs. (k, rs) \<in> set (entries results') \<and> res \<in> set rs) \<longleftrightarrow> res \<in> set (results_of results' k)" for k res
    by (cases "fmlookup results' k") (auto simp: set_entries results_of_def)
  have new: "res \<in> set (results_of results' k) \<and> ts_size res = sz \<longleftrightarrow> (\<exists>s\<in>set sends. so_server s = k \<and> res = expected te body sz s)" for k res
    using fresh by (auto simp: collect_results_Ok [OF col])
  show "r \<in> set report \<longleftrightarrow> (\<exists>s\<in>set sends. make_test_for_send te pk ip nodes (so_server s) (expected te body sz s) = Ok r)"
    using tests_to_send_Ok [OF rep, of r] ent new by metis
  assume "s \<in> set sends"
  then obtain rs where "(so_server s, rs) \<in> set (entries results')" "expected te body sz s \<in> set rs"
    using new [of "expected te body sz s" "so_server s"] ent by blast
  then show "\<exists>r. make_test_for_send te pk ip nodes (so_server s) (expected te body sz s) = Ok r"
    using make_test_for_send_total [OF rep] by fastforce
qed

lemma test_size_report:
  assumes run: "test_size te tn requestAll nodes sz results w = (w', Ok (results', report))"
    and fresh: "\<forall>k. \<forall>r\<in>set (results_of results k). ts_size r \<noteq> sz"
  obtains w1 body w2 sends where "makeRandomString te (unat sz) w = (w1, body)"
    and "requestAll ''sign-test-string'' body [] (sorted_list_of_fset (fmdom nodes)) w1 = (w2, Ok sends)"
    and "faithful_report te tn sz body sends report" and "collect_results te body sz sends results = Ok results'"
proof -
  obtain w1 body w2 sends pk where rb: "makeRandomString te (unat sz) w = (w1, body)"
    "requestAll ''sign-test-string'' body [] (sorted_list_of_fset (fmdom nodes)) w1 = (w2, Ok sends)"
    and col: "collect_results te body sz sends results = Ok results'" and pk: "tn_privateKey tn = Some pk"
    and rep: "tests_to_send te pk (tn_myIp tn) nodes sz (entries results') = Ok report"
    using run by (auto simp: test_size_def sendTests_def rbind_Ok_iff split: prod.splits sum.splits option.splits)
  note mem = report_entries [OF col fresh rep]
  have "(\<lambda>r. (tf_toAddress r, tf_isSuccess r)) ` set report = (\<lambda>s. (so_server s, test_passed te body s)) ` set sends"
  proof (intro set_eqI iffI)
    fix x assume "x \<in> (\<lambda>r. (tf_toAddress r, tf_isSuccess r)) ` set report"
    then obtain r s where "x = (tf_toAddress r, tf_isSuccess r)" "s \<in> set sends"
      "make_test_for_send te pk (tn_myIp tn) nodes (so_server s) (expected te body sz s) = Ok r" using mem(1) by blast
    then show "x \<in> (\<lambda>s. (so_server s, test_passed te body s)) ` set sends"
      using make_test_for_send_Ok [of te pk "tn_myIp tn" nodes "so_server s" "expected te body sz s" r] by auto
  next
    fix x assume "x \<in> (\<lambda>s. (so_server s, test_passed te body s)) ` set sends"
    then obtain s where s: "x = (so_server s, test_passed te body s)" "s \<in> set sends" by blast
    then obtain r where "make_test_for_send te pk (tn_myIp tn) nodes (so_server s) (expected te body sz s) = Ok r" using mem(2) by blast
    then show "x \<in> (\<lambda>r. (tf_toAddress r, tf_isSuccess r)) ` set report"
      using make_test_for_send_Ok [of te pk "tn_myIp tn" nodes "so_server s" "expected te body sz s" r] mem(1) [of r] s by force
  qed
  moreover have "tf_sizeData r = sz \<and> makeTestResultSign (te_cr te) (te_ko te) (messageFromSign r) pk = Ok (tf_sign r)" if r: "r \<in> set report" for r
  proof -
    obtain s where "make_test_for_send te pk (tn_myIp tn) nodes (so_server s) (expected te body sz s) = Ok r" using r mem(1) [of r] by blast
    from make_test_for_send_Ok [OF this] show ?thesis by simp
  qed
  ultimately have "faithful_report te tn sz body sends report" by (simp add: faithful_report_def pk)
  then show ?thesis by (rule that [OF rb _ col])
qed

text \<open>One request for a size, and the report on it.\<close>

definition reported_size ::
    "'w testerEnv \<Rightarrow> testP2PNodes \<Rightarrow> (string \<Rightarrow> string \<Rightarrow> string \<Rightarrow> string list \<Rightarrow> 'w \<Rightarrow> 'w \<times> sendOneResult list res) \<Rightarrow>
     (string, string) fmap \<Rightarrow> size_t \<Rightarrow> testForSend list \<Rightarrow> bool" where
  "reported_size te tn requestAll nodes sz report \<longleftrightarrow>
     (\<exists>w w1 body w2 sends. makeRandomString te (unat sz) w = (w1, body) \<and>
        requestAll ''sign-test-string'' body [] (sorted_list_of_fset (fmdom nodes)) w1 = (w2, Ok sends) \<and>
        faithful_report te tn sz body sends report)"

lemma test_round_reports:
  assumes "test_round te tn requestAll nodes szs results w = (w', reports, results', Completed)" and "distinct szs"
    and "\<forall>k. \<forall>r\<in>set (results_of results k). ts_size r \<notin> set szs"
  shows "list_all2 (reported_size te tn requestAll nodes) szs reports"
  using assms
proof (induction szs arbitrary: results w reports)
  case (Cons sz szs)
  obtain w1 results1 report reports' where t: "test_size te tn requestAll nodes sz results w = (w1, Ok (results1, report))"
    and rest: "test_round te tn requestAll nodes szs results1 w1 = (w', reports', results', Completed)" and r: "reports = report # reports'"
    using Cons.prems(1) by (auto split: prod.splits sum.splits if_splits)
  have fresh: "\<forall>k. \<forall>r\<in>set (results_of results k). ts_size r \<noteq> sz" using Cons.prems(3) by auto
  obtain w1' body w2 sends where one: "makeRandomString te (unat sz) w = (w1', body)"
    "requestAll ''sign-test-string'' body [] (sorted_list_of_fset (fmdom nodes)) w1' = (w2, Ok sends)"
    "faithful_report te tn sz body sends report" and col: "collect_results te body sz sends results = Ok results1"
    by (rule test_size_report [OF t fresh])
  have "reported_size te tn requestAll nodes sz report" unfolding reported_size_def using one by blast
  moreover have "\<forall>k. \<forall>r\<in>set (results_of results1 k). ts_size r \<notin> set szs"
    using Cons.prems(2,3) by (auto simp: collect_results_Ok [OF col])
  ultimately show ?case using Cons.IH [OF rest] Cons.prems(2) by (simp add: r)
qed simp

section \<open>A node of this program under test\<close>

text \<open>Texts whose first byte is the one of an opening brace can not begin with a length that fits: the position behind the
  first string lies behind the end of the text.\<close>

primrec be_number :: "string \<Rightarrow> nat" where
  "be_number [] = 0"
| "be_number (c # cs) = of_char c * 256 ^ length cs + be_number cs"

lemma be_number_less: "be_number cs < 256 ^ length cs"
proof (induction cs)
  case (Cons c cs)
  have "of_char c < (256 :: nat)" by (rule of_char_less_256)
  then have "of_char c \<le> (255 :: nat)" by linarith
  then have "of_char c * 256 ^ length cs \<le> 255 * (256 :: nat) ^ length cs" by (rule mult_right_mono) simp
  then have "of_char c * 256 ^ length cs + be_number cs < 256 * 256 ^ length cs" using Cons by linarith
  then show ?case by simp
qed simp

lemma be_value_number: "be_value cs = of_nat (be_number cs)"
proof -
  have "foldl (\<lambda>val c. val * 256 + of_nat (of_char c)) v cs = v * 256 ^ length cs + of_nat (be_number cs)" for v :: "'a::len word"
    by (induction cs arbitrary: v) (simp_all add: algebra_simps)
  then show ?thesis by (simp add: be_value_def)
qed

lemma brace_length:
  assumes "length raw < 2 ^ 62" and "raw = CHR 0x7B # rest"
  shows "checkSignatureTest cr ko body raw = Err (Exception ''Incorrect raw'')"
proof (cases "length raw < 8")
  case True
  then have "deserializeString raw 0 = Err (Exception ''Incorrect raw'')" by (intro deserializeString_short) simp_all
  then show ?thesis by (simp add: checkSignatureTest_def deserializeString_def)
next
  case False
  let ?n = "be_number (take 8 raw)"
  have t: "take 8 raw = CHR 0x7B # take 7 rest" "min (length rest) 7 = 7" using False assms(2) by simp_all
  have n: "123 * 256 ^ 7 \<le> ?n" "?n < 124 * 256 ^ 7" using be_number_less [of "take 7 rest"] unfolding t(1) by (simp_all add: t(2))
  have u: "unat (of_nat ?n :: size_t) = ?n" using n by (intro unat_of_nat_u64) simp
  have first: "deserializeStringBigEndian3 raw 0 = rbind (substr raw 8 (of_nat ?n)) (\<lambda>str. Ok (str, 8 + of_nat ?n))"
    using fromBinaryStringBigEndian_in_range [where ?'a = 64, of raw 0] False assms(1)
    by (simp add: deserializeStringBigEndian3_def deserializeIntBigEndian3_def be_value_number)
  have s: "unat (8 + of_nat ?n :: size_t) = 8 + ?n" using n u by (simp add: unat_word_ariths)
  have "\<not> size_of raw < 8" using False assms(1) by (simp add: word_less_nat_alt)
  then obtain str where "substr raw 8 (of_nat ?n) = Ok str" by (simp add: substr_def)
  moreover have "(8 :: size_t) + of_nat ?n \<noteq> 0" using s by (metis add_is_0 unat_0 zero_neq_numeral)
  ultimately have "deserializeStringBigEndian raw 0 = Ok (str, 8 + of_nat ?n)" by (simp add: deserializeStringBigEndian_def first)
  moreover have "deserializeStringBigEndian raw (8 + of_nat ?n) = Err (Exception ''Incorrect raw'')"
    using deserializeString_short [of raw "8 + of_nat ?n"] assms(1) n by (simp add: s deserializeString_def)
  ultimately show ?thesis by (simp add: checkSignatureTest_def)
qed

text \<open>What the node relies on of the writer of JSON text: an object begins with its brace.\<close>

definition prints_braces :: "(json \<Rightarrow> bool \<Rightarrow> string) \<Rightarrow> bool" where
  "prints_braces print \<longleftrightarrow> (\<forall>ms pretty. \<exists>rest. print (JObject ms) pretty = CHR 0x7B # rest)"

lemma test_query_refused:
  assumes "rq_url rq = ''/sign-test-string''"
  shows "\<exists>e. snd (run_request se mc nv st rq) = Err e"
proof -
  have f: "request_func rq doc = Ok ''sign-test-string''" for doc by (simp add: request_func_def assms)
  have "run_func se mc nv st ''sign-test-string'' doc i v p = Err (UserException (''Incorrect func '' @ ''sign-test-string''))" for doc i v p
    by (simp add: run_func_def)
  then have "\<exists>e. rbind (request_version doc) (\<lambda>v. rbind (bool_member doc ''pretty'' False) (\<lambda>p.
      run_func se mc nv st ''sign-test-string'' doc i v p)) = Err e" for doc i
    by (cases "request_version doc"; cases "bool_member doc ''pretty'' False") simp_all
  then show ?thesis
    by (cases "request_document se rq"; cases "request_id (projr (request_document se rq))") (simp_all add: run_request_def f)
qed

section \<open>Properties\<close>


text \<open>A node that reports on one other node, which signs the text.\<close>

definition demo_key :: privateKey where
  "demo_key = \<lparr>pk_privateKey = replicate 39 (CHR ''s''), pk_pubk = replicate 65 (CHR ''k''), pk_address = ''0x00046b00046b30'', pk_isSecp = True\<rparr>"

definition demo_answer :: string where
  "demo_answer = serializeString ''bbbb'' @ serializeString (replicate 65 (CHR ''k'')) @ serializeString ''0x00046b00046b30''"

definition demo_tester :: "unit testerEnv" where
  "demo_tester = \<lparr>te_cr = sample_crypto, te_ko = sample_keyOps,
     te_requestAll = Some (\<lambda>qs body header servers w.
       (w, Ok [\<lparr>so_server = ''n:1'', so_response = \<lparr>rp_response = demo_answer, rp_error = None\<rparr>, so_time = 7\<rparr>])),
     te_draw = (\<lambda>w. (w, 98)), te_post = (\<lambda>server report w. (w, Ok ''ok'')), te_stop = (\<lambda>w. False), te_unset = 0\<rparr>"

definition demo_nodes :: testP2PNodes where
  "demo_nodes = addWorkerTest (setPrivateKey demo_key (TestP2PNodes_new (\<lambda>s. s) ''n name'' ''m'' ''report'' 1))"

lemma tests_to_send_total:
  assumes "\<And>key res. \<exists>r. make_test_for_send te pk ip nodes key res = Ok r"
  shows "\<exists>out. tests_to_send te pk ip nodes sz es = Ok out"
proof (induction es)
  case (Cons e es)
  obtain key rs where e: "e = (key, rs)" by (cases e)
  have "\<exists>out. tests_of_node te pk ip nodes sz key rs = Ok out"
  proof (induction rs)
    case (Cons res rs)
    then show ?case using assms [of key res] by auto
  qed simp
  then show ?case using Cons by (auto simp: e)
qed simp

lemma demo_body: "makeRandomString demo_tester n () = ((), replicate n CHR ''b'')"
proof -
  have "char_of (98 :: nat) = CHR ''b''" by code_simp
  then show ?thesis by (induction n) (simp_all add: demo_tester_def)
qed

lemma demo_passes:
  assumes "4 \<le> n"
  shows "checkSignatureTest sample_crypto sample_keyOps (replicate n CHR ''b'') demo_answer = Ok ()"
proof -
  have sign: "take 4 (replicate n CHR ''b'' @ ''0000'') = ''bbbb''" using assms by (simp add: numeral_eq_Suc)
  have low: "ko_toLower sample_keyOps ''0x00046b00046b30'' = ''0x00046b00046b30''" by (simp add: sample_keyOps_def)
  have "makeBlockSign sample_crypto sample_keyOps (replicate n CHR ''b'') demo_key = Ok demo_answer"
    using sign by (simp add: makeBlockSign_def demo_key_def demo_answer_def PrivateKey_sign_def PrivateKey_sign_secp_def secret_bytes_def require_def
        sample_defs serialize_alias serializeStringBigEndian_def)
  then show ?thesis
    by (intro signed_answer_passes [OF sample_ecdsa sample_key [OF low, folded demo_key_def]])
      (simp_all add: low, simp_all add: demo_key_def demo_answer_def sample_keyOps_def)
qed

lemma demo_round: "\<exists>reports results'. work_round demo_tester demo_nodes () = ((), reports, results', Completed)"
proof -
  let ?s = "\<lparr>so_server = ''n:1'', so_response = \<lparr>rp_response = demo_answer, rp_error = None\<rparr>, so_time = 7\<rparr>"
  obtain req where req: "te_requestAll demo_tester = Some req" "\<And>qs body h ss. req qs body h ss () = ((), Ok [?s])" by (simp add: demo_tester_def)
  have out: "test_outcome demo_tester (replicate (unat sz) CHR ''b'') sz ?s = Ok \<lparr>ts_time = Some 7, ts_size = sz\<rparr>" if "4 \<le> unat sz" for sz
    using demo_passes [OF that] by (simp add: test_outcome_def demo_tester_def)
  have key: "tn_privateKey demo_nodes = Some demo_key" "tn_workerTest demo_nodes"
    by (simp_all add: demo_nodes_def addWorkerTest_def setPrivateKey_def)
  have "\<exists>r. make_test_for_send demo_tester demo_key ip nodes key res = Ok r" for ip nodes key res
    by (simp add: make_test_for_send_def makeTestResultSign_def PrivateKey_sign_def PrivateKey_sign_secp_def secret_bytes_def require_def
        demo_tester_def demo_key_def sample_keyOps_def Let_def)
  then have send: "\<exists>report. sendTests demo_tester results demo_key ip nodes server sz () = ((), Ok report)" for results ip nodes server sz
    using tests_to_send_total [of demo_tester demo_key ip nodes sz "entries results"] by (auto simp: sendTests_def) (simp add: demo_tester_def)
  have size: "\<exists>results' report. test_size demo_tester demo_nodes req nodes sz results () = ((), Ok (results', report))" if "4 \<le> unat sz" for nodes sz results
  proof -
    obtain report where "sendTests demo_tester (add_result ''n:1'' \<lparr>ts_time = Some 7, ts_size = sz\<rparr> results) demo_key (tn_myIp demo_nodes) nodes
        (tn_resultServer demo_nodes) sz () = ((), Ok report)" using send by blast
    then show ?thesis by (simp add: test_size_def demo_body req(2) out [OF \<open>4 \<le> unat sz\<close>] key)
  qed
  have "\<exists>reports results'. test_round demo_tester demo_nodes req nodes szs results () = ((), reports, results', Completed)"
    if "\<forall>sz\<in>set szs. 4 \<le> unat sz" for nodes szs results
    using that
  proof (induction szs arbitrary: results)
    case (Cons sz szs)
    obtain results1 report where one: "test_size demo_tester demo_nodes req nodes sz results () = ((), Ok (results1, report))"
      using size [of sz nodes results] Cons.prems by auto
    obtain reports results2 where "test_round demo_tester demo_nodes req nodes szs results1 () = ((), reports, results2, Completed)"
      using Cons.IH [of results1] Cons.prems by auto
    then show ?case by (simp add: one) (simp add: demo_tester_def)
  qed simp
  moreover have "\<forall>sz\<in>set test_sizes. 4 \<le> unat sz" by (simp add: test_sizes_def)
  ultimately show ?thesis by (simp add: work_round_def req(1) key)
qed




end
