(* ===== verification/Startup.thy ===== *)
theory Startup
  imports SyncLoop NodeTester
begin

text \<open>
  \<^verbatim>\<open>src/src/main.cpp\<close>, \<^verbatim>\<open>nslookup.cpp\<close>, \<^verbatim>\<open>utils/checkVirtual.cpp\<close> and \<^verbatim>\<open>utils/Counter.h\<close>: from the settings of the configuration file to a created node. libconfig, the resolver, the timed
  requests and the call that asks for the own address are parameters. \<open>std::sort\<close> puts equal elements in any order, so it is a parameter too.
\<close>

section \<open>The best address of a server\<close>

record nsResult =
  nr_server :: string
  nr_timeout :: u64

record 'w nsEnv =
  ne_isIp :: "string \<Rightarrow> bool"
  ne_lookup :: "string \<Rightarrow> 'w \<Rightarrow> 'w \<times> string list res"
  ne_timed :: "string \<Rightarrow> 'w \<Rightarrow> 'w \<times> u64 res"
  ne_sort :: "nsResult list \<Rightarrow> nsResult list"

text \<open>\<open>std::string::find\<close> and \<open>std::stoi\<close>.\<close>

fun find_text :: "string \<Rightarrow> string \<Rightarrow> nat option" where
  "find_text p [] = (if p = [] then Some 0 else None)"
| "find_text p (c # s) = (if take (length p) (c # s) = p then Some 0 else map_option Suc (find_text p s))"

definition stoi :: "string \<Rightarrow> int res" where
  "stoi s = rbind (stoll s) (\<lambda>v. if v < - (2 ^ 31) \<or> 2 ^ 31 \<le> v then Err (StdException ''out_of_range'') else Ok v)"

definition split_address :: "string \<Rightarrow> (string \<times> string \<times> int) res" where
  "split_address address =
     (let (scheme, server) = (case find_text ''://'' address of
            Some foundScheme \<Rightarrow> (take (foundScheme + 3) address, drop (foundScheme + 3) address)
          | None \<Rightarrow> ([], address))
      in case find_text '':'' server of
           None \<Rightarrow> Ok (scheme, server, 0)
         | Some foundPort \<Rightarrow> rbind (stoi (drop (foundPort + 1) server)) (\<lambda>port. Ok (scheme, take foundPort server, port)))"

definition server_name :: "string \<Rightarrow> string \<Rightarrow> int \<Rightarrow> string" where
  "server_name scheme host port = scheme @ host @ (if port \<noteq> 0 then '':'' @ to_string_int port else [])"

fun measure_servers :: "'w nsEnv \<Rightarrow> string \<Rightarrow> int \<Rightarrow> string list \<Rightarrow> 'w \<Rightarrow> 'w \<times> nsResult list res" where
  "measure_servers env scheme port [] w = (w, Ok [])"
| "measure_servers env scheme port (r # rs) w =
     (let serv = server_name scheme r port
      in case ne_timed env serv w of
           (w, Inr ms) \<Rightarrow> (case measure_servers env scheme port rs w of (w, pr) \<Rightarrow> (w, rbind pr (\<lambda>pr. Ok (\<lparr>nr_server = serv, nr_timeout = ms\<rparr> # pr))))
         | (w, Inl (Exception _)) \<Rightarrow>
             (case measure_servers env scheme port rs w of (w, pr) \<Rightarrow> (w, rbind pr (\<lambda>pr. Ok (\<lparr>nr_server = serv, nr_timeout = 999000\<rparr> # pr))))
         | (w, Inl e) \<Rightarrow> (w, Err e))"

definition getBestIp :: "'w nsEnv \<Rightarrow> string \<Rightarrow> 'w \<Rightarrow> 'w \<times> nsResult res" where
  "getBestIp env address w =
     (case split_address address of
        Inl e \<Rightarrow> (w, Err e)
      | Inr (scheme, server, port) \<Rightarrow>
          if ne_isIp env server then (w, Ok \<lparr>nr_server = server_name scheme server port, nr_timeout = 0\<rparr>)
          else
            (case ne_lookup env server w of
               (w, Inl e) \<Rightarrow> (w, Err e)
             | (w, Inr result) \<Rightarrow>
                 (case measure_servers env scheme port result w of
                    (w, Inl e) \<Rightarrow> (w, Err e)
                  | (w, Inr pr) \<Rightarrow> (w, case ne_sort env pr of [] \<Rightarrow> Err (Exception ''Servers empty'') | fastest # _ \<Rightarrow> Ok fastest))))"

section \<open>Settings\<close>

text \<open>The group \<open>Base\<close> of the configuration as libconfig hands it out: each reader throws when the setting is not there or has another type.\<close>

record settings =
  cf_exists :: "string \<Rightarrow> bool"
  cf_int :: "string \<Rightarrow> int res"
  cf_bool :: "string \<Rightarrow> bool res"
  cf_string :: "string \<Rightarrow> string res"
  cf_isArray :: "string \<Rightarrow> bool res"
  cf_strings :: "string \<Rightarrow> string list res"

text \<open>A number goes through \<open>int\<close> to \<open>size_t\<close>: a negative one becomes a large one.\<close>

definition size_setting :: "settings \<Rightarrow> string \<Rightarrow> size_t res" where
  "size_setting st name = rbind (cf_int st name) (\<lambda>i. Ok (word_of_int i))"

definition optional_setting :: "(settings \<Rightarrow> string \<Rightarrow> 'a res) \<Rightarrow> settings \<Rightarrow> string \<Rightarrow> 'a \<Rightarrow> 'a res" where
  "optional_setting read st name dflt = (if cf_exists st name then read st name else Ok dflt)"

record settingsDb =
  sd_writeBufSizeMb :: size_t
  sd_isBloomFilter :: bool
  sd_isChecks :: bool
  sd_lruCacheMb :: size_t

text \<open>\<open>None\<close>: not set.\<close>

definition parseSettingsDb :: "settings \<Rightarrow> string \<Rightarrow> settingsDb option res" where
  "parseSettingsDb st pre =
     (if cf_exists st (pre @ ''write_buffer_size_mb'') then
        rbind (size_setting st (pre @ ''write_buffer_size_mb'')) (\<lambda>writeBufSizeMb.
        rbind (size_setting st (pre @ ''lru_cache_mb'')) (\<lambda>lruCacheMb.
        rbind (cf_bool st (pre @ ''is_bloom_filter'')) (\<lambda>isBloomFilter.
        rbind (cf_bool st (pre @ ''is_checks'')) (\<lambda>isChecks.
        Ok (Some \<lparr>sd_writeBufSizeMb = writeBufSizeMb, sd_isBloomFilter = isBloomFilter, sd_isChecks = isChecks, sd_lruCacheMb = lruCacheMb\<rparr>)))))
      else Ok None)"

record nodeConfig =
  nc_pathToBd :: string
  nc_pathToFolder :: string
  nc_countWorkers :: size_t
  nc_settingsDb :: settingsDb
  nc_settingsStateDb :: "settingsDb option"
  nc_port :: size_t
  nc_getBlocksFromFile :: bool
  nc_countConnections :: size_t
  nc_maxCountElementsBlockCache :: size_t
  nc_maxCountElementsTxsCache :: size_t
  nc_maxLocalCacheElements :: size_t
  nc_signKey :: string
  nc_isValidate :: bool
  nc_isValidateSign :: bool
  nc_testNodesServer :: string
  nc_maxAdvancedLoadBlocks :: size_t
  nc_countBlocksInBatch :: size_t
  nc_isCompress :: bool
  nc_technicalAddress :: string
  nc_modules :: modules
  nc_otherPortTorrent :: size_t

text \<open>The settings in the order in which \<open>main\<close> reads them.\<close>

definition read_settings :: "settings \<Rightarrow> nodeConfig res" where
  "read_settings st =
     rbind (cf_string st ''path_to_bd'') (\<lambda>pathToBd.
     rbind (cf_string st ''path_to_folder'') (\<lambda>pathToFolder.
     rbind (size_setting st ''count_threads'') (\<lambda>countWorkers.
     rbind (parseSettingsDb st []) (\<lambda>settingsDb.
     rbind (require settingsDb ''settings db not found'') (\<lambda>settingsDb.
     rbind (parseSettingsDb st ''st_'') (\<lambda>settingsStateDb.
     rbind (size_setting st ''port'') (\<lambda>port.
     rbind (cf_bool st ''get_blocks_from_file'') (\<lambda>getBlocksFromFile.
     rbind (size_setting st ''count_connections'') (\<lambda>countConnections.
     rbind (cf_string st ''latency_file'') (\<lambda>latencyFile.
     rbind (optional_setting size_setting st ''max_count_elements_block_cache'' 0) (\<lambda>maxCountElementsBlockCache.
     rbind (optional_setting size_setting st ''max_count_blocks_txs_cache'' 0) (\<lambda>maxCountElementsTxsCache.
     rbind (optional_setting size_setting st ''mac_local_cache_elements'' 0) (\<lambda>macLocalCacheElements.
     rbind (optional_setting size_setting st ''max_local_cache_elements'' macLocalCacheElements) (\<lambda>maxLocalCacheElements.
     rbind (optional_setting cf_string st ''sign_key'' []) (\<lambda>signKey.
     rbind (optional_setting cf_bool st ''validate'' False) (\<lambda>isValidate.
     rbind (optional_setting cf_bool st ''validateSign'' False) (\<lambda>isValidateSign.
     rbind (optional_setting cf_string st ''test_nodes_result_server'' []) (\<lambda>testNodesServer.
     rbind (optional_setting size_setting st ''advanced_load_blocks'' 10) (\<lambda>maxAdvancedLoadBlocks.
     rbind (optional_setting size_setting st ''count_blocks_in_batch'' 1) (\<lambda>countBlocksInBatch.
     rbind (optional_setting cf_bool st ''compress_blocks'' False) (\<lambda>isCompress.
     rbind (optional_setting cf_string st ''technical_address'' []) (\<lambda>technicalAddress.
     rbind (cf_strings st ''modules'') (\<lambda>modulesStr.
     rbind (case parseModules (fset_of_list modulesStr) of (m, r) \<Rightarrow> rbind r (\<lambda>_. Ok m)) (\<lambda>modules.
     rbind (optional_setting size_setting st ''other_torrent_port'' port) (\<lambda>otherPortTorrent.
     Ok \<lparr>nc_pathToBd = pathToBd, nc_pathToFolder = pathToFolder, nc_countWorkers = countWorkers, nc_settingsDb = settingsDb,
         nc_settingsStateDb = settingsStateDb, nc_port = port, nc_getBlocksFromFile = getBlocksFromFile, nc_countConnections = countConnections,
         nc_maxCountElementsBlockCache = maxCountElementsBlockCache, nc_maxCountElementsTxsCache = maxCountElementsTxsCache,
         nc_maxLocalCacheElements = maxLocalCacheElements, nc_signKey = signKey, nc_isValidate = isValidate, nc_isValidateSign = isValidateSign,
         nc_testNodesServer = testNodesServer, nc_maxAdvancedLoadBlocks = maxAdvancedLoadBlocks, nc_countBlocksInBatch = countBlocksInBatch,
         nc_isCompress = isCompress, nc_technicalAddress = technicalAddress, nc_modules = modules, nc_otherPortTorrent = otherPortTorrent\<rparr>)))))))))))))))))))))))))"

section \<open>The start of a node\<close>

text \<open>What the start takes from outside: \<open>st_p2p\<close> is the behaviour of the client of the peers on the network, \<open>st_myIp\<close> the call that
  asks for the own address.\<close>

record 'w startEnv =
  st_ns :: "'w nsEnv"
  st_crypto :: crypto
  st_keyOps :: keyOps
  st_trim :: "string \<Rightarrow> string"
  st_p2p :: "p2pIps \<Rightarrow> 'w p2p"
  st_myIp :: "'w \<Rightarrow> 'w \<times> string res"

text \<open>The servers: a list of addresses, or one name whose best address is taken.\<close>

definition choose_servers :: "'w nsEnv \<Rightarrow> settings \<Rightarrow> 'w \<Rightarrow> 'w \<times> string list res" where
  "choose_servers env st w =
     (case cf_isArray st ''servers'' of
        Inl e \<Rightarrow> (w, Err e)
      | Inr True \<Rightarrow> (w, cf_strings st ''servers'')
      | Inr False \<Rightarrow>
          (case cf_string st ''servers'' of
             Inl e \<Rightarrow> (w, Err e)
           | Inr serverName \<Rightarrow> (case getBestIp env serverName w of (w, r) \<Rightarrow> (w, rbind r (\<lambda>bestIp. Ok [nr_server bestIp])))))"

definition block_options :: "nodeConfig \<Rightarrow> 'w p2p \<Rightarrow> 'w getterBlockOptions" where
  "block_options nc p2p =
     \<lparr>gb_maxAdvancedLoadBlocks = nc_maxAdvancedLoadBlocks nc, gb_countBlocksInBatch = nc_countBlocksInBatch nc, gb_p2p = Some p2p,
      gb_getBlocksFromFile = nc_getBlocksFromFile nc, gb_isValidate = nc_isValidate nc, gb_isValidateSign = nc_isValidateSign nc,
      gb_isCompress = nc_isCompress nc\<rparr>"

record 'w startedNode =
  sn_config :: nodeConfig
  sn_peers :: p2pIps
  sn_network :: networkOptions
  sn_options :: syncOptions
  sn_source :: blockSource
  sn_caches :: allCaches
  sn_key :: "privateKey option"
  sn_tests :: testP2PNodes

definition start_node :: "'w startEnv \<Rightarrow> settings \<Rightarrow> disk \<Rightarrow> 'w \<Rightarrow> 'w \<times> 'w startedNode res" where
  "start_node env st d w =
     (case read_settings st of
        Inl e \<Rightarrow> (w, Err e)
      | Inr nc \<Rightarrow>
          (case st_myIp env w of
             (w, Inl e) \<Rightarrow> (w, Err e)
           | (w, Inr ip) \<Rightarrow>
               let myIp = st_trim env ip @ '':'' @ to_string_u64 (nc_port nc)
               in case choose_servers (st_ns env) st w of
                    (w, Inl e) \<Rightarrow> (w, Err e)
                  | (w, Inr serversStr) \<Rightarrow>
                      (w, rbind (P2P_Ips_new serversStr (nc_countConnections nc)) (\<lambda>peers.
                          let gb = block_options nc (st_p2p env peers);
                              tests = TestP2PNodes_new (st_trim env) (file_content d ''tested_nodes.txt'') myIp (nc_testNodesServer nc) (nc_otherPortTorrent nc)
                          in rbind (SyncImpl_new (nc_modules nc) (st_crypto env) (st_keyOps env) (st_trim env) d gb (nc_signKey nc)) (\<lambda>(opt, src, key).
                             Ok \<lparr>sn_config = nc, sn_peers = peers, sn_network = network_options (nc_modules nc) (nc_pathToFolder nc) gb, sn_options = opt,
                                 sn_source = src, sn_caches = AllCaches_new (nc_maxCountElementsBlockCache nc) (nc_maxCountElementsTxsCache nc) (nc_maxLocalCacheElements nc),
                                 sn_key = key, sn_tests = (case key of None \<Rightarrow> tests | Some k \<Rightarrow> setPrivateKey k tests)\<rparr>)))))"

section \<open>The rest of the program\<close>

text \<open>The pairs of servers in a graph file, one line each.\<close>

fun read_pairs :: "(string \<Rightarrow> string) \<Rightarrow> size_t \<Rightarrow> string list \<Rightarrow> (string \<times> string) list res" where
  "read_pairs trim port [] = Ok []"
| "read_pairs trim port (l # ls) =
     (let line = trim l
      in if line \<noteq> [] then
           (case find_text '','' line of
              None \<Rightarrow> Err (Exception ''Incorrect graph file'')
            | Some findSpace \<Rightarrow>
                let srv1 = addDefaultPort (trim (take findSpace line)) port;
                    srv2 = addDefaultPort (trim (drop (findSpace + 1) line)) port
                in rbind (read_pairs trim port ls) (\<lambda>result. Ok ((srv1, srv2) # result)))
         else read_pairs trim port ls)"

definition readServers :: "(string \<Rightarrow> string) \<Rightarrow> disk \<Rightarrow> string \<Rightarrow> size_t \<Rightarrow> (string \<times> string) list res" where
  "readServers trim d fileName port = read_pairs trim port (getlines (file_content d fileName))"

text \<open>A machine without a thermal sensor is taken for a virtual one.\<close>

definition initializeIsVirtualMachine :: "disk \<Rightarrow> bool option" where
  "initializeIsVirtualMachine d =
     Some (\<not> list_ex (\<lambda>i. isFileExist (''/sys/class/thermal/thermal_zone'' @ to_string_nat i @ ''/temp'') d) [0..<10])"

definition isVirtualMachine :: "bool option \<Rightarrow> bool res" where
  "isVirtualMachine flag = (case flag of None \<Rightarrow> Err (Exception ''Not initialized'') | Some isVirtual \<Rightarrow> Ok isVirtual)"

text \<open>The counter that runs up or down. \<open>store\<close> sets it to the number behind the stored one.\<close>

definition Counter_store :: "bool \<Rightarrow> size_t \<Rightarrow> size_t" where
  "Counter_store inc v = (if inc then v + 1 else v - 1)"

definition Counter_get :: "bool \<Rightarrow> size_t \<Rightarrow> size_t \<times> size_t" where
  "Counter_get inc counter = (if inc then counter + 1 else counter - 1, counter)"

section \<open>The address that is taken\<close>

definition sort_spec :: "(nsResult list \<Rightarrow> nsResult list) \<Rightarrow> bool" where
  "sort_spec srt \<longleftrightarrow> (\<forall>xs. mset (srt xs) = mset xs \<and> sorted (map nr_timeout (srt xs)))"

lemma measured_servers: "measure_servers env scheme port rs w = (w', Ok pr) \<Longrightarrow> map nr_server pr = map (\<lambda>r. server_name scheme r port) rs"
proof (induction rs arbitrary: w w' pr)
  case (Cons r rs)
  obtain w1 q where t: "ne_timed env (server_name scheme r port) w = (w1, q)" by fastforce
  obtain w2 pr1 where m: "measure_servers env scheme port rs w1 = (w2, pr1)" by fastforce
  from Cons.prems t m obtain ms prs where "pr1 = Ok prs" "pr = \<lparr>nr_server = server_name scheme r port, nr_timeout = ms\<rparr> # prs"
    by (auto simp: Let_def rbind_Ok_iff split: sum.splits error.splits)
  then show ?case using Cons.IH m by simp
qed simp

text \<open>Of the addresses of a name the one that has answered first is taken.\<close>

lemma fastest_address:
  assumes "sort_spec (ne_sort env)" and "split_address address = Ok (scheme, host, port)" and "\<not> ne_isIp env host"
    and "getBestIp env address w = (w', Ok fastest)"
  shows "\<exists>w1 ips pr. ne_lookup env host w = (w1, Ok ips) \<and> measure_servers env scheme port ips w1 = (w', Ok pr) \<and>
    map nr_server pr = map (\<lambda>ip. server_name scheme ip port) ips \<and> fastest \<in> set pr \<and> (\<forall>x\<in>set pr. nr_timeout fastest \<le> nr_timeout x)"
proof -
  obtain w1 ips where l: "ne_lookup env host w = (w1, Ok ips)"
    using assms(2-4) by (auto simp: getBestIp_def split: prod.splits sum.splits)
  obtain pr where m: "measure_servers env scheme port ips w1 = (w', Ok pr)" and "\<exists>rest. ne_sort env pr = fastest # rest"
    using assms(2-4) l by (auto simp: getBestIp_def split: prod.splits sum.splits list.splits)
  then obtain rest where r: "ne_sort env pr = fastest # rest" by blast
  have "mset (fastest # rest) = mset pr" "sorted (map nr_timeout (fastest # rest))"
    using assms(1) r unfolding sort_spec_def by metis+
  then have "set pr = set (fastest # rest)" "\<forall>x\<in>set rest. nr_timeout fastest \<le> nr_timeout x"
    using mset_eq_setD [of "fastest # rest" pr] by simp_all
  then show ?thesis using l m measured_servers [OF m] by auto
qed

section \<open>What a started node is\<close>

lemma read_settings_batch: "read_settings st = Ok nc \<Longrightarrow> optional_setting size_setting st ''count_blocks_in_batch'' 1 = Ok (nc_countBlocksInBatch nc)"
  unfolding read_settings_def by (auto simp: rbind_Ok_iff)

lemma start_node_OkD:
  assumes "start_node env st d w = (w', Ok nd)"
  obtains key where "read_settings st = Ok (sn_config nd)"
    and "SyncImpl_new (nc_modules (sn_config nd)) (st_crypto env) (st_keyOps env) (st_trim env) d
      (block_options (sn_config nd) (st_p2p env (sn_peers nd))) (nc_signKey (sn_config nd)) = Ok (sn_options nd, sn_source nd, key)"
    and "sn_network nd = network_options (nc_modules (sn_config nd)) (nc_pathToFolder (sn_config nd)) (block_options (sn_config nd) (st_p2p env (sn_peers nd)))"
    and "nc_countConnections (sn_config nd) \<noteq> 0"
  using assms
  by (auto simp: start_node_def Let_def rbind_Ok_iff P2P_Ips_new_def split: sum.splits prod.splits)

text \<open>A node that has started can live: its source has the invariant of the loop. Settings that contradict each other are refused.\<close>

lemma started_source_ok:
  assumes "start_node env st d w = (w', Ok nd)" and "nc_pathToFolder (sn_config nd) \<noteq> []" and "sc_network so = sn_network nd"
  shows "source_ok so (sn_source nd)"
  using assms(1)
proof (cases rule: start_node_OkD)
  case (1 key)
  then have "no_folderPath (sc_network so) \<noteq> []" using assms(2,3) by (simp add: network_options_def)
  then show ?thesis by (rule created_source(1) [OF 1(2)])
qed

lemma contradictions_refused:
  assumes "start_node env st d w = (w', Ok nd)" and "nc_getBlocksFromFile (sn_config nd)"
  shows "\<not> nc_isValidate (sn_config nd) \<and> \<not> module_on (nc_modules (sn_config nd)) MODULE_USERS"
  using assms(1)
proof (cases rule: start_node_OkD)
  case (1 key)
  then show ?thesis using assms(2)
    by (auto simp: SyncImpl_new_def SyncImpl_initialize_def rbind_Ok_iff block_options_def split: if_splits)
qed

section \<open>Properties\<close>

text \<open>C36: A batch size of 0 is accepted and divides by zero. A node whose settings have \<open>count_blocks_in_batch\<close> 0 starts like any other; the first
  time it asks its peers for the header of a block it does not have yet, the number of parts is computed by a division by that
  0, whatever the peers answer.\<close>

theorem zero_batch_divides:
  assumes "start_node env st d w = (w', Ok nd)" and "cf_exists st ''count_blocks_in_batch''" and "cf_int st ''count_blocks_in_batch'' = Ok 0"
    and "find (\<lambda>h. fst h = blockNum) (gt_headers g) = None"
  shows "snd (snd (Getter_getBlockHeader p2p gv (no_getter (sn_network nd)) blockNum maxBlockNum server g w1)) = Err Undefined"
  using assms(1)
proof (cases rule: start_node_OkD)
  case (1 key)
  have "nc_countBlocksInBatch (sn_config nd) = 0"
    using read_settings_batch [OF 1(1)] assms(2,3) by (simp add: optional_setting_def size_setting_def)
  then show ?thesis using 1(3) assms(4) by (simp add: Getter_getBlockHeader_def network_options_def block_options_def Let_def)
qed

definition sample_settings :: settings where
  "sample_settings =
     (let ints = [(''count_threads'', 4), (''write_buffer_size_mb'', 8), (''lru_cache_mb'', 8), (''port'', 5795), (''count_connections'', 2),
                  (''count_blocks_in_batch'', 0)];
          bools = [(''is_bloom_filter'', True), (''is_checks'', True), (''get_blocks_from_file'', False)];
          strings = [(''path_to_bd'', ''db''), (''path_to_folder'', ''blocks''), (''latency_file'', [])];
          arrays = [(''modules'', [''block'']), (''servers'', [''1.2.3.4:5795''])]
      in \<lparr>cf_exists = (\<lambda>name. name \<in> set (map fst ints @ map fst bools @ map fst strings @ map fst arrays)),
          cf_int = (\<lambda>name. case map_of ints name of None \<Rightarrow> Err (StdException name) | Some v \<Rightarrow> Ok v),
          cf_bool = (\<lambda>name. case map_of bools name of None \<Rightarrow> Err (StdException name) | Some v \<Rightarrow> Ok v),
          cf_string = (\<lambda>name. case map_of strings name of None \<Rightarrow> Err (StdException name) | Some v \<Rightarrow> Ok v),
          cf_isArray = (\<lambda>name. Ok (name \<in> set (map fst arrays))),
          cf_strings = (\<lambda>name. case map_of arrays name of None \<Rightarrow> Err (StdException name) | Some v \<Rightarrow> Ok v)\<rparr>)"

definition sample_start :: "unit startEnv" where
  "sample_start = \<lparr>st_ns = \<lparr>ne_isIp = (\<lambda>_. True), ne_lookup = (\<lambda>_ w. (w, Ok [])), ne_timed = (\<lambda>_ w. (w, Ok 0)), ne_sort = sort_key nr_timeout\<rparr>,
     st_crypto = sample_crypto, st_keyOps = sample_keyOps, st_trim = (\<lambda>s. s), st_p2p = (\<lambda>_. demo_p2p), st_myIp = (\<lambda>w. (w, Ok ''5.6.7.8''))\<rparr>"

lemma sample_read: "(case read_settings sample_settings of Inl _ \<Rightarrow> False | Inr nc \<Rightarrow> nc_countConnections nc = 2 \<and> \<not> nc_getBlocksFromFile nc \<and> \<not> nc_isValidate nc \<and> nc_signKey nc = [])"
  by code_simp

theorem zero_batch_divides_witness:
  "\<exists>nd. start_node sample_start sample_settings fmempty () = ((), Ok nd) \<and>
     snd (snd (Getter_getBlockHeader demo_p2p (se_get demo_env) (no_getter (sn_network nd)) 1 7 ''srv'' \<lparr>gt_headers = [], gt_dumps = fmempty\<rparr> ())) = Err Undefined"
proof -
  obtain nc where nc: "read_settings sample_settings = Ok nc" "nc_countConnections nc = 2" "\<not> nc_getBlocksFromFile nc" "\<not> nc_isValidate nc" "nc_signKey nc = []"
    using sample_read by (auto split: sum.splits)
  have servers: "choose_servers ns sample_settings w = (w, Ok [''1.2.3.4:5795''])" for ns :: "unit nsEnv" and w
    by (simp add: choose_servers_def sample_settings_def Let_def)
  have "\<exists>nd. start_node sample_start sample_settings fmempty () = ((), Ok nd)"
    using nc by (simp add: start_node_def sample_start_def servers P2P_Ips_new_def SyncImpl_new_def SyncImpl_initialize_def load_private_key_def
        block_options_def Let_def)
  then obtain nd where nd: "start_node sample_start sample_settings fmempty () = ((), Ok nd)" by blast
  have zero: "cf_exists sample_settings ''count_blocks_in_batch''" "cf_int sample_settings ''count_blocks_in_batch'' = Ok 0"
    by (simp_all add: sample_settings_def Let_def)
  show ?thesis by (intro exI [of _ nd] conjI nd, rule zero_batch_divides [OF nd zero]) simp
qed

end
