(* ===== verification/Serving.thy ===== *)
theory Serving
  imports Sync P2P
begin

text \<open>
  Both ends of a signed download: a node that serves the parts of a signed dump (\<open>SyncImpl::getBlockDump\<close>) and a node that asks
  for them in segments (\<open>GetNewBlocksFromServer::getBlockDumpWithoutAdvancedLoad\<close>, \<open>P2P::makeSegments\<close>) and checks the joined
  answer (\<open>checkSignatureBlock\<close>).
\<close>

section \<open>Segments of equal size\<close>

lemma makeSegments_loop_exact:
  assumes "(i + k) * s \<le> unat sz" and "unat sz < 2 ^ 63"
  shows "makeSegments_loop k (of_nat i) (of_nat s) sz (of_nat (i * s)) =
    (map (\<lambda>j. \<lparr>fromByte = of_nat (j * s), toByte = of_nat (Suc j * s), posInArray = of_nat j\<rparr>) [i..<i + k], of_nat ((i + k) * s))"
  using assms(1)
proof (induction k arbitrary: i)
  case (Suc k)
  have le: "i * s + s \<le> unat sz" using Suc.prems by (simp add: algebra_simps)
  have e: "(of_nat (i * s) + of_nat s :: size_t) = of_nat (Suc i * s)" by (simp add: algebra_simps)
  have u: "unat (of_nat (Suc i * s) :: size_t) = Suc i * s" using le assms(2) by (intro unat_of_nat_u64) simp
  then have m: "min (of_nat (Suc i * s)) sz = (of_nat (Suc i * s) :: size_t)"
    using le by (simp add: min_def word_le_nat_alt)
  have i1: "(of_nat i + 1 :: size_t) = of_nat (Suc i)" by simp
  have IH: "makeSegments_loop k (of_nat (Suc i)) (of_nat s) sz (of_nat (Suc i * s)) =
    (map (\<lambda>j. \<lparr>fromByte = of_nat (j * s), toByte = of_nat (Suc j * s), posInArray = of_nat j\<rparr>) [Suc i..<Suc i + k], of_nat ((Suc i + k) * s))"
    by (rule Suc.IH) (use Suc.prems in simp)
  show ?case
    using IH m [unfolded mult_Suc] by (simp add: Let_def e i1 upt_conv_Cons del: upt_Suc of_nat_mult of_nat_add of_nat_Suc)
qed simp

text \<open>With enough bytes for every segment, all but the last have the same size.\<close>

lemma makeSegments_exact:
  assumes "n \<noteq> 0" and "unat n * unat minSize \<le> unat sz" and "minSize \<noteq> 0" and "unat sz < 2 ^ 63"
  defines "s \<equiv> unat sz div unat n"
  shows "makeSegments n sz minSize = Ok (map (\<lambda>j. \<lparr>fromByte = of_nat (j * s), toByte = (if Suc j = unat n then sz else of_nat (Suc j * s)),
    posInArray = of_nat j\<rparr>) [0..<unat n])" and "unat minSize \<le> s" and "unat n * s \<le> unat sz"
proof -
  have n: "0 < unat n" using assms(1) by (simp add: unat_gt_0)
  show big: "unat minSize \<le> s" unfolding s_def using assms(2) n by (simp add: less_eq_div_iff_mult_less_eq mult.commute)
  show all: "unat n * s \<le> unat sz" by (simp add: s_def mult.commute)
  have us: "unat (sz div n) = s" by (simp add: s_def unat_div)
  have sle: "s \<le> unat sz" by (simp add: s_def div_le_dividend)
  have "minSize \<le> sz div n" using big us by (simp add: word_le_nat_alt)
  then have "max (sz div n) minSize = sz div n" by (rule max_absorb1)
  moreover have "sz div n \<le> sz" using us sle by (simp add: word_le_nat_alt)
  ultimately have step: "min sz (max (sz div n) minSize) = of_nat s" by (simp add: min_def us [symmetric])
  have "0 < unat minSize" using assms(3) by (simp add: unat_gt_0)
  then have "0 < s" using big by linarith
  moreover have "(of_nat s :: size_t) = sz div n" by (simp add: us [symmetric])
  ultimately have nz: "(of_nat s :: size_t) \<noteq> 0" using us by auto
  obtain k where k: "unat n = Suc k" using n by (cases "unat n") auto
  have "unat (n - 1) = k" using assms(1) k by (simp add: unat_minus_one)
  moreover have "k * s \<le> unat sz" using all by (simp add: k)
  ultimately have loop: "makeSegments_loop (unat (n - 1)) 0 (of_nat s) sz 0 =
      (map (\<lambda>j. \<lparr>fromByte = of_nat (j * s), toByte = of_nat (Suc j * s), posInArray = of_nat j\<rparr>) [0..<k], of_nat (k * s))"
    using makeSegments_loop_exact [of 0 k s sz] assms(4) by simp
  have last: "n - 1 = of_nat k" using \<open>unat (n - 1) = k\<close> by auto
  show "makeSegments n sz minSize = Ok (map (\<lambda>j. \<lparr>fromByte = of_nat (j * s), toByte = (if Suc j = unat n then sz else of_nat (Suc j * s)),
      posInArray = of_nat j\<rparr>) [0..<unat n])"
    using assms(1) nz by (simp add: makeSegments_def step loop [unfolded last] CHECK_def last k del: of_nat_mult of_nat_Suc)
qed

section \<open>The parts of a signed dump\<close>

text \<open>The node has the block \<open>data\<close> in its cache or in its file.\<close>

definition has_block :: "string cache \<Rightarrow> disk \<Rightarrow> blockHeader \<Rightarrow> string \<Rightarrow> bool" where
  "has_block c d bh data \<longleftrightarrow>
     (case Cache_getValue (bh_hash bh) c of
        Some element \<Rightarrow> element = data
      | None \<Rightarrow> fp_fileName (bh_filePos bh) \<noteq> [] \<and>
          (\<exists>old later. fmlookup d (fp_fileName (bh_filePos bh)) = Some (old @ le_bytes 8 (length data) @ data @ later) \<and>
             fp_pos (bh_filePos bh) = size_of old \<and> length (old @ le_bytes 8 (length data) @ data @ later) < 2 ^ 63))"

lemma unsigned_part_of:
  assumes "has_block c d bh data" and "80 \<le> length data" and "length data < 2 ^ 63" and "unat fb < length data" and "fb \<le> tb"
  shows "unsigned_part (Cache_getValue (bh_hash bh) c) d bh fb tb isSign =
    Ok (take (unat tb - unat fb) (drop (unat fb) data), size_of data, if isSign \<and> length data \<le> unat tb then data else [])"
proof -
  have u: "unat (size_of data) = length data" using assms(3) by simp
  have le: "size_of data \<le> tb \<longleftrightarrow> length data \<le> unat tb" by (simp add: word_le_nat_alt u)
  have diff: "unat (tb - fb) = unat tb - unat fb" by (rule unat_sub [OF assms(5)])
  show ?thesis
  proof (cases "Cache_getValue (bh_hash bh) c")
    case (Some element)
    then have "element = data" using assms(1) by (simp add: has_block_def)
    moreover have "\<not> size_of data < fb" using assms(4) by (simp add: word_less_nat_alt u)
    ultimately show ?thesis by (simp add: unsigned_part_def Some substr_def le diff)
  next
    case None
    then obtain old later where f: "fp_fileName (bh_filePos bh) \<noteq> []" "fp_pos (bh_filePos bh) = size_of old"
      "fmlookup d (fp_fileName (bh_filePos bh)) = Some (old @ le_bytes 8 (length data) @ data @ later)"
      "length (old @ le_bytes 8 (length data) @ data @ later) < 2 ^ 63"
      using assms(1) by (auto simp: has_block_def)
    note at = getBlockDump_at [OF refl assms(2) f(4)]
    have "getBlockDump (old @ le_bytes 8 (length data) @ data @ later) (size_of old) 0 tb = Ok (size_of data, take (unat tb) data)"
      using at [of 0 tb] assms(2) by (cases data) simp_all
    moreover have "fb = 0 \<Longrightarrow> unat fb = 0" by simp
    ultimately show ?thesis
      using at [OF assms(4,5)] by (simp add: unsigned_part_def None f openFile_def le)
  qed
qed

lemma served_part:
  assumes "has_block c d bh data" and "80 \<le> length data" and "length data < 2 ^ 63" and "unat fb < length data" and "fb \<le> tb"
    and "module_on modules MODULE_BLOCK" and "module_on modules MODULE_BLOCK_RAW" and "\<not> module_on modules MODULE_USERS"
    and "de_key env = Some key" and "makeBlockSign (de_crypto env) (de_keyOps env) data key = Ok sign"
  shows "Sync_getBlockDump modules env c d bh fb tb False True =
    Ok ((if fb = 0 then makeFirstPartBlockSign (size_of data) else []) @ take (unat tb - unat fb) (drop (unat fb) data) @
      (if length data \<le> unat tb then sign else []))"
  using assms(3,6-10) by (simp add: Sync_getBlockDump_def unsigned_part_of [OF assms(1-5)] word_le_nat_alt Let_def)

lemma concat_parts:
  assumes "k * s < length data" and "length data \<le> t"
  shows "concat (map (\<lambda>j. (if j = 0 then pre else []) @ take ((if j = k then t else Suc j * s) - j * s) (drop (j * s) data) @ (if j = k then post else []))
    [0..<Suc k]) = pre @ data @ post"
proof -
  have part: "concat (map (\<lambda>j. (if j = 0 then pre else []) @ take s (drop (j * s) data)) [0..<m]) = (if m = 0 then [] else pre) @ take (m * s) data" for m
  proof (induction m)
    case (Suc m)
    have "take (Suc m * s) data = take (m * s) data @ take s (drop (m * s) data)" by (simp add: take_add [symmetric] add.commute)
    then show ?case using Suc by simp
  qed simp
  have "concat (map (\<lambda>j. (if j = 0 then pre else []) @ take ((if j = k then t else Suc j * s) - j * s) (drop (j * s) data) @ (if j = k then post else []))
      [0..<k]) = concat (map (\<lambda>j. (if j = 0 then pre else []) @ take s (drop (j * s) data)) [0..<k])"
    by (rule arg_cong [where f = concat]) auto
  then show ?thesis using part [of k] assms by (cases "k = 0") auto
qed

text \<open>The segments of a signed download: equal steps of at least 1000 bytes, the last of which begins inside the block.\<close>

lemma signed_segments:
  assumes "length data + 250 < 2 ^ 63" and "n \<noteq> 0" and "unat n * 1000 \<le> length data + 250"
  shows "\<exists>k s sg. makeSegments n (size_of data + 250) 1000 = Ok (map sg [0..<Suc k]) \<and> k * s < length data \<and> 1000 \<le> s \<and>
    (\<forall>j\<le>k. unat (fromByte (sg j)) = j * s \<and> unat (toByte (sg j)) = (if j = k then length data + 250 else Suc j * s))"
proof -
  let ?S = "length data" and ?T = "size_of data + 250"
  have c: "unat (250 :: size_t) = 250" by simp
  have "unat (250 + of_nat ?S :: size_t) = 250 + ?S" by (rule unat_add_of_nat [of 250 ?S, unfolded c]) (use assms(1) in simp)
  then have T: "unat ?T = ?S + 250" by (simp only: size_of_def add.commute)
  define s where "s = unat ?T div unat n"
  have n1000: "unat n * unat (1000 :: size_t) \<le> unat ?T" using assms(3) T by simp
  note m = makeSegments_exact [OF assms(2) n1000, folded s_def]
  obtain k where k: "unat n = Suc k" using assms(2) by (cases "unat n") (auto simp: unat_eq_0)
  have small: "Suc k * s \<le> ?S + 250" "1000 \<le> s" using m(2,3) assms(1) T by (simp_all add: k)
  then have last: "k * s < ?S" by simp
  have u: "unat (of_nat (j * s) :: size_t) = j * s" if "j \<le> Suc k" for j
  proof (rule unat_of_nat_u64)
    have "j * s \<le> Suc k * s" using that by (rule mult_le_mono1)
    then have "j * s \<le> ?S + 250" using small(1) by (rule order.trans)
    then show "j * s < 2 ^ 64" using assms(1) by simp
  qed
  define sg :: "nat \<Rightarrow> segment" where "sg = (\<lambda>j. \<lparr>fromByte = of_nat (j * s), toByte = (if Suc j = unat n then ?T else of_nat (Suc j * s)), posInArray = of_nat j\<rparr>)"
  have "makeSegments n ?T 1000 = Ok (map sg [0..<Suc k])" using m(1) assms(1) T by (simp add: sg_def k)
  moreover have "unat (fromByte (sg j)) = j * s" "unat (toByte (sg j)) = (if j = k then ?S + 250 else Suc j * s)" if "j \<le> k" for j
    using u [of j] u [of "Suc j"] that T by (simp_all add: sg_def k)
  ultimately show ?thesis using last small(2) by blast
qed

lemma signed_parts:
  assumes block: "has_block c d bh data" "80 \<le> length data" "length data + 250 < 2 ^ 63" and segs: "n \<noteq> 0" "unat n * 1000 \<le> length data + 250"
    and mods: "module_on modules MODULE_BLOCK" "module_on modules MODULE_BLOCK_RAW" "\<not> module_on modules MODULE_USERS" "de_key env = Some key"
    and sign: "makeBlockSign (de_crypto env) (de_keyOps env) data key = Ok sign"
  shows "\<exists>sgs parts. makeSegments n (size_of data + 250) 1000 = Ok sgs \<and>
    map (\<lambda>sg. Sync_getBlockDump modules env c d bh (fromByte sg) (toByte sg) False True) sgs = map Ok parts \<and>
    concat parts = makeFirstPartBlockSign (size_of data) @ data @ sign"
proof -
  let ?S = "length data"
  obtain k s sg where sgs: "makeSegments n (size_of data + 250) 1000 = Ok (map sg [0..<Suc k])" and last: "k * s < ?S" and s: "1000 \<le> s"
    and ft: "\<forall>j\<le>k. unat (fromByte (sg j)) = j * s \<and> unat (toByte (sg j)) = (if j = k then ?S + 250 else Suc j * s)"
    using signed_segments [OF block(3) segs] by blast
  have f: "unat (fromByte (sg j)) = j * s" and t: "unat (toByte (sg j)) = (if j = k then ?S + 250 else Suc j * s)" if "j \<le> k" for j
    using ft that by simp_all
  define part where "part = (\<lambda>j. (if j = 0 then makeFirstPartBlockSign (size_of data) else []) @
    take ((if j = k then ?S + 250 else Suc j * s) - j * s) (drop (j * s) data) @ (if j = k then sign else []))"
  have "Sync_getBlockDump modules env c d bh (fromByte (sg j)) (toByte (sg j)) False True = Ok (part j)" if "j \<in> set [0..<Suc k]" for j
  proof -
    have j: "j \<le> k" using that by auto
    have jk: "j * s \<le> k * s" using j by (rule mult_le_mono1)
    have before: "j \<noteq> k \<Longrightarrow> Suc j * s \<le> k * s" using j by (intro mult_le_mono1) simp
    have z: "fromByte (sg j) = 0 \<longleftrightarrow> j = 0" using f [OF j] s by (auto simp: unat_eq_0 [symmetric])
    have e: "?S \<le> unat (toByte (sg j)) \<longleftrightarrow> j = k" using t [OF j] before last by auto
    have "j * s < ?S" using jk last by (rule le_less_trans)
    then have "unat (fromByte (sg j)) < ?S" "fromByte (sg j) \<le> toByte (sg j)"
      using f [OF j] t [OF j] last by (simp_all add: word_le_nat_alt)
    from served_part [OF block(1,2) _ this mods sign] show ?thesis using block(3) by (simp add: part_def f [OF j] t [OF j] z e [unfolded t [OF j]])
  qed
  then have "map (\<lambda>sg. Sync_getBlockDump modules env c d bh (fromByte sg) (toByte sg) False True) (map sg [0..<Suc k]) = map Ok (map part [0..<Suc k])"
    by simp
  moreover have "concat (map part [0..<Suc k]) = makeFirstPartBlockSign (size_of data) @ data @ sign"
    unfolding part_def by (rule concat_parts [OF last]) simp
  ultimately show ?thesis by (intro exI conjI) (rule sgs)
qed

section \<open>Properties\<close>



end
