(* ===== verification/Exchange.thy ===== *)
theory Exchange
  imports Server Serving
begin

text \<open>
  A node that serves and a node that asks, together: the answers of \<^verbatim>\<open>Server.cpp\<close> to the queries of
  \<^verbatim>\<open>GetNewBlocksFromServers.cpp\<close>, read by the parsers of the asking node.
\<close>

section \<open>Headers for a peer\<close>

definition served_header :: "blockChain \<Rightarrow> size_t \<Rightarrow> minimumBlockHeader" where
  "served_header bc n =
     (let bh = getBlock_number bc n
      in \<lparr>mb_number = n, mb_blockSize = bh_blockSize bh, mb_hash = bh_hash bh, mb_parentHash = bh_prevHash bh,
          mb_fileName = fp_fileName (bh_filePos bh)\<rparr>)"

text \<open>The texts of a header have no zero character, and its size fits a signed number.\<close>

definition clean_header :: "blockHeader \<Rightarrow> bool" where
  "clean_header bh \<longleftrightarrow> CHR 0x00 \<notin> set (bh_hash bh) \<and> CHR 0x00 \<notin> set (bh_prevHash bh) \<and> CHR 0x00 \<notin> set (fp_fileName (bh_filePos bh)) \<and>
     unat (bh_blockSize bh) < 2 ^ 63"

definition get_blocks_doc :: "size_t \<Rightarrow> size_t \<Rightarrow> json" where
  "get_blocks_doc b c = JObject [(''id'', JInt 1), (''params'', JObject [(''beginBlock'', JInt (uint b)), (''countBlocks'', JInt (uint c)),
     (''type'', JString ''forP2P''), (''direction'', JString ''forward'')])]"

definition get_block_doc :: "size_t \<Rightarrow> json" where
  "get_block_doc n = JObject [(''id'', JInt 1), (''params'', JObject [(''number'', JInt (uint n)), (''type'', JString ''forP2P'')])]"

text \<open>The library reads the queries of the getter as the documents they spell.\<close>

definition header_queries :: "(string \<Rightarrow> json option) \<Rightarrow> bool" where
  "header_queries parse \<longleftrightarrow>
     (\<forall>b c. parse (get_blocks_query b c) = Some (get_blocks_doc b c)) \<and> (\<forall>n. parse (get_block_query n) = Some (get_block_doc n)) \<and>
     parse ''{\"id\": 1}'' = Some (JObject [(''id'', JInt 1)])"

abbreviation post_request :: "string \<Rightarrow> string \<Rightarrow> httpRequest" where
  "post_request func body \<equiv> \<lparr>rq_url = CHR ''/'' # func, rq_method = ''POST'', rq_post = body\<rparr>"

definition header_json_of :: "blockHeader \<Rightarrow> size_t \<Rightarrow> json" where
  "header_json_of bh n = JObject [(''hash'', JString (bh_hash bh)), (''prev_hash'', JString (bh_prevHash bh)), (''number'', JInt (uint n)),
     (''size'', JInt (uint (bh_blockSize bh))), (''fileName'', JString (fp_fileName (bh_filePos bh)))]"

lemma plain_header: "plain_json (header_json_of bh n)"
  using uint_lt2p [of n] uint_lt2p [of "bh_blockSize bh"]
  by (auto simp: header_json_of_def intro: order.trans [of _ 0])

lemma header_value:
  assumes "\<And>s. se_strToJson se s = JString s" and "bh_blockNumber bh = Some n"
  shows "blockHeaderToJson_value se bh ForP2P V1 = Ok (header_json_of bh n)"
  by (simp add: blockHeaderToJson_value_def assms require_def header_json_of_def intOrString_def Let_def)

lemma uint_range: "unat w < 2 ^ k \<Longrightarrow> - (2 ^ k) \<le> uint w \<and> uint w < 2 ^ k" for w :: u64
proof -
  assume "unat w < 2 ^ k"
  then have "int (unat w) < int (2 ^ k)" by (simp only: of_nat_less_iff)
  moreover have "- (2 ^ k) \<le> uint w" by (rule order.trans [of _ 0]) simp_all
  ultimately show ?thesis by simp
qed

lemma parse_header:
  assumes "clean_header bh" and "unat n < 2 ^ 63"
  shows "parseBlockHeader_json (header_json_of bh n) =
    Ok \<lparr>mb_number = n, mb_blockSize = bh_blockSize bh, mb_hash = bh_hash bh, mb_parentHash = bh_prevHash bh, mb_fileName = fp_fileName (bh_filePos bh)\<rparr>"
  using assms uint_range [OF assms(2)] uint_range [where k = 63, of "bh_blockSize bh"]
  by (simp add: parseBlockHeader_json_def header_json_of_def clean_header_def int_member_def string_member_def require_def c_string_id)

lemma blocks_up_map: "blocks_up bc bound i = map (\<lambda>j. getBlock_number bc (word_of_int (i + int j))) [0..<nat (bound - i)]"
proof (induction bc bound i rule: blocks_up.induct)
  case (1 bc bound i)
  show ?case
  proof (cases "i < bound")
    case True
    then have e: "nat (bound - i) = Suc (nat (bound - (i + 1)))" by simp
    show ?thesis
      unfolding blocks_up.simps [of bc bound i] e upt_conv_Cons [OF zero_less_Suc] map_Suc_upt [symmetric]
      using 1 True by (simp add: comp_def algebra_simps del: upt_Suc)
  qed (simp add: blocks_up.simps)
qed

lemma headers_loop:
  assumes "\<And>s. se_strToJson se s = JString s" and "\<forall>b\<in>set bs. \<exists>n. bh_blockNumber b = Some n \<and> n \<noteq> 0"
  shows "blockHeadersToJson_loop se requestId ForP2P V1 bs vals = Ok (Inr (vals @ map (\<lambda>b. header_json_of b (the (bh_blockNumber b))) bs))"
  using assms(2) by (induction bs arbitrary: vals) (auto simp: header_value [OF assms(1)])

lemma parse_headers_loop:
  assumes "\<forall>b\<in>set bs. clean_header b \<and> unat (the (bh_blockNumber b)) < 2 ^ 63"
  shows "parseBlocksHeader_loop (map (\<lambda>b. header_json_of b (the (bh_blockNumber b))) bs) =
    Ok (map (\<lambda>bh. \<lparr>mb_number = the (bh_blockNumber bh), mb_blockSize = bh_blockSize bh, mb_hash = bh_hash bh, mb_parentHash = bh_prevHash bh,
       mb_fileName = fp_fileName (bh_filePos bh)\<rparr>) bs)"
  using assms by (induction bs) (auto simp: parse_header, auto simp: header_json_of_def)

text \<open>The exchange of a request whose body is read as an object with the identifier 1.\<close>

abbreviation one_id :: requestId where
  "one_id \<equiv> \<lparr>ri_id = IdNumber 1, ri_isSet = True\<rparr>"

definition numbered_doc :: "json \<Rightarrow> bool" where
  "numbered_doc doc \<longleftrightarrow>
     (case doc of JObject ms \<Rightarrow> map_of ms ''id'' = Some (JInt 1) \<and> map_of ms ''version'' = None \<and> map_of ms ''pretty'' = None | _ \<Rightarrow> False)"

lemma run_post:
  assumes "se_parse se (c_string body) = Some doc" and "numbered_doc doc" and "body \<noteq> []" and "func \<noteq> []"
  shows "run_request se mc nv st (post_request func body) = (one_id, run_func se mc nv st func doc one_id V1 False)"
proof -
  obtain ms where ms: "doc = JObject ms" "map_of ms ''id'' = Some (JInt 1)" "map_of ms ''version'' = None" "map_of ms ''pretty'' = None"
    using assms(2) by (auto simp: numbered_doc_def split: json.splits)
  have "request_id doc = Ok one_id" by (simp add: request_id_def string_member_def int_member_def ms)
  then show ?thesis
    using assms(1,3,4)
    by (simp add: run_request_def request_document_def request_func_def request_version_def string_member_def bool_member_def ms Let_def)
qed

text \<open>The server answers the query with status 200, and the asking node reads \<open>v\<close> from the answer.\<close>

definition answered_with ::
    "serverEnv \<Rightarrow> machine \<Rightarrow> nodeView \<Rightarrow> httpResponse \<Rightarrow> server \<Rightarrow> string \<Rightarrow> string \<Rightarrow> (string \<Rightarrow> 'v) \<Rightarrow> 'v \<Rightarrow> bool" where
  "answered_with se mc nv rs sv func body reader v \<longleftrightarrow>
     (\<exists>sv' rs'. Server_run se mc nv (post_request func body) rs sv = (sv', Ok (True, rs')) \<and> rs_code rs' = 200 \<and> reader (rs_data rs') = v)"

lemma answered_withI:
  assumes "\<not> sr_isStoped sv" and "\<not> mc_stopSignal mc" and "se_parse se (c_string body) = Some doc" and "numbered_doc doc" and "body \<noteq> []"
    and "func \<noteq> []" and "\<And>st. run_func se mc nv st func doc one_id V1 False = Ok answer" and "reader answer = v"
  shows "answered_with se mc nv rs sv func body reader v"
  using Server_run_respond [OF assms(1,2), of se nv "post_request func body" rs] run_post [OF assms(3-6), of mc nv] assms(7,8)
  by (auto simp: respond_def answered_with_def)

definition answer_doc :: "json \<Rightarrow> json" where
  "answer_doc v = JObject [(''id'', JInt 1), (''result'', v)]"

lemma plain_answer: "plain_json v \<Longrightarrow> plain_json (answer_doc v)"
  by (simp add: answer_doc_def)

lemma add_id: "addIdToResponse se one_id [] = [(''id'', JInt 1)]"
  by (simp add: addIdToResponse_def)

lemma parse_answer:
  assumes "json_library (gv_parse gv) strToJson jsonToString" and "plain_json v"
  shows "parse_document gv (jsonToString (answer_doc v) pretty) = Ok (answer_doc v)"
  using assms plain_answer [OF assms(2)] by (simp add: parse_document_def json_library_def)

lemma check_error_answer: "check_error gv (answer_doc v) = Ok ()"
  by (simp add: check_error_def answer_doc_def)

lemma query_text: "c_string (get_blocks_query b c) = get_blocks_query b c" "c_string (get_block_query n) = get_block_query n"
  "get_blocks_query b c \<noteq> []" "get_block_query n \<noteq> []"
  by (auto simp: get_blocks_query_def get_block_query_def no_nul intro!: c_string_id)

lemma sint_small: "unat w < 2 ^ 63 \<Longrightarrow> sint w = uint w" for w :: u64
  using uint_range [of w 63] by (simp add: sint_uint signed_take_bit_int_eq_self)

lemma served_numbers:
  assumes "chain_ok bc" and "1 \<le> unat b" and "unat b + unat c \<le> unat (countBlocks bc) + 1" and "j < unat c"
  shows "bh_blockNumber (getBlock_number bc (b + of_nat j)) = Some (b + of_nat j)" and "b + of_nat j \<noteq> 0"
    and "unat (b + of_nat j) = unat b + j"
proof -
  have u: "unat (b + of_nat j) = unat b + j"
    using assms(3,4) unat_u64_less [of "countBlocks bc"] by (intro unat_add_of_nat) simp
  then show "unat (b + of_nat j) = unat b + j" .
  show "b + of_nat j \<noteq> 0" using u assms(2) by (auto simp: unat_eq_0 [symmetric])
  have "b + of_nat j \<le> countBlocks bc" using u assms(3,4) by (simp add: word_le_nat_alt)
  then show "bh_blockNumber (getBlock_number bc (b + of_nat j)) = Some (b + of_nat j)"
    by (rule chain.number_present [OF assms(1)])
qed

lemma get_blocks_run:
  assumes "chain_ok (nv_chain nv)" and "1 \<le> unat b \<or> c = 0" and "unat b + unat c \<le> unat (countBlocks (nv_chain nv)) + 1" and "unat c \<le> 1000"
    and "unat (countBlocks (nv_chain nv)) < 2 ^ 31 - 1" and "\<And>s. se_strToJson se s = JString s"
  shows "Server_getBlocks se one_id (get_blocks_doc b c) nv False V1 =
    Ok (se_jsonToString se (answer_doc (JArray (map (\<lambda>j. header_json_of (getBlock_number (nv_chain nv) (b + of_nat j)) (b + of_nat j)) [0..<unat c]))) False)"
proof -
  let ?bc = "nv_chain nv"
  let ?bhs = "map (\<lambda>j. getBlock_number ?bc (b + of_nat j)) [0..<unat c]"
  have lt: "unat b < 2 ^ 31" "unat c < 2 ^ 31" "unat (countBlocks ?bc) < 2 ^ 63" using assms(3,5) by simp_all
  have ints: "uint c \<le> 1000" "uint b + uint c \<le> uint (countBlocks ?bc) + 1" 
    using assms(3,4) unfolding of_nat_le_iff [where ?'a = int, symmetric] of_nat_add by simp_all
  have up: "blocks_up ?bc (min (uint (countBlocks ?bc) + 1) (uint b + uint c)) (uint b) = ?bhs"
    using ints(2) by (simp add: blocks_up_map min_absorb2)
  have pos: "1 \<le> unat b" if "j < unat c" for j using assms(2) that by auto
  have "\<forall>bh\<in>set ?bhs. \<exists>n. bh_blockNumber bh = Some n \<and> n \<noteq> 0"
    using served_numbers [OF assms(1) pos assms(3)] by auto
  note loop = headers_loop [OF assms(6) this, of one_id "[]"]
  have vals: "map (\<lambda>bh. header_json_of bh (the (bh_blockNumber bh))) ?bhs =
      map (\<lambda>j. header_json_of (getBlock_number ?bc (b + of_nat j)) (b + of_nat j)) [0..<unat c]"
    using served_numbers(1) [OF assms(1) pos assms(3)] by simp
  show ?thesis
    using uint_range [OF lt(1)] uint_range [OF lt(2)] ints(1) sint_small [OF lt(3)] up loop [unfolded vals append_Nil]
    by (simp add: Server_getBlocks_def get_blocks_doc_def params_of_def object_member_def int_member_def string_member_def require_user_def
        blocks_type_def c_string_def blockHeadersToJson_def add_id answer_doc_def Let_def)
qed

lemma get_block_run:
  assumes "chain_ok (nv_chain nv)" and "1 \<le> unat n" and "n \<le> countBlocks (nv_chain nv)" and "unat n < 2 ^ 63" and "\<And>s. se_strToJson se s = JString s"
  shows "Server_getBlock by_number se one_id (get_block_doc n) ''number'' nv False V1 =
    Ok (se_jsonToString se (answer_doc (header_json_of (getBlock_number (nv_chain nv) n) n)) False)"
proof -
  have nz: "n \<noteq> 0" using assms(2) by auto
  note num = chain.number_present [OF assms(1,3)]
  show ?thesis
    using nz uint_range [OF assms(4)]
    by (simp add: Server_getBlock_def get_block_doc_def params_of_def object_member_def require_user_def by_number_def getJsonField_number_def
        int_member_def string_member_def block_type_def c_string_def type_of_string_def num header_value [OF assms(5) num] blockHeaderToJson_def add_id
        answer_doc_def Let_def)
qed

lemma numbered_docs: "numbered_doc (get_blocks_doc b c)" "numbered_doc (get_block_doc n)" "numbered_doc (JObject [(''id'', JInt 1)])"
  by (simp_all add: numbered_doc_def get_blocks_doc_def get_block_doc_def)

lemma json_libraryD:
  assumes "json_library parse strToJson jsonToString"
  shows "strToJson s = JString s" and "plain_json j \<Longrightarrow> parse (c_string (jsonToString j pretty)) = Some j"
  using assms by (simp_all add: json_library_def)

lemma parse_blocks_answer:
  assumes "json_library (gv_parse gv) strToJson jsonToString" and "chain_ok bc" and "1 \<le> unat b \<or> c = 0"
    and "unat b + unat c \<le> unat (countBlocks bc) + 1" and "\<And>n. clean_header (getBlock_number bc n)" and "unat (countBlocks bc) < 2 ^ 63"
  shows "parseBlocksHeader gv (jsonToString (answer_doc (JArray (map (\<lambda>j. header_json_of (getBlock_number bc (b + of_nat j)) (b + of_nat j)) [0..<unat c]))) pretty) =
    Ok (map (\<lambda>j. served_header bc (b + of_nat j)) [0..<unat c])"
proof -
  let ?bhs = "map (\<lambda>j. getBlock_number bc (b + of_nat j)) [0..<unat c]"
  let ?v = "JArray (map (\<lambda>j. header_json_of (getBlock_number bc (b + of_nat j)) (b + of_nat j)) [0..<unat c])"
  have b: "1 \<le> unat b" if "j < unat c" for j using assms(3) that by auto
  have nums: "bh_blockNumber (getBlock_number bc (b + of_nat j)) = Some (b + of_nat j)" "unat (b + of_nat j) < 2 ^ 63" if "j < unat c" for j
    using served_numbers [OF assms(2) b [OF that] assms(4) that] that assms(4,6) by simp_all
  have "parseBlocksHeader_loop (map (\<lambda>b. header_json_of b (the (bh_blockNumber b))) ?bhs) =
      Ok (map (\<lambda>bh. \<lparr>mb_number = the (bh_blockNumber bh), mb_blockSize = bh_blockSize bh, mb_hash = bh_hash bh, mb_parentHash = bh_prevHash bh,
         mb_fileName = fp_fileName (bh_filePos bh)\<rparr>) ?bhs)"
    using assms(5) nums by (intro parse_headers_loop) auto
  moreover have "map (\<lambda>b. header_json_of b (the (bh_blockNumber b))) ?bhs =
      map (\<lambda>j. header_json_of (getBlock_number bc (b + of_nat j)) (b + of_nat j)) [0..<unat c]"
    using nums by simp
  moreover have "map (\<lambda>bh. \<lparr>mb_number = the (bh_blockNumber bh), mb_blockSize = bh_blockSize bh, mb_hash = bh_hash bh, mb_parentHash = bh_prevHash bh,
      mb_fileName = fp_fileName (bh_filePos bh)\<rparr>) ?bhs = map (\<lambda>j. served_header bc (b + of_nat j)) [0..<unat c]"
    using nums by (simp add: served_header_def Let_def)
  ultimately have loop: "parseBlocksHeader_loop (map (\<lambda>j. header_json_of (getBlock_number bc (b + of_nat j)) (b + of_nat j)) [0..<unat c]) =
      Ok (map (\<lambda>j. served_header bc (b + of_nat j)) [0..<unat c])" by (simp only:)
  have "plain_json ?v" by (auto simp: plain_header)
  from parse_answer [OF assms(1) this, of pretty] loop show ?thesis
    by (simp add: parseBlocksHeader_def check_error_answer) (simp add: answer_doc_def)
qed

lemma parse_block_answer:
  assumes "json_library (gv_parse gv) strToJson jsonToString" and "clean_header (getBlock_number bc n)" and "unat n < 2 ^ 63"
  shows "parseBlockHeader gv (jsonToString (answer_doc (header_json_of (getBlock_number bc n) n)) pretty) = Ok (served_header bc n)"
  using parse_answer [OF assms(1) plain_header, of "getBlock_number bc n" n pretty] parse_header [OF assms(2,3)]
  by (simp add: parseBlockHeader_def check_error_answer) (simp add: answer_doc_def object_member_def require_def served_header_def Let_def header_json_of_def)

lemma count_answer:
  assumes "json_library (gv_parse gv) strToJson jsonToString" and "unat n < 2 ^ 31"
  shows "count_blocks_of gv (jsonToString (answer_doc (JObject [(''count_blocks'', JInt (uint n))])) pretty) = Ok n"
proof -
  have "plain_json (JObject [(''count_blocks'', JInt (uint n))])" using uint_range [OF assms(2)] by simp
  from parse_answer [OF assms(1) this, of pretty] show ?thesis
    using uint_range [OF assms(2)]
    by (simp add: count_blocks_of_def check_error_answer) (simp add: answer_doc_def object_member_def int_member_def require_def)
qed

text \<open>An answer that reports an error is refused by the parsers.\<close>

lemma error_refused:
  assumes "json_library (gv_parse gv) (se_strToJson se) (se_jsonToString se)" and "- (2 ^ 63) \<le> code" and "code < 2 ^ 64"
  shows "parseBlocksHeader gv (genErrorResponse se one_id code msg) \<noteq> Ok hs" and "parseBlockHeader gv (genErrorResponse se one_id code msg) \<noteq> Ok h"
proof -
  define doc where "doc = JObject [(''id'', JInt 1), (''error'', JObject [(''code'', JInt code), (''message'', JString msg)])]"
  have "plain_json doc" using assms(2,3) by (simp add: doc_def)
  then have "parse_document gv (se_jsonToString se doc False) = Ok doc"
    using json_libraryD(2) [OF assms(1)] by (simp add: parse_document_def)
  moreover have "genErrorResponse se one_id code msg = se_jsonToString se doc False"
    using json_libraryD(1) [OF assms(1)] by (simp add: genErrorResponse_def add_id doc_def)
  moreover have "check_error gv doc = Err (Exception (gv_print gv (JObject [(''code'', JInt code), (''message'', JString msg)])))"
    by (simp add: check_error_def doc_def)
  ultimately show "parseBlocksHeader gv (genErrorResponse se one_id code msg) \<noteq> Ok hs" "parseBlockHeader gv (genErrorResponse se one_id code msg) \<noteq> Ok h"
    by (simp_all add: parseBlocksHeader_def parseBlockHeader_def)
qed

lemma parsed_queries:
  assumes "header_queries parse"
  shows "parse (c_string (get_blocks_query b c)) = Some (get_blocks_doc b c)" "parse (c_string (get_block_query n)) = Some (get_block_doc n)"
    "parse (c_string ''{\"id\": 1}'') = Some (JObject [(''id'', JInt 1)])"
  using assms by (simp_all add: header_queries_def query_text) (simp add: c_string_def)

section \<open>A peer behind the network\<close>

text \<open>What comes back from the network for a query to \<open>server\<close> is the answer of the server program on the node \<open>nv\<close>. The time, the
  load and the statistics may be different for each query, and nothing is said when the behaviour of the program is undefined.\<close>

definition answers_as :: "serverEnv \<Rightarrow> nodeView \<Rightarrow> (string \<Rightarrow> string \<Rightarrow> string \<Rightarrow> string res \<Rightarrow> bool) \<Rightarrow> string \<Rightarrow> bool" where
  "answers_as se nv net server \<longleftrightarrow>
     (\<forall>func body response. curl_request net func body [] server (Ok response) \<longrightarrow>
        (\<exists>mc rs sv. snd (Server_run se mc nv (post_request func body) rs sv) = Err Undefined \<or>
           (\<exists>rs'. snd (Server_run se mc nv (post_request func body) rs sv) = Ok (True, rs') \<and> response = rs_data rs')))"

lemma answers_asD:
  assumes "answers_as se nv net server" and "curl_request net func body [] server (Ok response)"
    and "se_parse se (c_string body) = Some doc" and "numbered_doc doc" and "body \<noteq> []" and "func \<noteq> []"
    and "\<And>mc st. run_func se mc nv st func doc one_id V1 False = r" and "r \<noteq> Err Undefined"
  shows "\<exists>code. respond se (post_request func body) (one_id, r) = Ok (response, code)"
proof -
  obtain mc rs sv where run: "snd (Server_run se mc nv (post_request func body) rs sv) = Err Undefined \<or>
      (\<exists>rs'. snd (Server_run se mc nv (post_request func body) rs sv) = Ok (True, rs') \<and> response = rs_data rs')"
    using assms(1,2) unfolding answers_as_def by blast
  moreover have "run_request se mc nv st (post_request func body) = (one_id, r)" for st
    using run_post [OF assms(3-6), of mc nv st] assms(7) by simp
  moreover obtain data code where "respond se (post_request func body) (one_id, r) = Ok (data, code)"
    using respond_defined [of "(one_id, r)" se "post_request func body"] assms(8) by (auto simp: defined_def)
  ultimately show ?thesis by (auto simp: Server_run_def Let_def split: if_splits)
qed

lemma get_blocks_too_many:
  assumes "1000 < unat c" and "unat c < 2 ^ 31"
  shows "Server_getBlocks se one_id (get_blocks_doc b c) nv False V1 = Err (UserException ''Too many blocks'')"
proof -
  have "int 1000 < int (unat c)" using assms(1) by (simp only: of_nat_less_iff)
  then show ?thesis
    using uint_range [OF assms(2)]
    by (simp add: Server_getBlocks_def get_blocks_doc_def params_of_def object_member_def int_member_def require_user_def Let_def)
qed

text \<open>A range that starts with the genesis block is answered by an error.\<close>

lemma get_blocks_genesis:
  assumes "chain_ok (nv_chain nv)" and "c \<noteq> 0" and "unat c \<le> 1000" and "unat c < 2 ^ 31" and "unat (countBlocks (nv_chain nv)) < 2 ^ 63"
  shows "Server_getBlocks se one_id (get_blocks_doc 0 c) nv False V1 = Ok (genErrorResponse se one_id (- 32603) GENESIS_REFUSED)"
proof -
  let ?bound = "min (uint (countBlocks (nv_chain nv)) + 1) (uint c)"
  have "uint c \<le> 1000" using assms(3) unfolding of_nat_le_iff [where ?'a = int, symmetric] by simp
  moreover have "0 < uint c" using assms(2) by (simp add: word_neq_0_conv word_less_def)
  then have "0 < ?bound" using uint_ge_0 [of "countBlocks (nv_chain nv)"] by linarith
  then have "blocks_up (nv_chain nv) ?bound 0 = getBlock_number (nv_chain nv) 0 # blocks_up (nv_chain nv) ?bound 1"
    by (subst blocks_up.simps) simp
  moreover have "bh_blockNumber (getBlock_number (nv_chain nv) 0) = Some 0" by (rule chain.number_present [OF assms(1)]) simp
  ultimately show ?thesis
    using uint_range [OF assms(4)] sint_small [OF assms(5)]
    by (simp add: Server_getBlocks_def get_blocks_doc_def params_of_def object_member_def int_member_def string_member_def require_user_def
        blocks_type_def c_string_def blockHeadersToJson_def Let_def)
qed

lemma get_block_genesis:
  assumes "chain_ok (nv_chain nv)"
  shows "Server_getBlock by_number se one_id (get_block_doc 0) ''number'' nv False V1 = Ok (genErrorResponse se one_id (- 32603) GENESIS_REFUSED)"
proof -
  have "bh_blockNumber (getBlock_number (nv_chain nv) 0) = Some 0" by (rule chain.number_present [OF assms]) simp
  then show ?thesis
    by (simp add: Server_getBlock_def get_block_doc_def params_of_def object_member_def require_user_def by_number_def getJsonField_number_def
        int_member_def string_member_def block_type_def c_string_def type_of_string_def blockHeaderToJson_def Let_def)
qed

text \<open>A node that can serve headers to the peers that ask with the library \<open>gv\<close>: printed documents and the queries are read as they are
  meant, the chain is consistent, and its length fits 31 bits.\<close>

definition serving_node :: "serverEnv \<Rightarrow> getEnv \<Rightarrow> nodeView \<Rightarrow> bool" where
  "serving_node se gv nv \<longleftrightarrow>
     json_library (se_parse se) (se_strToJson se) (se_jsonToString se) \<and> header_queries (se_parse se) \<and> gv_parse gv = se_parse se \<and>
     chain_ok (nv_chain nv) \<and> (\<forall>n. clean_header (getBlock_number (nv_chain nv) n)) \<and> unat (countBlocks (nv_chain nv)) < 2 ^ 31 - 1"

lemma serving_nodeD:
  assumes "serving_node se gv nv"
  shows "json_library (gv_parse gv) (se_strToJson se) (se_jsonToString se)" "header_queries (se_parse se)" "chain_ok (nv_chain nv)"
    "clean_header (getBlock_number (nv_chain nv) n)" "unat (countBlocks (nv_chain nv)) < 2 ^ 31 - 1" "se_strToJson se s = JString s"
  using assms by (auto simp: serving_node_def json_library_def)

text \<open>So the server meets the contract that the getter relies on.\<close>

lemma blocks_answer_read:
  assumes nd: "serving_node se gv nv" and ans: "answers_as se nv net server" and le: "unat b + unat c \<le> unat (countBlocks (nv_chain nv)) + 1"
    and curl: "curl_request net ''get-blocks'' (get_blocks_query b c) [] server (Ok response)" and ok: "parseBlocksHeader gv response = Ok hs"
  shows "hs = map (\<lambda>j. served_header (nv_chain nv) (b + of_nat j)) [0..<unat c]"
proof -
  let ?r = "Server_getBlocks se one_id (get_blocks_doc b c) nv False V1"
  note nd = serving_nodeD [OF nd]
  have c: "unat c < 2 ^ 31" and K: "unat (countBlocks (nv_chain nv)) < 2 ^ 63" using le nd(5) by simp_all
  have run: "run_func se mc nv st ''get-blocks'' (get_blocks_doc b c) one_id V1 False = ?r" for mc st by (simp add: run_func_def)
  note response = answers_asD [OF ans curl parsed_queries(1) [OF nd(2)] numbered_docs(1) query_text(3) _ run]
  have "1 \<le> unat b \<or> b = 0" by (auto simp: Suc_le_eq unat_gt_0)
  then consider "1000 < unat c" | "unat c \<le> 1000" "1 \<le> unat b \<or> c = 0" | "unat c \<le> 1000" "b = 0" "c \<noteq> 0"
    by (cases "1000 < unat c"; cases "c = 0") (auto simp: not_less)
  then show ?thesis
  proof cases
    case 1
    then show ?thesis using response ok error_refused(1) [OF nd(1)] by (auto simp: get_blocks_too_many [OF 1 c] respond_def)
  next
    case 2
    then show ?thesis
      using response ok get_blocks_run [OF nd(3) 2(2) le 2(1) nd(5,6)] parse_blocks_answer [OF nd(1,3) 2(2) le nd(4) K] by (auto simp: respond_def)
  next
    case 3
    then show ?thesis using response ok error_refused(1) [OF nd(1)] get_blocks_genesis [OF nd(3) 3(3,1) c K] by (auto simp: respond_def)
  qed
qed

lemma block_answer_read:
  assumes nd: "serving_node se gv nv" and ans: "answers_as se nv net server" and le: "unat n \<le> unat (countBlocks (nv_chain nv))"
    and curl: "curl_request net ''get-block-by-number'' (get_block_query n) [] server (Ok response)" and ok: "parseBlockHeader gv response = Ok h"
  shows "h = served_header (nv_chain nv) n"
proof -
  let ?r = "Server_getBlock by_number se one_id (get_block_doc n) ''number'' nv False V1"
  note nd = serving_nodeD [OF nd]
  have n: "unat n < 2 ^ 63" "n \<le> countBlocks (nv_chain nv)" using le nd(5) by (simp_all add: word_le_nat_alt)
  have run: "run_func se mc nv st ''get-block-by-number'' (get_block_doc n) one_id V1 False = ?r" for mc st by (simp add: run_func_def)
  note response = answers_asD [OF ans curl parsed_queries(2) [OF nd(2)] numbered_docs(2) query_text(4) _ run]
  show ?thesis
  proof (cases "n = 0")
    case True
    then show ?thesis using response ok error_refused(2) [OF nd(1)] get_block_genesis [OF nd(3)] by (auto simp: respond_def)
  next
    case False
    then have "1 \<le> unat n" by (simp add: unat_gt_0 Suc_le_eq)
    then show ?thesis
      using response ok get_block_run [OF nd(3) _ n(2,1) nd(6)] parse_block_answer [OF nd(1,4) n(1)] by (auto simp: respond_def)
  qed
qed

lemma node_meets_contract:
  assumes "serving_node se gv nv" and "answers_as se nv net server"
  shows "serves_headers gv net server (served_header (nv_chain nv)) (countBlocks (nv_chain nv))"
  using blocks_answer_read [OF assms] block_answer_read [OF assms] unfolding serves_headers_def by blast

section \<open>The reader of JSON text reads the queries\<close>

lemma header_queries_text: "header_queries read_json"
  unfolding header_queries_def
proof (intro conjI allI)
  show "read_json (get_blocks_query b c) = Some (get_blocks_doc b c)" for b c
    by (rule read_jsonI)
      (simp_all add: get_blocks_query_def get_blocks_doc_def read_value_steps read_one_value json_space_def)
  show "read_json (get_block_query n) = Some (get_block_doc n)" for n
    by (rule read_jsonI)
      (simp_all add: get_block_query_def get_block_doc_def read_value_steps read_one_value json_space_def)
  show "read_json ''{\"id\": 1}'' = Some (JObject [(''id'', JInt 1)])"
    by (rule read_jsonI) (simp_all add: read_value_steps read_one_value json_space_def)
qed

section \<open>The answers to the three queries\<close>

lemma node_answers:
  assumes "serving_node se gv nv" and "\<not> sr_isStoped sv" and "\<not> mc_stopSignal mc"
    and "1 \<le> unat b" and "unat b + unat c \<le> unat (countBlocks (nv_chain nv)) + 1" and "unat c \<le> 1000"
    and "1 \<le> unat n" and "n \<le> countBlocks (nv_chain nv)"
  shows "answered_with se mc nv rs sv ''get-blocks'' (get_blocks_query b c) (parseBlocksHeader gv)
      (Ok (map (\<lambda>j. served_header (nv_chain nv) (b + of_nat j)) [0..<unat c])) \<and>
    answered_with se mc nv rs sv ''get-block-by-number'' (get_block_query n) (parseBlockHeader gv) (Ok (served_header (nv_chain nv) n)) \<and>
    answered_with se mc nv rs sv ''get-count-blocks'' ''{\"id\": 1}'' (count_blocks_of gv) (Ok (countBlocks (nv_chain nv)))"
proof (intro conjI)
  note nd = serving_nodeD [OF assms(1)]
  have n: "unat n < 2 ^ 63" using nd(5) assms(8) by (simp add: word_le_nat_alt)
  show "answered_with se mc nv rs sv ''get-blocks'' (get_blocks_query b c) (parseBlocksHeader gv)
      (Ok (map (\<lambda>j. served_header (nv_chain nv) (b + of_nat j)) [0..<unat c]))"
  proof (rule answered_withI [OF assms(2,3) parsed_queries(1) [OF nd(2)] numbered_docs(1) query_text(3)])
    show "run_func se mc nv st ''get-blocks'' (get_blocks_doc b c) one_id V1 False =
        Ok (se_jsonToString se (answer_doc (JArray (map (\<lambda>j. header_json_of (getBlock_number (nv_chain nv) (b + of_nat j)) (b + of_nat j)) [0..<unat c]))) False)" for st
      using get_blocks_run [OF nd(3) _ assms(5,6) nd(5,6)] assms(4) by (simp add: run_func_def)
  qed (use parse_blocks_answer [OF nd(1,3) _ assms(5) nd(4)] nd(5) assms(4) in auto)
  show "answered_with se mc nv rs sv ''get-block-by-number'' (get_block_query n) (parseBlockHeader gv) (Ok (served_header (nv_chain nv) n))"
  proof (rule answered_withI [OF assms(2,3) parsed_queries(2) [OF nd(2)] numbered_docs(2) query_text(4)])
    show "run_func se mc nv st ''get-block-by-number'' (get_block_doc n) one_id V1 False =
        Ok (se_jsonToString se (answer_doc (header_json_of (getBlock_number (nv_chain nv) n) n)) False)" for st
      using get_block_run [OF nd(3) assms(7,8) n nd(6)] by (simp add: run_func_def)
  qed (use parse_block_answer [OF nd(1,4) n] in auto)
  show "answered_with se mc nv rs sv ''get-count-blocks'' ''{\"id\": 1}'' (count_blocks_of gv) (Ok (countBlocks (nv_chain nv)))"
  proof (rule answered_withI [OF assms(2,3) parsed_queries(3) [OF nd(2)] numbered_docs(3)])
    show "run_func se mc nv st ''get-count-blocks'' (JObject [(''id'', JInt 1)]) one_id V1 False =
        Ok (se_jsonToString se (answer_doc (JObject [(''count_blocks'', JInt (uint (countBlocks (nv_chain nv))))])) False)" for st
      by (simp add: run_func_def genCountBlockJson_def add_id answer_doc_def intOrString_def)
  qed (use count_answer [OF nd(1)] nd(5) in auto)
qed

section \<open>Dumps for a peer\<close>

definition dumps_query :: "string list \<Rightarrow> bool \<Rightarrow> bool \<Rightarrow> string" where
  "dumps_query hs isSign isCompress =
     ''{\"id\":1,\"params\":{\"hashes\": ['' @ quoted_list hs @ ''], \"isSign\": '' @ json_bool isSign @ '', \"compress\": '' @ json_bool isCompress @ ''}}''"

definition dumps_doc :: "string list \<Rightarrow> bool \<Rightarrow> bool \<Rightarrow> json" where
  "dumps_doc hs isSign isCompress =
     JObject [(''id'', JInt 1), (''params'', JObject [(''hashes'', JArray (map JString hs)), (''isSign'', JBool isSign), (''compress'', JBool isCompress)])]"

definition dump_queries :: "(string \<Rightarrow> json option) \<Rightarrow> bool" where
  "dump_queries parse \<longleftrightarrow>
     (\<forall>hs isSign isCompress. hs \<noteq> [] \<longrightarrow> list_all plain_text hs \<longrightarrow> parse (dumps_query hs isSign isCompress) = Some (dumps_doc hs isSign isCompress))"

lemma read_quoted_list:
  assumes "hs \<noteq> []" and "list_all plain_text hs" and "length hs < fuel"
  shows "read_elems fuel (quoted_list hs @ CHR '']'' # rest) = Some (map JString hs, rest)"
  using assms
proof (induction hs arbitrary: fuel rule: quoted_list.induct)
  case (2 h)
  then obtain n where "fuel = Suc (Suc n)" by (cases fuel; cases "fuel - 1") auto
  then show ?case using 2 by (simp add: read_plain_string json_space_def)
next
  case (3 h k ks)
  then obtain n where n: "fuel = Suc (Suc n)" by (cases fuel; cases "fuel - 1") auto
  have "read_elems (Suc n) (quoted_list (k # ks) @ CHR '']'' # rest) = Some (map JString (k # ks), rest)"
    using 3 by (intro "3.IH") (auto simp: n)
  then have "read_elems (Suc n) (CHR '' '' # quoted_list (k # ks) @ CHR '']'' # rest) = Some (map JString (k # ks), rest)"
    by (cases n) (simp_all add: read_value.simps(1))
  then show ?case using 3 by (simp add: n read_plain_string json_space_def)
qed simp

lemma quoted_list_Cons: "hs \<noteq> [] \<Longrightarrow> \<exists>cs. quoted_list hs = CHR 0x22 # cs"
  by (cases hs rule: quoted_list.cases) auto

lemma length_quoted_list: "length hs \<le> length (quoted_list hs)"
  by (induction hs rule: quoted_list.induct) auto

lemma no_nul_dumps_query:
  assumes "list_all plain_text hs"
  shows "CHR 0x00 \<notin> set (dumps_query hs isSign isCompress)"
proof -
  have "CHR 0x00 \<notin> set (quoted_list hs)" using assms by (induction hs rule: quoted_list.induct) (auto simp: plain_text_def)
  then show ?thesis by (simp add: dumps_query_def json_bool_def)
qed

lemma dump_queries_text: "dump_queries read_json"
  unfolding dump_queries_def
proof (intro allI impI)
  fix hs isSign isCompress assume h: "hs \<noteq> []" "list_all plain_text hs"
  let ?rest = "'', \"isSign\": '' @ json_bool isSign @ '', \"compress\": '' @ json_bool isCompress @ ''}}''"
  have "8 + length hs \<le> length (dumps_query hs isSign isCompress)" using length_quoted_list [of hs] by (simp add: dumps_query_def)
  then obtain m where "length (dumps_query hs isSign isCompress) = 8 + (length hs + m)" using le_Suc_ex by (metis add.assoc)
  then have fuel: "length (dumps_query hs isSign isCompress) + 1 = Suc (Suc (Suc (Suc (Suc (Suc (Suc (Suc (Suc (length hs + m)))))))))" by simp
  obtain cs where cs: "quoted_list hs = CHR 0x22 # cs" using quoted_list_Cons [OF h(1)] by blast
  have elems: "read_value (Suc n) (CHR ''['' # CHR 0x22 # cs @ CHR '']'' # ?rest) = Some (JArray (map JString hs), ?rest)" if "length hs < n" for n
    using read_quoted_list [OF h that, of ?rest] by (simp add: cs)
  show "read_json (dumps_query hs isSign isCompress) = Some (dumps_doc hs isSign isCompress)"
    unfolding read_json_def fuel using elems
    by (cases isSign; cases isCompress) (simp_all add: dumps_query_def cs dumps_doc_def json_space_def json_bool_def del: read_value_steps(5))
qed

text \<open>The node has the block with the hash \<open>h\<close>, and \<open>dump\<close> is its dump, signed if that is asked for.\<close>

definition serves_dump :: "serverEnv \<Rightarrow> nodeView \<Rightarrow> bool \<Rightarrow> string \<Rightarrow> string \<Rightarrow> bool" where
  "serves_dump se nv isSign h dump \<longleftrightarrow>
     (\<exists>bh data. getBlock_hash (nv_chain nv) h = Ok bh \<and> bh_blockNumber bh \<noteq> None \<and> has_block (nv_cache nv) (nv_disk nv) bh data \<and>
        80 \<le> length data \<and> length data < 2 ^ 63 \<and>
        (if isSign then \<exists>key. de_key (se_dump se) = Some key \<and> signed_dump (de_crypto (se_dump se)) (de_keyOps (se_dump se)) key data = Ok dump
         else dump = data))"

definition raw_modules :: "modules \<Rightarrow> bool" where
  "raw_modules m \<longleftrightarrow> module_on m MODULE_BLOCK \<and> module_on m MODULE_BLOCK_RAW \<and> \<not> module_on m MODULE_USERS"

lemma whole_dump:
  assumes "raw_modules (se_modules se)" and "has_block (nv_cache nv) (nv_disk nv) bh data" and "80 \<le> length data" and "length data < 2 ^ 63"
    and "if isSign then \<exists>key. de_key (se_dump se) = Some key \<and> signed_dump (de_crypto (se_dump se)) (de_keyOps (se_dump se)) key data = Ok dump
      else dump = data"
  shows "Sync_getBlockDump (se_modules se) (se_dump se) (nv_cache nv) (nv_disk nv) bh 0 (- 1) False isSign = Ok dump" and "dump \<noteq> []"
proof -
  have m: "module_on (se_modules se) MODULE_BLOCK" "module_on (se_modules se) MODULE_BLOCK_RAW" "\<not> module_on (se_modules se) MODULE_USERS"
    using assms(1) by (simp_all add: raw_modules_def)
  have b: "unat (0 :: size_t) < length data" "(0 :: size_t) \<le> - 1" "length data \<le> unat (- 1 :: size_t)"
    using assms(3,4) by (auto simp: unsigned_minus_1_eq_mask mask_eq_exp_minus_1)
  note part = unsigned_part_of [OF assms(2,3,4) b(1,2)]
  show "Sync_getBlockDump (se_modules se) (se_dump se) (nv_cache nv) (nv_disk nv) bh 0 (- 1) False isSign = Ok dump"
  proof (cases isSign)
    case True
    then obtain key where key: "de_key (se_dump se) = Some key" "signed_dump (de_crypto (se_dump se)) (de_keyOps (se_dump se)) key data = Ok dump"
      using assms(5) by auto
    then obtain sign where sign: "makeBlockSign (de_crypto (se_dump se)) (de_keyOps (se_dump se)) data key = Ok sign"
      and d: "dump = makeFirstPartBlockSign (size_of data) @ data @ sign"
      by (auto simp: signed_dump_def rbind_Ok_iff)
    show ?thesis
      using served_part [OF assms(2,3,4) b(1,2) m key(1) sign] b(3) True by (simp add: d)
  next
    case False
    then show ?thesis using part [of False] b(3) assms(5) m by (simp add: Sync_getBlockDump_def)
  qed
  show "dump \<noteq> []" using assms(3,5) by (auto simp: signed_dump_def rbind_Ok_iff split: if_splits)
qed

lemma block_dumps_served:
  assumes "raw_modules (se_modules se)" and "list_all plain_text hs" and "list_all2 (serves_dump se nv isSign) hs dumps"
  shows "block_dumps by_hash se nv isSign (map JString hs) = Ok dumps"
  using assms(3,2)
proof (induction rule: list_all2_induct)
  case (Cons h hs dump dumps)
  have "c_string h = h" using Cons.prems by (auto simp: plain_text_def intro!: c_string_id)
  moreover obtain bh where "getBlock_hash (nv_chain nv) h = Ok bh" "bh_blockNumber bh \<noteq> None"
    "Sync_getBlockDump (se_modules se) (se_dump se) (nv_cache nv) (nv_disk nv) bh 0 (- 1) False isSign = Ok dump" "dump \<noteq> []"
    using Cons.hyps(1) whole_dump [OF assms(1)] unfolding serves_dump_def by metis
  ultimately show ?case using Cons by (simp add: by_hash_def getJsonValue_string_def)
qed simp

lemma dump_request_part:
  assumes "unat number * unat batch + 2 \<le> length hashs" and "2 \<le> unat batch" and "length hashs < 2 ^ 63"
  shows "dump_request batch isSign isCompress hashs number =
    Ok (''get-dumps-blocks-by-hash'', dumps_query (take (unat batch) (drop (unat number * unat batch) hashs)) isSign isCompress)"
proof -
  let ?N = "unat number * unat batch"
  have u: "unat (number * batch) = ?N" using assms(1,3) by (simp add: unat_word_ariths(2))
  have s: "unat (size_of hashs) = length hashs" using assms(3) by simp
  have "number * batch \<le> size_of hashs" using u s assms(1) by (simp add: word_le_nat_alt)
  then have d: "unat (size_of hashs - number * batch) = length hashs - ?N" using u s by (simp add: unat_sub)
  have m: "unat (min batch (size_of hashs - number * batch)) = min (unat batch) (length hashs - ?N)"
    using d by (simp add: min_def word_le_nat_alt)
  then have "min batch (size_of hashs - number * batch) \<noteq> 1" using assms(1,2) by auto
  moreover have "number * batch < size_of hashs" using u s assms(1) by (simp add: word_less_nat_alt)
  moreover have "take (min (unat batch) (length hashs - ?N)) (drop ?N hashs) = take (unat batch) (drop ?N hashs)" by (simp add: min_def)
  ultimately show ?thesis by (simp add: dump_request_def Let_def m u dumps_query_def)
qed

section \<open>Properties\<close>

text \<open>The applications below are to a node with three blocks.\<close>

definition sample_header :: "string \<Rightarrow> string \<Rightarrow> blockHeader" where
  "sample_header hash prev = BlockHeader_default\<lparr>bh_hash := hash, bh_prevHash := prev, bh_blockSize := 100,
     bh_filePos := \<lparr>fp_pos = 0, fp_fileName = ''1.blk''\<rparr>\<rparr>"

definition sample_chain :: blockChain where
  "sample_chain = push_block (push_block (push_block BlockChain_new (sample_header ''a'' GENESIS_BLOCK_HASH)) (sample_header ''b'' ''a''))
     (sample_header ''c'' ''b'')"

abbreviation sample_env :: serverEnv where
  "sample_env \<equiv> text_env sample_crypto sample_keyOps copy_lz4"

definition sample_view :: nodeView where
  "sample_view = \<lparr>nv_chain = sample_chain, nv_cache = Cache_new, nv_disk = fmempty\<rparr>"

definition sample_get :: getEnv where
  "sample_get = \<lparr>gv_parse = read_json, gv_print = write_json, gv_lz = copy_lz4\<rparr>"

lemma hashes_sample: "hashes sample_chain = [GENESIS_BLOCK_HASH, ''a'', ''b'', ''c'']"
  by (simp add: sample_chain_def push_block_def sample_header_def BlockChain_new_def BlockChain_initialize_def genesisBlock_def BlockHeader_default_def)

lemma count_sample: "countBlocks sample_chain = 3"
  by (simp add: countBlocks_def hashes_sample size_of_def)

lemma chain_ok_sample: "chain_ok sample_chain"
proof -
  have g: "GENESIS_BLOCK_HASH \<notin> {''a'', ''b'', ''c''}" by (auto simp: GENESIS_BLOCK_HASH_def dest: arg_cong [where f = length])
  have h: "hashes BlockChain_new = [GENESIS_BLOCK_HASH]" by (simp add: BlockChain_new_def BlockChain_initialize_def genesisBlock_def)
  have "settled sample_chain"
    unfolding sample_chain_def
    by (intro settled_push_block settled_new) (use g in \<open>auto simp: sample_header_def push_block_def BlockHeader_default_def h\<close>)
  then show ?thesis by (simp add: settled_def)
qed

lemma blocks_sample:
  "getBlock_number sample_chain n =
     (if n = 0 then genesisBlock
      else if n = 1 then (sample_header ''a'' GENESIS_BLOCK_HASH)\<lparr>bh_blockNumber := Some 1\<rparr>
      else if n = 2 then (sample_header ''b'' ''a'')\<lparr>bh_blockNumber := Some 2\<rparr>
      else if n = 3 then (sample_header ''c'' ''b'')\<lparr>bh_blockNumber := Some 3\<rparr>
      else BlockHeader_default)"
proof -
  have g: "GENESIS_BLOCK_HASH \<noteq> ''a''" "GENESIS_BLOCK_HASH \<noteq> ''b''" "GENESIS_BLOCK_HASH \<noteq> ''c''"
    by (auto simp: GENESIS_BLOCK_HASH_def dest: arg_cong [where f = length])
  have look: "getBlockImpl_hash sample_chain GENESIS_BLOCK_HASH = genesisBlock"
    "getBlockImpl_hash sample_chain ''a'' = (sample_header ''a'' GENESIS_BLOCK_HASH)\<lparr>bh_blockNumber := Some 1\<rparr>"
    "getBlockImpl_hash sample_chain ''b'' = (sample_header ''b'' ''a'')\<lparr>bh_blockNumber := Some 2\<rparr>"
    "getBlockImpl_hash sample_chain ''c'' = (sample_header ''c'' ''b'')\<lparr>bh_blockNumber := Some 3\<rparr>"
    using g by (simp_all add: getBlockImpl_hash_def sample_chain_def push_block_def sample_header_def BlockHeader_default_def BlockChain_new_def
        BlockChain_initialize_def size_of_def)
  show ?thesis
  proof (cases "4 \<le> n")
    case True
    then have "n \<noteq> 0" "n \<noteq> 1" "n \<noteq> 2" "n \<noteq> 3" by (auto simp: word_le_nat_alt)
    then show ?thesis using True by (simp add: getBlock_number_def getBlockImpl_number_def hashes_sample size_of_def word_le_nat_alt)
  next
    case False
    then have "n = 0 \<or> n = 1 \<or> n = 2 \<or> n = 3" by (simp add: word_unat_eq_iff word_le_nat_alt) arith
    then show ?thesis by (auto simp: getBlock_number_def getBlockImpl_number_def hashes_sample size_of_def look word_le_nat_alt)
  qed
qed

lemma clean_sample: "clean_header (getBlock_number sample_chain n)"
  by (simp add: blocks_sample clean_header_def genesisBlock_def sample_header_def BlockHeader_default_def GENESIS_BLOCK_HASH_def)

lemma serving_sample: "serving_node sample_env sample_get sample_view"
  using json_library_text header_queries_text chain_ok_sample clean_sample count_sample
  by (simp add: serving_node_def text_env_def sample_get_def sample_view_def)

text \<open>A network with the server program behind the address \<open>srv\<close>.\<close>

definition node_srv :: "serverEnv \<Rightarrow> nodeView \<Rightarrow> string \<Rightarrow> string \<Rightarrow> string" where
  "node_srv se nv url post =
     (case snd (Server_run se idle_machine nv (post_request (drop 4 url) post) empty_response fresh_server) of
        Inr (_, rs) \<Rightarrow> rs_data rs | Inl _ \<Rightarrow> [])"

lemma idle_running: "\<not> sr_isStoped fresh_server" "\<not> mc_stopSignal idle_machine"
  by (simp_all add: fresh_server_def Server_init_def Server_new_def idle_machine_def)

lemma running_answers:
  assumes "\<not> sr_isStoped sv" and "\<not> mc_stopSignal mc"
  shows "snd (Server_run se mc nv rq rs sv) = Err Undefined \<or> (\<exists>rs'. snd (Server_run se mc nv rq rs sv) = Ok (True, rs'))"
proof -
  obtain sv' where run: "Server_run se mc nv rq rs sv = (sv', rbind (respond se rq (run_request se mc nv (sr_statistics sv') rq)) (\<lambda>(data, code).
      Ok (True, rs\<lparr>rs_headers := (''Access-Control-Allow-Origin'', ''*'') # rs_headers rs, rs_data := data, rs_code := code\<rparr>)))"
    using Server_run_respond [OF assms] by blast
  show ?thesis
    by (cases "respond se rq (run_request se mc nv (sr_statistics sv') rq)") (auto simp: run dest: respond_undefined)
qed

lemma node_srv_answers: "answers_as se nv (\<lambda>url post header r. r = Ok (node_srv se nv url post)) ''srv''"
  unfolding answers_as_def
proof (intro allI impI)
  fix func body response
  let ?run = "snd (Server_run se idle_machine nv (post_request func body) empty_response fresh_server)"
  assume "curl_request (\<lambda>url post header r. r = Ok (node_srv se nv url post)) func body [] ''srv'' (Ok response)"
  then have r: "response = (case ?run of Inr (_, rs) \<Rightarrow> rs_data rs | Inl _ \<Rightarrow> [])"
    by (simp add: curl_request_def request_url_def node_srv_def)
  have "?run = Err Undefined \<or> (\<exists>rs'. ?run = Ok (True, rs'))" by (rule running_answers [OF idle_running])
  then show "\<exists>mc rs sv. snd (Server_run se mc nv (post_request func body) rs sv) = Err Undefined \<or>
      (\<exists>rs'. snd (Server_run se mc nv (post_request func body) rs sv) = Ok (True, rs') \<and> response = rs_data rs')"
    using r by (intro exI [of _ idle_machine] exI [of _ empty_response] exI [of _ fresh_server]) auto
qed

text \<open>C13: A node serves its chain to its peers. On a consistent chain whose length fits 31 bits the server answers the queries of the getter
  with status 200, and the parsers of the asking node read from the answers the headers of up to 1000 blocks that were asked for by a range, the
  header of a block that was asked for by its number, and the number of blocks.\<close>

theorem node_serves_headers:
  assumes "serving_node se gv nv" and "\<not> sr_isStoped sv" and "\<not> mc_stopSignal mc"
    and "1 \<le> unat b" and "unat b + unat c \<le> unat (countBlocks (nv_chain nv)) + 1" and "unat c \<le> 1000"
    and "1 \<le> unat n" and "n \<le> countBlocks (nv_chain nv)"
  shows "answered_with se mc nv rs sv ''get-blocks'' (get_blocks_query b c) (parseBlocksHeader gv)
      (Ok (map (\<lambda>j. served_header (nv_chain nv) (b + of_nat j)) [0..<unat c])) \<and>
    answered_with se mc nv rs sv ''get-block-by-number'' (get_block_query n) (parseBlockHeader gv) (Ok (served_header (nv_chain nv) n)) \<and>
    answered_with se mc nv rs sv ''get-count-blocks'' ''{\"id\": 1}'' (count_blocks_of gv) (Ok (countBlocks (nv_chain nv)))"
  by (rule node_answers [OF assms])

theorem node_serves_headers_witness:
  "answered_with sample_env idle_machine sample_view empty_response fresh_server ''get-blocks'' (get_blocks_query 1 2) (parseBlocksHeader sample_get)
     (Ok [served_header sample_chain 1, served_header sample_chain 2])"
  using node_serves_headers [OF serving_sample idle_running, of 1 2 1 empty_response] count_sample
  by (simp add: sample_view_def word_le_nat_alt upt_conv_Cons)

text \<open>C14: The advance load of headers from a node. When the peer behind the network is a node that runs this server, and the client is the one of
  the graph or the one of a list of servers, a successful call of the getter returns the header of the block that was asked for, as it stands on the chain of the peer, and keeps a list with one entry for each
  block number in order; each entry is the header of its block, except for a block that is alone in the last part: that entry holds the header
  of the block whose number is behind the first one by the number of the part. So with ten blocks in batches of three the tenth entry is the
  header of the fourth block.\<close>

theorem headers_loaded_from_node:
  assumes "serving_node se gv nv" and "answers_as se nv net server"
    and "graph_requests net conns p2p \<or> address_requests net ips p2p"
    and "find (\<lambda>h. fst h = blockNum) (gt_headers g) = None"
    and "Getter_getBlockHeader p2p gv opt blockNum (countBlocks (nv_chain nv)) server g w = (g', w', Ok h)"
    and "blockNum \<le> countBlocks (nv_chain nv)" and "unat (countBlocks (nv_chain nv)) + unat (go_countBlocksInBatch opt) + 1 < 2 ^ 64"
  shows "let B = unat (go_countBlocksInBatch opt);
             C = min (unat (countBlocks (nv_chain nv)) - unat blockNum + 1) (unat (go_maxAdvancedLoadBlocks opt));
             chain = served_header (nv_chain nv)
         in h = chain blockNum \<and> gt_headers g' = map (loaded_header chain B C blockNum) [0..<C]"
  using headers_loaded [OF graph_or_address_answers [OF assms(3)] node_meets_contract [OF assms(1,2)] assms(4-7)] by (simp add: Let_def)

lemma sample_answers:
  "answered_with sample_env idle_machine sample_view empty_response fresh_server ''get-blocks'' (get_blocks_query 1 2) (parseBlocksHeader sample_get)
     (Ok [served_header sample_chain 1, served_header sample_chain 2])"
  "answered_with sample_env idle_machine sample_view empty_response fresh_server ''get-block-by-number'' (get_block_query 2) (parseBlockHeader sample_get)
     (Ok (served_header sample_chain 2))"
  using node_answers [OF serving_sample idle_running, of 1 2 2 empty_response] count_sample
  by (simp_all add: sample_view_def word_le_nat_alt upt_conv_Cons)

lemma answered_reply:
  assumes "answered_with se idle_machine nv empty_response fresh_server func body reader v" and "func \<noteq> []"
  shows "reader (node_srv se nv (''srv/'' @ func) body) = v"
  using assms by (auto simp: answered_with_def node_srv_def)

theorem headers_loaded_from_node_witness:
  "\<exists>g'. Getter_getBlockHeader (answering_p2p (node_srv sample_env sample_view)) sample_get three_options 1 3 ''srv''
       \<lparr>gt_headers = [], gt_dumps = fmempty\<rparr> () = (g', (), Ok (served_header sample_chain 1)) \<and>
     gt_headers g' = [(1, served_header sample_chain 1), (2, served_header sample_chain 2), (3, served_header sample_chain 2)]"
proof -
  let ?srv = "node_srv sample_env sample_view" and ?g = "\<lparr>gt_headers = [], gt_dumps = fmempty\<rparr>"
  let ?p2p = "answering_p2p ?srv :: unit p2p" and ?chain = "served_header sample_chain"
  let ?a1 = "?srv ''srv/get-blocks'' (get_blocks_query 1 2)" and ?a2 = "?srv ''srv/get-block-by-number'' (get_block_query 2)"
  have a1: "parseBlocksHeader sample_get ?a1 = Ok [?chain 1, ?chain 2]" and a2: "parseBlockHeader sample_get ?a2 = Ok (?chain 2)"
    using answered_reply [OF sample_answers(1)] answered_reply [OF sample_answers(2)] by simp_all
  have n: "mb_number (?chain k) = k" for k by (simp add: served_header_def Let_def)
  have st: "store_parts sample_get 2 1 3 0 [?a1, ?a2] [] = ([(1, ?chain 1), (2, ?chain 2), (3, ?chain 2)], Ok ())"
    by (simp add: a1 a2 n size_of_def Let_def)
  have req: "map (\<lambda>k. rp_response (plain_response (reply ?srv ''srv'' (Ok (header_request 2 1 3 (of_nat k)))))) [0..<unat (2 :: size_t)] = [?a1, ?a2]"
    by (simp add: upt_conv_Cons plain_response_def reply_def header_request_def request_url_def min_def word_le_nat_alt Let_def)
  have p: "p2p_requests ?p2p 2 (\<lambda>number. Ok (header_request 2 1 3 number)) [] plain_response [''srv''] () = ((), Ok [?a1, ?a2])"
    unfolding req [symmetric] by (rule answering_requests) (simp_all add: plain_response_def surj_pair)
  have "\<exists>g' h. Getter_getBlockHeader ?p2p sample_get three_options 1 3 ''srv'' ?g () = (g', (), Ok h)"
    by (simp add: Getter_getBlockHeader_def p st size_of_def del: store_parts.simps)
  then obtain g' h where call: "Getter_getBlockHeader ?p2p sample_get three_options 1 3 ''srv'' ?g () = (g', (), Ok h)" by blast
  have c: "countBlocks (nv_chain sample_view) = 3" "nv_chain sample_view = sample_chain" by (simp_all add: sample_view_def count_sample)
  have "map (loaded_header ?chain 2 3 1) [0..<3] = [(1, ?chain 1), (2, ?chain 2), (3, ?chain 2)]"
    by (simp add: upt_conv_Cons loaded_header_def loaded_number_def numeral_3_eq_3)
  then show ?thesis
    using headers_loaded_from_node [OF serving_sample node_srv_answers disjI1 [OF answering_graph] _ call [folded c(1)]] call by (simp add: c count_sample Let_def)
qed



end
